(* ===== verification/Prelude.thy ===== *)
theory Prelude
  imports Main "HOL-Library.Multiset" "HOL-Library.Sublist"
begin

text \<open>
  Shared vocabulary of the development: the proof collections, the result type of
  fallible operations, and the three list idioms that the Go sources repeat in many
  places, each with its laws:
    \<^item> \<open>dedup_by\<close>: the \<open>seen := make(map[K]struct{})\<close> loop that keeps the first
      element of every key;
    \<^item> \<open>upsert\<close>: the \<open>votes map\<close> plus \<open>order slice\<close> pair that keeps one entry per key
      in first-seen order;
    \<^item> \<open>pick_best\<close>: the \<open>best := ...; for ... if better\<close> loop.
\<close>

named_theorems inv_intros "introduction rules for component invariants"
named_theorems frame_simps "fields that an operation leaves unchanged"

text \<open>A Go call that returns \<open>(T, error)\<close>.\<close>

type_synonym ('e, 'a) result = "'e + 'a"

abbreviation Err :: "'e \<Rightarrow> ('e, 'a) result" where "Err \<equiv> Inl"
abbreviation Ok :: "'a \<Rightarrow> ('e, 'a) result" where "Ok \<equiv> Inr"

section \<open>Keeping the first element of every key\<close>

fun dedup_by :: "('a \<Rightarrow> 'k) \<Rightarrow> 'k set \<Rightarrow> 'a list \<Rightarrow> 'a list" where
  "dedup_by f seen [] = []"
| "dedup_by f seen (x # xs) =
     (if f x \<in> seen then dedup_by f seen xs
      else x # dedup_by f (insert (f x) seen) xs)"

lemma dedup_by_keys: "f ` set (dedup_by f seen xs) = f ` set xs - seen"
  by (induction xs arbitrary: seen) auto

lemma dedup_by_subset: "set (dedup_by f seen xs) \<subseteq> set xs"
  by (induction xs arbitrary: seen) auto

lemma dedup_by_subseq: "subseq (dedup_by f seen xs) xs"
  by (induction xs arbitrary: seen) auto

lemma dedup_by_distinct: "distinct (map f (dedup_by f seen xs))"
proof (induction xs arbitrary: seen)
  case (Cons x xs)
  then show ?case using dedup_by_keys [of f "insert (f x) seen" xs] by auto
qed simp

lemma dedup_by_id:
  "distinct (map f xs) \<Longrightarrow> f ` set xs \<inter> seen = {} \<Longrightarrow> dedup_by f seen xs = xs"
  by (induction xs arbitrary: seen) auto

lemma dedup_by_idem: "dedup_by f {} (dedup_by f {} xs) = dedup_by f {} xs"
  by (rule dedup_by_id) (simp_all add: dedup_by_distinct)

section \<open>One entry per key, in first-seen order\<close>

fun upsert :: "'k \<Rightarrow> 'v \<Rightarrow> ('v \<Rightarrow> 'v) \<Rightarrow> ('k \<times> 'v) list \<Rightarrow> ('k \<times> 'v) list" where
  "upsert k v0 f [] = [(k, f v0)]"
| "upsert k v0 f ((k', v) # kvs) =
     (if k = k' then (k', f v) # kvs else (k', v) # upsert k v0 f kvs)"

lemma upsert_lookup:
  "map_of (upsert k v0 f kvs) k' =
     (if k' = k then Some (f (case map_of kvs k of None \<Rightarrow> v0 | Some v \<Rightarrow> v)) else map_of kvs k')"
  by (induction kvs) auto

lemma upsert_keys: "map fst (upsert k v0 f kvs) =
    (if k \<in> fst ` set kvs then map fst kvs else map fst kvs @ [k])"
  by (induction kvs) (auto simp: image_iff split: if_splits)

lemma upsert_distinct: "distinct (map fst kvs) \<Longrightarrow> distinct (map fst (upsert k v0 f kvs))"
  by (auto simp: upsert_keys)

lemma upsert_key_set: "fst ` set (upsert k v0 f kvs) = insert k (fst ` set kvs)"
proof -
  have "set (map fst (upsert k v0 f kvs)) = insert k (set (map fst kvs))"
    by (simp add: upsert_keys insert_absorb)
  then show ?thesis by simp
qed

lemma upsert_not_Nil [simp]: "upsert k v0 f kvs \<noteq> []"
  by (cases kvs) (auto split: if_splits)

lemma upsert_all:
  assumes "\<And>v. v = v0 \<or> P v \<Longrightarrow> P (f v)" and "\<forall>kv \<in> set kvs. P (snd kv)"
  shows "\<forall>kv \<in> set (upsert k v0 f kvs). P (snd kv)"
  using assms by (induction kvs) (force split: if_splits)+

section \<open>The first result of a search loop\<close>

text \<open>\<open>for _, x := range xs { if y, ok := f(x); ok { return y, true } }\<close>.\<close>

fun first_some :: "('a \<Rightarrow> 'b option) \<Rightarrow> 'a list \<Rightarrow> 'b option" where
  "first_some f [] = None"
| "first_some f (x # xs) = (case f x of Some y \<Rightarrow> Some y | None \<Rightarrow> first_some f xs)"

lemma first_some_None: "first_some f xs = None \<longleftrightarrow> (\<forall>x \<in> set xs. f x = None)"
  by (induction xs) (auto split: option.split)

lemma first_some_Some: "first_some f xs = Some y \<Longrightarrow>
    \<exists>as x bs. xs = as @ x # bs \<and> f x = Some y \<and> (\<forall>a \<in> set as. f a = None)"
proof (induction xs)
  case (Cons a xs)
  show ?case
  proof (cases "f a")
    case None
    with Cons obtain as x bs where "xs = as @ x # bs" "f x = Some y" "\<forall>b \<in> set as. f b = None" by auto
    then show ?thesis using None by (intro exI [of _ "a # as"] exI [of _ x] exI [of _ bs]) simp
  next
    case (Some z)
    then show ?thesis using Cons.prems by (intro exI [of _ "[]"] exI [of _ a] exI [of _ xs]) simp
  qed
qed simp

lemma first_some_in: "first_some f xs = Some y \<Longrightarrow> \<exists>x \<in> set xs. f x = Some y"
  by (induction xs) (auto split: option.splits)

section \<open>Choosing the best element of a list\<close>

text \<open>
  \<open>pick_best better b xs\<close> runs the loop from the current best \<open>b\<close>: an element replaces
  the best one exactly when it is strictly better. The contract is a strict weak order;
  from it follows that the loop returns an undominated element, and the first of those.
\<close>

fun pick_best :: "('a \<Rightarrow> 'a \<Rightarrow> bool) \<Rightarrow> 'a \<Rightarrow> 'a list \<Rightarrow> 'a" where
  "pick_best better b [] = b"
| "pick_best better b (x # xs) = pick_best better (if better x b then x else b) xs"

lemma pick_best_in: "pick_best better b xs \<in> insert b (set xs)"
  by (induction xs arbitrary: b) auto

locale strict_preference =
  fixes better :: "'a \<Rightarrow> 'a \<Rightarrow> bool"
  assumes irrefl: "\<not> better x x"
    and trans: "better x y \<Longrightarrow> better y z \<Longrightarrow> better x z"
    and neg_trans: "better x z \<Longrightarrow> better x y \<or> better y z"
begin

lemma asym: "better x y \<Longrightarrow> \<not> better y x"
  using irrefl trans by blast

lemma pick_best_step: "\<not> better b (if better x b then x else b)"
  using irrefl asym by auto

lemma pick_best_ge: "\<not> better b (pick_best better b xs)"
proof (induction xs arbitrary: b)
  case Nil
  then show ?case by (simp add: irrefl)
next
  case (Cons x xs)
  let ?c = "if better x b then x else b"
  have "\<not> better ?c (pick_best better ?c xs)" by (rule Cons.IH)
  moreover have "\<not> better b ?c" by (rule pick_best_step)
  ultimately have "\<not> better b (pick_best better ?c xs)" by (metis neg_trans)
  then show ?case by simp
qed

lemma pick_best_undominated: "x \<in> insert b (set xs) \<Longrightarrow> \<not> better x (pick_best better b xs)"
proof (induction xs arbitrary: b)
  case Nil
  then show ?case by (simp add: irrefl)
next
  case (Cons y ys)
  let ?c = "if better y b then y else b"
  have ge: "\<not> better ?c (pick_best better ?c ys)" by (rule pick_best_ge)
  have y: "\<not> better y ?c" and b: "\<not> better b ?c"
    by (simp_all add: irrefl pick_best_step split del: if_split) (simp_all add: irrefl asym)
  from Cons.prems consider "x = b" | "x = y" | "x \<in> set ys" by auto
  then have "\<not> better x (pick_best better ?c ys)"
    using ge y b neg_trans Cons.IH [of ?c] by cases (metis insertI2)+
  then show ?case by simp
qed

end

end
