(* ===== verification/GoStrings.thy ===== *)
theory GoStrings
  imports Prelude "HOL-Library.Char_ord" "HOL-Library.List_Lexorder" "HOL-Library.Word"
begin

text \<open>
  Go's string layer. A Go \<open>string\<close> is a byte sequence, so it is a HOL \<open>string\<close>: a
  \<open>char\<close> is one byte. Iterating with \<open>range\<close> decodes UTF-8; \<open>segs\<close> is that iteration,
  with the bytes every rune was decoded from. The package \<open>unicode\<close> is written out for
  the Latin-1 range, where Go uses a fixed property table; above U+00FF its tables are
  fields of the parameter record \<open>env\<close>, together with the two normal forms of
  \<open>golang.org/x/text\<close>. \<open>int\<close> and \<open>int32\<close> arithmetic that may overflow is wrapped
  explicitly.
\<close>

section \<open>Machine integers\<close>

definition wrap64 :: "int \<Rightarrow> int" where "wrap64 x = signed_take_bit 63 x"
definition wrap32 :: "int \<Rightarrow> int" where "wrap32 x = signed_take_bit 31 x"

lemma wrap64_id: "- (2 ^ 63) \<le> x \<Longrightarrow> x < 2 ^ 63 \<Longrightarrow> wrap64 x = x"
  unfolding wrap64_def by (rule signed_take_bit_int_eq_self) auto

lemma wrap32_id: "- (2 ^ 31) \<le> x \<Longrightarrow> x < 2 ^ 31 \<Longrightarrow> wrap32 x = x"
  unfolding wrap32_def by (rule signed_take_bit_int_eq_self) auto

section \<open>Bytes and UTF-8\<close>

type_synonym rune = nat

abbreviation byte :: "char \<Rightarrow> nat" where "byte \<equiv> of_char"
definition chr :: "nat \<Rightarrow> char" where "chr n = char_of n"

definition RuneError :: rune where "RuneError = 65533"

definition cont :: "nat \<Rightarrow> nat \<Rightarrow> char \<Rightarrow> bool" where
  "cont lo hi c \<longleftrightarrow> lo \<le> byte c \<and> byte c \<le> hi"

abbreviation low6 :: "char \<Rightarrow> nat" where "low6 c \<equiv> byte c - 128"

text \<open>\<open>utf8.DecodeRuneInString\<close>: the rune and the number of bytes it takes.\<close>

definition decode2 :: "nat \<Rightarrow> string \<Rightarrow> rune \<times> nat" where
  "decode2 b cs = (case cs of
     c1 # _ \<Rightarrow> if cont 128 191 c1 then ((b - 192) * 64 + low6 c1, 2) else (RuneError, 1)
   | [] \<Rightarrow> (RuneError, 1))"

definition decode3 :: "nat \<Rightarrow> string \<Rightarrow> rune \<times> nat" where
  "decode3 b cs = (case cs of
     c1 # c2 # _ \<Rightarrow>
       if cont (if b = 224 then 160 else 128) (if b = 237 then 159 else 191) c1 \<and> cont 128 191 c2
       then ((b - 224) * 4096 + low6 c1 * 64 + low6 c2, 3) else (RuneError, 1)
   | _ \<Rightarrow> (RuneError, 1))"

definition decode4 :: "nat \<Rightarrow> string \<Rightarrow> rune \<times> nat" where
  "decode4 b cs = (case cs of
     c1 # c2 # c3 # _ \<Rightarrow>
       if cont (if b = 240 then 144 else 128) (if b = 244 then 143 else 191) c1
          \<and> cont 128 191 c2 \<and> cont 128 191 c3
       then ((b - 240) * 262144 + low6 c1 * 4096 + low6 c2 * 64 + low6 c3, 4)
       else (RuneError, 1)
   | _ \<Rightarrow> (RuneError, 1))"

fun decode_rune :: "string \<Rightarrow> rune \<times> nat" where
  "decode_rune [] = (RuneError, 0)"
| "decode_rune (c # cs) = (let b = byte c in
     if b < 128 then (b, 1)
     else if 194 \<le> b \<and> b \<le> 223 then decode2 b cs
     else if 224 \<le> b \<and> b \<le> 239 then decode3 b cs
     else if 240 \<le> b \<and> b \<le> 244 then decode4 b cs
     else (RuneError, 1))"

fun segs :: "string \<Rightarrow> (rune \<times> string) list" where
  "segs [] = []"
| "segs (c # cs) = (let (r, w) = decode_rune (c # cs) in
     (r, c # take (w - 1) cs) # segs (drop (w - 1) cs))"

definition bytes_of :: "(rune \<times> string) list \<Rightarrow> string" where
  "bytes_of ss = concat (map snd ss)"

definition runes :: "string \<Rightarrow> rune list" where
  "runes s = map fst (segs s)"

definition rune_len :: "string \<Rightarrow> nat" where
  "rune_len s = length (segs s)"

text \<open>\<open>utf8.ValidString\<close>: no byte decodes to a one-byte error.\<close>

definition utf8_valid :: "string \<Rightarrow> bool" where
  "utf8_valid s = list_all (\<lambda>(r, bs). \<not> (r = RuneError \<and> length bs = 1)) (segs s)"

definition encode_rune :: "rune \<Rightarrow> string" where
  "encode_rune r0 = (let r = (if 55296 \<le> r0 \<and> r0 \<le> 57343 \<or> r0 > 1114111 then RuneError else r0) in
     if r < 128 then [chr r]
     else if r < 2048 then [chr (192 + r div 64), chr (128 + r mod 64)]
     else if r < 65536 then
       [chr (224 + r div 4096), chr (128 + r div 64 mod 64), chr (128 + r mod 64)]
     else [chr (240 + r div 262144), chr (128 + r div 4096 mod 64),
           chr (128 + r div 64 mod 64), chr (128 + r mod 64)])"

definition utf8_encode :: "rune list \<Rightarrow> string" where
  "utf8_encode rs = concat (map encode_rune rs)"

lemma segs_concat: "bytes_of (segs s) = s"
proof (induction s rule: segs.induct)
  case (2 c cs)
  then show ?case by (simp add: bytes_of_def split: prod.splits)
qed (simp add: bytes_of_def)

lemma byte_chr [simp]: "n < 256 \<Longrightarrow> byte (chr n) = n"
  by (simp add: chr_def)

definition scalar :: "rune \<Rightarrow> bool" where
  "scalar r \<longleftrightarrow> r \<le> 1114111 \<and> \<not> (55296 \<le> r \<and> r \<le> 57343)"

lemma decode_bytes_2:
  assumes "2 \<le> a" "a < 32" "b < 64"
  shows "decode_rune (chr (192 + a) # chr (128 + b) # s) = (a * 64 + b, 2)"
  using assms by (simp add: decode2_def cont_def Let_def)

lemma decode_bytes_3:
  assumes "a < 16" "b < 64" "c < 64" "a = 0 \<longrightarrow> 32 \<le> b" "a = 13 \<longrightarrow> b < 32"
  shows "decode_rune (chr (224 + a) # chr (128 + b) # chr (128 + c) # s)
    = (a * 4096 + b * 64 + c, 3)"
  using assms by (auto simp add: decode3_def cont_def Let_def)

lemma decode_bytes_4:
  assumes "a < 5" "b < 64" "c < 64" "d < 64" "a = 0 \<longrightarrow> 16 \<le> b" "a = 4 \<longrightarrow> b < 16"
  shows "decode_rune (chr (240 + a) # chr (128 + b) # chr (128 + c) # chr (128 + d) # s)
    = (a * 262144 + b * 4096 + c * 64 + d, 4)"
  using assms by (auto simp add: decode4_def cont_def Let_def)

lemma div_4096: "(r :: nat) div 4096 = r div 64 div 64"
  by (simp flip: div_mult2_eq)

lemma div_262144: "(r :: nat) div 262144 = r div 4096 div 64"
  by (simp flip: div_mult2_eq)

lemma split64: "q div 64 * 64 + q mod 64 = (q :: nat)"
  by (rule div_mult_mod_eq)

lemma base64_3: "r div 4096 * 4096 + r div 64 mod 64 * 64 + r mod 64 = (r :: nat)"
  using split64 [of r] split64 [of "r div 64"] unfolding div_4096 by linarith

lemma encode_2: "128 \<le> r \<Longrightarrow> r < 2048 \<Longrightarrow> encode_rune r = [chr (192 + r div 64), chr (128 + r mod 64)]"
  by (auto simp: encode_rune_def Let_def)

lemma encode_3: "2048 \<le> r \<Longrightarrow> r < 65536 \<Longrightarrow> \<not> (55296 \<le> r \<and> r \<le> 57343) \<Longrightarrow>
    encode_rune r = [chr (224 + r div 4096), chr (128 + r div 64 mod 64), chr (128 + r mod 64)]"
  by (auto simp: encode_rune_def Let_def)

lemma encode_4: "65536 \<le> r \<Longrightarrow> r \<le> 1114111 \<Longrightarrow>
    encode_rune r = [chr (240 + r div 262144), chr (128 + r div 4096 mod 64),
           chr (128 + r div 64 mod 64), chr (128 + r mod 64)]"
  by (auto simp: encode_rune_def Let_def)

lemma base64_4:
  "r div 262144 * 262144 + r div 4096 mod 64 * 4096 + r div 64 mod 64 * 64 + r mod 64 = (r :: nat)"
  using base64_3 [of r] split64 [of "r div 4096"] unfolding div_262144 by linarith

lemma decode_encode_2:
  assumes "128 \<le> r" "r < 2048"
  shows "decode_rune (encode_rune r @ s) = (r, 2)"
proof -
  have "2 \<le> r div 64" "r div 64 < 32" "r mod 64 < 64" using assms by auto
  from decode_bytes_2 [OF this, of s] show ?thesis
    by (simp only: encode_2 [OF assms] append.simps split64)
qed

lemma decode_encode_3:
  assumes "2048 \<le> r" "r < 65536" "\<not> (55296 \<le> r \<and> r \<le> 57343)"
  shows "decode_rune (encode_rune r @ s) = (r, 3)"
proof -
  have bd: "r div 4096 < 16" "r div 64 mod 64 < 64" "r mod 64 < 64" using assms by auto
  have q: "r div 4096 * 64 + r div 64 mod 64 = r div 64"
    using split64 [of "r div 64"] by (simp add: div_4096)
  have "32 \<le> r div 64" using assms div_le_mono [of 2048 r 64] by simp
  with q have lo: "r div 4096 = 0 \<longrightarrow> 32 \<le> r div 64 mod 64" by linarith
  have hi: "r div 4096 = 13 \<longrightarrow> r div 64 mod 64 < 32"
  proof
    assume a: "r div 4096 = 13"
    then have "r < 57344" using base64_3 [of r] bd by linarith
    then have "r < 55296" using assms by linarith
    then have "r div 64 < 864" by auto
    with a q show "r div 64 mod 64 < 32" by linarith
  qed
  from decode_bytes_3 [OF bd lo hi, of s] show ?thesis
    by (simp only: encode_3 [OF assms] append.simps base64_3)
qed

lemma decode_encode_4:
  assumes "65536 \<le> r" "r \<le> 1114111"
  shows "decode_rune (encode_rune r @ s) = (r, 4)"
proof -
  have bd: "r div 262144 < 5" "r div 4096 mod 64 < 64" "r div 64 mod 64 < 64" "r mod 64 < 64"
    using assms by auto
  have q: "r div 262144 * 64 + r div 4096 mod 64 = r div 4096"
    using split64 [of "r div 4096"] by (simp add: div_262144)
  have "16 \<le> r div 4096" using assms div_le_mono [of 65536 r 4096] by simp
  with q have lo: "r div 262144 = 0 \<longrightarrow> 16 \<le> r div 4096 mod 64" by linarith
  have "r div 4096 < 272" using assms by auto
  with q have hi: "r div 262144 = 4 \<longrightarrow> r div 4096 mod 64 < 16" by linarith
  from decode_bytes_4 [OF bd lo hi, of s] show ?thesis
    by (simp only: encode_4 [OF assms] append.simps base64_4)
qed

lemma length_encode_rune:
  "length (encode_rune r) = (if r < 128 then 1 else if r < 2048 then 2
     else if r < 65536 \<or> r > 1114111 then 3 else 4)"
  by (auto simp: encode_rune_def Let_def RuneError_def)

text \<open>Decoding undoes encoding for every Unicode scalar value.\<close>

lemma decode_encode_rune:
  assumes "scalar r"
  shows "decode_rune (encode_rune r @ s) = (r, length (encode_rune r))"
proof -
  consider "r < 128" | "128 \<le> r \<and> r < 2048" | "2048 \<le> r \<and> r < 65536" | "65536 \<le> r"
    by linarith
  then show ?thesis
    using assms decode_encode_2 [of r s] decode_encode_3 [of r s] decode_encode_4 [of r s]
    by cases (auto simp: scalar_def length_encode_rune encode_rune_def [of r])
qed


lemma segs_encode_rune: "scalar r \<Longrightarrow> segs (encode_rune r @ s) = (r, encode_rune r) # segs s"
proof -
  assume r: "scalar r"
  have "encode_rune r \<noteq> []" using length_encode_rune [of r] by (auto split: if_splits)
  then obtain c cs where e: "encode_rune r = c # cs" by (cases "encode_rune r") auto
  from decode_encode_rune [OF r, of s] e show ?thesis
    by (simp split: prod.splits)
qed

theorem segs_utf8_encode:
  "list_all scalar rs \<Longrightarrow> segs (utf8_encode rs) = map (\<lambda>r. (r, encode_rune r)) rs"
  by (induction rs) (simp_all add: utf8_encode_def segs_encode_rune)

lemma runes_utf8_encode: "list_all scalar rs \<Longrightarrow> runes (utf8_encode rs) = rs"
  by (simp add: runes_def segs_utf8_encode comp_def)

definition ascii :: "string \<Rightarrow> bool" where
  "ascii s = list_all (\<lambda>c. byte c < 128) s"

lemma segs_ascii: "ascii s \<Longrightarrow> segs s = map (\<lambda>c. (byte c, [c])) s"
  by (induction s) (simp_all add: ascii_def)

lemma segs_not_Nil: "s \<noteq> [] \<Longrightarrow> segs s \<noteq> []"
  by (cases s) (auto split: prod.splits)

lemma segs_bytes_nonempty: "(r, bs) \<in> set (segs s) \<Longrightarrow> bs \<noteq> []"
  by (induction s rule: segs.induct) (auto split: prod.splits)

section \<open>Unicode properties\<close>

text \<open>
  What lies outside the sources: the tables of package \<open>unicode\<close> above U+00FF and the
  normal forms NFD and NFC.
\<close>

record env =
  uc_letter :: "rune \<Rightarrow> bool"
  uc_digit :: "rune \<Rightarrow> bool"
  uc_number :: "rune \<Rightarrow> bool"
  uc_upper :: "rune \<Rightarrow> bool"
  uc_lower :: "rune \<Rightarrow> bool"
  uc_punct :: "rune \<Rightarrow> bool"
  uc_symbol :: "rune \<Rightarrow> bool"
  uc_mn :: "rune \<Rightarrow> bool"
  uc_latin :: "rune \<Rightarrow> bool"
  uc_tolower :: "rune \<Rightarrow> rune"
  uc_toupper :: "rune \<Rightarrow> rune"
  nfd :: "string \<Rightarrow> string"
  nfc :: "string \<Rightarrow> string"

definition between :: "nat \<Rightarrow> nat \<Rightarrow> nat \<Rightarrow> bool" where
  "between lo hi r \<longleftrightarrow> lo \<le> r \<and> r \<le> hi"

definition latin1_latin :: "rune \<Rightarrow> bool" where
  "latin1_latin r \<longleftrightarrow> between 65 90 r \<or> between 97 122 r \<or> r = 170 \<or> r = 186
     \<or> between 192 214 r \<or> between 216 246 r \<or> between 248 255 r"

definition is_letter :: "env \<Rightarrow> rune \<Rightarrow> bool" where
  "is_letter u r = (if r < 256 then latin1_latin r \<or> r = 181 else uc_letter u r)"

definition is_latin :: "env \<Rightarrow> rune \<Rightarrow> bool" where
  "is_latin u r = (if r < 256 then latin1_latin r else uc_latin u r)"

definition is_digit :: "env \<Rightarrow> rune \<Rightarrow> bool" where
  "is_digit u r = (if r < 256 then between 48 57 r else uc_digit u r)"

definition is_number :: "env \<Rightarrow> rune \<Rightarrow> bool" where
  "is_number u r = (if r < 256 then between 48 57 r \<or> r \<in> {178, 179, 185, 188, 189, 190}
     else uc_number u r)"

definition is_upper :: "env \<Rightarrow> rune \<Rightarrow> bool" where
  "is_upper u r = (if r < 256 then between 65 90 r \<or> between 192 214 r \<or> between 216 222 r
     else uc_upper u r)"

definition is_lower :: "env \<Rightarrow> rune \<Rightarrow> bool" where
  "is_lower u r = (if r < 256 then between 97 122 r \<or> r = 181 \<or> between 223 246 r \<or> between 248 255 r
     else uc_lower u r)"

definition is_punct :: "env \<Rightarrow> rune \<Rightarrow> bool" where
  "is_punct u r = (if r < 256 then
       r \<in> {33, 34, 35, 37, 38, 39, 40, 41, 42, 44, 45, 46, 47, 58, 59, 63, 64, 91, 92, 93, 95, 123, 125,
            161, 167, 171, 182, 183, 187, 191}
     else uc_punct u r)"

definition is_symbol :: "env \<Rightarrow> rune \<Rightarrow> bool" where
  "is_symbol u r = (if r < 256 then
       r \<in> {36, 43, 60, 61, 62, 94, 96, 124, 126, 162, 163, 164, 165, 166, 168, 169, 172, 174, 175,
            176, 177, 180, 184, 215, 247}
     else uc_symbol u r)"

definition is_control :: "rune \<Rightarrow> bool" where
  "is_control r \<longleftrightarrow> r < 32 \<or> between 127 159 r"

definition is_mn :: "env \<Rightarrow> rune \<Rightarrow> bool" where
  "is_mn u r = (if r < 256 then False else uc_mn u r)"

definition is_space :: "rune \<Rightarrow> bool" where
  "is_space r \<longleftrightarrow> between 9 13 r \<or> r = 32 \<or> r = 133 \<or> r = 160 \<or> r = 5760 \<or> between 8192 8202 r
     \<or> r = 8232 \<or> r = 8233 \<or> r = 8239 \<or> r = 8287 \<or> r = 12288"

definition rune_lower :: "env \<Rightarrow> rune \<Rightarrow> rune" where
  "rune_lower u r = (if r < 256 then
       (if between 65 90 r \<or> between 192 214 r \<or> between 216 222 r then r + 32 else r)
     else uc_tolower u r)"

definition rune_upper :: "env \<Rightarrow> rune \<Rightarrow> rune" where
  "rune_upper u r = (if r < 256 then
       (if between 97 122 r \<or> between 224 246 r \<or> between 248 254 r then r - 32
        else if r = 181 then 924 else if r = 255 then 376 else r)
     else uc_toupper u r)"

text \<open>\<open>strings.ToLower\<close> and \<open>strings.ToUpper\<close>: \<open>strings.Map\<close> over the runes.\<close>

definition to_lower :: "env \<Rightarrow> string \<Rightarrow> string" where
  "to_lower u s = utf8_encode (map (rune_lower u) (runes s))"

definition to_upper :: "env \<Rightarrow> string \<Rightarrow> string" where
  "to_upper u s = utf8_encode (map (rune_upper u) (runes s))"

section \<open>The package \<open>strings\<close>\<close>

definition has_prefix :: "string \<Rightarrow> string \<Rightarrow> bool" where
  "has_prefix s pre \<longleftrightarrow> take (length pre) s = pre"

definition has_suffix :: "string \<Rightarrow> string \<Rightarrow> bool" where
  "has_suffix s suf \<longleftrightarrow> length suf \<le> length s \<and> drop (length s - length suf) s = suf"

definition trim_prefix :: "string \<Rightarrow> string \<Rightarrow> string" where
  "trim_prefix s pre = (if has_prefix s pre then drop (length pre) s else s)"

definition trim_suffix :: "string \<Rightarrow> string \<Rightarrow> string" where
  "trim_suffix s suf = (if has_suffix s suf then take (length s - length suf) s else s)"

fun index_of :: "string \<Rightarrow> string \<Rightarrow> nat option" where
  "index_of [] sub = (if sub = [] then Some 0 else None)"
| "index_of (c # cs) sub = (if has_prefix (c # cs) sub then Some 0
     else map_option Suc (index_of cs sub))"

fun last_index_of :: "string \<Rightarrow> string \<Rightarrow> nat option" where
  "last_index_of [] sub = (if sub = [] then Some 0 else None)"
| "last_index_of (c # cs) sub = (case last_index_of cs sub of
       Some i \<Rightarrow> Some (Suc i)
     | None \<Rightarrow> if has_prefix (c # cs) sub then Some 0 else None)"

definition contains :: "string \<Rightarrow> string \<Rightarrow> bool" where
  "contains s sub \<longleftrightarrow> index_of s sub \<noteq> None"

definition contains_any :: "string \<Rightarrow> rune list \<Rightarrow> bool" where
  "contains_any s cutset = list_ex (\<lambda>r. r \<in> set cutset) (runes s)"

text \<open>\<open>strings.Count\<close> of a non-empty separator: non-overlapping occurrences.\<close>

fun count_sub :: "string \<Rightarrow> string \<Rightarrow> nat" where
  "count_sub [] sub = 0"
| "count_sub (c # cs) sub = (if sub \<noteq> [] \<and> has_prefix (c # cs) sub
     then Suc (count_sub (drop (length sub - 1) cs) sub) else count_sub cs sub)"

text \<open>\<open>strings.ReplaceAll\<close> with a non-empty old string.\<close>

fun replace_all :: "string \<Rightarrow> string \<Rightarrow> string \<Rightarrow> string" where
  "replace_all old new [] = []"
| "replace_all old new (c # cs) = (if old \<noteq> [] \<and> has_prefix (c # cs) old
     then new @ replace_all old new (drop (length old - 1) cs)
     else c # replace_all old new cs)"

text \<open>\<open>strings.NewReplacer(old1, new1, ...).Replace\<close>: the first matching pair wins at
  every position.\<close>

definition match_pair :: "(string \<times> string) list \<Rightarrow> string \<Rightarrow> (string \<times> string) option" where
  "match_pair ps s = find (\<lambda>p. fst p \<noteq> [] \<and> has_prefix s (fst p)) ps"

fun replacer :: "(string \<times> string) list \<Rightarrow> string \<Rightarrow> string" where
  "replacer ps [] = []"
| "replacer ps (c # cs) = (case match_pair ps (c # cs) of
       Some (old, new) \<Rightarrow> new @ replacer ps (drop (length old - 1) cs)
     | None \<Rightarrow> c # replacer ps cs)"

text \<open>\<open>strings.Split\<close> at a non-empty separator.\<close>

fun split_acc :: "string \<Rightarrow> string \<Rightarrow> string \<Rightarrow> string list" where
  "split_acc sep cur [] = [cur]"
| "split_acc sep cur (c # cs) = (if sep \<noteq> [] \<and> has_prefix (c # cs) sep
     then cur # split_acc sep [] (drop (length sep - 1) cs)
     else split_acc sep (cur @ [c]) cs)"

definition go_split :: "string \<Rightarrow> string \<Rightarrow> string list" where
  "go_split s sep = split_acc sep [] s"

fun join :: "string \<Rightarrow> string list \<Rightarrow> string" where
  "join sep [] = []"
| "join sep [x] = x"
| "join sep (x # y # ys) = x @ sep @ join sep (y # ys)"

text \<open>\<open>strings.FieldsFunc\<close>, \<open>strings.Fields\<close> and the trimming functions.\<close>

fun fields_segs :: "(rune \<Rightarrow> bool) \<Rightarrow> string \<Rightarrow> (rune \<times> string) list \<Rightarrow> string list" where
  "fields_segs p cur [] = (if cur = [] then [] else [cur])"
| "fields_segs p cur ((r, bs) # ss) = (if p r
     then (if cur = [] then fields_segs p [] ss else cur # fields_segs p [] ss)
     else fields_segs p (cur @ bs) ss)"

definition fields_func :: "(rune \<Rightarrow> bool) \<Rightarrow> string \<Rightarrow> string list" where
  "fields_func p s = fields_segs p [] (segs s)"

definition fields :: "string \<Rightarrow> string list" where
  "fields s = fields_func is_space s"

definition trim_left_func :: "(rune \<Rightarrow> bool) \<Rightarrow> string \<Rightarrow> string" where
  "trim_left_func p s = bytes_of (dropWhile (p \<circ> fst) (segs s))"

definition trim_right_func :: "(rune \<Rightarrow> bool) \<Rightarrow> string \<Rightarrow> string" where
  "trim_right_func p s = bytes_of (rev (dropWhile (p \<circ> fst) (rev (segs s))))"

definition trim_func :: "(rune \<Rightarrow> bool) \<Rightarrow> string \<Rightarrow> string" where
  "trim_func p s = bytes_of (rev (dropWhile (p \<circ> fst) (rev (dropWhile (p \<circ> fst) (segs s)))))"

definition trim_space :: "string \<Rightarrow> string" where
  "trim_space s = trim_func is_space s"

definition trim_cutset :: "rune list \<Rightarrow> string \<Rightarrow> string" where
  "trim_cutset cs s = trim_func (\<lambda>r. r \<in> set cs) s"

end
