(* ===== verification/StringLaws.thy ===== *)
theory StringLaws
  imports GoStrings
begin

text \<open>
  Laws of the string layer that the component proofs share: UTF-8 decoding is unaffected
  by an ASCII byte that follows, a piece cut out at rune boundaries decodes as it did in
  place, and therefore \<open>strings.Join(strings.Fields(s), " ")\<close> is idempotent and its
  result is free of leading, trailing and doubled spaces.
\<close>

section \<open>Decoding in context\<close>

lemma decode_rune_ascii: "byte c < 128 \<Longrightarrow> decode_rune (c # cs) = (byte c, 1)"
  by (simp add: Let_def)

lemma cont_ascii: "byte c < 128 \<Longrightarrow> 128 \<le> lo \<Longrightarrow> \<not> cont lo hi c"
  by (simp add: cont_def)

lemma decode2_append: "byte c < 128 \<Longrightarrow> decode2 b (cs @ c # s) = decode2 b cs"
  by (cases cs) (simp_all add: decode2_def cont_ascii)

lemma decode3_append: "byte c < 128 \<Longrightarrow> decode3 b (cs @ c # s) = decode3 b cs"
  by (cases cs; cases "tl cs") (simp_all add: decode3_def cont_ascii split: list.splits)

lemma decode4_append:
  assumes "byte c < 128"
  shows "decode4 b (cs @ c # s) = decode4 b cs"
proof -
  consider "cs = []" | c1 where "cs = [c1]" | c1 c2 where "cs = [c1, c2]"
    | c1 c2 c3 r where "cs = c1 # c2 # c3 # r"
    by (cases cs; cases "tl cs"; cases "tl (tl cs)") auto
  then show ?thesis
    using assms by cases (simp_all add: decode4_def cont_ascii split: list.splits)
qed

lemma decode_rune_append_ascii:
  "byte c < 128 \<Longrightarrow> x \<noteq> [] \<Longrightarrow> decode_rune (x @ c # s) = decode_rune x"
  by (cases x) (simp_all add: Let_def decode2_append decode3_append decode4_append)

lemma decode2_width: "decode2 b cs = (r, w) \<Longrightarrow> 1 \<le> w \<and> w \<le> Suc (length cs)"
  by (auto simp: decode2_def split: list.splits if_splits)

lemma decode3_width: "decode3 b cs = (r, w) \<Longrightarrow> 1 \<le> w \<and> w \<le> Suc (length cs)"
  by (auto simp: decode3_def split: list.splits if_splits)

lemma decode4_width: "decode4 b cs = (r, w) \<Longrightarrow> 1 \<le> w \<and> w \<le> Suc (length cs)"
  by (auto simp: decode4_def split: list.splits if_splits)

lemma decode_rune_width: "decode_rune (c # cs) = (r, w) \<Longrightarrow> 1 \<le> w \<and> w \<le> Suc (length cs)"
  by (auto simp: Let_def dest: decode2_width decode3_width decode4_width split: if_splits)

lemma segs_append_ascii:
  "byte c < 128 \<Longrightarrow> segs (x @ c # s) = segs x @ segs (c # s)"
proof (induction x rule: segs.induct)
  case (2 d ds)
  obtain r w where rw: "decode_rune (d # ds) = (r, w)" by force
  then have w: "1 \<le> w" "w \<le> Suc (length ds)" by (auto dest: decode_rune_width simp del: decode_rune.simps)
  have "decode_rune ((d # ds) @ c # s) = (r, w)"
    using decode_rune_append_ascii [OF "2.prems", of "d # ds" s] rw by simp
  moreover have "segs (drop (w - 1) ds @ c # s) = segs (drop (w - 1) ds) @ segs (c # s)"
    using "2.IH" [OF rw [symmetric] refl] "2.prems" by simp
  ultimately show ?case
    using rw w by (simp del: decode_rune.simps)
qed simp

lemma segs_append_ascii_tail:
  "(\<And>c cs. s = c # cs \<Longrightarrow> byte c < 128) \<Longrightarrow> segs (x @ s) = segs x @ segs s"
  by (cases s) (simp_all add: segs_append_ascii)

section \<open>Pieces cut at rune boundaries\<close>

definition good :: "rune \<times> nat \<Rightarrow> bool" where
  "good rw \<longleftrightarrow> rw \<noteq> (RuneError, 1)"

lemma decode2_mono: "good (decode2 b x) \<Longrightarrow> decode2 b (x @ y) = decode2 b x"
  by (auto simp: decode2_def good_def split: list.splits if_splits)

lemma decode3_mono: "good (decode3 b x) \<Longrightarrow> decode3 b (x @ y) = decode3 b x"
  by (auto simp: decode3_def good_def split: list.splits)

lemma decode4_mono:
  assumes "good (decode4 b x)"
  shows "decode4 b (x @ y) = decode4 b x"
proof -
  consider "x = []" | c1 where "x = [c1]" | c1 c2 where "x = [c1, c2]"
    | c1 c2 c3 r where "x = c1 # c2 # c3 # r"
    by (cases x; cases "tl x"; cases "tl (tl x)") auto
  then show ?thesis
    using assms by cases (simp_all add: decode4_def good_def)
qed

lemma decode_rune_mono: "x \<noteq> [] \<Longrightarrow> good (decode_rune x) \<Longrightarrow> decode_rune (x @ y) = decode_rune x"
  by (cases x) (auto simp: Let_def decode2_mono decode3_mono decode4_mono good_def split: if_splits)

lemma decode2_cut: "decode2 b cs = (r, w) \<Longrightarrow> w - 1 \<le> n \<Longrightarrow> decode2 b (take n cs) = (r, w)"
  by (cases cs; cases n) (auto simp: decode2_def split: if_splits)

lemma decode3_cut:
  assumes "decode3 b cs = (r, w)" "w - 1 \<le> n"
  shows "decode3 b (take n cs) = (r, w)"
proof (cases "good (r, w)")
  case True
  with assms obtain c1 c2 rest where "cs = c1 # c2 # rest" "w = 3"
    by (auto simp: decode3_def good_def split: list.splits if_splits)
  with assms show ?thesis
    by (auto simp: decode3_def good_def take_Cons split: nat.splits list.splits if_splits)
next
  case False
  have "decode3 b (take n cs) = (RuneError, 1)"
  proof (rule ccontr)
    assume "decode3 b (take n cs) \<noteq> (RuneError, 1)"
    then have "decode3 b (take n cs @ drop n cs) = decode3 b (take n cs)"
      by (intro decode3_mono) (simp add: good_def)
    with assms False \<open>decode3 b (take n cs) \<noteq> (RuneError, 1)\<close> show False by (simp add: good_def)
  qed
  with False show ?thesis by (simp add: good_def)
qed

lemma decode4_cut:
  assumes "decode4 b cs = (r, w)" "w - 1 \<le> n"
  shows "decode4 b (take n cs) = (r, w)"
proof (cases "good (r, w)")
  case True
  with assms obtain c1 c2 c3 rest where "cs = c1 # c2 # c3 # rest" "w = 4"
    by (auto simp: decode4_def good_def split: list.splits if_splits)
  with assms show ?thesis
    by (auto simp: decode4_def good_def take_Cons split: nat.splits list.splits if_splits)
next
  case False
  have "decode4 b (take n cs) = (RuneError, 1)"
  proof (rule ccontr)
    assume "decode4 b (take n cs) \<noteq> (RuneError, 1)"
    then have "decode4 b (take n cs @ drop n cs) = decode4 b (take n cs)"
      by (intro decode4_mono) (simp add: good_def)
    with assms False \<open>decode4 b (take n cs) \<noteq> (RuneError, 1)\<close> show False by (simp add: good_def)
  qed
  with False show ?thesis by (simp add: good_def)
qed

lemma decode_rune_cut:
  "decode_rune (c # cs) = (r, w) \<Longrightarrow> w - 1 \<le> n \<Longrightarrow> decode_rune (c # take n cs) = (r, w)"
  by (auto simp: Let_def decode2_cut decode3_cut decode4_cut split: if_splits)

text \<open>A prefix that ends at a rune boundary, and a suffix that starts at one, decode as in place.\<close>

lemma segs_prefix: "segs s = xs @ ys \<Longrightarrow> segs (bytes_of xs) = xs"
proof (induction s arbitrary: xs rule: segs.induct)
  case (2 c cs)
  show ?case
  proof (cases xs)
    case (Cons z zs)
    obtain r w where rw: "decode_rune (c # cs) = (r, w)" by force
    then have w: "1 \<le> w" "w \<le> Suc (length cs)" by (auto dest: decode_rune_width simp del: decode_rune.simps)
    have eq: "segs (c # cs) = (r, c # take (w - 1) cs) # segs (drop (w - 1) cs)"
      using rw by (simp del: decode_rune.simps)
    with "2.prems" Cons have z: "z = (r, c # take (w - 1) cs)"
      and zs: "segs (drop (w - 1) cs) = zs @ ys" by simp_all
    have IH: "segs (bytes_of zs) = zs"
      using "2.IH" [OF rw [symmetric] refl zs] .
    have "bytes_of (zs @ ys) = drop (w - 1) cs" using segs_concat [of "drop (w - 1) cs"] zs by simp
    then have dr: "drop (w - 1) cs = bytes_of zs @ bytes_of ys"
      by (simp add: bytes_of_def)
    let ?n = "w - 1 + length (bytes_of zs)"
    have len: "length (take (w - 1) cs) = w - 1" using w by simp
    have "take ?n cs = take (w - 1) cs @ take (length (bytes_of zs)) (drop (w - 1) cs)"
      by (rule take_add)
    then have "take ?n cs = take (w - 1) cs @ bytes_of zs" unfolding dr by simp
    then have "decode_rune (c # take (w - 1) cs @ bytes_of zs) = (r, w)"
      using decode_rune_cut [OF rw, of ?n] by simp
    then have "segs (c # take (w - 1) cs @ bytes_of zs) = (r, c # take (w - 1) cs) # segs (bytes_of zs)"
      using len by (simp del: decode_rune.simps)
    with IH z Cons show ?thesis by (simp add: bytes_of_def)
  qed (simp add: bytes_of_def)
qed (simp add: bytes_of_def)

lemma segs_suffix: "segs s = xs @ ys \<Longrightarrow> segs (bytes_of ys) = ys"
proof (induction xs arbitrary: s)
  case Nil
  then show ?case using segs_concat [of s] by simp
next
  case (Cons x xs)
  then obtain c cs where s: "s = c # cs" by (cases s) auto
  obtain r w where rw: "decode_rune (c # cs) = (r, w)" by force
  from Cons.prems s rw have "segs (drop (w - 1) cs) = xs @ ys" by (simp del: decode_rune.simps)
  then show ?case by (rule Cons.IH)
qed

lemma segs_infix: "segs s = xs @ ys @ zs \<Longrightarrow> segs (bytes_of ys) = ys"
  using segs_suffix segs_prefix by blast


section \<open>Fields, joining and normalization\<close>

text \<open>
  \<open>strings.Join(strings.Fields(s), " ")\<close>, the normalization that \<open>normalizeMeta\<close>,
  \<open>metaheur.Normalize\<close> and \<open>CleanValue\<close> apply.
\<close>

definition collapse :: "string \<Rightarrow> string" where
  "collapse s = join '' '' (fields s)"

definition word_ok :: "string \<Rightarrow> bool" where
  "word_ok w \<longleftrightarrow> w \<noteq> [] \<and> list_all (\<lambda>sg. \<not> is_space (fst sg)) (segs w)"

lemma fields_segs_sound:
  assumes "segs s = xs @ ys @ ss" "cur = bytes_of ys" "list_all (\<lambda>sg. \<not> p (fst sg)) ys"
    and "\<And>r bs. (r, bs) \<in> set ss \<Longrightarrow> bs \<noteq> []" "ys = [] \<longleftrightarrow> cur = []"
  shows "\<forall>w \<in> set (fields_segs p cur ss). w \<noteq> [] \<and> list_all (\<lambda>sg. \<not> p (fst sg)) (segs w)"
  using assms
proof (induction p cur ss arbitrary: xs ys rule: fields_segs.induct)
  case (1 p cur)
  then show ?case using segs_infix [of s xs ys "[]"] by simp
next
  case (2 p cur r bs ss)
  have word: "segs cur = ys" using segs_infix "2.prems"(1,2) by blast
  have ne: "\<And>r bs. (r, bs) \<in> set ss \<Longrightarrow> bs \<noteq> []" using "2.prems"(4) by auto
  show ?case
  proof (cases "p r")
    case True
    have rest: "\<forall>w \<in> set (fields_segs p [] ss). w \<noteq> [] \<and> list_all (\<lambda>sg. \<not> p (fst sg)) (segs w)"
    proof (cases "cur = []")
      case c: True
      show ?thesis
        by (rule "2.IH"(1) [OF True c, where xs = "xs @ ys @ [(r, bs)]" and ys = "[]"])
           (use "2.prems" ne in \<open>auto simp: bytes_of_def\<close>)
    next
      case c: False
      show ?thesis
        by (rule "2.IH"(2) [OF True c, where xs = "xs @ ys @ [(r, bs)]" and ys = "[]"])
           (use "2.prems" ne in \<open>auto simp: bytes_of_def\<close>)
    qed
    then show ?thesis using True word "2.prems"(3) by auto
  next
    case False
    have bs: "bs \<noteq> []" using "2.prems"(4) by auto
    have "\<forall>w \<in> set (fields_segs p (cur @ bs) ss). w \<noteq> [] \<and> list_all (\<lambda>sg. \<not> p (fst sg)) (segs w)"
      by (rule "2.IH"(3) [OF False, where xs = xs and ys = "ys @ [(r, bs)]"])
         (use "2.prems" ne False bs in \<open>auto simp: bytes_of_def\<close>)
    then show ?thesis using False by simp
  qed
qed

lemma fields_func_words:
  "w \<in> set (fields_func p s) \<Longrightarrow> w \<noteq> [] \<and> list_all (\<lambda>sg. \<not> p (fst sg)) (segs w)"
  using fields_segs_sound [of s "[]" "[]" "segs s" "[]" p]
  by (auto simp: fields_func_def bytes_of_def dest: segs_bytes_nonempty)

lemma fields_words: "w \<in> set (fields s) \<Longrightarrow> word_ok w"
  using fields_func_words [of w is_space s] by (simp add: fields_def word_ok_def)

lemma fields_segs_word:
  "list_all (\<lambda>sg. \<not> p (fst sg)) ys \<Longrightarrow> fields_segs p cur (ys @ ss) = fields_segs p (cur @ bytes_of ys) ss"
  by (induction ys arbitrary: cur) (auto simp: bytes_of_def)

lemma segs_space: "segs ('' '' @ s) = (32, '' '') # segs s"
  by simp

lemma is_space_blank [simp]: "is_space 32"
  by (simp add: is_space_def)

lemma join_Cons: "join sep (x # xs) = (if xs = [] then x else x @ sep @ join sep xs)"
  by (cases xs) simp_all

lemma fields_segs_join:
  assumes "list_all word_ok ws"
  shows "fields_segs is_space [] (segs (join '' '' ws)) = ws"
  using assms
proof (induction ws)
  case (Cons x xs)
  have word: "fields_segs is_space [] (segs x @ ss) = fields_segs is_space x ss" for ss
    using fields_segs_word [of is_space "segs x" "[]" ss] Cons.prems
    by (simp add: word_ok_def segs_concat)
  have ne: "x \<noteq> []" using Cons.prems by (simp add: word_ok_def)
  show ?case
  proof (cases "xs = []")
    case True
    with ne word [of "[]"] show ?thesis by simp
  next
    case False
    have "segs (join '' '' (x # xs)) = segs x @ (32, '' '') # segs (join '' '' xs)"
      using False segs_append_ascii [of "CHR '' ''" x "join '' '' xs"] by (simp add: join_Cons)
    then show ?thesis using Cons ne by (simp add: word)
  qed
qed simp

lemma fields_join: "list_all word_ok ws \<Longrightarrow> fields (join '' '' ws) = ws"
  by (simp add: fields_def fields_func_def fields_segs_join)

lemma fields_collapse: "fields (collapse s) = fields s"
  by (simp add: collapse_def fields_join list_all_iff fields_words)

lemma collapse_idem [simp]: "collapse (collapse s) = collapse s"
  by (simp add: collapse_def [of "collapse s"] fields_collapse flip: collapse_def)

lemma collapse_eq_iff: "collapse s = collapse t \<longleftrightarrow> fields s = fields t"
  by (metis fields_collapse collapse_def)

lemma collapse_empty [simp]: "collapse [] = []"
  by (simp add: collapse_def fields_def fields_func_def)

lemma join_Nil_iff: "list_all word_ok ws \<Longrightarrow> join '' '' ws = [] \<longleftrightarrow> ws = []"
  by (cases ws) (auto simp: word_ok_def join_Cons)

lemma collapse_Nil_iff: "collapse s = [] \<longleftrightarrow> fields s = []"
  by (simp add: collapse_def join_Nil_iff list_all_iff fields_words)

end
