(* ===== verification/Lsh.thy ===== *)
theory Lsh
  imports StringLaws
begin

unbundle bit_operations_syntax

text \<open>
  Model of \<open>internal/lsh/lsh.go\<close> and of the MinHash blob codec of
  \<open>internal/processor/scan.go\<close>. Signatures are \<open>[]uint64\<close>, bucket keys \<open>int64\<close>.
\<close>

type_synonym u64 = "64 word"

definition DefaultNumBands :: int where "DefaultNumBands = 25"
definition DefaultRowsPerBand :: int where "DefaultRowsPerBand = 5"

record band =
  BandIdx :: nat
  BucketHash :: int

fun hash_rows :: "u64 \<Rightarrow> u64 list \<Rightarrow> u64" where
  "hash_rows h [] = h"
| "hash_rows h (v # vs) =
     (let h1 = h XOR v; h2 = h1 * 1099511628211; h3 = h2 XOR drop_bit 32 h2 in hash_rows h3 vs)"

definition HashBand :: "u64 list \<Rightarrow> int" where
  "HashBand rows = sint (hash_rows 14695981039346656037 rows)"

definition rows_at :: "u64 list \<Rightarrow> nat \<Rightarrow> nat \<Rightarrow> u64 list" where
  "rows_at sig r i = take r (drop (i * r) sig)"

definition ComputeBandsCustom :: "u64 list \<Rightarrow> int \<Rightarrow> int \<Rightarrow> band list" where
  "ComputeBandsCustom sig numBands rowsPerBand =
     (if numBands \<le> 0 \<or> rowsPerBand \<le> 0 \<or> sig = [] then []
      else let r = nat rowsPerBand; n = min (nat numBands) (length sig div r) in
        map (\<lambda>i. \<lparr>BandIdx = i, BucketHash = HashBand (rows_at sig r i)\<rparr>) [0..<n])"

definition ComputeBands :: "u64 list \<Rightarrow> band list" where
  "ComputeBands sig = ComputeBandsCustom sig DefaultNumBands DefaultRowsPerBand"

section \<open>MinHash blobs\<close>

fun put_le :: "nat \<Rightarrow> u64 \<Rightarrow> string" where
  "put_le 0 v = []"
| "put_le (Suc n) v = char_of (unat v) # put_le n (drop_bit 8 v)"

fun get_le :: "string \<Rightarrow> u64" where
  "get_le [] = 0"
| "get_le (c # cs) = of_nat (byte c) OR push_bit 8 (get_le cs)"

definition encodeMinHash :: "u64 list \<Rightarrow> string" where
  "encodeMinHash sig = concat (map (put_le 8) sig)"

definition decodeMinHash :: "string \<Rightarrow> u64 list" where
  "decodeMinHash b = (if b = [] then [] else
     map (\<lambda>i. get_le (take 8 (drop (i * 8) b))) [0..<length b div 8])"

section \<open>Bands\<close>

lemma ComputeBands_eq:
  "ComputeBands sig = map (\<lambda>i. \<lparr>BandIdx = i, BucketHash = HashBand (rows_at sig 5 i)\<rparr>)
     [0..<min 25 (length sig div 5)]"
  by (auto simp: ComputeBands_def ComputeBandsCustom_def DefaultNumBands_def DefaultRowsPerBand_def Let_def)

lemma length_ComputeBands: "length (ComputeBands sig) = min 25 (length sig div 5)"
  by (simp add: ComputeBands_eq)

lemma nth_rows_at: "(i + 1) * r \<le> length sig \<Longrightarrow> j < r \<Longrightarrow> rows_at sig r i ! j = sig ! (i * r + j)"
  by (simp add: rows_at_def)

lemma rows_at_eqI:
  assumes "length a = length b" "(i + 1) * r \<le> length a"
    and "\<And>k. i * r \<le> k \<Longrightarrow> k < (i + 1) * r \<Longrightarrow> a ! k = b ! k"
  shows "rows_at a r i = rows_at b r i"
proof (rule nth_equalityI)
  show "length (rows_at a r i) = length (rows_at b r i)" using assms(1) by (simp add: rows_at_def)
next
  fix j assume "j < length (rows_at a r i)"
  then have "j < r" by (simp add: rows_at_def)
  then show "rows_at a r i ! j = rows_at b r i ! j"
    using assms by (simp add: nth_rows_at)
qed

text \<open>
  Positions in which two signatures disagree hit at most that many bands; a band that is
  hit by none is equal in both. This is the pigeonhole behind the candidate search.
\<close>

definition diff_positions :: "'a list \<Rightarrow> 'a list \<Rightarrow> nat set" where
  "diff_positions a b = {k. k < length a \<and> a ! k \<noteq> b ! k}"

lemma untouched_band:
  assumes "card D < n" "finite D" "0 < (r :: nat)"
  obtains i where "i < n" "\<And>k. k \<in> D \<Longrightarrow> k div r \<noteq> i"
proof -
  have "card ((\<lambda>k. k div r) ` D) < card {..<n}"
    using card_image_le [OF assms(2), of "\<lambda>k. k div r"] assms(1) by simp
  then have "\<not> {..<n} \<subseteq> (\<lambda>k. k div r) ` D"
    using card_mono [of "(\<lambda>k. k div r) ` D" "{..<n}"] assms(2) by fastforce
  then show ?thesis using that by auto
qed

lemma shared_band:
  assumes len: "length a = length b" "125 \<le> length a"
    and few: "card (diff_positions a b) < 25"
  shows "\<exists>i < 25. ComputeBands a ! i = ComputeBands b ! i"
proof -
  have "finite (diff_positions a b)" by (simp add: diff_positions_def)
  then obtain i where i: "i < 25" and clean: "\<And>k. k \<in> diff_positions a b \<Longrightarrow> k div 5 \<noteq> i"
    using untouched_band [OF few, of 5] by auto
  have "rows_at a 5 i = rows_at b 5 i"
  proof (rule rows_at_eqI)
    show "(i + 1) * 5 \<le> length a" using i len by auto
  next
    fix k assume k: "i * 5 \<le> k" "k < (i + 1) * 5"
    then have "k div 5 = i" by (simp add: div_nat_eqI)
    with clean have "k \<notin> diff_positions a b" by blast
    moreover have "k < length a" using k i len by auto
    ultimately show "a ! k = b ! k" by (simp add: diff_positions_def)
  qed (rule len(1))
  moreover have "i < min 25 (length a div 5)" using i len div_le_mono [of 125 "length a" 5] by simp
  ultimately show ?thesis using i len(1) by (auto simp: ComputeBands_eq)
qed

section \<open>The blob codec\<close>

lemma length_put_le [simp]: "length (put_le n v) = n"
  by (induction n arbitrary: v) simp_all

lemma of_nat_low_byte: "(of_nat (unat v mod 256) :: u64) = take_bit 8 (v :: u64)"
proof -
  have "(of_nat (unat v mod 256) :: u64) = of_nat (take_bit 8 (unat v))"
    by (simp add: take_bit_eq_mod)
  also have "\<dots> = take_bit 8 v" by (simp flip: take_bit_of_nat)
  finally show ?thesis .
qed

lemma take_bit_split: "take_bit 8 v OR push_bit 8 (take_bit n (drop_bit 8 v)) = take_bit (8 + n) (v :: u64)"
  by (rule bit_eqI) (auto simp: bit_simps)

lemma get_put_le: "get_le (put_le n v) = take_bit (8 * n) v"
  by (induction n arbitrary: v) (simp_all add: of_nat_low_byte take_bit_split)

lemma get_put_le_8: "get_le (put_le 8 v) = v"
proof -
  have "get_le (put_le 8 v) = take_bit 64 v" by (subst get_put_le) simp
  also have "\<dots> = v" by (rule take_bit_word_eq_self) simp
  finally show ?thesis .
qed

lemma length_encodeMinHash: "length (encodeMinHash sig) = 8 * length sig"
  by (induction sig) (simp_all add: encodeMinHash_def)

lemma drop_encode: "i < length sig \<Longrightarrow>
    take 8 (drop (i * 8) (encodeMinHash sig)) = put_le 8 (sig ! i)"
proof (induction sig arbitrary: i)
  case (Cons v sig)
  then show ?case by (cases i) (simp_all add: encodeMinHash_def)
qed simp

lemma decode_encode: "decodeMinHash (encodeMinHash sig) = sig"
proof (cases "sig = []")
  case False
  then have "encodeMinHash sig \<noteq> []" using length_encodeMinHash [of sig] by auto
  then show ?thesis
    by (simp add: decodeMinHash_def length_encodeMinHash)
       (intro nth_equalityI; simp add: drop_encode get_put_le_8)
qed (simp add: decodeMinHash_def encodeMinHash_def)

section \<open>Properties\<close>

text \<open>
  C10: Candidate search cannot lose a near duplicate. Two signatures of the same length, at
  least 125 rows long, that disagree in fewer than 25 positions get the same bucket hash in
  at least one common band, so the candidate query over the bands finds one from the other.
\<close>

theorem near_signatures_share_a_bucket:
  assumes "length a = length b" "125 \<le> length a" "card (diff_positions a b) < 25"
  shows "\<exists>band \<in> set (ComputeBands a). band \<in> set (ComputeBands b)"
proof -
  from shared_band [OF assms] obtain i where "i < 25" "ComputeBands a ! i = ComputeBands b ! i" by blast
  moreover have "length (ComputeBands a) = 25" "length (ComputeBands b) = 25"
    using assms(1,2) div_le_mono [of 125 "length a" 5] by (simp_all add: length_ComputeBands)
  ultimately show ?thesis by (metis nth_mem)
qed

theorem near_signatures_share_a_bucket_witness:
  "\<exists>band \<in> set (ComputeBands (replicate 128 7)). band \<in> set (ComputeBands (9 # replicate 127 7))"
proof (rule near_signatures_share_a_bucket)
  have "diff_positions (replicate 128 (7::u64)) (9 # replicate 127 7) \<subseteq> {0}"
  proof
    fix k assume k: "k \<in> diff_positions (replicate 128 (7::u64)) (9 # replicate 127 7)"
    show "k \<in> {0}"
    proof (cases k)
      case (Suc j)
      with k have "j < 127" by (simp add: diff_positions_def)
      then have "Suc j < 128" by simp
      with k Suc \<open>j < 127\<close> show ?thesis by (simp add: diff_positions_def)
    qed simp
  qed
  from card_mono [OF _ this]
  show "card (diff_positions (replicate 128 (7::u64)) (9 # replicate 127 7)) < 25" by simp
qed simp_all

text \<open>
  A MinHash signature that is stored as a blob is read back unchanged: decoding the
  little-endian encoding gives the same 64-bit words, and the blob takes eight bytes per
  word.
\<close>

theorem minhash_roundtrip:
  "decodeMinHash (encodeMinHash sig) = sig \<and> length (encodeMinHash sig) = 8 * length sig"
  by (simp add: decode_encode length_encodeMinHash)

end
