(* ===== verification/Identifier.thy ===== *)
theory Identifier
  imports StringLaws
begin

text \<open>
  Model of \<open>internal/identifier/identifier.go\<close>: identifiers with the provenance of their
  value. \<open>Source\<close> is a Go string type, so values outside the three constants exist and are
  normalized when sources are merged.
\<close>

type_synonym source = string

definition SourceMetadata :: source where "SourceMetadata = ''METADATA''"
definition SourceText :: source where "SourceText = ''TEXT''"
definition SourceMetadataAndText :: source where "SourceMetadataAndText = ''METADATA_AND_TEXT''"

lemmas source_defs = SourceMetadata_def SourceText_def SourceMetadataAndText_def

record ident =
  id_scheme :: string
  id_value :: string
  id_source :: source

definition normalize_source :: "source \<Rightarrow> source" where
  "normalize_source s = (if s = SourceMetadata \<or> s = SourceText \<or> s = SourceMetadataAndText
     then s else SourceMetadata)"

definition MergeSources :: "source \<Rightarrow> source \<Rightarrow> source" where
  "MergeSources a0 b0 = (let a = normalize_source a0; b = normalize_source b0 in
     if a = b then a
     else if a = SourceMetadataAndText \<or> b = SourceMetadataAndText then SourceMetadataAndText
     else SourceMetadataAndText)"

definition IsISBNScheme :: "env \<Rightarrow> string \<Rightarrow> bool" where
  "IsISBNScheme u scheme =
     (to_upper u (trim_space scheme) \<in> {''ISBN'', ''ISBN-10'', ''ISBN-13''})"

section \<open>Provenance as a set of origins\<close>

text \<open>
  What a source value means: the set of places a value was seen in. Merging two sources
  is the union of those sets, so the merge is a join: associative, commutative and
  idempotent, and its result never depends on the order in which occurrences are folded.
\<close>

datatype origin = InMetadata | InText

definition origins :: "source \<Rightarrow> origin set" where
  "origins s = (let n = normalize_source s in
     if n = SourceText then {InText}
     else if n = SourceMetadataAndText then {InMetadata, InText} else {InMetadata})"

definition valid_source :: "source \<Rightarrow> bool" where
  "valid_source s \<longleftrightarrow> s \<in> {SourceMetadata, SourceText, SourceMetadataAndText}"

lemma normalize_source_valid: "valid_source (normalize_source s)"
  by (simp add: normalize_source_def valid_source_def)

lemma normalize_source_id [simp]: "valid_source s \<Longrightarrow> normalize_source s = s"
  by (auto simp: normalize_source_def valid_source_def)

lemma MergeSources_valid [simp]: "valid_source (MergeSources a b)"
  using normalize_source_valid [of a]
  by (auto simp: MergeSources_def Let_def) (simp add: valid_source_def)

lemma origins_MergeSources: "origins (MergeSources a b) = origins a \<union> origins b"
  by (simp add: origins_def MergeSources_def normalize_source_def source_defs Let_def insert_commute)

lemma origins_inj: "valid_source a \<Longrightarrow> valid_source b \<Longrightarrow> origins a = origins b \<Longrightarrow> a = b"
  by (auto simp: valid_source_def origins_def normalize_source_def source_defs Let_def)

lemma MergeSources_self: "valid_source a \<Longrightarrow> MergeSources a a = a"
  by (simp add: MergeSources_def)

section \<open>Properties\<close>

text \<open>
  Merging provenance is order independent. On the sources the program produces the
  merge is commutative, associative and idempotent, and a merge never leaves them: folding
  the occurrences of an identifier in any order gives the same provenance.
\<close>

theorem MergeSources_semilattice:
  assumes "valid_source a" "valid_source b" "valid_source c"
  shows "MergeSources a b = MergeSources b a
    \<and> MergeSources (MergeSources a b) c = MergeSources a (MergeSources b c)
    \<and> MergeSources a a = a \<and> valid_source (MergeSources a b)"
proof -
  have "MergeSources a b = MergeSources b a"
    by (rule origins_inj) (simp_all add: origins_MergeSources Un_commute)
  moreover have "MergeSources (MergeSources a b) c = MergeSources a (MergeSources b c)"
    by (rule origins_inj) (simp_all add: origins_MergeSources Un_assoc)
  ultimately show ?thesis using assms(1) by (simp add: MergeSources_self)
qed

theorem MergeSources_semilattice_witness:
  "MergeSources SourceText SourceMetadata = MergeSources SourceMetadata SourceText"
  using MergeSources_semilattice [of SourceText SourceMetadata SourceText]
  by (simp add: valid_source_def)

end
