(* ===== verification/GoPaths.thy ===== *)
theory GoPaths
  imports StringLaws
begin

text \<open>
  The parts of \<open>path/filepath\<close> the sources use (Unix), and lower-casing laws for file
  names. \<open>lower_laws\<close> states what the model relies on about the case tables of package
  \<open>unicode\<close>: lower-casing is idempotent and stays within the Unicode scalar values.
\<close>

fun ext_rev :: "string \<Rightarrow> string \<Rightarrow> string" where
  "ext_rev acc [] = []"
| "ext_rev acc (c # cs) =
     (if c = CHR ''/'' then [] else if c = CHR ''.'' then c # acc else ext_rev (c # acc) cs)"

definition Ext :: "string \<Rightarrow> string" where
  "Ext path = ext_rev [] (rev path)"

definition Base :: "string \<Rightarrow> string" where
  "Base path = (if path = [] then ''.'' else
     let p = rev (dropWhile (\<lambda>c. c = CHR ''/'') (rev path));
         b = rev (takeWhile (\<lambda>c. c \<noteq> CHR ''/'') (rev p))
     in if b = [] then ''/'' else b)"

definition plain :: "string \<Rightarrow> bool" where
  "plain s \<longleftrightarrow> CHR ''.'' \<notin> set s \<and> CHR ''/'' \<notin> set s"

lemma ext_rev_plain:
  "plain (rev e) \<Longrightarrow> ext_rev acc (e @ CHR ''.'' # s) = CHR ''.'' # rev e @ acc"
  by (induction e arbitrary: acc) (auto simp: plain_def)

lemma Ext_append: "plain e \<Longrightarrow> Ext (p @ CHR ''.'' # e) = CHR ''.'' # e"
  using ext_rev_plain [of "rev e" "[]" "rev p"] by (simp add: Ext_def)

lemma ext_rev_cases:
  "ext_rev acc s = [] \<or>
   (\<exists>e r. s = e @ CHR ''.'' # r \<and> plain e \<and> ext_rev acc s = CHR ''.'' # rev e @ acc)"
proof (induction s arbitrary: acc)
  case (Cons c cs)
  show ?case
  proof (cases "c = CHR ''/'' \<or> c = CHR ''.''")
    case True
    then show ?thesis by (auto simp: plain_def intro: exI [of _ "[]"])
  next
    case False
    from Cons.IH [of "c # acc"] show ?thesis
    proof
      assume "ext_rev (c # acc) cs = []"
      with False show ?thesis by simp
    next
      assume "\<exists>e r. cs = e @ CHR ''.'' # r \<and> plain e \<and> ext_rev (c # acc) cs = CHR ''.'' # rev e @ c # acc"
      then obtain e r where e: "cs = e @ CHR ''.'' # r" "plain e"
        "ext_rev (c # acc) cs = CHR ''.'' # rev e @ c # acc" by blast
      have "plain (c # e)" using False e(2) by (auto simp: plain_def)
      moreover have "c # cs = (c # e) @ CHR ''.'' # r" using e(1) by simp
      moreover have "ext_rev acc (c # cs) = CHR ''.'' # rev (c # e) @ acc" using False e(3) by simp
      ultimately show ?thesis by blast
    qed
  qed
qed simp

lemma Ext_cases:
  obtains "Ext s = []"
  | p e where "s = p @ CHR ''.'' # e" "plain e" "Ext s = CHR ''.'' # e"
proof -
  from ext_rev_cases [of "[]" "rev s"] consider "Ext s = []"
    | e r where "rev s = e @ CHR ''.'' # r" "plain e" "Ext s = CHR ''.'' # rev e"
    by (auto simp: Ext_def)
  then show ?thesis
  proof cases
    case (2 e r)
    then have "s = rev r @ CHR ''.'' # rev e" by (simp add: rev_swap)
    with 2 show ?thesis using that(2) [of "rev r" "rev e"] by (simp add: plain_def)
  qed (rule that)
qed

lemma has_suffix_append [simp]: "has_suffix (p @ s) s"
  by (simp add: has_suffix_def)

lemma has_suffix_iff: "has_suffix s e \<longleftrightarrow> (\<exists>p. s = p @ e)"
  by (auto simp: has_suffix_def) (metis append_take_drop_id)

lemma has_prefix_append [simp]: "has_prefix (p @ s) p"
  by (simp add: has_prefix_def)

lemma has_prefix_iff: "has_prefix s p \<longleftrightarrow> (\<exists>r. s = p @ r)"
  by (auto simp: has_prefix_def) (metis append_take_drop_id)

lemma Ext_eq_iff:
  assumes "plain e"
  shows "Ext s = CHR ''.'' # e \<longleftrightarrow> has_suffix s (CHR ''.'' # e)"
proof
  assume "Ext s = CHR ''.'' # e"
  then show "has_suffix s (CHR ''.'' # e)"
    by (cases s rule: Ext_cases) (auto simp: has_suffix_iff)
next
  assume "has_suffix s (CHR ''.'' # e)"
  then obtain p where "s = p @ CHR ''.'' # e" by (auto simp: has_suffix_iff)
  then show "Ext s = CHR ''.'' # e" using Ext_append [OF assms] by simp
qed

lemma ascii_dot_slash: "plain (x @ y) \<longleftrightarrow> plain x \<and> plain y"
  by (auto simp: plain_def)

section \<open>Lower-casing\<close>

definition lower_laws :: "env \<Rightarrow> bool" where
  "lower_laws u \<longleftrightarrow> (\<forall>r. rune_lower u (rune_lower u r) = rune_lower u r)
     \<and> (\<forall>r. scalar r \<longrightarrow> scalar (rune_lower u r))"

lemma scalar_RuneError [simp]: "scalar RuneError"
  by (simp add: scalar_def RuneError_def)

lemma byte_less [simp]: "byte c < 256"
  by simp

lemma cont_bound: "cont lo hi c \<Longrightarrow> hi \<le> 191 \<Longrightarrow> low6 c < 64"
  unfolding cont_def by linarith

lemma decode2_scalar: "b \<le> 223 \<Longrightarrow> decode2 b cs = (r, w) \<Longrightarrow> scalar r"
  by (auto simp: decode2_def scalar_def cont_def RuneError_def split: list.splits if_splits)

lemma decode3_scalar:
  assumes "b \<le> 239" "decode3 b cs = (r, w)"
  shows "scalar r"
proof (cases "r = RuneError")
  case False
  then obtain c1 c2 rest where cs: "cs = c1 # c2 # rest"
    and c1: "cont (if b = 224 then 160 else 128) (if b = 237 then 159 else 191) c1"
    and c2: "cont 128 191 c2"
    and r: "r = (b - 224) * 4096 + low6 c1 * 64 + low6 c2"
    using assms(2) by (auto simp: decode3_def split: list.splits if_splits)
  have l2: "low6 c2 < 64" using c2 by (rule cont_bound) simp
  have l1: "low6 c1 < 64" using c1 by (rule cont_bound) simp
  consider "b < 237" | "b = 237" | "237 < b" by linarith
  then show ?thesis
  proof cases
    case 1
    then have "b - 224 \<le> 12" by simp
    then show ?thesis using l1 l2 r by (auto simp: scalar_def)
  next
    case 2
    with c1 have "low6 c1 < 32" by (auto simp: cont_def)
    with 2 l2 r show ?thesis by (auto simp: scalar_def)
  next
    case 3
    then have "14 \<le> b - 224" "b - 224 \<le> 15" using assms(1) by auto
    then show ?thesis using l1 l2 r by (auto simp: scalar_def)
  qed
qed simp

lemma decode4_scalar:
  assumes "240 \<le> b" "b \<le> 244" "decode4 b cs = (r, w)"
  shows "scalar r"
proof (cases "r = RuneError")
  case False
  then obtain c1 c2 c3 rest where cs: "cs = c1 # c2 # c3 # rest"
    and c1: "cont (if b = 240 then 144 else 128) (if b = 244 then 143 else 191) c1"
    and c2: "cont 128 191 c2" and c3: "cont 128 191 c3"
    and r: "r = (b - 240) * 262144 + low6 c1 * 4096 + low6 c2 * 64 + low6 c3"
    using assms(3) by (auto simp: decode4_def split: list.splits if_splits)
  have l: "low6 c2 < 64" "low6 c3 < 64" using cont_bound [OF c2] cont_bound [OF c3] by simp_all
  have l1: "low6 c1 < 64" using c1 by (rule cont_bound) simp
  have lo: "b = 240 \<Longrightarrow> 16 \<le> low6 c1" and hi: "b = 244 \<Longrightarrow> low6 c1 < 16"
    using c1 by (auto simp: cont_def)
  have "65536 \<le> r"
  proof (cases "b = 240")
    case True
    with lo r show ?thesis by auto
  next
    case False
    then have "1 \<le> b - 240" using assms(1) by simp
    then show ?thesis using r by auto
  qed
  moreover have "r \<le> 1114111"
  proof (cases "b = 244")
    case True
    with hi l r show ?thesis by auto
  next
    case False
    then have "b - 240 \<le> 3" using assms(2) by simp
    then show ?thesis using l l1 r by auto
  qed
  ultimately show ?thesis by (auto simp: scalar_def)
qed simp

lemma decode_rune_scalar: "decode_rune (c # cs) = (r, w) \<Longrightarrow> scalar r"
  by (auto simp: Let_def dest: decode2_scalar decode3_scalar decode4_scalar split: if_splits)
     (simp add: scalar_def)

lemma segs_scalar: "(r, bs) \<in> set (segs s) \<Longrightarrow> scalar r"
proof (induction s rule: segs.induct)
  case (2 c cs)
  obtain r' w where rw: "decode_rune (c # cs) = (r', w)" by force
  with 2 show ?case by (auto dest: decode_rune_scalar simp del: decode_rune.simps)
qed simp

text \<open>A string whose runes are lower-case and encoded canonically.\<close>

definition lowered :: "env \<Rightarrow> string \<Rightarrow> bool" where
  "lowered u s = list_all (\<lambda>sg. rune_lower u (fst sg) = fst sg \<and> snd sg = encode_rune (fst sg)) (segs s)"

lemma lowered_to_lower: "lower_laws u \<Longrightarrow> lowered u (to_lower u s)"
proof -
  assume u: "lower_laws u"
  then have "list_all scalar (map (rune_lower u) (runes s))"
    by (auto simp: lower_laws_def list_all_iff runes_def dest: segs_scalar)
  from segs_utf8_encode [OF this] u show ?thesis
    by (simp add: lowered_def to_lower_def list_all_iff lower_laws_def)
qed

lemma to_lower_lowered: "lowered u s \<Longrightarrow> to_lower u s = s"
proof -
  assume l: "lowered u s"
  have "to_lower u s = concat (map snd (segs s))"
    unfolding to_lower_def utf8_encode_def runes_def map_map comp_def
    by (rule arg_cong [where f = concat], rule map_cong [OF refl])
       (use l in \<open>auto simp: lowered_def list_all_iff\<close>)
  then show ?thesis using segs_concat [of s] by (simp add: bytes_of_def)
qed

lemma lowered_append_ascii:
  "byte c < 128 \<Longrightarrow> lowered u (x @ c # s) \<Longrightarrow> lowered u x \<and> lowered u (c # s)"
  by (simp add: lowered_def segs_append_ascii del: segs.simps)

lemma lowered_tail: "byte c < 128 \<Longrightarrow> lowered u (c # s) \<Longrightarrow> lowered u s"
  by (simp add: lowered_def Let_def)


definition plain_lower :: "string \<Rightarrow> bool" where
  "plain_lower s = list_all (\<lambda>c. byte c < 128 \<and> \<not> (65 \<le> byte c \<and> byte c \<le> 90)) s"

lemma encode_rune_ascii: "byte c < 128 \<Longrightarrow> encode_rune (byte c) = [c]"
  by (simp add: encode_rune_def Let_def chr_def)

lemma rune_lower_plain: "n < 128 \<Longrightarrow> \<not> (65 \<le> n \<and> n \<le> 90) \<Longrightarrow> rune_lower u n = n"
  by (auto simp: rune_lower_def between_def)

lemma to_lower_plain: "plain_lower s \<Longrightarrow> to_lower u s = s"
proof (rule to_lower_lowered)
  assume s: "plain_lower s"
  then have "ascii s" by (auto simp: plain_lower_def ascii_def list_all_iff)
  with s show "lowered u s"
    by (auto simp: lowered_def segs_ascii list_all_iff plain_lower_def encode_rune_ascii rune_lower_plain)
qed

text \<open>
  An environment whose tables are empty above U+00FF: the concrete parameter of the
  examples.
\<close>

definition plain_env :: env where
  "plain_env = \<lparr>uc_letter = \<lambda>_. False, uc_digit = \<lambda>_. False, uc_number = \<lambda>_. False,
    uc_upper = \<lambda>_. False, uc_lower = \<lambda>_. False, uc_punct = \<lambda>_. False, uc_symbol = \<lambda>_. False,
    uc_mn = \<lambda>_. False, uc_latin = \<lambda>_. False, uc_tolower = \<lambda>r. r, uc_toupper = \<lambda>r. r,
    nfd = \<lambda>s. s, nfc = \<lambda>s. s\<rparr>"

lemma plain_env_simps [simp]: "nfd plain_env s = s" "nfc plain_env s = s" "uc_mn plain_env r = False"
  "uc_latin plain_env r = False" "uc_letter plain_env r = False" "uc_digit plain_env r = False"
  "uc_upper plain_env r = False"
  by (simp_all add: plain_env_def)

lemma rune_lower_plain_env:
  "rune_lower plain_env r = (if 65 \<le> r \<and> r \<le> 90 \<or> 192 \<le> r \<and> r \<le> 214 \<or> 216 \<le> r \<and> r \<le> 222 then r + 32 else r)"
  by (simp add: rune_lower_def plain_env_def between_def)

lemma lower_laws_plain_env: "lower_laws plain_env"
proof -
  have "rune_lower plain_env (rune_lower plain_env r) = rune_lower plain_env r" for r
    unfolding rune_lower_plain_env by (cases "65 \<le> r \<and> r \<le> 90"; cases "192 \<le> r \<and> r \<le> 214"; cases "216 \<le> r \<and> r \<le> 222") auto
  moreover have "scalar r \<Longrightarrow> scalar (rune_lower plain_env r)" for r
    unfolding rune_lower_plain_env scalar_def by auto
  ultimately show ?thesis by (simp add: lower_laws_def)
qed

text \<open>Evaluation of the string operations on concrete ASCII strings by \<open>simp\<close>.\<close>

lemma chr_numeral: "chr n = c \<longleftrightarrow> n mod 256 = byte c"
  by (simp add: chr_def char_of_eq_iff take_bit_eq_mod)

lemma utf8_encode_Cons: "utf8_encode (r # rs) = encode_rune r @ utf8_encode rs"
  by (simp add: utf8_encode_def)

lemma utf8_encode_Nil: "utf8_encode [] = []"
  by (simp add: utf8_encode_def)

lemma encode_rune_small: "r < 128 \<Longrightarrow> encode_rune r = [chr r]"
  by (simp add: encode_rune_def)

lemmas string_eval = to_lower_def runes_def segs_ascii ascii_def rune_lower_plain_env utf8_encode_Cons
  utf8_encode_Nil encode_rune_small chr_numeral

end
