(* ===== verification/Formats.thy ===== *)
theory Formats
  imports GoPaths
begin

text \<open>
  Model of the file-type taxonomy of \<open>internal/scanner/scanner.go\<close>: the extension tables
  and the functions \<open>EbookFormats\<close>, \<open>classify\<close>, \<open>ExtKey\<close>, \<open>IsSupportedExt\<close>,
  \<open>IsArchiveFormat\<close> and \<open>FormatOf\<close>.
\<close>

definition knownExtensions :: "(string \<times> string) list" where
  "knownExtensions = [
     (''.epub'', ''epub''), (''.mobi'', ''mobi''), (''.azw3'', ''azw3''), (''.azw'', ''azw''),
     (''.prc'', ''prc''), (''.lit'', ''lit''), (''.fb2'', ''fb2''), (''.fb3'', ''fb3''),
     (''.fbz'', ''fb2''), (''.kepub'', ''kepub''), (''.pdb'', ''pdb''), (''.chm'', ''chm''),
     (''.lrf'', ''lrf''), (''.txt'', ''txt''), (''.text'', ''txt''), (''.rtf'', ''rtf''),
     (''.pdf'', ''pdf'')]"

definition archiveExtensions :: "(string \<times> string) list" where
  "archiveExtensions = [
     (''.zip'', ''zip''), (''.tar'', ''tar''), (''.tgz'', ''tgz''), (''.gz'', ''gz''),
     (''.bz2'', ''bz2''), (''.tbz2'', ''tbz2''), (''.rar'', ''rar''), (''.7z'', ''7z'')]"

definition EbookFormats :: "string list" where
  "EbookFormats = sort (remdups (map snd knownExtensions))"

definition NoExtension :: string where "NoExtension = ''(noext)''"

definition classify :: "string \<Rightarrow> string option" where
  "classify lower =
     (if has_suffix lower ''.tar.gz'' \<or> has_suffix lower ''.tgz'' then Some ''tgz''
      else if has_suffix lower ''.tar.bz2'' \<or> has_suffix lower ''.tbz2'' then Some ''tbz2''
      else if has_suffix lower ''.fb2.zip'' then Some ''fb2''
      else case map_of archiveExtensions (Ext lower) of
        Some format \<Rightarrow> Some format
      | None \<Rightarrow> map_of knownExtensions (Ext lower))"

definition IsArchiveFormat :: "string \<Rightarrow> bool" where
  "IsArchiveFormat format = list_ex (\<lambda>e. snd e = format) archiveExtensions"

text \<open>The innermost name of a display path \<open>outer.zip!inner.epub\<close>.\<close>

definition innermost :: "string \<Rightarrow> string" where
  "innermost name = (case last_index_of name ''!'' of Some i \<Rightarrow> drop (i + 1) name | None \<Rightarrow> name)"

definition ExtKey :: "env \<Rightarrow> string \<Rightarrow> string \<times> bool" where
  "ExtKey u name = (let lower = to_lower u (innermost name) in
     case classify lower of
       Some format \<Rightarrow> (format, IsArchiveFormat format)
     | None \<Rightarrow> (let ext = Ext lower in
         if ext = [] \<or> ext = ''.'' then (NoExtension, False)
         else (trim_prefix ext ''.'', False)))"

definition IsSupportedExt :: "env \<Rightarrow> string \<Rightarrow> bool" where
  "IsSupportedExt u ext = (if ext = NoExtension then False
     else case classify (''a.'' @ to_lower u (trim_prefix ext ''.'')) of
         Some format \<Rightarrow> \<not> IsArchiveFormat format
       | None \<Rightarrow> False)"

definition FormatOf :: "env \<Rightarrow> string \<Rightarrow> string option" where
  "FormatOf u name = classify (to_lower u name)"

section \<open>The taxonomy\<close>

lemmas ext_tables = knownExtensions_def archiveExtensions_def

lemma archive_formats: "IsArchiveFormat f \<longleftrightarrow> f \<in> snd ` set archiveExtensions"
  by (auto simp: IsArchiveFormat_def list_ex_iff)

lemma set_EbookFormats: "set EbookFormats = snd ` set knownExtensions"
  by (simp add: EbookFormats_def)

lemma EbookFormats_sorted_distinct: "sorted EbookFormats \<and> distinct EbookFormats"
  by (simp add: EbookFormats_def)

lemma formats_disjoint: "f \<in> set EbookFormats \<Longrightarrow> \<not> IsArchiveFormat f"
  unfolding set_EbookFormats archive_formats by (auto simp: ext_tables)

lemma map_of_archive: "map_of archiveExtensions e = Some f \<Longrightarrow> IsArchiveFormat f"
  by (force simp: archive_formats dest: map_of_SomeD)

lemma map_of_known: "map_of knownExtensions e = Some f \<Longrightarrow> f \<in> set EbookFormats"
  by (force simp: set_EbookFormats dest: map_of_SomeD)

lemma classify_range:
  "classify lower = Some f \<Longrightarrow> IsArchiveFormat f \<noteq> (f \<in> set EbookFormats)"
proof -
  assume "classify lower = Some f"
  then have "f = ''tgz'' \<or> f = ''tbz2'' \<or> f = ''fb2''
    \<or> map_of archiveExtensions (Ext lower) = Some f \<or> map_of knownExtensions (Ext lower) = Some f"
    unfolding classify_def by (simp split: if_splits option.splits)
  then consider "f = ''tgz''" | "f = ''tbz2''" | "f = ''fb2''"
    | "map_of archiveExtensions (Ext lower) = Some f" | "map_of knownExtensions (Ext lower) = Some f"
    by argo
  then show ?thesis
  proof cases
    case 4
    then show ?thesis using map_of_archive formats_disjoint by blast
  next
    case 5
    then show ?thesis using map_of_known formats_disjoint by blast
  qed (simp_all add: set_EbookFormats archive_formats ext_tables)
qed

lemma count_suffix: "has_suffix s e \<Longrightarrow> count_list e c \<le> count_list s c"
  by (auto simp: has_suffix_iff)

lemma count_list_notin: "c \<notin> set s \<Longrightarrow> count_list s c = 0"
  by (induction s) auto

lemma classify_single:
  assumes "plain e" "map_of archiveExtensions (CHR ''.'' # e) = None"
    "map_of knownExtensions (CHR ''.'' # e) = None"
  shows "classify (''a.'' @ e) = None"
proof -
  have one: "count_list (''a.'' @ e) (CHR ''.'') = 1"
    using assms(1) by (simp add: plain_def count_list_notin)
  have two: "\<not> has_suffix (''a.'' @ e) ''.tar.gz''" "\<not> has_suffix (''a.'' @ e) ''.tar.bz2''"
    "\<not> has_suffix (''a.'' @ e) ''.fb2.zip''"
    using count_suffix [of "''a.'' @ e" _ "CHR ''.''"] one by (force)+
  have ext: "Ext (''a.'' @ e) = CHR ''.'' # e" using Ext_append [OF assms(1), of "''a''"] by simp
  have "\<not> has_suffix (''a.'' @ e) ''.tgz''" "\<not> has_suffix (''a.'' @ e) ''.tbz2''"
    using Ext_eq_iff [of "''tgz''" "''a.'' @ e"] Ext_eq_iff [of "''tbz2''" "''a.'' @ e"] ext assms(2)
    by (auto simp: plain_def ext_tables)
  with two ext assms(2,3) show ?thesis by (simp add: classify_def)
qed

lemma plain_formats:
  "list_all (\<lambda>f. plain_lower f \<and> f \<noteq> NoExtension \<and> trim_prefix f ''.'' = f
       \<and> (case classify (''a.'' @ f) of Some g \<Rightarrow> \<not> IsArchiveFormat g | None \<Rightarrow> False) = (\<not> IsArchiveFormat f))
     (map snd knownExtensions @ map snd archiveExtensions)"
  by code_simp

lemma supported_formats:
  assumes "f \<in> set EbookFormats \<or> IsArchiveFormat f"
  shows "IsSupportedExt u f \<longleftrightarrow> \<not> IsArchiveFormat f"
proof -
  have "f \<in> set (map snd knownExtensions @ map snd archiveExtensions)"
    using assms by (auto simp: set_EbookFormats archive_formats)
  with plain_formats have "plain_lower f \<and> f \<noteq> NoExtension \<and> trim_prefix f ''.'' = f
       \<and> (case classify (''a.'' @ f) of Some g \<Rightarrow> \<not> IsArchiveFormat g | None \<Rightarrow> False) = (\<not> IsArchiveFormat f)"
    unfolding list_all_iff by blast
  then show ?thesis by (simp add: IsSupportedExt_def to_lower_plain)
qed


text \<open>
  The extension key of a file decides support exactly as the file's own classification
  does, so the two statistics groups of the report cannot drift from the formats that are
  processed.
\<close>

lemma IsSupportedExt_ExtKey:
  assumes "lower_laws u"
  shows "IsSupportedExt u (fst (ExtKey u name)) \<longleftrightarrow>
    (\<exists>f. FormatOf u (innermost name) = Some f \<and> \<not> IsArchiveFormat f)"
proof -
  define lower where "lower = to_lower u (innermost name)"
  have low: "lowered u lower" unfolding lower_def using lowered_to_lower [OF assms] .
  show ?thesis
  proof (cases "classify lower")
    case (Some f)
    then have "f \<in> set EbookFormats \<or> IsArchiveFormat f" using classify_range by blast
    then show ?thesis
      using Some by (simp add: ExtKey_def FormatOf_def supported_formats Let_def flip: lower_def)
  next
    case None
    have "\<not> IsSupportedExt u (fst (ExtKey u name))"
    proof (cases lower rule: Ext_cases)
      case 1
      then show ?thesis
        using None by (simp add: ExtKey_def IsSupportedExt_def Let_def flip: lower_def)
    next
      case (2 p e)
      have key: "fst (ExtKey u name) = (if e = [] then NoExtension else e)"
        using None 2 by (simp add: ExtKey_def trim_prefix_def has_prefix_def Let_def flip: lower_def)
      have tabs: "map_of archiveExtensions (CHR ''.'' # e) = None" "map_of knownExtensions (CHR ''.'' # e) = None"
        using None 2(3) by (auto simp: classify_def split: if_splits option.splits)
      have "lowered u e"
        using lowered_append_ascii [of "CHR ''.''" u p e] lowered_tail [of "CHR ''.''" u e] low 2(1) by simp
      then have "to_lower u e = e" by (rule to_lower_lowered)
      moreover have "trim_prefix e ''.'' = e"
        using 2(2) by (cases e) (auto simp: trim_prefix_def has_prefix_def plain_def)
      ultimately show ?thesis
        using key classify_single [OF 2(2) tabs] by (simp add: IsSupportedExt_def)
    qed
    with None show ?thesis by (simp add: FormatOf_def flip: lower_def)
  qed
qed

lemma ExtKey_archive:
  "snd (ExtKey u name) \<longleftrightarrow> (\<exists>f. FormatOf u (innermost name) = Some f \<and> IsArchiveFormat f)"
  by (auto simp: ExtKey_def FormatOf_def Let_def split: option.splits)

lemma zipped_fb2: "classify (s @ ''.fb2.zip'') = Some ''fb2''"
proof -
  have "\<not> has_suffix (s @ ''.fb2.zip'') ''.tar.gz''" "\<not> has_suffix (s @ ''.fb2.zip'') ''.tgz''"
    "\<not> has_suffix (s @ ''.fb2.zip'') ''.tar.bz2''" "\<not> has_suffix (s @ ''.fb2.zip'') ''.tbz2''"
    by (auto simp: has_suffix_def)
  then show ?thesis by (simp add: classify_def)
qed

section \<open>Properties\<close>

text \<open>
  The extension statistics cannot drift from the formats that are processed. For every
  name (display paths of nested members included) the statistics key is "supported" exactly
  when the innermost name classifies as an ebook, and it is marked as an archive exactly
  when the innermost name classifies as an archive.
\<close>

theorem statistics_agree_with_classification:
  assumes "lower_laws u"
  shows "(IsSupportedExt u (fst (ExtKey u name)) \<longleftrightarrow>
            (\<exists>f. FormatOf u (innermost name) = Some f \<and> \<not> IsArchiveFormat f))
       \<and> (snd (ExtKey u name) \<longleftrightarrow> (\<exists>f. FormatOf u (innermost name) = Some f \<and> IsArchiveFormat f))"
  by (simp only: IsSupportedExt_ExtKey [OF assms] ExtKey_archive)

theorem statistics_agree_with_classification_witness:
  "\<exists>u. IsSupportedExt u (fst (ExtKey u ''a.zip!B.EPUB''))"
proof -
  let ?u = plain_env
  have "lower_laws ?u" by (rule lower_laws_plain_env)
  then have "IsSupportedExt ?u (fst (ExtKey ?u ''a.zip!B.EPUB'')) \<longleftrightarrow>
      (\<exists>f. FormatOf ?u (innermost ''a.zip!B.EPUB'') = Some f \<and> \<not> IsArchiveFormat f)"
    using statistics_agree_with_classification [of ?u "''a.zip!B.EPUB''"] by blast
  moreover have "FormatOf ?u (innermost ''a.zip!B.EPUB'') = Some ''epub''"
  proof -
    have "innermost ''a.zip!B.EPUB'' = ''B.EPUB''" by code_simp
    moreover have "to_lower plain_env ''B.EPUB'' = ''b.epub''" by (simp add: string_eval)
    moreover have "classify ''b.epub'' = Some ''epub''" by code_simp
    ultimately show ?thesis by (simp add: FormatOf_def)
  qed
  moreover have "\<not> IsArchiveFormat ''epub''" by code_simp
  ultimately show ?thesis by auto
qed

text \<open>
  The taxonomy is a partition. Whatever format a file name classifies to is either an
  archive format or one of the ebook formats, never both, and the ebook format list is
  sorted and free of duplicates.
\<close>

theorem classify_partition:
  assumes "classify lower = Some f"
  shows "(IsArchiveFormat f \<noteq> (f \<in> set EbookFormats)) \<and> sorted EbookFormats \<and> distinct EbookFormats"
  using classify_range [OF assms] EbookFormats_sorted_distinct by blast

theorem classify_partition_witness:
  "classify ''x.tar.gz'' = Some ''tgz'' \<and> IsArchiveFormat ''tgz'' \<noteq> (''tgz'' \<in> set EbookFormats)"
proof -
  have c: "classify ''x.tar.gz'' = Some ''tgz''" by code_simp
  from classify_partition [OF c] c show ?thesis by blast
qed

end
