(* ===== verification/Queues.thy ===== *)
theory Queues
  imports GoStrings
begin

text \<open>
  Model of the two unbounded queues of the scan pipeline: \<open>dirQueue\<close> of
  \<open>internal/scanner/scanner.go\<close> and \<open>resultQueue\<close> of \<open>internal/processor/resultqueue.go\<close>.
  Every method holds the queue's mutex for its whole body, so an execution of concurrent
  callers is a sequence of calls. A \<open>pop\<close> that would wait on the condition variable is
  the outcome \<open>Blocked\<close> and leaves the queue unchanged; it is retried after the next
  \<open>push\<close> or \<open>close\<close>.
\<close>

datatype 'a popped = Blocked | Drained | Item 'a

section \<open>The contract\<close>

text \<open>The calls of a queue's clients and their effect, over any implementation.\<close>

datatype 'a qop = QPush 'a | QPop | QClose

fun qrun :: "('q \<Rightarrow> 'a \<Rightarrow> 'q \<times> bool) \<Rightarrow> ('q \<Rightarrow> 'q \<times> 'a popped) \<Rightarrow> ('q \<Rightarrow> 'q) \<Rightarrow> 'q
    \<Rightarrow> 'a qop list \<Rightarrow> 'q \<times> 'a list \<times> 'a list" where
  "qrun psh pp cls q [] = (q, [], [])"
| "qrun psh pp cls q (QPush x # ops) =
     (let (q1, acc) = psh q x; (q2, ins, outs) = qrun psh pp cls q1 ops in
      (q2, if acc then x # ins else ins, outs))"
| "qrun psh pp cls q (QPop # ops) =
     (let (q1, r) = pp q; (q2, ins, outs) = qrun psh pp cls q1 ops in
      (q2, ins, case r of Item x \<Rightarrow> x # outs | _ \<Rightarrow> outs))"
| "qrun psh pp cls q (QClose # ops) = qrun psh pp cls (cls q) ops"

locale fifo =
  fixes items :: "'q \<Rightarrow> 'a list"
    and closed :: "'q \<Rightarrow> bool"
    and enq :: "'q \<Rightarrow> 'a \<Rightarrow> 'q \<times> bool"
    and deq :: "'q \<Rightarrow> 'q \<times> 'a popped"
    and shut :: "'q \<Rightarrow> 'q"
  assumes enq_items: "enq q x = (q', acc) \<Longrightarrow> items q' = (if acc then items q @ [x] else items q)"
    and enq_closed: "enq q x = (q', acc) \<Longrightarrow> closed q' = closed q"
    and deq_item: "items q = x # xs \<Longrightarrow> \<exists>q'. deq q = (q', Item x) \<and> items q' = xs \<and> closed q' = closed q"
    and deq_empty: "items q = [] \<Longrightarrow> deq q = (q, if closed q then Drained else Blocked)"
    and shut_items: "items (shut q) = items q"
    and shut_closed: "closed (shut q)"
begin

text \<open>Nothing is lost, duplicated or reordered: what was accepted comes out in order.\<close>

lemma run_conserves:
  "qrun enq deq shut q ops = (q', ins, outs) \<Longrightarrow> items q @ ins = outs @ items q'"
proof (induction ops arbitrary: q ins outs)
  case (Cons e ops)
  show ?case
  proof (cases e)
    case (QPush x)
    obtain q1 acc where e1: "enq q x = (q1, acc)" by fastforce
    obtain ins1 where "qrun enq deq shut q1 ops = (q', ins1, outs)" "ins = (if acc then x # ins1 else ins1)"
      using Cons.prems QPush e1 by (auto split: prod.splits)
    with Cons.IH enq_items [OF e1] show ?thesis by fastforce
  next
    case QPop
    show ?thesis
    proof (cases "items q")
      case Nil
      then show ?thesis using Cons.prems Cons.IH [of q] QPop deq_empty [OF Nil]
        by (auto split: prod.splits if_splits)
    next
      case (Cons x xs)
      then obtain q1 where "deq q = (q1, Item x)" "items q1 = xs" using deq_item by blast
      then show ?thesis using Cons.prems Cons.IH [of q1] QPop Cons by (auto split: prod.splits)
    qed
  next
    case QClose
    then show ?thesis using Cons.prems Cons.IH [of "shut q"] shut_items by auto
  qed
qed simp

lemma deq_not_blocked_closed: "closed q \<Longrightarrow> snd (deq q) \<noteq> Blocked"
  by (cases "items q") (auto simp: deq_empty dest!: deq_item)

lemma deq_drained: "snd (deq q) = Drained \<longleftrightarrow> closed q \<and> items q = []"
  by (cases "items q") (auto simp: deq_empty dest!: deq_item)

end

section \<open>The directory queue of the scanner\<close>

record dirQueue =
  dq_items :: "string list"
  dq_closed :: bool

definition newDirQueue :: dirQueue where
  "newDirQueue = \<lparr>dq_items = [], dq_closed = False\<rparr>"

definition dq_push :: "dirQueue \<Rightarrow> string \<Rightarrow> dirQueue" where
  "dq_push q dir = q\<lparr>dq_items := dq_items q @ [dir]\<rparr>"

definition dq_close :: "dirQueue \<Rightarrow> dirQueue" where
  "dq_close q = q\<lparr>dq_closed := True\<rparr>"

definition dq_pop :: "dirQueue \<Rightarrow> dirQueue \<times> string popped" where
  "dq_pop q = (case dq_items q of
       [] \<Rightarrow> (q, if dq_closed q then Drained else Blocked)
     | dir # rest \<Rightarrow> (q\<lparr>dq_items := rest\<rparr>, Item dir))"

interpretation dq: fifo dq_items dq_closed "\<lambda>q d. (dq_push q d, True)" dq_pop dq_close
proof unfold_locales
  fix q :: dirQueue and x xs assume "dq_items q = x # xs"
  then show "\<exists>q'. dq_pop q = (q', Item x) \<and> dq_items q' = xs \<and> dq_closed q' = dq_closed q"
    by (simp add: dq_pop_def)
qed (auto simp: dq_push_def dq_pop_def dq_close_def)

section \<open>The result queue of the processor\<close>

record 'r resultQueue =
  rq_items :: "'r list"
  rq_closed :: bool

definition newResultQueue :: "'r resultQueue" where
  "newResultQueue = \<lparr>rq_items = [], rq_closed = False\<rparr>"

definition rq_push :: "'r resultQueue \<Rightarrow> 'r \<Rightarrow> 'r resultQueue \<times> bool" where
  "rq_push q r = (if rq_closed q then (q, False) else (q\<lparr>rq_items := rq_items q @ [r]\<rparr>, True))"

definition rq_pop :: "'r resultQueue \<Rightarrow> 'r resultQueue \<times> 'r popped" where
  "rq_pop q = (case rq_items q of
       [] \<Rightarrow> (q, if rq_closed q then Drained else Blocked)
     | r # rest \<Rightarrow> (q\<lparr>rq_items := rest\<rparr>, Item r))"

definition rq_close :: "'r resultQueue \<Rightarrow> 'r resultQueue" where
  "rq_close q = q\<lparr>rq_closed := True\<rparr>"

definition rq_abort :: "'r resultQueue \<Rightarrow> 'r resultQueue" where
  "rq_abort q = q\<lparr>rq_closed := True, rq_items := []\<rparr>"

interpretation rq: fifo rq_items rq_closed rq_push rq_pop rq_close
proof unfold_locales
  fix q :: "'r resultQueue" and x xs assume "rq_items q = x # xs"
  then show "\<exists>q'. rq_pop q = (q', Item x) \<and> rq_items q' = xs \<and> rq_closed q' = rq_closed q"
    by (simp add: rq_pop_def)
qed (auto simp: rq_push_def rq_pop_def rq_close_def split: if_splits)

lemma rq_push_closed: "rq_closed q \<Longrightarrow> rq_push q r = (q, False)"
  by (simp add: rq_push_def)

lemma rq_pop_closed: "rq_pop q = (q', r) \<Longrightarrow> rq_closed q' = rq_closed q"
  by (auto simp: rq_pop_def split: list.splits)

lemma rq_closed_run:
  "rq_closed q \<Longrightarrow> qrun rq_push rq_pop rq_close q ops = (q', ins, outs) \<Longrightarrow> ins = [] \<and> rq_closed q'"
proof (induction ops arbitrary: q ins outs)
  case (Cons e ops)
  show ?case
  proof (cases e)
    case (QPush x)
    then show ?thesis using Cons.prems Cons.IH [of q]
      by (auto simp: rq_push_closed split: prod.splits)
  next
    case QPop
    obtain q1 r where r: "rq_pop q = (q1, r)" by fastforce
    then show ?thesis using Cons.prems Cons.IH [of q1] QPop rq_pop_closed [OF r]
      by (auto split: prod.splits)
  next
    case QClose
    then show ?thesis using Cons.prems Cons.IH [of "rq_close q"] by (auto simp: rq_close_def)
  qed
qed simp

lemma rq_abort_drains: "rq_pop (rq_abort q) = (rq_abort q, Drained) \<and> snd (rq_push (rq_abort q) r) = False"
  by (simp add: rq_pop_def rq_abort_def rq_push_def)

section \<open>Properties\<close>

text \<open>
  C27: The result queue hands every accepted result to exactly one worker, in discovery
  order. After any sequence of pushes, pops and closes on a fresh queue, the popped results
  followed by the queued ones are the accepted ones; once closed, nothing more is accepted
  and a worker is told to stop exactly when the backlog is drained; after an abort workers
  stop at once and every further result is refused.
\<close>

theorem result_queue_fifo:
  assumes "qrun rq_push rq_pop rq_close newResultQueue ops = (q, ins, outs)"
  shows "ins = outs @ rq_items q
    \<and> (snd (rq_pop q) = Drained \<longleftrightarrow> rq_closed q \<and> rq_items q = [])
    \<and> (\<forall>ops' q' ins' outs'. rq_closed q \<longrightarrow>
         qrun rq_push rq_pop rq_close q ops' = (q', ins', outs') \<longrightarrow> ins' = [] \<and> rq_items q = outs' @ rq_items q')
    \<and> snd (rq_pop (rq_abort q)) = Drained \<and> snd (rq_push (rq_abort q) r) = False"
proof -
  have "ins = outs @ rq_items q" using rq.run_conserves [OF assms] by (simp add: newResultQueue_def)
  moreover have "rq_closed q \<Longrightarrow> qrun rq_push rq_pop rq_close q ops' = (q', ins', outs') \<Longrightarrow>
      ins' = [] \<and> rq_items q = outs' @ rq_items q'" for ops' q' ins' outs'
    using rq.run_conserves [of q ops' q' ins' outs'] rq_closed_run [of q ops' q' ins' outs'] by simp
  ultimately show ?thesis using rq.deq_drained rq_abort_drains by (metis snd_conv)
qed

theorem result_queue_fifo_witness:
  "\<exists>q. qrun rq_push rq_pop rq_close newResultQueue [QPush ''a'', QPop, QPush ''b'', QClose, QPush ''c'']
         = (q, [''a'', ''b''], [''a'']) \<and> [''a'', ''b''] = [''a''] @ rq_items q"
proof -
  have r: "qrun rq_push rq_pop rq_close newResultQueue [QPush ''a'', QPop, QPush ''b'', QClose, QPush ''c'']
      = (\<lparr>rq_items = [''b''], rq_closed = True\<rparr>, [''a'', ''b''], [''a''])"
    by (simp add: rq_push_def rq_pop_def rq_close_def newResultQueue_def)
  from result_queue_fifo [OF r] r show ?thesis by blast
qed

end
