(* ===== verification/Sources.thy ===== *)
theory Sources
  imports GoPaths
begin

text \<open>
  Model of \<open>internal/source\<close>: directory entries, the interface \<open>Source\<close> as a record of its
  operations, the local implementation's path join, and the FTP implementation (credential
  choice, prefix stripping, listing, directory test, join). \<open>net/url.Parse\<close>, the operating
  system and the FTP server are parameters.
\<close>

record entry =
  e_name :: string
  e_isdir :: bool
  e_size :: int

text \<open>A tree of files: the operations of \<open>Source\<close> the scanner and processor use.\<close>

record 'r source_ops =
  src_list :: "string \<Rightarrow> (string, entry list) result"
  src_open :: "string \<Rightarrow> (string, 'r) result"
  src_isdir :: "string \<Rightarrow> (string, bool) result"
  src_join :: "string \<Rightarrow> string \<Rightarrow> string"

section \<open>Local paths\<close>

text \<open>\<open>filepath.Clean\<close> on a slash-separated path: the components, innermost first.\<close>

definition clean_step :: "bool \<Rightarrow> string \<Rightarrow> string list \<Rightarrow> string list" where
  "clean_step rooted seg acc =
     (if seg = [] \<or> seg = ''.'' then acc
      else if seg = ''..'' then (case acc of
          [] \<Rightarrow> if rooted then [] else [''..'']
        | c # cs \<Rightarrow> if c = ''..'' then ''..'' # acc else cs)
      else seg # acc)"

definition Clean :: "string \<Rightarrow> string" where
  "Clean path = (let rooted = has_prefix path ''/'';
       cs = rev (fold (clean_step rooted) (go_split path ''/'') []);
       body = join ''/'' cs in
     if rooted then ''/'' @ body else if body = [] then ''.'' else body)"

definition LocalJoin :: "string \<Rightarrow> string \<Rightarrow> string" where
  "LocalJoin base name =
     (if base \<noteq> [] then Clean (base @ ''/'' @ name) else if name \<noteq> [] then Clean name else [])"

text \<open>\<open>LocalSource.List\<close> over the raw directory entries; \<open>Info\<close> may fail for each of them.\<close>

record os_entry =
  os_name :: string
  os_isdir :: bool
  os_info :: "(string, int) result"

fun local_entries :: "os_entry list \<Rightarrow> (string, entry list) result" where
  "local_entries [] = Ok []"
| "local_entries (e # es) = (case os_info e of
       Err err \<Rightarrow> Err err
     | Ok sz \<Rightarrow> map_sum id (\<lambda>out. \<lparr>e_name = os_name e, e_isdir = os_isdir e, e_size = sz\<rparr> # out)
                   (local_entries es))"

section \<open>FTP\<close>

record go_url =
  u_scheme :: string
  u_host :: string
  u_user :: "(string \<times> string option) option"

record ftp_options =
  opt_user :: string
  opt_password :: string

definition ftp_user :: "go_url \<Rightarrow> ftp_options \<Rightarrow> string" where
  "ftp_user url opts = (let user = (case u_user url of
         Some (name, _) \<Rightarrow> if opt_user opts = [] then name else opt_user opts
       | None \<Rightarrow> opt_user opts) in if user = [] then ''anonymous'' else user)"

definition ftp_password :: "go_url \<Rightarrow> ftp_options \<Rightarrow> string" where
  "ftp_password url opts = (let pass = (case u_user url of
         Some (_, Some p) \<Rightarrow> if opt_password opts = [] then p else opt_password opts
       | _ \<Rightarrow> opt_password opts) in if pass = [] then ''anonymous@'' else pass)"

definition ftp_prefix :: "go_url \<Rightarrow> string" where
  "ftp_prefix url = u_scheme url @ ''://'' @ u_host url"

definition ftp_dial_host :: "go_url \<Rightarrow> string" where
  "ftp_dial_host url = (if contains (u_host url) '':'' then u_host url else u_host url @ '':21'')"

text \<open>The server: \<open>Dial\<close> by address, \<open>Login\<close>, and the raw listing.\<close>

datatype ftp_type = FtpFile | FtpFolder | FtpLink

record ftp_entry =
  fe_name :: string
  fe_type :: ftp_type
  fe_size :: nat

record server =
  srv_dial :: "string \<Rightarrow> string option"
  srv_login :: "string \<Rightarrow> string \<Rightarrow> string option"
  srv_list :: "string \<Rightarrow> (string, ftp_entry list) result"

datatype source_error = ParseURL | UnsupportedScheme string | ConnectError string | LoginError string

definition NewFTPSource :: "server \<Rightarrow> go_url \<Rightarrow> ftp_options \<Rightarrow> (source_error, string) result" where
  "NewFTPSource srv url opts = (case srv_dial srv (ftp_dial_host url) of
       Some err \<Rightarrow> Err (ConnectError err)
     | None \<Rightarrow> (case srv_login srv (ftp_user url opts) (ftp_password url opts) of
           Some err \<Rightarrow> Err (LoginError err)
         | None \<Rightarrow> Ok (ftp_prefix url)))"

datatype source_kind = LocalSource | FTPSource string

definition SourceFactory :: "(string \<Rightarrow> go_url option) \<Rightarrow> server \<Rightarrow> string \<Rightarrow> ftp_options
    \<Rightarrow> (source_error, source_kind) result" where
  "SourceFactory parse srv raw opts = (case parse raw of
       None \<Rightarrow> Err ParseURL
     | Some url \<Rightarrow>
         if u_scheme url = [] then Ok LocalSource
         else if u_scheme url = ''ftp'' then map_sum id FTPSource (NewFTPSource srv url opts)
         else Err (UnsupportedScheme (u_scheme url)))"

definition ftp_path :: "string \<Rightarrow> string \<Rightarrow> string" where
  "ftp_path prf p = trim_prefix p prf"

definition ftp_entry_of :: "ftp_entry \<Rightarrow> entry" where
  "ftp_entry_of e = (if fe_type e = FtpFolder
     then \<lparr>e_name = fe_name e, e_isdir = True, e_size = 0\<rparr>
     else \<lparr>e_name = fe_name e, e_isdir = False, e_size = wrap64 (int (fe_size e))\<rparr>)"

definition ftp_List :: "server \<Rightarrow> string \<Rightarrow> string \<Rightarrow> (string, entry list) result" where
  "ftp_List srv prf path = map_sum id (map ftp_entry_of) (srv_list srv (ftp_path prf path))"

definition ftp_IsDir :: "server \<Rightarrow> string \<Rightarrow> string \<Rightarrow> (string, bool) result" where
  "ftp_IsDir srv prf path = (let p = ftp_path prf path in case srv_list srv p of
       Err err \<Rightarrow> Err err
     | Ok entries \<Rightarrow> (case entries of
           [e] \<Rightarrow> Ok (\<not> (fe_name e = Base p \<and> fe_type e \<noteq> FtpFolder))
         | _ \<Rightarrow> Ok True))"

definition ftp_Join :: "string \<Rightarrow> string \<Rightarrow> string" where
  "ftp_Join base name = (if has_suffix base ''/'' then base @ name else base @ ''/'' @ name)"

section \<open>Laws\<close>

lemma trim_prefix_append: "trim_prefix (p @ s) p = s"
  by (simp add: trim_prefix_def)

text \<open>Below a root that starts with the prefix, joining commutes with prefix stripping.\<close>

lemma ftp_path_Join:
  assumes "p \<noteq> []"
  shows "ftp_path pre (ftp_Join (pre @ p) name) = ftp_Join p name"
proof -
  obtain q c where p: "p = q @ [c]" using assms by (cases p rule: rev_cases) auto
  have "has_suffix (pre @ p) ''/'' = has_suffix p ''/''" by (simp add: has_suffix_def p)
  then have "ftp_Join (pre @ p) name = pre @ ftp_Join p name" by (simp add: ftp_Join_def)
  then show ?thesis by (simp add: ftp_path_def trim_prefix_append)
qed

lemma ftp_Join_append: "p \<noteq> [] \<Longrightarrow> ftp_Join (pre @ p) name = pre @ ftp_Join p name \<and> ftp_Join p name \<noteq> []"
  by (cases p rule: rev_cases) (auto simp: ftp_Join_def has_suffix_def)

lemma ftp_Join_walk:
  "p \<noteq> [] \<Longrightarrow> foldl ftp_Join (pre @ p) names = pre @ foldl ftp_Join p names"
  by (induction names arbitrary: p) (simp_all add: ftp_Join_append)

lemma ftp_path_unchanged: "\<not> has_prefix p pre \<Longrightarrow> ftp_path pre p = p"
  by (simp add: ftp_path_def trim_prefix_def)

section \<open>Properties\<close>

text \<open>
  The FTP walk addresses the server by plain paths. For a root that is the URL prefix
  followed by a path, the directory reached by any sequence of joined names is listed on
  the server under the root's own path followed by those names: the scheme and host never
  leak into an FTP command, at any depth.
\<close>

theorem ftp_walk_lists_plain_paths:
  assumes "p \<noteq> []"
  shows "ftp_List srv (ftp_prefix url) (foldl ftp_Join (ftp_prefix url @ p) names)
     = map_sum id (map ftp_entry_of) (srv_list srv (foldl ftp_Join p names))"
  using ftp_Join_walk [OF assms, of "ftp_prefix url" names]
  by (simp add: ftp_List_def ftp_path_def trim_prefix_append)

theorem ftp_walk_lists_plain_paths_witness:
  "\<forall>srv. ftp_List srv ''ftp://h'' ''ftp://h/a/b'' = map_sum id (map ftp_entry_of) (srv_list srv ''/a/b'')"
  using ftp_walk_lists_plain_paths
    [of "''/a''" _ "\<lparr>u_scheme = ''ftp'', u_host = ''h'', u_user = None\<rparr>" "[''b'']"]
  by (simp add: ftp_prefix_def ftp_Join_def has_suffix_def)

text \<open>
  Credentials embedded in an FTP URL are used for the login but break the walk. For a
  root of the form scheme://userinfo@host/... whose user info does not itself begin with
  the host name, the prefix that is stripped before a path is sent to the server is not a
  prefix of the root, so the server is asked to list the complete URL, and so is every
  directory below it.
\<close>

theorem embedded_credentials_not_stripped:
  assumes "\<not> has_prefix (userinfo @ ''@'' @ u_host url @ path) (u_host url)"
  defines "root \<equiv> u_scheme url @ ''://'' @ userinfo @ ''@'' @ u_host url @ path"
  shows "ftp_List srv (ftp_prefix url) root = map_sum id (map ftp_entry_of) (srv_list srv root)"
proof -
  have "\<not> has_prefix root (ftp_prefix url)"
    using assms(1) by (auto simp: root_def ftp_prefix_def has_prefix_iff)
  then show ?thesis by (simp add: ftp_List_def ftp_path_unchanged)
qed

theorem embedded_credentials_not_stripped_witness:
  "\<forall>srv. ftp_List srv ''ftp://host'' ''ftp://user:pw@host/books''
     = map_sum id (map ftp_entry_of) (srv_list srv ''ftp://user:pw@host/books'')"
  using embedded_credentials_not_stripped
    [of "''user:pw''" "\<lparr>u_scheme = ''ftp'', u_host = ''host'', u_user = Some (''user'', Some ''pw'')\<rparr>"
      "''/books''"]
  by (simp add: has_prefix_def ftp_prefix_def)

end
