(* ===== verification/Walker.thy ===== *)
theory Walker
  imports Queues Sources Formats
begin

text \<open>
  Model of \<open>Scanner.Scan\<close> in \<open>internal/scanner/scanner.go\<close>: a main goroutine, a goroutine
  that closes the queue on cancellation, and \<open>Workers\<close> walkers that are both producers and
  consumers of the directory queue. Every transition is one atomic action of the code (a
  queue call, one update of the atomic counter \<open>remaining\<close>, one context check, one entry
  of a listing), so every interleaving of the goroutines is a path of \<open>scan_step\<close>.
\<close>

record scan_result =
  r_path :: string
  r_format :: string
  r_size :: int

record progress =
  p_dirs :: int
  p_files :: int
  p_found :: int

text \<open>The callbacks the walkers invoke (\<open>EvDir\<close> is the directory counter's update).\<close>

datatype event = EvDir string | EvError string string | EvFile string | EvResult scan_result

record shared =
  sq :: dirQueue
  remaining :: int
  cancelled :: bool
  dirs :: int
  files :: int
  found :: int
  errs :: int
  fatal :: "string option"
  log :: "event list"
  reports :: "progress list"

datatype pc = Starting | Idle | Popped string | Listing string | Walking string "entry list"
  | Pushing string string "entry list" | Reporting progress | Finishing | Closing | Done

text \<open>The tree being walked: \<open>List\<close>, \<open>Join\<close> and the Unicode parameter of \<open>ToLower\<close>.\<close>

record tree =
  t_list :: "string \<Rightarrow> (string, entry list) result"
  t_join :: "string \<Rightarrow> string \<Rightarrow> string"
  t_env :: env

definition progress_of :: "shared \<Rightarrow> progress" where
  "progress_of sh = \<lparr>p_dirs = dirs sh, p_files = files sh, p_found = found sh\<rparr>"

definition reportFatal :: "shared \<Rightarrow> string \<Rightarrow> shared" where
  "reportFatal sh err = (if fatal sh = None then sh\<lparr>fatal := Some err\<rparr> else sh)"

definition reportError :: "shared \<Rightarrow> string \<Rightarrow> string \<Rightarrow> shared" where
  "reportError sh dir err = sh\<lparr>errs := errs sh + 1, log := log sh @ [EvError dir err]\<rparr>"

text \<open>One file of a listing: the body of the loop of \<open>scanDir\<close> after the directory case.\<close>

definition file_events :: "tree \<Rightarrow> string \<Rightarrow> entry \<Rightarrow> event list" where
  "file_events t dir e = EvFile (e_name e) # (case FormatOf (t_env t) (e_name e) of
       None \<Rightarrow> []
     | Some f \<Rightarrow> [EvResult \<lparr>r_path = t_join t dir (e_name e), r_format = f, r_size = e_size e\<rparr>])"

definition scan_file :: "tree \<Rightarrow> string \<Rightarrow> entry \<Rightarrow> shared \<Rightarrow> shared" where
  "scan_file t dir e sh = sh\<lparr>files := files sh + 1,
     found := (case FormatOf (t_env t) (e_name e) of
         None \<Rightarrow> found sh
       | Some f \<Rightarrow> if IsArchiveFormat f then found sh else found sh + 1),
     log := log sh @ file_events t dir e\<rparr>"

fun worker_step :: "tree \<Rightarrow> string option \<Rightarrow> shared \<Rightarrow> pc \<Rightarrow> (shared \<times> pc) option" where
  "worker_step t start sh Starting = Some (case start of
       Some err \<Rightarrow> ((reportFatal sh err)\<lparr>cancelled := True\<rparr>, Done)
     | None \<Rightarrow> (sh, Idle))"
| "worker_step t start sh Idle = (case dq_pop (sq sh) of
       (q, Item d) \<Rightarrow> Some (sh\<lparr>sq := q\<rparr>, Popped d)
     | (q, Drained) \<Rightarrow> Some (sh, Done)
     | (q, Blocked) \<Rightarrow> None)"
| "worker_step t start sh (Popped d) = Some (
     if cancelled sh then (sh, Finishing)
     else (sh\<lparr>dirs := dirs sh + 1, log := log sh @ [EvDir d]\<rparr>, Listing d))"
| "worker_step t start sh (Listing d) = Some (case t_list t d of
       Err err \<Rightarrow> (reportError sh d err, Finishing)
     | Ok es \<Rightarrow> (sh, Walking d es))"
| "worker_step t start sh (Walking d []) = Some (sh, Reporting (progress_of sh))"
| "worker_step t start sh (Reporting p) = Some (sh\<lparr>reports := reports sh @ [p]\<rparr>, Finishing)"
| "worker_step t start sh (Walking d (e # es)) = Some (
     if e_isdir e then
       (if cancelled sh then (sh, Walking d es)
        else (sh\<lparr>remaining := remaining sh + 1\<rparr>, Pushing (t_join t d (e_name e)) d es))
     else (scan_file t d e sh, Walking d es))"
| "worker_step t start sh (Pushing c d es) = Some (sh\<lparr>sq := dq_push (sq sh) c\<rparr>, Walking d es)"
| "worker_step t start sh Finishing = Some (let r = remaining sh - 1 in
     (sh\<lparr>remaining := r\<rparr>, if r = 0 then Closing else Idle))"
| "worker_step t start sh Closing = Some (sh\<lparr>sq := dq_close (sq sh)\<rparr>, Idle)"
| "worker_step t start sh Done = None"

datatype mainpc = MStart | MPushing | MWaiting | MReturned int "string option" | MExited int "string option"

record scan_state =
  sh :: shared
  ws :: "pc list"
  mn :: mainpc

definition scan_init :: "nat \<Rightarrow> scan_state" where
  "scan_init workers = \<lparr>
     sh = \<lparr>sq = newDirQueue, remaining = 0, cancelled = False, dirs = 0, files = 0, found = 0,
           errs = 0, fatal = None, log = [], reports = []\<rparr>,
     ws = replicate (max 1 workers) Starting, mn = MStart\<rparr>"

inductive scan_step :: "tree \<Rightarrow> string \<Rightarrow> scan_state \<Rightarrow> scan_state \<Rightarrow> bool" for t root where
  worker: "i < length (ws s) \<Longrightarrow> worker_step t start (sh s) (ws s ! i) = Some (sh', pc') \<Longrightarrow>
    scan_step t root s (s\<lparr>sh := sh', ws := (ws s)[i := pc']\<rparr>)"
| dispatch_cancelled: "mn s = MStart \<Longrightarrow> cancelled (sh s) \<Longrightarrow> scan_step t root s (s\<lparr>mn := MWaiting\<rparr>)"
| dispatch_count: "mn s = MStart \<Longrightarrow> \<not> cancelled (sh s) \<Longrightarrow>
    scan_step t root s (s\<lparr>sh := (sh s)\<lparr>remaining := remaining (sh s) + 1\<rparr>, mn := MPushing\<rparr>)"
| dispatch_push: "mn s = MPushing \<Longrightarrow>
    scan_step t root s (s\<lparr>sh := (sh s)\<lparr>sq := dq_push (sq (sh s)) root\<rparr>, mn := MWaiting\<rparr>)"
| wait_done: "mn s = MWaiting \<Longrightarrow> set (ws s) \<subseteq> {Done} \<Longrightarrow>
    scan_step t root s (s\<lparr>mn := MReturned (errs (sh s)) (fatal (sh s))\<rparr>)"
| deferred_cancel: "mn s = MReturned n err \<Longrightarrow>
    scan_step t root s (s\<lparr>sh := (sh s)\<lparr>cancelled := True\<rparr>, mn := MExited n err\<rparr>)"
| closer: "cancelled (sh s) \<Longrightarrow> \<not> dq_closed (sq (sh s)) \<Longrightarrow>
    scan_step t root s (s\<lparr>sh := (sh s)\<lparr>sq := dq_close (sq (sh s))\<rparr>\<rparr>)"
| user_cancel: "\<not> cancelled (sh s) \<Longrightarrow> scan_step t root s (s\<lparr>sh := (sh s)\<lparr>cancelled := True\<rparr>\<rparr>)"

inductive scan_steps :: "tree \<Rightarrow> string \<Rightarrow> nat \<Rightarrow> scan_state \<Rightarrow> scan_state \<Rightarrow> bool" for t root where
  refl: "scan_steps t root 0 s s"
| step: "scan_steps t root n s s1 \<Longrightarrow> scan_step t root s1 s2 \<Longrightarrow> scan_steps t root (Suc n) s s2"

text \<open>The steps of the code itself, without a cancellation from outside.\<close>

definition user_cancelled :: "scan_state \<Rightarrow> scan_state" where
  "user_cancelled s = s\<lparr>sh := (sh s)\<lparr>cancelled := True\<rparr>\<rparr>"

definition scanner_step :: "tree \<Rightarrow> string \<Rightarrow> scan_state \<Rightarrow> scan_state \<Rightarrow> bool" where
  "scanner_step t root s s' \<longleftrightarrow> scan_step t root s s' \<and> (cancelled (sh s) \<or> s' \<noteq> user_cancelled s)"

text \<open>The checks of \<open>Scan\<close> before the walk starts.\<close>

datatype scan_refusal = ScanError string | NotADirectory

definition Scan_check :: "(string, unit) result \<Rightarrow> (string, bool) result \<Rightarrow> (scan_refusal, unit) result" where
  "Scan_check opened isdir = (case opened of
       Err e \<Rightarrow> Err (ScanError e)
     | Ok _ \<Rightarrow> (case isdir of
           Err e \<Rightarrow> Err (ScanError e)
         | Ok d \<Rightarrow> if d then Ok () else Err NotADirectory))"

section \<open>The specification: the events of a whole subtree\<close>

definition kids :: "tree \<Rightarrow> string \<Rightarrow> string list" where
  "kids t d = (case t_list t d of Err _ \<Rightarrow> [] | Ok es \<Rightarrow>
     map (\<lambda>e. t_join t d (e_name e)) (filter e_isdir es))"

text \<open>All directories below \<open>d\<close> are reached within \<open>n\<close> levels.\<close>

fun bounded :: "tree \<Rightarrow> nat \<Rightarrow> string \<Rightarrow> bool" where
  "bounded t 0 d = False"
| "bounded t (Suc n) d = list_all (bounded t n) (kids t d)"

definition entry_events :: "tree \<Rightarrow> (string \<Rightarrow> event multiset) \<Rightarrow> string \<Rightarrow> entry \<Rightarrow> event multiset" where
  "entry_events t f d e = (if e_isdir e then f (t_join t d (e_name e)) else mset (file_events t d e))"

definition entries_events :: "tree \<Rightarrow> (string \<Rightarrow> event multiset) \<Rightarrow> string \<Rightarrow> entry list \<Rightarrow> event multiset" where
  "entries_events t f d es = sum_list (map (entry_events t f d) es)"

definition body_events :: "tree \<Rightarrow> (string \<Rightarrow> event multiset) \<Rightarrow> string \<Rightarrow> event multiset" where
  "body_events t f d = (case t_list t d of
       Err err \<Rightarrow> {#EvError d err#}
     | Ok es \<Rightarrow> entries_events t f d es)"

fun tree_events :: "tree \<Rightarrow> nat \<Rightarrow> string \<Rightarrow> event multiset" where
  "tree_events t 0 d = {#}"
| "tree_events t (Suc n) d = {#EvDir d#} + body_events t (tree_events t n) d"

lemma bounded_Suc: "bounded t n d \<Longrightarrow> bounded t (Suc n) d"
proof (induction n arbitrary: d)
  case (Suc n)
  then have "list_all (bounded t (Suc n)) (kids t d)" by (auto simp: list_all_iff)
  then show ?case by simp
qed simp

lemma entries_events_cong:
  assumes "\<And>e. e \<in> set es \<Longrightarrow> e_isdir e \<Longrightarrow> f (t_join t d (e_name e)) = g (t_join t d (e_name e))"
  shows "entries_events t f d es = entries_events t g d es"
  unfolding entries_events_def using assms
  by (intro arg_cong [where f = sum_list] map_cong) (auto simp: entry_events_def)

lemma body_events_cong:
  assumes "\<And>c. c \<in> set (kids t d) \<Longrightarrow> f c = g c"
  shows "body_events t f d = body_events t g d"
proof (cases "t_list t d")
  case (Inr es)
  have "entries_events t f d es = entries_events t g d es"
    by (rule entries_events_cong) (use assms Inr in \<open>auto simp: kids_def\<close>)
  with Inr show ?thesis by (simp add: body_events_def)
qed (simp add: body_events_def)

lemma tree_events_stable: "bounded t n d \<Longrightarrow> tree_events t (Suc n) d = tree_events t n d"
proof (induction n arbitrary: d)
  case (Suc n)
  have "body_events t (tree_events t (Suc n)) d = body_events t (tree_events t n) d"
    by (rule body_events_cong) (use Suc in \<open>auto simp: list_all_iff\<close>)
  then show ?case by (metis tree_events.simps(2))
qed simp

lemma tree_events_unfold:
  "bounded t n d \<Longrightarrow> tree_events t n d = {#EvDir d#} + body_events t (tree_events t n) d"
  using tree_events_stable [of t n d] by simp

lemma bounded_kids:
  assumes "bounded t n d" "t_list t d = Ok es" "e \<in> set es" "e_isdir e"
  shows "bounded t n (t_join t d (e_name e))"
proof (cases n)
  case (Suc m)
  then have "bounded t m (t_join t d (e_name e))" using assms by (auto simp: kids_def list_all_iff)
  then show ?thesis unfolding Suc by (rule bounded_Suc)
qed (use assms(1) in simp)

lemma entries_events_Cons:
  "entries_events t f d (e # es) = entry_events t f d e + entries_events t f d es"
  by (simp add: entries_events_def)

lemma entries_events_Nil [simp]: "entries_events t f d [] = {#}"
  by (simp add: entries_events_def)

section \<open>Invariants\<close>

text \<open>Directories a goroutine has counted in \<open>remaining\<close> and not yet released.\<close>

fun held :: "pc \<Rightarrow> nat" where
  "held (Popped _) = 1" | "held (Listing _) = 1" | "held (Walking _ _) = 1"
| "held (Pushing _ _ _) = 2" | "held (Reporting _) = 1" | "held Finishing = 1" | "held _ = 0"

definition main_held :: "mainpc \<Rightarrow> nat" where
  "main_held m = (if m = MPushing then 1 else 0)"

text \<open>Events that a goroutine, the queue or the main goroutine still owes.\<close>

fun owed :: "tree \<Rightarrow> nat \<Rightarrow> pc \<Rightarrow> event multiset" where
  "owed t n (Popped d) = tree_events t n d"
| "owed t n (Listing d) = body_events t (tree_events t n) d"
| "owed t n (Walking d es) = entries_events t (tree_events t n) d es"
| "owed t n (Pushing c d es) = tree_events t n c + entries_events t (tree_events t n) d es"
| "owed t n _ = {#}"

definition queue_owed :: "tree \<Rightarrow> nat \<Rightarrow> dirQueue \<Rightarrow> event multiset" where
  "queue_owed t n q = sum_list (map (tree_events t n) (dq_items q))"

definition main_owed :: "tree \<Rightarrow> nat \<Rightarrow> string \<Rightarrow> mainpc \<Rightarrow> event multiset" where
  "main_owed t n root m = (if m = MStart \<or> m = MPushing then tree_events t n root else {#})"

fun pc_ok :: "tree \<Rightarrow> nat \<Rightarrow> pc \<Rightarrow> bool" where
  "pc_ok t n (Popped d) = bounded t n d"
| "pc_ok t n (Listing d) = bounded t n d"
| "pc_ok t n (Walking d es) = (\<forall>e \<in> set es. e_isdir e \<longrightarrow> bounded t n (t_join t d (e_name e)))"
| "pc_ok t n (Pushing c d es) = (bounded t n c \<and> (\<forall>e \<in> set es. e_isdir e \<longrightarrow> bounded t n (t_join t d (e_name e))))"
| "pc_ok t n _ = True"

definition dispatched :: "mainpc \<Rightarrow> bool" where
  "dispatched m \<longleftrightarrow> m \<noteq> MStart \<and> m \<noteq> MPushing"

text \<open>
  The invariant. Counting: \<open>remaining\<close> is exactly the directories queued or in some
  goroutine's hands. Work: until a cancellation the log and what is still owed make up the
  events of the whole tree. Closing: without a cancellation the queue is closed only when
  nothing remains, and when nothing remains it is closed or about to be.
\<close>

definition counted :: "scan_state \<Rightarrow> bool" where
  "counted s \<longleftrightarrow> remaining (sh s) =
     int (length (dq_items (sq (sh s))) + sum_list (map held (ws s)) + main_held (mn s))"

definition work_conserved :: "tree \<Rightarrow> nat \<Rightarrow> string \<Rightarrow> scan_state \<Rightarrow> bool" where
  "work_conserved t n root s \<longleftrightarrow> cancelled (sh s) \<or>
     mset (log (sh s)) + queue_owed t n (sq (sh s)) + sum_list (map (owed t n) (ws s)) + main_owed t n root (mn s)
       = tree_events t n root"

definition dirs_ok :: "tree \<Rightarrow> nat \<Rightarrow> scan_state \<Rightarrow> bool" where
  "dirs_ok t n s \<longleftrightarrow> (\<forall>d \<in> set (dq_items (sq (sh s))). bounded t n d) \<and> (\<forall>p \<in> set (ws s). pc_ok t n p)"

definition closing_ok :: "scan_state \<Rightarrow> bool" where
  "closing_ok s \<longleftrightarrow> cancelled (sh s) \<or>
     ((dq_closed (sq (sh s)) \<or> Closing \<in> set (ws s)) = (remaining (sh s) = 0 \<and> dispatched (mn s)))
     \<and> (Done \<in> set (ws s) \<longrightarrow> dq_closed (sq (sh s))) \<and> fatal (sh s) = None"

lemma sum_list_swap:
  fixes f :: "'a \<Rightarrow> 'b::comm_monoid_add"
  assumes "i < length xs"
  shows "sum_list (map f (xs[i := y])) + f (xs ! i) = sum_list (map f xs) + f y"
proof -
  have "xs = take i xs @ xs ! i # drop (Suc i) xs" using assms by (simp add: id_take_nth_drop)
  then have "sum_list (map f xs) = sum_list (map f (take i xs)) + (f (xs ! i) + sum_list (map f (drop (Suc i) xs)))"
    by (metis list.simps(9) map_append sum_list.Cons sum_list.append)
  then show ?thesis using assms by (simp add: upd_conv_take_nth_drop ac_simps)
qed

lemma dq_pop_Item: "dq_pop q = (q', Item d) \<longleftrightarrow> dq_items q = d # dq_items q' \<and> dq_closed q' = dq_closed q"
  by (cases q; cases q') (auto simp: dq_pop_def split: list.splits)

lemma dq_pop_Drained: "dq_pop q = (q', Drained) \<longleftrightarrow> dq_items q = [] \<and> dq_closed q \<and> q' = q"
  by (auto simp: dq_pop_def split: list.splits)

text \<open>Each action of a walker moves weight between the queue, its own hands and the log.\<close>

lemma worker_step_counts:
  assumes "worker_step t start h p = Some (h', p')"
  shows "remaining h' - int (length (dq_items (sq h'))) - int (held p')
       = remaining h - int (length (dq_items (sq h))) - int (held p)"
  using assms
  by (cases "(t, start, h, p)" rule: worker_step.cases)
     (auto simp: dq_pop_Item dq_push_def dq_close_def reportFatal_def reportError_def scan_file_def
       Let_def split: prod.splits popped.splits option.splits if_splits sum.splits)

lemma counted_step:
  assumes "counted s" "scan_step t root s s'"
  shows "counted s'"
  using assms(2)
proof cases
  case (worker i start sh' pc')
  have "sum_list (map held ((ws s)[i := pc'])) + held (ws s ! i) = sum_list (map held (ws s)) + held pc'"
    by (rule sum_list_swap) (rule worker(2))
  then show ?thesis
    using assms(1) worker_step_counts [OF worker(3)] worker(1) by (simp add: counted_def)
qed (use assms(1) in \<open>auto simp: counted_def main_held_def dq_push_def dq_close_def split: if_splits\<close>)

lemma dirs_ok_step:
  assumes "dirs_ok t n s" "bounded t n root" "scan_step t root s s'"
  shows "dirs_ok t n s'"
  using assms(3)
proof cases
  case (worker i start sh' pc')
  have p: "pc_ok t n (ws s ! i)" using assms(1) worker(2) by (auto simp: dirs_ok_def)
  have "(\<forall>d \<in> set (dq_items (sq sh')). bounded t n d) \<and> pc_ok t n pc'"
    using worker(3) p assms(1)
    by (cases "(t, start, sh s, ws s ! i)" rule: worker_step.cases)
       (auto simp: dirs_ok_def dq_pop_Item dq_push_def dq_close_def reportFatal_def reportError_def
         scan_file_def bounded_kids Let_def split: prod.splits popped.splits option.splits if_splits sum.splits)
  then show ?thesis using assms(1) worker(1)
    by (auto simp: dirs_ok_def dest: set_update_subset_insert [THEN subsetD])
qed (use assms in \<open>auto simp: dirs_ok_def dq_push_def dq_close_def\<close>)

lemma worker_step_work:
  assumes "worker_step t start h p = Some (h', p')" "\<not> cancelled h'" "pc_ok t n p"
  shows "\<not> cancelled h \<and> mset (log h') + queue_owed t n (sq h') + owed t n p'
       = mset (log h) + queue_owed t n (sq h) + owed t n p"
  using assms
  by (cases "(t, start, h, p)" rule: worker_step.cases)
     (auto simp: dq_pop_Item dq_push_def dq_close_def reportFatal_def reportError_def scan_file_def
       queue_owed_def tree_events_unfold body_events_def entries_events_Cons entry_events_def Let_def
       split: prod.splits popped.splits option.splits if_splits sum.splits)

lemma work_conserved_step:
  assumes "work_conserved t n root s" "dirs_ok t n s" "scan_step t root s s'"
  shows "work_conserved t n root s'"
  using assms(3)
proof cases
  case (worker i start h' pc')
  show ?thesis
  proof (cases "cancelled h'")
    case False
    have "pc_ok t n (ws s ! i)" using assms(2) worker(2) by (auto simp: dirs_ok_def)
    note w = worker_step_work [OF worker(3) False this]
    have swap: "sum_list (map (owed t n) ((ws s)[i := pc'])) + owed t n (ws s ! i)
        = sum_list (map (owed t n) (ws s)) + owed t n pc'"
      by (rule sum_list_swap) (rule worker(2))
    let ?W = "sum_list (map (owed t n) (ws s))" and ?W' = "sum_list (map (owed t n) ((ws s)[i := pc']))"
      and ?L = "mset (log (sh s)) + queue_owed t n (sq (sh s))" and ?L' = "mset (log h') + queue_owed t n (sq h')"
    have "(?L' + ?W') + (owed t n (ws s ! i) + owed t n pc') = (?L' + owed t n pc') + (?W' + owed t n (ws s ! i))"
      by (simp add: ac_simps)
    also have "\<dots> = (?L + ?W) + (owed t n (ws s ! i) + owed t n pc')"
      using w swap by (simp add: ac_simps)
    finally have "?L' + ?W' = ?L + ?W" by simp
    then show ?thesis using assms(1) w worker(1) by (simp add: work_conserved_def)
  qed (simp add: work_conserved_def worker(1))
qed (use assms in \<open>auto simp: work_conserved_def main_owed_def queue_owed_def dq_push_def dq_close_def\<close>)

text \<open>Before the root is counted nothing is.\<close>

definition start_ok :: "scan_state \<Rightarrow> bool" where
  "start_ok s \<longleftrightarrow> (mn s = MStart \<longrightarrow> remaining (sh s) = 0)"

lemma held_le_remaining:
  assumes "counted s" "i < length (ws s)"
  shows "int (held (ws s ! i)) + int (main_held (mn s)) \<le> remaining (sh s)"
  using member_le_sum_list [of "held (ws s ! i)" "map held (ws s)"] assms by (simp add: counted_def)

lemma start_ok_step:
  assumes "start_ok s" "counted s" "scan_step t root s s'"
  shows "start_ok s'"
  using assms(3)
proof cases
  case (worker i start h' pc')
  have "held (ws s ! i) = 0 \<Longrightarrow> remaining h' = remaining (sh s)"
    using worker(3) by (cases "(t, start, sh s, ws s ! i)" rule: worker_step.cases)
      (auto simp: reportFatal_def split: prod.splits popped.splits option.splits if_splits)
  then show ?thesis
    using assms(1) held_le_remaining [OF assms(2) worker(2)] worker(1) by (auto simp: start_ok_def)
qed (use assms(1) in \<open>auto simp: start_ok_def\<close>)

lemma mem_update: "i < length xs \<Longrightarrow> xs ! i \<noteq> x \<Longrightarrow> x \<in> set (xs[i := y]) \<longleftrightarrow> x = y \<or> x \<in> set xs"
  by (auto simp: in_set_conv_nth nth_list_update split: if_splits)

lemma closing_ok_worker:
  assumes inv: "closing_ok s" "start_ok s" "counted s" and i: "i < length (ws s)"
    and w: "worker_step t start (sh s) (ws s ! i) = Some (h', pc')"
  shows "closing_ok (s\<lparr>sh := h', ws := (ws s)[i := pc']\<rparr>)"
proof -
  note upd = mem_update [OF i] set_update_memI [OF i]
  note held = held_le_remaining [OF inv(3) i]
  have mem: "ws s ! i \<in> set (ws s)" using i by simp
  show ?thesis
  proof (cases "(t, start, sh s, ws s ! i)" rule: worker_step.cases)
    case (9 t' st h)
    then show ?thesis using inv w held upd
      by (auto simp: closing_ok_def start_ok_def dispatched_def main_held_def Let_def split: if_splits)
  qed (use inv w held mem in \<open>auto simp: upd closing_ok_def dq_pop_Item dq_pop_Drained dq_push_def dq_close_def
        reportFatal_def reportError_def scan_file_def split: prod.splits popped.splits option.splits if_splits sum.splits\<close>)
qed

lemma closing_ok_step:
  assumes "closing_ok s" "start_ok s" "counted s" "scan_step t root s s'"
  shows "closing_ok s'"
  using assms(4)
proof cases
  case (worker i start h' pc')
  then show ?thesis using closing_ok_worker [OF assms(1-3)] by blast
qed (use assms(1-3) in \<open>auto simp: closing_ok_def start_ok_def counted_def dispatched_def main_held_def
      dq_push_def dq_close_def split: if_splits\<close>)

definition scan_inv :: "tree \<Rightarrow> nat \<Rightarrow> string \<Rightarrow> scan_state \<Rightarrow> bool" where
  "scan_inv t n root s \<longleftrightarrow> counted s \<and> dirs_ok t n s \<and> work_conserved t n root s \<and> start_ok s \<and> closing_ok s"

lemma sum_list_replicate_empty [simp]: "sum_list (replicate k {#}) = {#}"
  by (induction k) simp_all

lemma scan_inv_init: "scan_inv t n root (scan_init w)"
  by (auto simp: scan_inv_def scan_init_def counted_def dirs_ok_def work_conserved_def start_ok_def closing_ok_def
      newDirQueue_def main_held_def main_owed_def queue_owed_def dispatched_def sum_list_replicate)

lemma scan_inv_step:
  assumes "scan_inv t n root s" "bounded t n root" "scan_step t root s s'"
  shows "scan_inv t n root s'"
proof -
  have inv: "counted s" "dirs_ok t n s" "work_conserved t n root s" "start_ok s" "closing_ok s"
    using assms(1) by (simp_all add: scan_inv_def)
  show ?thesis unfolding scan_inv_def
    using counted_step [OF inv(1) assms(3)] dirs_ok_step [OF inv(2) assms(2,3)]
      work_conserved_step [OF inv(3,2) assms(3)] start_ok_step [OF inv(4,1) assms(3)]
      closing_ok_step [OF inv(5,4,1) assms(3)] by blast
qed

lemma scan_inv_steps:
  "scan_steps t root k s s' \<Longrightarrow> scan_inv t n root s \<Longrightarrow> bounded t n root \<Longrightarrow> scan_inv t n root s'"
  by (induction rule: scan_steps.induct) (auto intro: scan_inv_step)

lemma length_ws: "scan_steps t root k s s' \<Longrightarrow> length (ws s') = length (ws s)"
  by (induction rule: scan_steps.induct) (auto elim: scan_step.cases)

text \<open>When every walker has returned without a cancellation, the log is the whole tree.\<close>

lemma finished_complete:
  assumes "scan_inv t n root s" "dispatched (mn s)" "set (ws s) \<subseteq> {Done}" "ws s \<noteq> []" "\<not> cancelled (sh s)"
  shows "mset (log (sh s)) = tree_events t n root \<and> fatal (sh s) = None"
proof -
  have D: "ws s = replicate (length (ws s)) Done"
    using assms(3) by (simp add: replicate_length_same subset_singleton_iff set_empty2)
      (metis assms(3) in_mono replicate_length_same singletonD)
  then have "Done \<in> set (ws s)" using assms(3,4) by (cases "ws s") auto
  then have "remaining (sh s) = 0" "fatal (sh s) = None"
    using assms(1,5) by (auto simp: scan_inv_def closing_ok_def)
  moreover from this have "length (dq_items (sq (sh s))) = 0"
    using assms(1) unfolding scan_inv_def counted_def by linarith
  moreover have "sum_list (map (owed t n) (ws s)) = {#}" by (subst D) (simp add: sum_list_replicate)
  ultimately show ?thesis using assms(1,2,5)
    by (auto simp: scan_inv_def work_conserved_def queue_owed_def main_owed_def dispatched_def)
qed

section \<open>No deadlock\<close>

lemma worker_enabled: "p \<noteq> Done \<Longrightarrow> p \<noteq> Idle \<or> dq_items (sq h) \<noteq> [] \<or> dq_closed (sq h) \<Longrightarrow>
    \<exists>h' p'. worker_step t None h p = Some (h', p')"
  by (cases "(t, None :: string option, h, p)" rule: worker_step.cases)
     (auto simp: dq_pop_def Let_def split: list.splits)

lemma scanner_stepI: "scan_step t root s s' \<Longrightarrow> mn s' \<noteq> mn s \<or> ws s' \<noteq> ws s \<or> cancelled (sh s) \<Longrightarrow> scanner_step t root s s'"
  by (auto simp: scanner_step_def user_cancelled_def)

lemma worker_step_moves: "worker_step t start h p = Some (h', p') \<Longrightarrow> p' \<noteq> p"
  by (cases "(t, start, h, p)" rule: worker_step.cases)
     (auto simp: Let_def split: prod.splits popped.splits option.splits if_splits sum.splits)

lemma worker_progress:
  assumes "i < length (ws s)" "ws s ! i \<noteq> Done" "ws s ! i \<noteq> Idle \<or> dq_items (sq (sh s)) \<noteq> [] \<or> dq_closed (sq (sh s))"
  shows "\<exists>s'. scanner_step t root s s'"
proof -
  obtain h' p' where w: "worker_step t None (sh s) (ws s ! i) = Some (h', p')" using worker_enabled [OF assms(2,3)] by blast
  then have "(ws s)[i := p'] \<noteq> ws s" using worker_step_moves assms(1) by (metis nth_list_update_eq)
  then show ?thesis using scanner_stepI [OF scan_step.worker [OF assms(1) w]] by auto
qed

lemma scan_progress:
  assumes inv: "scan_inv t n root s" and live: "\<And>k e. mn s \<noteq> MExited k e"
  shows "\<exists>s'. scanner_step t root s s'"
proof (cases "mn s")
  case MWaiting
  show ?thesis
  proof (cases "set (ws s) \<subseteq> {Done}")
    case True
    then show ?thesis using MWaiting scanner_stepI [OF scan_step.wait_done] by fastforce
  next
    case False
    then obtain i where i: "i < length (ws s)" "ws s ! i \<noteq> Done"
      by (metis in_set_conv_nth insertI1 subsetI)
    show ?thesis
    proof (cases "\<exists>j < length (ws s). ws s ! j \<noteq> Done \<and> (ws s ! j \<noteq> Idle \<or> dq_items (sq (sh s)) \<noteq> [] \<or> dq_closed (sq (sh s)))")
      case True
      then show ?thesis using worker_progress by blast
    next
      case False
      then have idle: "\<forall>p \<in> set (ws s). held p = 0 \<and> p \<noteq> Closing"
        and q: "dq_items (sq (sh s)) = []" "\<not> dq_closed (sq (sh s))"
        using i by (fastforce simp: in_set_conv_nth)+
      then have "sum_list (map held (ws s)) = 0" by (simp add: sum_list_nonneg_eq_0_iff)
      then have "remaining (sh s) = 0" using inv q MWaiting
        by (simp add: scan_inv_def counted_def main_held_def)
      then have "cancelled (sh s)" using inv q idle MWaiting
        by (auto simp: scan_inv_def closing_ok_def dispatched_def)
      then show ?thesis using q scanner_stepI [OF scan_step.closer] by blast
    qed
  qed
next
  case MStart
  then show ?thesis using scanner_stepI [OF scan_step.dispatch_cancelled] scanner_stepI [OF scan_step.dispatch_count]
    by (cases "cancelled (sh s)") fastforce+
next
  case MPushing
  then show ?thesis using scanner_stepI [OF scan_step.dispatch_push] by fastforce
next
  case (MReturned k e)
  then show ?thesis using scanner_stepI [OF scan_step.deferred_cancel] by fastforce
qed (use live in blast)

section \<open>Termination\<close>

text \<open>A weight that every action lowers: ten units for every event still owed.\<close>

fun pc_weight :: "tree \<Rightarrow> nat \<Rightarrow> pc \<Rightarrow> nat" where
  "pc_weight t n Starting = 2"
| "pc_weight t n Idle = 1"
| "pc_weight t n (Popped d) = 10 * size (tree_events t n d) - 2"
| "pc_weight t n (Listing d) = 10 * size (body_events t (tree_events t n) d) + 7"
| "pc_weight t n (Walking d es) = 10 * size (entries_events t (tree_events t n) d es) + 5"
| "pc_weight t n (Pushing c d es) =
     10 * size (tree_events t n c) + 10 * size (entries_events t (tree_events t n) d es) + 4"
| "pc_weight t n (Reporting _) = 4"
| "pc_weight t n Finishing = 3"
| "pc_weight t n Closing = 2"
| "pc_weight t n Done = 0"

definition queue_weight :: "tree \<Rightarrow> nat \<Rightarrow> dirQueue \<Rightarrow> nat" where
  "queue_weight t n q = sum_list (map (\<lambda>d. 10 * size (tree_events t n d) - 2) (dq_items q))"

definition flag_weight :: "shared \<Rightarrow> nat" where
  "flag_weight h = of_bool (\<not> cancelled h) + of_bool (\<not> dq_closed (sq h))"

fun main_weight :: "tree \<Rightarrow> nat \<Rightarrow> string \<Rightarrow> mainpc \<Rightarrow> nat" where
  "main_weight t n root MStart = 10 * size (tree_events t n root) + 2"
| "main_weight t n root MPushing = 10 * size (tree_events t n root) + 1"
| "main_weight t n root MWaiting = 2"
| "main_weight t n root (MReturned _ _) = 1"
| "main_weight t n root (MExited _ _) = 0"

definition weight :: "tree \<Rightarrow> nat \<Rightarrow> string \<Rightarrow> scan_state \<Rightarrow> nat" where
  "weight t n root s = queue_weight t n (sq (sh s)) + flag_weight (sh s)
     + sum_list (map (pc_weight t n) (ws s)) + main_weight t n root (mn s)"

lemma size_tree_events: "bounded t n d \<Longrightarrow>
    size (tree_events t n d) = Suc (size (body_events t (tree_events t n) d))"
  by (subst tree_events_unfold) simp_all

lemma worker_step_weight:
  assumes "worker_step t start h p = Some (h', p')" "pc_ok t n p" "\<forall>d \<in> set (dq_items (sq h)). bounded t n d"
  shows "queue_weight t n (sq h') + flag_weight h' + pc_weight t n p' < queue_weight t n (sq h) + flag_weight h + pc_weight t n p"
  using assms
  by (cases "(t, start, h, p)" rule: worker_step.cases)
     (auto simp: dq_pop_Item dq_push_def dq_close_def reportFatal_def reportError_def scan_file_def flag_weight_def
       queue_weight_def size_tree_events body_events_def entries_events_Cons entry_events_def file_events_def Let_def
       split: prod.splits popped.splits option.splits if_splits sum.splits)

lemma weight_step:
  assumes "scan_inv t n root s" "bounded t n root" "scan_step t root s s'"
  shows "weight t n root s' < weight t n root s"
  using assms(3)
proof cases
  case (worker i start h' pc')
  have "queue_weight t n (sq h') + flag_weight h' + pc_weight t n pc'
      < queue_weight t n (sq (sh s)) + flag_weight (sh s) + pc_weight t n (ws s ! i)"
    by (rule worker_step_weight [OF worker(3)])
       (use assms(1) worker(2) in \<open>auto simp: scan_inv_def dirs_ok_def\<close>)
  moreover have "sum_list (map (pc_weight t n) ((ws s)[i := pc'])) + pc_weight t n (ws s ! i)
      = sum_list (map (pc_weight t n) (ws s)) + pc_weight t n pc'"
    by (rule sum_list_swap) (rule worker(2))
  ultimately show ?thesis using worker(1) by (simp add: weight_def)
qed (use assms(2) in \<open>auto simp: weight_def queue_weight_def flag_weight_def dq_push_def dq_close_def
      size_tree_events\<close>)

lemma scan_steps_weight:
  "scan_steps t root k s s' \<Longrightarrow> scan_inv t n root s \<Longrightarrow> bounded t n root \<Longrightarrow>
    k + weight t n root s' \<le> weight t n root s"
proof (induction rule: scan_steps.induct)
  case (step k s s1 s2)
  then show ?case using weight_step [of t n root s1 s2] scan_inv_steps [of t root k s s1 n] by fastforce
qed simp

lemma weight_init: "weight t n root (scan_init w) = 10 * size (tree_events t n root) + 2 * max 1 w + 4"
  by (simp add: weight_def scan_init_def queue_weight_def flag_weight_def newDirQueue_def sum_list_replicate)

section \<open>Counters and the returned values\<close>

definition stats_ok :: "shared \<Rightarrow> bool" where
  "stats_ok h \<longleftrightarrow>
     dirs h = int (length (filter (\<lambda>e. case e of EvDir _ \<Rightarrow> True | _ \<Rightarrow> False) (log h)))
   \<and> files h = int (length (filter (\<lambda>e. case e of EvFile _ \<Rightarrow> True | _ \<Rightarrow> False) (log h)))
   \<and> errs h = int (length (filter (\<lambda>e. case e of EvError _ _ \<Rightarrow> True | _ \<Rightarrow> False) (log h)))
   \<and> found h = int (length (filter (\<lambda>e. case e of EvResult r \<Rightarrow> \<not> IsArchiveFormat (r_format r) | _ \<Rightarrow> False) (log h)))"

lemma worker_step_stats:
  "worker_step t start h p = Some (h', p') \<Longrightarrow> stats_ok h \<Longrightarrow> stats_ok h'"
  by (cases "(t, start, h, p)" rule: worker_step.cases)
     (auto simp: stats_ok_def reportFatal_def reportError_def scan_file_def file_events_def Let_def
       split: prod.splits popped.splits option.splits if_splits sum.splits)

definition ret_ok :: "scan_state \<Rightarrow> bool" where
  "ret_ok s \<longleftrightarrow> stats_ok (sh s) \<and> (\<forall>k e. mn s = MReturned k e \<longrightarrow>
     set (ws s) \<subseteq> {Done} \<and> k = errs (sh s) \<and> e = fatal (sh s))"

lemma ret_ok_step:
  assumes "ret_ok s" "scan_step t root s s'"
  shows "ret_ok s'"
  using assms(2)
proof cases
  case (worker i start h' pc')
  then have "ws s ! i \<noteq> Done" by auto
  then have "\<nexists>k e. mn s = MReturned k e"
    using assms(1) worker(2) unfolding ret_ok_def by (metis nth_mem singletonD subsetD)
  then show ?thesis using assms(1) worker worker_step_stats [OF worker(3)] by (simp add: ret_ok_def)
qed (use assms(1) in \<open>auto simp: ret_ok_def stats_ok_def\<close>)

lemma ret_ok_steps: "scan_steps t root k s s' \<Longrightarrow> ret_ok s \<Longrightarrow> ret_ok s'"
  by (induction rule: scan_steps.induct) (auto intro: ret_ok_step)

lemma ret_ok_init: "ret_ok (scan_init w)"
  by (simp add: ret_ok_def scan_init_def stats_ok_def)

section \<open>Executing a schedule\<close>

text \<open>A concrete interleaving as a list of choices, for examples.\<close>

datatype choice = CWorker nat "string option" | CMain | CCloser | CCancel

fun exec1 :: "tree \<Rightarrow> string \<Rightarrow> choice \<Rightarrow> scan_state \<Rightarrow> scan_state option" where
  "exec1 t root (CWorker i start) s = (if i < length (ws s) then
     (case worker_step t start (sh s) (ws s ! i) of
        Some (sh', pc') \<Rightarrow> Some (s\<lparr>sh := sh', ws := (ws s)[i := pc']\<rparr>) | None \<Rightarrow> None) else None)"
| "exec1 t root CMain s = (case mn s of
       MStart \<Rightarrow> Some (if cancelled (sh s) then s\<lparr>mn := MWaiting\<rparr>
          else s\<lparr>sh := (sh s)\<lparr>remaining := remaining (sh s) + 1\<rparr>, mn := MPushing\<rparr>)
     | MPushing \<Rightarrow> Some (s\<lparr>sh := (sh s)\<lparr>sq := dq_push (sq (sh s)) root\<rparr>, mn := MWaiting\<rparr>)
     | MWaiting \<Rightarrow> if set (ws s) \<subseteq> {Done} then Some (s\<lparr>mn := MReturned (errs (sh s)) (fatal (sh s))\<rparr>) else None
     | MReturned n err \<Rightarrow> Some (s\<lparr>sh := (sh s)\<lparr>cancelled := True\<rparr>, mn := MExited n err\<rparr>)
     | MExited _ _ \<Rightarrow> None)"
| "exec1 t root CCloser s = (if cancelled (sh s) \<and> \<not> dq_closed (sq (sh s))
     then Some (s\<lparr>sh := (sh s)\<lparr>sq := dq_close (sq (sh s))\<rparr>\<rparr>) else None)"
| "exec1 t root CCancel s = (if \<not> cancelled (sh s) then Some (s\<lparr>sh := (sh s)\<lparr>cancelled := True\<rparr>\<rparr>) else None)"

lemma exec1_step: "exec1 t root c s = Some s' \<Longrightarrow> scan_step t root s s'"
proof (induction t root c s rule: exec1.induct)
  case (2 t root s)
  show ?case
  proof (cases "mn s")
    case MStart
    with 2 show ?thesis using scan_step.dispatch_cancelled scan_step.dispatch_count by (auto split: if_splits)
  qed (use 2 in \<open>auto intro: scan_step.intros split: if_splits\<close>)
qed (auto intro: scan_step.intros split: if_splits option.splits)

fun exec :: "tree \<Rightarrow> string \<Rightarrow> choice list \<Rightarrow> scan_state \<Rightarrow> scan_state option" where
  "exec t root [] s = Some s"
| "exec t root (c # cs) s = (case exec1 t root c s of None \<Rightarrow> None | Some s1 \<Rightarrow> exec t root cs s1)"

lemma scan_steps_trans: "scan_steps t root b s1 s2 \<Longrightarrow> scan_steps t root a s s1 \<Longrightarrow> scan_steps t root (a + b) s s2"
  by (induction rule: scan_steps.induct) (auto intro: scan_steps.step)

lemma exec_steps: "exec t root cs s = Some s' \<Longrightarrow> scan_steps t root (length cs) s s'"
proof (induction cs arbitrary: s)
  case (Cons c cs)
  then obtain s1 where "exec1 t root c s = Some s1" "exec t root cs s1 = Some s'" by (auto split: option.splits)
  then show ?case
    using Cons.IH scan_steps_trans [of t root "length cs" s1 s' 1 s]
      scan_steps.step [OF scan_steps.refl exec1_step] by fastforce
qed (simp add: scan_steps.refl)

text \<open>A root with an unreadable directory and one text file, walked by one walker.\<close>

definition demo_tree :: tree where
  "demo_tree = \<lparr>
     t_list = (\<lambda>d. if d = ''r'' then Ok [\<lparr>e_name = ''d'', e_isdir = True, e_size = 0\<rparr>,
                                      \<lparr>e_name = ''a.txt'', e_isdir = False, e_size = 9\<rparr>] else Err ''denied''),
     t_join = ftp_Join, t_env = plain_env\<rparr>"

definition demo_schedule :: "choice list" where
  "demo_schedule = [CMain, CMain] @ replicate 16 (CWorker 0 None) @ [CMain]"

lemma FormatOf_demo: "FormatOf plain_env ''a.txt'' = Some ''txt''"
proof -
  have "to_lower plain_env ''a.txt'' = ''a.txt''" by (simp add: string_eval)
  moreover have "classify ''a.txt'' = Some ''txt''" by code_simp
  ultimately show ?thesis by (simp add: FormatOf_def)
qed

lemma demo_bounded: "bounded demo_tree 2 ''r''"
  by (simp add: numeral_2_eq_2 demo_tree_def kids_def ftp_Join_def has_suffix_def)

lemma demo_run:
  "\<exists>s. exec demo_tree ''r'' demo_schedule (scan_init 1) = Some s \<and> mn s = MReturned 1 None \<and> \<not> cancelled (sh s)
     \<and> log (sh s) = [EvDir ''r'', EvFile ''a.txt'',
         EvResult \<lparr>r_path = ''r/a.txt'', r_format = ''txt'', r_size = 9\<rparr>, EvDir ''r/d'', EvError ''r/d'' ''denied'']
     \<and> reports (sh s) = [\<lparr>p_dirs = 1, p_files = 1, p_found = 1\<rparr>] \<and> dirs (sh s) = 2"
  by (simp add: demo_schedule_def scan_init_def newDirQueue_def dq_pop_def dq_push_def dq_close_def numeral_eq_Suc
     demo_tree_def reportError_def scan_file_def file_events_def FormatOf_demo ftp_Join_def has_suffix_def
     progress_of_def IsArchiveFormat_def archiveExtensions_def)

lemma demo_steps: "\<exists>s. scan_steps demo_tree ''r'' 19 (scan_init 1) s \<and> mn s = MReturned 1 None \<and> \<not> cancelled (sh s)
     \<and> last (reports (sh s)) \<noteq> progress_of (sh s)"
  using demo_run exec_steps by (fastforce simp: demo_schedule_def progress_of_def)

section \<open>Properties\<close>

text \<open>
  C11: A scan that is not cancelled visits the whole tree exactly once, whatever the number
  of walkers and however they interleave. When \<open>Scan\<close> returns, the directories counted,
  the files seen, the results reported and the unreadable directories are, with
  multiplicity, those of the tree below the root; no fatal error is returned; and the
  returned count is the number of unreadable directories.
\<close>

theorem scan_visits_whole_tree:
  assumes "bounded t n root"
    and "scan_steps t root k (scan_init w) s" "mn s = MReturned unreadable err" "\<not> cancelled (sh s)"
  shows "mset (log (sh s)) = tree_events t n root \<and> err = None
    \<and> unreadable = int (length (filter (\<lambda>e. case e of EvError _ _ \<Rightarrow> True | _ \<Rightarrow> False) (log (sh s))))"
proof -
  have inv: "scan_inv t n root s" using scan_inv_steps [OF assms(2) scan_inv_init assms(1)] .
  have ret: "ret_ok s" using ret_ok_steps [OF assms(2) ret_ok_init] .
  have "ws s \<noteq> []" using length_ws [OF assms(2)] by (auto simp: scan_init_def)
  moreover have "set (ws s) \<subseteq> {Done}" using ret assms(3) by (simp add: ret_ok_def)
  ultimately show ?thesis
    using finished_complete [OF inv _ _ _ assms(4)] assms(3) ret
    by (simp add: ret_ok_def stats_ok_def dispatched_def)
qed

theorem scan_visits_whole_tree_witness:
  "\<exists>s :: scan_state. mset (log (sh s)) = tree_events demo_tree 2 ''r'' \<and> mn s = MReturned 1 None"
proof -
  obtain s where s: "scan_steps demo_tree ''r'' 19 (scan_init 1) s" "mn s = MReturned 1 None" "\<not> cancelled (sh s)"
    using demo_steps by blast
  from scan_visits_whole_tree [OF demo_bounded s] s(2) show ?thesis by blast
qed

text \<open>
  C13: A scan always returns. On a finite tree no reachable state of the walkers, the queue
  and the main goroutine is stuck before \<open>Scan\<close> has returned, cancelled or not: some goroutine
  can act without waiting for a cancellation from outside. No
  execution is longer than ten actions per event of the tree plus two per walker plus four.
\<close>

theorem scan_terminates_without_deadlock:
  assumes "bounded t n root" "scan_steps t root k (scan_init w) s"
  shows "k \<le> 10 * size (tree_events t n root) + 2 * max 1 w + 4
    \<and> ((\<exists>u e. mn s = MExited u e) \<or> (\<exists>s'. scanner_step t root s s'))"
  using scan_steps_weight [OF assms(2) scan_inv_init assms(1)] weight_init [of t n root w]
    scan_progress [of t n root s] scan_inv_steps [OF assms(2) scan_inv_init assms(1)] by fastforce

theorem scan_terminates_without_deadlock_witness:
  "\<exists>s'. scanner_step demo_tree ''r'' (scan_init 1) s'"
  using scan_terminates_without_deadlock [OF demo_bounded scan_steps.refl, of 1]
  by (auto simp: scan_init_def)

text \<open>
  In every reachable state the counter \<open>remaining\<close> is the number of directories that
  are queued or in the hands of a goroutine, and until a cancellation the queue is closed
  (or a walker is about to close it) exactly when the root was dispatched and nothing
  remains: the queue can never close while a directory is unscanned.
\<close>

theorem remaining_counts_open_directories:
  assumes "bounded t n root" "scan_steps t root k (scan_init w) s"
  shows "remaining (sh s) = int (length (dq_items (sq (sh s))) + sum_list (map held (ws s)) + main_held (mn s))
    \<and> (cancelled (sh s) \<or> ((dq_closed (sq (sh s)) \<or> Closing \<in> set (ws s)) = (remaining (sh s) = 0 \<and> dispatched (mn s))))"
  using scan_inv_steps [OF assms(2) scan_inv_init assms(1)]
  by (auto simp: scan_inv_def counted_def closing_ok_def)

theorem remaining_counts_open_directories_witness:
  "\<exists>s :: scan_state. mn s = MReturned 1 None \<and>
     remaining (sh s) = int (length (dq_items (sq (sh s))) + sum_list (map held (ws s)) + main_held (mn s))"
proof -
  obtain s where s: "scan_steps demo_tree ''r'' 19 (scan_init 1) s" "mn s = MReturned 1 None" using demo_steps by blast
  from remaining_counts_open_directories [OF demo_bounded s(1)] s(2) show ?thesis by blast
qed

text \<open>
  The last progress report is not the final count. There is a complete, uncancelled scan
  (one walker, no interleaving) whose last report differs from the counters at return: a
  directory that cannot be listed is counted but triggers no report, so the summary that is
  built from the last report can miss it.
\<close>

theorem last_report_may_be_stale:
  "\<exists>(t :: tree) root k (s :: scan_state). bounded t 2 root \<and> scan_steps t root k (scan_init 1) s
     \<and> (\<exists>n. mn s = MReturned n None) \<and> \<not> cancelled (sh s) \<and> last (reports (sh s)) \<noteq> progress_of (sh s)"
  using demo_steps demo_bounded by blast

end
