(* ===== verification/Spool.thy ===== *)
theory Spool
  imports GoStrings
begin

text \<open>
  Model of \<open>internal/processor/spool.go\<close>: \<open>spoolBlob\<close>, the random-access view over a
  sequential stream that keeps a prefix in memory and spills the rest to a temporary file.
  The source reader is a script of read results (after its end every read is \<open>io.EOF\<close>), the
  file system a record of the outcomes of \<open>os.CreateTemp\<close> and \<open>Write\<close>. A method that never
  returns is \<open>None\<close>, a run-time panic is \<open>Err Panic\<close>.
\<close>

datatype read_status = RNil | REof | RErr string

type_synonym script = "(string \<times> read_status) list"

text \<open>A failing write stores some bytes and returns its error.\<close>

record disk =
  d_create :: "string option"
  d_write :: "nat \<Rightarrow> nat \<Rightarrow> (nat \<times> string) option"

record blob =
  b_ramCap :: int
  b_src :: script
  b_size :: int
  b_known :: bool
  b_ram :: string
  b_spill :: "string option"
  b_spillN :: nat
  b_eof :: bool
  b_srcErr :: "string option"
  b_pos :: int
  b_closed :: bool

definition spoolMemLimit :: int where "spoolMemLimit = 67108864"

definition maxInt64 :: int where "maxInt64 = 9223372036854775807"

definition blob_length :: "blob \<Rightarrow> int" where
  "blob_length b = int (length (b_ram b)) + int (b_spillN b)"

text \<open>\<open>append\<close>: memory up to the cap, the rest to the spill file.\<close>

definition spill_data :: "disk \<Rightarrow> blob \<Rightarrow> string \<Rightarrow> blob \<times> string option" where
  "spill_data d b bytes = (case (b_spill b, d_create d) of
       (None, Some err) \<Rightarrow> (b, Some err)
     | _ \<Rightarrow> (let f = (case b_spill b of None \<Rightarrow> [] | Some f \<Rightarrow> f) in
         case d_write d (length f) (length bytes) of
           Some (k, err) \<Rightarrow> (b\<lparr>b_spill := Some (f @ take k bytes)\<rparr>, Some err)
         | None \<Rightarrow> (b\<lparr>b_spill := Some (f @ bytes), b_spillN := b_spillN b + length bytes\<rparr>, None)))"

definition append_data :: "disk \<Rightarrow> blob \<Rightarrow> string \<Rightarrow> blob \<times> string option" where
  "append_data d b bytes = (let space = b_ramCap b - int (length (b_ram b)) in
     if space > 0 then
       (if int (length bytes) \<le> space then (b\<lparr>b_ram := b_ram b @ bytes\<rparr>, None)
        else spill_data d (b\<lparr>b_ram := b_ram b @ take (nat space) bytes\<rparr>) (drop (nat space) bytes))
     else spill_data d b bytes)"

text \<open>The loop of \<open>ensure\<close>, by recursion on the reads that are left.\<close>

fun pull :: "disk \<Rightarrow> int \<Rightarrow> script \<Rightarrow> blob \<Rightarrow> blob \<times> string option" where
  "pull d n [] b = (if blob_length b < n \<and> \<not> b_eof b
     then (b\<lparr>b_src := [], b_eof := True\<rparr>, b_srcErr b) else (b\<lparr>b_src := []\<rparr>, b_srcErr b))"
| "pull d n ((bytes, st) # rest) b = (if blob_length b < n \<and> \<not> b_eof b then
     (case (if bytes \<noteq> [] then append_data d b bytes else (b, None)) of
        (b1, Some err) \<Rightarrow> (b1\<lparr>b_src := rest, b_srcErr := Some err\<rparr>, Some err)
      | (b1, None) \<Rightarrow> (case st of
            REof \<Rightarrow> pull d n rest (b1\<lparr>b_eof := True\<rparr>)
          | RErr err \<Rightarrow> (b1\<lparr>b_src := rest, b_srcErr := Some err\<rparr>, Some err)
          | RNil \<Rightarrow> pull d n rest b1))
     else (b\<lparr>b_src := (bytes, st) # rest\<rparr>, b_srcErr b))"

definition ensure :: "disk \<Rightarrow> int \<Rightarrow> blob \<Rightarrow> blob \<times> string option" where
  "ensure d n b = (case b_srcErr b of
       Some err \<Rightarrow> (b, Some err)
     | None \<Rightarrow> pull d n (b_src b) b)"

definition close_blob :: "blob \<Rightarrow> blob" where
  "close_blob b = (if b_closed b then b else b\<lparr>b_closed := True, b_spill := None\<rparr>)"

definition learn_size :: "disk \<Rightarrow> blob \<Rightarrow> blob \<times> string option" where
  "learn_size d b = (if b_known b then (b, None) else
     (case ensure d maxInt64 b of
        (b1, Some err) \<Rightarrow> (b1, Some err)
      | (b1, None) \<Rightarrow> (b1\<lparr>b_size := blob_length b1, b_known := True\<rparr>, None)))"

definition newSpoolBlob :: "disk \<Rightarrow> int \<Rightarrow> script \<Rightarrow> int \<Rightarrow> (string, blob) result" where
  "newSpoolBlob d ramCap r sz = (let b = \<lparr>b_ramCap = (if ramCap \<le> 0 then spoolMemLimit else ramCap),
       b_src = r, b_size = sz, b_known = (sz \<ge> 0), b_ram = [], b_spill = None, b_spillN = 0,
       b_eof = False, b_srcErr = None, b_pos = 0, b_closed = False\<rparr> in
     case learn_size d b of
       (b1, Some err) \<Rightarrow> Err err
     | (b1, None) \<Rightarrow> Ok b1)"

definition Size :: "disk \<Rightarrow> blob \<Rightarrow> blob \<times> (string, int) result" where
  "Size d b = (case learn_size d b of
       (b1, Some err) \<Rightarrow> (b1, Err err)
     | (b1, None) \<Rightarrow> (b1, Ok (b_size b1)))"

datatype crash = Panic

text \<open>\<open>copyFrom\<close>: the bytes copied so far are the accumulator; reading a missing spill file
  copies nothing.\<close>

definition spill_read :: "blob \<Rightarrow> nat \<Rightarrow> nat \<Rightarrow> string" where
  "spill_read b so n = (case b_spill b of None \<Rightarrow> [] | Some f \<Rightarrow> take n (drop so f))"

partial_function (option) copy_loop :: "blob \<Rightarrow> int \<Rightarrow> nat \<Rightarrow> string \<Rightarrow> (crash, string) result option" where
  "copy_loop b off n acc = (if length acc \<ge> n then Some (Ok acc)
     else let pos = off + int (length acc) in
       if pos \<ge> blob_length b then Some (Ok acc)
       else if pos < int (length (b_ram b)) then
         (if pos < 0 then Some (Err Panic)
          else copy_loop b off n (acc @ take (n - length acc) (drop (nat pos) (b_ram b))))
       else copy_loop b off n
              (acc @ spill_read b (nat (pos - int (length (b_ram b)))) (n - length acc)))"

datatype io_error = EOF | SrcError string | InvalidWhence | NegativePosition

definition readAtLocked :: "disk \<Rightarrow> blob \<Rightarrow> nat \<Rightarrow> int \<Rightarrow> (crash, blob \<times> string \<times> io_error option) result option" where
  "readAtLocked d b n off = (let (b1, err) = ensure d (wrap64 (off + int n)) b in
     case copy_loop b1 off n [] of
       None \<Rightarrow> None
     | Some (Err p) \<Rightarrow> Some (Err p)
     | Some (Ok bytes) \<Rightarrow> Some (Ok (b1, bytes,
         if length bytes < n then (case err of Some e \<Rightarrow> Some (SrcError e) | None \<Rightarrow> Some EOF) else None)))"

definition ReadAt :: "disk \<Rightarrow> blob \<Rightarrow> nat \<Rightarrow> int \<Rightarrow> (crash, blob \<times> string \<times> io_error option) result option" where
  "ReadAt d b n off = (if n = 0 then Some (Ok (b, [], None)) else readAtLocked d b n off)"

definition Read :: "disk \<Rightarrow> blob \<Rightarrow> nat \<Rightarrow> (crash, blob \<times> string \<times> io_error option) result option" where
  "Read d b n = (if n = 0 then Some (Ok (b, [], None)) else
     (case readAtLocked d b n (b_pos b) of
        Some (Ok (b1, bytes, err)) \<Rightarrow> Some (Ok (b1\<lparr>b_pos := wrap64 (b_pos b1 + int (length bytes))\<rparr>, bytes, err))
      | r \<Rightarrow> r))"

definition Seek :: "disk \<Rightarrow> blob \<Rightarrow> int \<Rightarrow> int \<Rightarrow> blob \<times> (io_error, int) result" where
  "Seek d b offset whence = (
     let target = (if whence = 0 then (b, Ok offset)
         else if whence = 1 then (b, Ok (wrap64 (b_pos b + offset)))
         else if whence = 2 then (case learn_size d b of
             (b1, Some err) \<Rightarrow> (b1, Err (SrcError err))
           | (b1, None) \<Rightarrow> (b1, Ok (wrap64 (b_size b1 + offset))))
         else (b, Err InvalidWhence)) in
     case target of
       (b1, Err e) \<Rightarrow> (b1, Err e)
     | (b1, Ok newPos) \<Rightarrow> if newPos < 0 then (b1, Err NegativePosition)
         else (b1\<lparr>b_pos := newPos\<rparr>, Ok newPos))"

definition Tell :: "blob \<Rightarrow> int" where "Tell b = b_pos b"

section \<open>The content of a stream\<close>

text \<open>What a source delivers in total, and the error it ends with, if any.\<close>

fun script_bytes :: "script \<Rightarrow> string" where
  "script_bytes [] = []"
| "script_bytes ((bytes, RNil) # rest) = bytes @ script_bytes rest"
| "script_bytes ((bytes, _) # rest) = bytes"

fun script_err :: "script \<Rightarrow> string option" where
  "script_err [] = None"
| "script_err ((bytes, RNil) # rest) = script_err rest"
| "script_err ((bytes, REof) # rest) = None"
| "script_err ((bytes, RErr e) # rest) = Some e"

definition spilled :: "blob \<Rightarrow> string" where
  "spilled b = (case b_spill b of None \<Rightarrow> [] | Some f \<Rightarrow> f)"

definition buffered :: "blob \<Rightarrow> string" where
  "buffered b = b_ram b @ take (b_spillN b) (spilled b)"

text \<open>
  The representation invariant against the stream's content \<open>S\<close> and final error \<open>E\<close>: what is
  buffered is a prefix of \<open>S\<close>, the rest is still in the source, memory stays below the cap
  and is full before anything is spilled.
\<close>

definition store_ok :: "blob \<Rightarrow> bool" where
  "store_ok b \<longleftrightarrow> 0 < b_ramCap b \<and> int (length (b_ram b)) \<le> b_ramCap b
     \<and> (spilled b \<noteq> [] \<longrightarrow> int (length (b_ram b)) = b_ramCap b) \<and> b_spillN b \<le> length (spilled b)"

definition blob_inv :: "string \<Rightarrow> string option \<Rightarrow> blob \<Rightarrow> bool" where
  "blob_inv S E b \<longleftrightarrow> store_ok b \<and> prefix (b_ram b @ spilled b) S
     \<and> (b_srcErr b = None \<longrightarrow> b_spillN b = length (spilled b)
         \<and> (if b_eof b then b_ram b @ spilled b = S \<and> E = None
            else b_ram b @ spilled b @ script_bytes (b_src b) = S \<and> script_err (b_src b) = E))"

lemma prefix_take_drop: "prefix x (drop k y) \<Longrightarrow> prefix (take k y @ x) y"
  by (metis append_take_drop_id same_prefix_prefix)

lemma spill_data_ok:
  assumes "spill_data d b bytes = (b', err)" "store_ok b" "b_spillN b = length (spilled b)"
    "int (length (b_ram b)) = b_ramCap b"
  shows "store_ok b' \<and> b_ram b' = b_ram b \<and> prefix (spilled b') (spilled b @ bytes)
    \<and> (err = None \<longrightarrow> spilled b' = spilled b @ bytes \<and> b_spillN b' = length (spilled b'))"
  using assms
  by (auto simp: spill_data_def store_ok_def spilled_def Let_def take_is_prefix split: option.splits)

lemma append_data_ok:
  assumes "append_data d b bytes = (b', err)" "store_ok b" "b_spillN b = length (spilled b)"
  shows "store_ok b' \<and> prefix (b_ram b' @ spilled b') (b_ram b @ spilled b @ bytes)
    \<and> (err = None \<longrightarrow> b_ram b' @ spilled b' = b_ram b @ spilled b @ bytes \<and> b_spillN b' = length (spilled b'))"
proof -
  let ?space = "b_ramCap b - int (length (b_ram b))"
  consider "?space \<le> 0" | "?space > 0" "int (length bytes) \<le> ?space" | "?space > 0" "int (length bytes) > ?space"
    by linarith
  then show ?thesis
  proof cases
    case 1
    then have "int (length (b_ram b)) = b_ramCap b" using assms(2) by (simp add: store_ok_def)
    moreover have "spill_data d b bytes = (b', err)" using 1 assms(1) by (simp add: append_data_def)
    ultimately show ?thesis using spill_data_ok [of d b bytes b' err] assms(2,3) by auto
  next
    case 2
    then have "spilled b = []" "b' = b\<lparr>b_ram := b_ram b @ bytes\<rparr>" "err = None"
      using assms by (auto simp: store_ok_def append_data_def)
    then show ?thesis using 2 assms(2,3) by (auto simp: store_ok_def spilled_def)
  next
    case 3
    let ?b = "b\<lparr>b_ram := b_ram b @ take (nat ?space) bytes\<rparr>"
    have e: "spilled b = []" using 3 assms(2) by (auto simp: store_ok_def)
    have "spill_data d ?b (drop (nat ?space) bytes) = (b', err)" using 3 assms(1)
      by (simp add: append_data_def Let_def)
    moreover have "int (length (b_ram ?b)) = b_ramCap ?b" using 3 by simp
    moreover from this have "store_ok ?b" using assms(2) e by (auto simp: store_ok_def spilled_def)
    ultimately show ?thesis
      using spill_data_ok [of d ?b "drop (nat ?space) bytes" b' err] assms(3) e
      by (auto simp: spilled_def intro: prefix_take_drop)
  qed
qed

lemma append_data_frame:
  assumes "append_data d b bytes = (b', err)"
  shows "b_eof b' = b_eof b \<and> b_srcErr b' = b_srcErr b \<and> b_ramCap b' = b_ramCap b
    \<and> b_pos b' = b_pos b \<and> b_closed b' = b_closed b \<and> b_known b' = b_known b \<and> b_size b' = b_size b"
  using assms by (auto simp: append_data_def spill_data_def Let_def split: option.splits if_splits prod.splits)

text \<open>One block appended to the blob: what is stored stays a prefix of the stream.\<close>

lemma append_block_inv:
  assumes "(if bytes \<noteq> [] then append_data d b bytes else (b, None)) = (b1, e1)"
    "blob_inv S E (b\<lparr>b_src := (bytes, st) # rest\<rparr>)" "b_srcErr b = None" "\<not> b_eof b"
  shows "store_ok b1" "prefix (b_ram b1 @ spilled b1) S"
    "e1 = None \<Longrightarrow> b_ram b1 @ spilled b1 = b_ram b @ spilled b @ bytes \<and> b_spillN b1 = length (spilled b1)"
    "b_ram b @ spilled b @ script_bytes ((bytes, st) # rest) = S" "script_err ((bytes, st) # rest) = E"
    "b_eof b1 = b_eof b \<and> b_srcErr b1 = b_srcErr b \<and> b_ramCap b1 = b_ramCap b
      \<and> b_pos b1 = b_pos b \<and> b_closed b1 = b_closed b \<and> b_known b1 = b_known b \<and> b_size b1 = b_size b"
proof -
  have ok: "store_ok b" and n: "b_spillN b = length (spilled b)"
    using assms(2-4) by (auto simp: blob_inv_def store_ok_def spilled_def)
  show S: "b_ram b @ spilled b @ script_bytes ((bytes, st) # rest) = S" "script_err ((bytes, st) # rest) = E"
    using assms(2-4) by (auto simp: blob_inv_def store_ok_def spilled_def)
  have b1: "store_ok b1 \<and> prefix (b_ram b1 @ spilled b1) (b_ram b @ spilled b @ bytes)
    \<and> (e1 = None \<longrightarrow> b_ram b1 @ spilled b1 = b_ram b @ spilled b @ bytes \<and> b_spillN b1 = length (spilled b1))"
    using assms(1) ok n append_data_ok [of d b bytes b1 e1] by (auto split: if_splits)
  then show "store_ok b1" by blast
  show "b_ram b1 @ spilled b1 = b_ram b @ spilled b @ bytes \<and> b_spillN b1 = length (spilled b1)" if "e1 = None"
    using b1 that by blast
  have "prefix (b_ram b @ spilled b @ bytes) S" using S(1) by (cases st) (auto simp: prefix_def)
  then show "prefix (b_ram b1 @ spilled b1) S" using b1 prefix_order.trans by blast
  show "b_eof b1 = b_eof b \<and> b_srcErr b1 = b_srcErr b \<and> b_ramCap b1 = b_ramCap b
      \<and> b_pos b1 = b_pos b \<and> b_closed b1 = b_closed b \<and> b_known b1 = b_known b \<and> b_size b1 = b_size b"
    using assms(1) append_data_frame [of d b bytes b1 e1] by (auto split: if_splits)
qed

lemma pull_inv:
  assumes "pull d n r b = (b', err)" "blob_inv S E (b\<lparr>b_src := r\<rparr>)" "b_srcErr b = None"
  shows "blob_inv S E b' \<and> err = b_srcErr b' \<and> b_pos b' = b_pos b \<and> b_closed b' = b_closed b
    \<and> b_known b' = b_known b \<and> b_size b' = b_size b \<and> b_ramCap b' = b_ramCap b
    \<and> (err = None \<longrightarrow> blob_length b' < n \<longrightarrow> b_eof b')"
  using assms
proof (induction d n r b rule: pull.induct)
  case (1 d n b)
  then show ?case by (auto simp: blob_inv_def store_ok_def spilled_def blob_length_def split: if_splits)
next
  case (2 d n bytes st rest b)
  show ?case
  proof (cases "blob_length b < n \<and> \<not> b_eof b")
    case False
    then show ?thesis using 2(3-) by (auto simp: blob_length_def)
  next
    case True
    obtain b1 e1 where a: "(if bytes \<noteq> [] then append_data d b bytes else (b, None)) = (b1, e1)" by fastforce
    have eof: "\<not> b_eof b" using True by simp
    note inv = append_block_inv [OF a 2(4,5) eof]
    note b1 = inv(1,3) and P = inv(2) and S = inv(4,5) and fr = inv(6)
    show ?thesis
    proof (cases e1)
      case (Some err1)
      then have "b' = b1\<lparr>b_src := rest, b_srcErr := Some err1\<rparr>" "err = Some err1"
        using 2(3) True a by auto
      then show ?thesis using fr P b1 by (auto simp: blob_inv_def store_ok_def spilled_def)
    next
      case None
      show ?thesis
      proof (cases st)
        case RNil
        have "blob_inv S E (b1\<lparr>b_src := rest\<rparr>)"
          using None RNil P b1 fr S True 2(5) by (auto simp: blob_inv_def store_ok_def spilled_def)
        then show ?thesis using 2(1) [OF True a [symmetric] None RNil] 2(3,5) True a None RNil fr by auto
      next
        case REof
        have "blob_inv S E (b1\<lparr>b_eof := True, b_src := rest\<rparr>)"
          using None REof P b1 fr S True 2(5) by (auto simp: blob_inv_def store_ok_def spilled_def)
        then show ?thesis using 2(2) [OF True a [symmetric] None REof] 2(3,5) True a None REof fr by auto
      next
        case (RErr er)
        then have "b' = b1\<lparr>b_src := rest, b_srcErr := Some er\<rparr>" "err = Some er"
          using 2(3) True a None RErr by auto
        then show ?thesis using fr P b1 by (auto simp: blob_inv_def store_ok_def spilled_def)
      qed
    qed
  qed
qed

lemma ensure_inv:
  assumes "ensure d n b = (b', err)" "blob_inv S E b"
  shows "blob_inv S E b' \<and> err = b_srcErr b' \<and> b_pos b' = b_pos b \<and> b_closed b' = b_closed b
    \<and> b_known b' = b_known b \<and> b_size b' = b_size b \<and> b_ramCap b' = b_ramCap b
    \<and> (err = None \<longrightarrow> blob_length b' < n \<longrightarrow> b_eof b')"
proof (cases "b_srcErr b")
  case None
  then show ?thesis using assms pull_inv [of d n "b_src b" b b' err S E] by (simp add: ensure_def)
qed (use assms in \<open>auto simp: ensure_def\<close>)

section \<open>Copying out\<close>

text \<open>The loop returns the longest piece available at the offset.\<close>

lemma blob_length_inv: "blob_inv S E b \<Longrightarrow> blob_length b \<le> int (length (b_ram b @ spilled b))"
  by (auto simp: blob_inv_def store_ok_def blob_length_def)

lemma spill_read_eq: "spill_read b so n = take n (drop so (spilled b))"
  by (simp add: spill_read_def spilled_def split: option.splits)

lemma prefix_extend: "prefix acc D \<Longrightarrow> prefix p (drop (length acc) D) \<Longrightarrow> prefix (acc @ p) D"
  by (auto simp: prefix_def)

lemma copy_loop_terminates:
  assumes "blob_inv S E b" "0 \<le> off" "prefix acc (drop (nat off) (b_ram b @ spilled b))"
  shows "\<exists>out. copy_loop b off n acc = Some (Ok out)
    \<and> prefix out (drop (nat off) (b_ram b @ spilled b)) \<and> (length acc \<le> n \<longrightarrow> length out \<le> n)
    \<and> (length out \<ge> n \<or> blob_length b \<le> off + int (length out))"
  using assms(3)
proof (induction "n - length acc" arbitrary: acc rule: less_induct)
  case less
  let ?C = "b_ram b @ spilled b" and ?pos = "off + int (length acc)"
  have nat: "nat ?pos = length acc + nat off" using assms(2) by simp
  consider "length acc \<ge> n \<or> ?pos \<ge> blob_length b"
    | "length acc < n" "?pos < blob_length b" "?pos < int (length (b_ram b))"
    | "length acc < n" "?pos < blob_length b" "?pos \<ge> int (length (b_ram b))" by linarith
  then show ?case
  proof cases
    case 1
    then show ?thesis using less.prems by (subst copy_loop.simps) auto
  next
    case 2
    let ?p = "take (n - length acc) (drop (nat ?pos) (b_ram b))"
    have step: "copy_loop b off n acc = copy_loop b off n (acc @ ?p)"
      using 2 assms(2) by (subst copy_loop.simps) (simp add: Let_def)
    have "prefix ?p (drop (length acc) (drop (nat off) ?C))"
      using 2 nat by (simp add: take_is_prefix prefix_prefix)
    then have acc: "prefix (acc @ ?p) (drop (nat off) ?C)" by (rule prefix_extend [OF less.prems])
    have "nat ?pos < length (b_ram b)" using 2 assms(2) by linarith
    then have "n - length (acc @ ?p) < n - length acc" "length (acc @ ?p) \<le> n" using 2 by auto
    then show ?thesis using less.hyps [OF _ acc] step by simp
  next
    case 3
    let ?p = "spill_read b (nat (?pos - int (length (b_ram b)))) (n - length acc)"
    have so: "nat (?pos - int (length (b_ram b))) = nat ?pos - length (b_ram b)" by (simp add: nat_diff_distrib')
    have step: "copy_loop b off n acc = copy_loop b off n (acc @ ?p)"
      using 3 by (subst copy_loop.simps) (simp add: Let_def)
    have "length (b_ram b) \<le> nat ?pos" using 3 assms(2) by linarith
    then have "drop (length acc) (drop (nat off) ?C) = drop (nat ?pos - length (b_ram b)) (spilled b)"
      unfolding drop_drop by (simp add: nat add.commute)
    then have "prefix ?p (drop (length acc) (drop (nat off) ?C))"
      by (simp only: so spill_read_eq take_is_prefix)
    then have acc: "prefix (acc @ ?p) (drop (nat off) ?C)" by (rule prefix_extend [OF less.prems])
    have "nat ?pos < length (b_ram b) + length (spilled b)"
      using 3 assms(2) blob_length_inv [OF assms(1)] by auto
    then have "nat ?pos - length (b_ram b) < length (spilled b)"
      using \<open>length (b_ram b) \<le> nat ?pos\<close> by linarith
    then have plen: "0 < length ?p" "length ?p \<le> n - length acc" using 3(1) by (simp_all add: spill_read_eq so)
    then have "n - length (acc @ ?p) < n - length acc" "length (acc @ ?p) \<le> n"
      unfolding length_append using plen 3(1) by linarith+
    then show ?thesis using less.hyps [OF _ acc] step by simp
  qed
qed

section \<open>Refinement of the stream\<close>

text \<open>
  \<open>ReadAt\<close> and \<open>Read\<close> on an open blob behave like reads of the content \<open>S\<close>: the bytes are
  those of \<open>S\<close> at the offset, fewer than asked for only at the end of \<open>S\<close> or after an error.
\<close>

definition read_spec :: "string \<Rightarrow> string option \<Rightarrow> nat \<Rightarrow> int \<Rightarrow> string \<Rightarrow> io_error option \<Rightarrow> bool" where
  "read_spec S E n off bytes err \<longleftrightarrow> prefix bytes (drop (nat off) S) \<and> length bytes \<le> n
     \<and> (err = None \<longrightarrow> bytes = take n (drop (nat off) S) \<and> length bytes = n)
     \<and> (err = Some EOF \<longrightarrow> bytes = take n (drop (nat off) S) \<and> length bytes < n \<and> E = None)
     \<and> (err \<noteq> None \<longrightarrow> length bytes < n)"

lemma prefix_full: "prefix x y \<Longrightarrow> length y \<le> length x \<Longrightarrow> x = y"
  by (auto simp: prefix_def)

lemma prefix_take_eq: "prefix x y \<Longrightarrow> x = take (length x) y"
  by (auto simp: prefix_def)

lemma readAtLocked_refines:
  assumes inv: "blob_inv S E b" and off: "0 \<le> off" "off + int n < 2 ^ 63"
  shows "\<exists>b' bytes err. readAtLocked d b n off = Some (Ok (b', bytes, err)) \<and> blob_inv S E b'
    \<and> read_spec S E n off bytes err \<and> b_pos b' = b_pos b \<and> b_closed b' = b_closed b"
proof -
  have w: "wrap64 (off + int n) = off + int n" using off by (intro wrap64_id) auto
  obtain b1 e where en: "ensure d (off + int n) b = (b1, e)" by fastforce
  note e = ensure_inv [OF en inv]
  then have inv1: "blob_inv S E b1" by simp
  obtain out where out: "copy_loop b1 off n [] = Some (Ok out)"
    "prefix out (drop (nat off) (b_ram b1 @ spilled b1))" "length out \<le> n"
    "length out \<ge> n \<or> blob_length b1 \<le> off + int (length out)"
    using copy_loop_terminates [OF inv1 off(1), of "[]" n] by auto
  obtain rest where S: "S = (b_ram b1 @ spilled b1) @ rest" using inv1 by (auto simp: blob_inv_def prefix_def)
  have "prefix out (drop (nat off) S)"
    using out(2) unfolding S drop_append [of _ "b_ram b1 @ spilled b1"] by (rule prefix_prefix)
  moreover have "out = take n (drop (nat off) S) \<and> E = None" if short: "length out < n" and "e = None"
  proof -
    have "b_eof b1" "b_srcErr b1 = None" using e out(4) that by auto
    with inv1 have full: "b_ram b1 @ spilled b1 = S" "E = None" "blob_length b1 = int (length S)"
      by (auto simp: blob_inv_def blob_length_def)
    have "length (drop (nat off) S) \<le> length out" using out(4) short full(3) off(1) by simp
    then have "out = drop (nat off) S" using prefix_full [OF \<open>prefix out (drop (nat off) S)\<close>] by blast
    then show ?thesis using short full(2) by simp
  qed
  moreover have "out = take n (drop (nat off) S)" if "\<not> length out < n"
    using prefix_take_eq [OF \<open>prefix out (drop (nat off) S)\<close>] that out(3) by (metis le_antisym not_less)
  ultimately have "read_spec S E n off out
      (if length out < n then (case e of Some x \<Rightarrow> Some (SrcError x) | None \<Rightarrow> Some EOF) else None)"
    using out(3) by (auto simp: read_spec_def split: option.splits)
  then show ?thesis using en e out(1) by (cases "length out < n"; cases e) (simp_all add: readAtLocked_def w)
qed

lemma learn_size_inv:
  assumes "learn_size d b = (b', err)" "blob_inv S E b" "b_known b \<longrightarrow> b_size b = int (length S)"
    "int (length S) < maxInt64"
  shows "blob_inv S E b' \<and> b_pos b' = b_pos b \<and> b_closed b' = b_closed b
    \<and> (err = None \<longrightarrow> b_known b' \<and> b_size b' = int (length S) \<and> (b_known b \<or> E = None))
    \<and> (err \<noteq> None \<longrightarrow> \<not> b_known b')"
proof (cases "b_known b")
  case False
  obtain b1 e where en: "ensure d maxInt64 b = (b1, e)" by fastforce
  note e = ensure_inv [OF en assms(2)]
  show ?thesis
  proof (cases e)
    case None
    have "length (b_ram b1 @ spilled b1) \<le> length S" using e unfolding blob_inv_def by (blast dest: prefix_length_le)
    moreover have "blob_length b1 \<le> int (length (b_ram b1 @ spilled b1))" using e by (blast intro: blob_length_inv)
    ultimately have "blob_length b1 < maxInt64" using assms(4) by linarith
    with e None have eof: "b_eof b1" "b_srcErr b1 = None" by auto
    with e have "b_ram b1 @ spilled b1 = S" "E = None" "blob_length b1 = int (length S)"
      by (auto simp: blob_inv_def blob_length_def)
    moreover have "b' = b1\<lparr>b_size := blob_length b1, b_known := True\<rparr>" "err = None"
      using assms(1) False en None by (auto simp: learn_size_def)
    ultimately show ?thesis using e by (auto simp: blob_inv_def store_ok_def spilled_def)
  next
    case (Some x)
    then have "b' = b1" "err = e" using assms(1) False en by (simp_all add: learn_size_def)
    moreover have "b_srcErr b1 = Some x" using e Some by simp
    ultimately show ?thesis using e False by simp
  qed
qed (use assms in \<open>auto simp: learn_size_def\<close>)

lemma blob_inv_init:
  assumes "0 < cap"
  shows "blob_inv (script_bytes r) (script_err r) \<lparr>b_ramCap = cap,
       b_src = r, b_size = sz, b_known = (sz \<ge> 0), b_ram = [], b_spill = None, b_spillN = 0,
       b_eof = False, b_srcErr = None, b_pos = 0, b_closed = False\<rparr>"
  using assms by (simp add: blob_inv_def store_ok_def spilled_def)

text \<open>How much one call takes from the source.\<close>

lemma append_data_length:
  "append_data d b bytes = (b', err) \<Longrightarrow> blob_length b' \<le> blob_length b + int (length bytes)"
  by (auto simp: append_data_def spill_data_def blob_length_def Let_def split: option.splits if_splits)

lemma pull_bound:
  assumes "pull d n r b = (b', err)" "\<forall>c \<in> set r. length (fst c) \<le> 32768"
  shows "blob_length b' \<le> max (blob_length b) (n + 32767)"
  using assms
proof (induction d n r b rule: pull.induct)
  case (2 d n bytes st rest b)
  show ?case
  proof (cases "blob_length b < n \<and> \<not> b_eof b")
    case False
    then show ?thesis using 2(3) by (auto simp: blob_length_def)
  next
    case True
    obtain b1 e1 where a: "(if bytes \<noteq> [] then append_data d b bytes else (b, None)) = (b1, e1)" by fastforce
    have l: "blob_length b1 \<le> n + 32767"
      using a append_data_length [of d b bytes b1 e1] True 2(4) by (auto split: if_splits)
    show ?thesis
    proof (cases e1)
      case (Some err1)
      then show ?thesis using 2(3) True a l by (auto simp: blob_length_def)
    next
      case None
      show ?thesis
        using 2(1) [OF True a [symmetric] None] 2(2) [OF True a [symmetric] None] 2(3,4) True a None l
        by (cases st) (auto simp: blob_length_def)
    qed
  qed
qed (auto simp: blob_length_def split: if_splits)

lemma blob_inv_pos [simp]: "blob_inv S E (b\<lparr>b_pos := x\<rparr>) = blob_inv S E b"
proof -
  have "spilled (b\<lparr>b_pos := x\<rparr>) = spilled b" by (simp add: spilled_def)
  then show ?thesis by (simp add: blob_inv_def store_ok_def)
qed

text \<open>Reading the same stream piece by piece: the bytes joined together, and the errors of the calls.\<close>

fun reads :: "disk \<Rightarrow> blob \<Rightarrow> nat list \<Rightarrow> (blob \<times> string \<times> io_error option list) option" where
  "reads d b [] = Some (b, [], [])"
| "reads d b (n # ns) = (case Read d b n of
       Some (Ok (b1, bytes, err)) \<Rightarrow> (case reads d b1 ns of
           Some (b2, tail, errs) \<Rightarrow> Some (b2, bytes @ tail, err # errs) | None \<Rightarrow> None)
     | _ \<Rightarrow> None)"

text \<open>Calls that report no failure: success or the end of the stream.\<close>

definition clean_end :: "io_error option \<Rightarrow> bool" where
  "clean_end err \<longleftrightarrow> err = None \<or> err = Some EOF"

definition healthy :: "disk \<Rightarrow> bool" where
  "healthy d \<longleftrightarrow> d_create d = None \<and> d_write d = (\<lambda>_ _. None)"

lemma append_healthy: "healthy d \<Longrightarrow> append_data d b bytes = (b1, e1) \<Longrightarrow> e1 = None"
  by (auto simp: healthy_def append_data_def spill_data_def Let_def split: if_splits option.splits)

lemma pull_healthy:
  assumes "healthy d" "pull d n r b = (b', err)" "b_srcErr b = None" "b_eof b \<or> script_err r = None"
  shows "err = None"
  using assms
proof (induction d n r b rule: pull.induct)
  case (2 d n bytes st rest b)
  show ?case
  proof (cases "blob_length b < n \<and> \<not> b_eof b")
    case True
    obtain b1 e1 where a: "(if bytes \<noteq> [] then append_data d b bytes else (b, None)) = (b1, e1)" by fastforce
    have e1: "e1 = None" using a append_healthy [OF 2(3)] by (auto split: if_splits)
    have fr: "b_srcErr b1 = None" "b_eof b1 = b_eof b" using a append_data_frame [of d b bytes b1 e1] 2(5) by (auto split: if_splits)
    show ?thesis
    proof (cases st)
      case RNil
      then show ?thesis using 2(1) [OF True a [symmetric] e1 RNil 2(3)] 2(4,6) True a e1 fr by auto
    next
      case REof
      then show ?thesis using 2(2) [OF True a [symmetric] e1 REof 2(3)] 2(4) True a e1 fr by auto
    qed (use 2(6) True in simp)
  qed (use 2(4,5) in auto)
qed (auto split: if_splits)

lemma ensure_healthy:
  assumes "healthy d" "ensure d n b = (b', err)" "blob_inv S None b" "b_srcErr b = None"
  shows "err = None \<and> b_srcErr b' = None"
proof -
  have "b_eof b \<or> script_err (b_src b) = None" using assms(3,4) by (auto simp: blob_inv_def split: if_splits)
  then have "err = None" using assms(2,4) pull_healthy [OF assms(1)] by (simp add: ensure_def)
  then show ?thesis using ensure_inv [OF assms(2,3)] by simp
qed

lemma Read_refines:
  assumes inv: "blob_inv S E b" and pos: "0 \<le> b_pos b" "b_pos b + int n < 2 ^ 63"
  shows "\<exists>b' bytes err. Read d b n = Some (Ok (b', bytes, err)) \<and> blob_inv S E b'
    \<and> prefix bytes (drop (nat (b_pos b)) S) \<and> b_pos b' = b_pos b + int (length bytes) \<and> length bytes \<le> n
    \<and> (clean_end err \<longrightarrow> bytes = take n (drop (nat (b_pos b)) S))
    \<and> (healthy d \<and> E = None \<and> b_srcErr b = None \<longrightarrow> clean_end err \<and> b_srcErr b' = None)"
proof (cases "n = 0")
  case False
  obtain b' bytes err where r: "readAtLocked d b n (b_pos b) = Some (Ok (b', bytes, err))" "blob_inv S E b'"
    "read_spec S E n (b_pos b) bytes err" "b_pos b' = b_pos b"
    using readAtLocked_refines [OF inv pos] by blast
  have "wrap64 (b_pos b + int (length bytes)) = b_pos b + int (length bytes)"
    using r(3) pos by (intro wrap64_id) (auto simp: read_spec_def)
  moreover have "blob_inv S E (b'\<lparr>b_pos := x\<rparr>)" for x using r(2) by simp
  moreover have "clean_end err \<and> b_srcErr b' = None" if "healthy d" "E = None" "b_srcErr b = None"
  proof -
    obtain b1 e where en: "ensure d (wrap64 (b_pos b + int n)) b = (b1, e)" by fastforce
    have "e = None \<and> b_srcErr b1 = None" using ensure_healthy [OF that(1) en] inv that(2,3) by simp
    then show ?thesis using r(1) en by (auto simp: readAtLocked_def clean_end_def split: option.splits sum.splits)
  qed
  ultimately show ?thesis using r False by (auto simp: Read_def read_spec_def clean_end_def)
qed (simp add: Read_def inv clean_end_def)

lemma reads_prefix:
  "blob_inv S E b \<Longrightarrow> 0 \<le> b_pos b \<Longrightarrow> b_pos b + int (sum_list ns) < 2 ^ 63 \<Longrightarrow>
    \<exists>b' bytes errs. reads d b ns = Some (b', bytes, errs) \<and> prefix bytes (drop (nat (b_pos b)) S)
      \<and> b_pos b' = b_pos b + int (length bytes) \<and> blob_inv S E b'
      \<and> (list_all clean_end errs \<longrightarrow> bytes = take (sum_list ns) (drop (nat (b_pos b)) S))
      \<and> (healthy d \<and> E = None \<and> b_srcErr b = None \<longrightarrow> list_all clean_end errs)"
proof (induction ns arbitrary: b)
  case (Cons n ns)
  let ?rest = "drop (nat (b_pos b)) S"
  obtain b1 bytes err where r: "Read d b n = Some (Ok (b1, bytes, err))" "blob_inv S E b1"
    "prefix bytes ?rest" "b_pos b1 = b_pos b + int (length bytes)" "length bytes \<le> n"
    "clean_end err \<longrightarrow> bytes = take n ?rest" "healthy d \<and> E = None \<and> b_srcErr b = None \<longrightarrow> clean_end err \<and> b_srcErr b1 = None"
    using Read_refines [of S E b n d] Cons.prems by auto
  obtain b2 tail errs where m: "reads d b1 ns = Some (b2, tail, errs)" "prefix tail (drop (nat (b_pos b1)) S)"
    "b_pos b2 = b_pos b1 + int (length tail)" "blob_inv S E b2"
    "list_all clean_end errs \<longrightarrow> tail = take (sum_list ns) (drop (nat (b_pos b1)) S)"
    "healthy d \<and> E = None \<and> b_srcErr b1 = None \<longrightarrow> list_all clean_end errs"
    using Cons.IH [OF r(2)] r(4,5) Cons.prems by auto
  have pos: "drop (nat (b_pos b1)) S = drop (length bytes) ?rest" using r(4) Cons.prems(2) by (simp add: nat_add_distrib add.commute)
  then have "prefix (bytes @ tail) ?rest" using prefix_extend [OF r(3)] m(2) by (simp add: add.commute)
  moreover have "bytes @ tail = take (n + sum_list ns) ?rest" if "clean_end err" "list_all clean_end errs"
  proof (cases "n \<le> length ?rest")
    case True
    then have "length bytes = n" using r(6) that(1) by simp
    then show ?thesis using r(6) m(5) that by (simp add: pos take_add)
  next
    case False
    then have "bytes = ?rest" using r(6) that(1) by simp
    then show ?thesis using False m(5) that(2) by (simp add: pos)
  qed
  ultimately show ?case using r m by simp
qed simp

section \<open>After Close\<close>

lemma copy_loop_stuck:
  assumes "copy_loop b off n acc = Some r"
    "b_spill b = None" "length acc < n" "off + int (length acc) < blob_length b"
    "int (length (b_ram b)) \<le> off + int (length acc)"
  shows False
proof -
  let ?P = "\<lambda>b off n acc r. \<not> (b_spill b = None \<and> length acc < n
    \<and> off + int (length acc) < blob_length b \<and> int (length (b_ram b)) \<le> off + int (length acc))"
  have "?P b off n acc r"
  proof (rule copy_loop.raw_induct [where P = ?P, OF _ assms(1)], rule notI)
    fix f and b :: blob and off n acc r
    assume IH: "\<And>b off n acc r. f b off n acc = Some r \<Longrightarrow> ?P b off n acc r"
      and body: "(if n \<le> length acc then Some (Ok acc)
        else let pos = off + int (length acc)
             in if blob_length b \<le> pos then Some (Ok acc)
                else if pos < int (length (b_ram b))
                     then if pos < 0 then Some (Err Panic)
                          else f b off n (acc @ take (n - length acc) (drop (nat pos) (b_ram b)))
                     else f b off n (acc @ spill_read b (nat (pos - int (length (b_ram b)))) (n - length acc))) = Some r"
      and stuck: "b_spill b = None \<and> length acc < n
        \<and> off + int (length acc) < blob_length b \<and> int (length (b_ram b)) \<le> off + int (length acc)"
    then have "f b off n acc = Some r" by (simp add: spill_read_def Let_def)
    from IH [OF this] stuck show False by blast
  qed
  then show ?thesis using assms(2-) by blast
qed

lemma ensure_buffered: "n \<le> blob_length b \<Longrightarrow> b_srcErr b = None \<Longrightarrow> ensure d n b = (b, None)"
  by (cases "(d, n, b_src b, b)" rule: pull.cases) (simp_all add: ensure_def)

section \<open>Properties\<close>

text \<open>
  C14: Random access over a sequential stream is faithful. On every well-formed open blob
  over a stream with content S, \<open>ReadAt\<close> at a non-negative offset returns (it neither hangs
  nor panics), keeps the blob well formed over the same content, leaves the cursor alone,
  and yields the bytes of S at that offset: all that were asked for, or fewer with \<open>EOF\<close> only
  at the end of S, or a true prefix of them with the error of the source or the disk.
\<close>

theorem ReadAt_refines_stream:
  assumes "blob_inv S E b" "0 \<le> off" "off + int n < 2 ^ 63" "0 < n"
  shows "\<exists>b' bytes err. ReadAt d b n off = Some (Ok (b', bytes, err)) \<and> blob_inv S E b'
    \<and> b_pos b' = b_pos b \<and> prefix bytes (drop (nat off) S)
    \<and> (err = None \<longrightarrow> bytes = take n (drop (nat off) S) \<and> length bytes = n)
    \<and> (err = Some EOF \<longrightarrow> bytes = take n (drop (nat off) S) \<and> length bytes < n \<and> E = None)"
  using readAtLocked_refines [OF assms(1-3), of d] assms(4) by (auto simp: ReadAt_def read_spec_def)

definition demo_script :: script where
  "demo_script = [(''abc'', RNil), (''defg'', RNil), (''h'', REof)]"

definition demo_disk :: disk where
  "demo_disk = \<lparr>d_create = None, d_write = \<lambda>_ _. None\<rparr>"

definition demo_blob :: blob where
  "demo_blob = \<lparr>b_ramCap = 4, b_src = demo_script, b_size = 8, b_known = True, b_ram = [], b_spill = None,
     b_spillN = 0, b_eof = False, b_srcErr = None, b_pos = 0, b_closed = False\<rparr>"

lemma demo_blob_inv: "blob_inv ''abcdefgh'' None demo_blob"
  using blob_inv_init [of 4 demo_script 8] by (simp add: demo_blob_def demo_script_def)

theorem ReadAt_refines_stream_witness:
  "\<exists>b' bytes err. ReadAt demo_disk demo_blob 3 2 = Some (Ok (b', bytes, err)) \<and> prefix bytes ''cdefgh''"
  using ReadAt_refines_stream [OF demo_blob_inv, of 2 3 demo_disk] by auto

text \<open>
  Building a blob establishes that view. \<open>newSpoolBlob\<close> succeeds exactly when the size
  is given or the whole source could be buffered; the blob is then well formed over the
  source's content with a positive memory cap, and for an unknown size the reported size is
  the exact length of the content, which ended without an error.
\<close>

theorem newSpoolBlob_establishes:
  assumes "newSpoolBlob d cap r sz = Ok b" "int (length (script_bytes r)) < maxInt64"
  shows "blob_inv (script_bytes r) (script_err r) b \<and> b_pos b = 0 \<and> b_known b
    \<and> b_ramCap b = (if cap \<le> 0 then 67108864 else cap)
    \<and> (if sz < 0 then b_size b = int (length (script_bytes r)) \<and> script_err r = None else b_size b = sz)"
proof -
  let ?cap = "if cap \<le> 0 then spoolMemLimit else cap"
  let ?b = "\<lparr>b_ramCap = ?cap, b_src = r, b_size = sz, b_known = (sz \<ge> 0), b_ram = [], b_spill = None,
    b_spillN = 0, b_eof = False, b_srcErr = None, b_pos = 0, b_closed = False\<rparr>"
  have inv: "blob_inv (script_bytes r) (script_err r) ?b"
    by (rule blob_inv_init) (simp add: spoolMemLimit_def)
  have l: "learn_size d ?b = (b, None)"
    using assms(1) by (auto simp: newSpoolBlob_def Let_def split: prod.splits option.splits)
  show ?thesis
  proof (cases "sz < 0")
    case True
    have "b_ramCap b = ?cap"
      using l True ensure_inv [OF _ inv, of d maxInt64] by (auto simp: learn_size_def split: prod.splits option.splits)
    then show ?thesis using learn_size_inv [OF l inv] True assms(2) by (auto simp: spoolMemLimit_def)
  next
    case False
    then have "b = ?b" using l by (simp add: learn_size_def)
    then show ?thesis using inv False by (simp add: spoolMemLimit_def)
  qed
qed

theorem newSpoolBlob_establishes_witness:
  "\<exists>b. newSpoolBlob demo_disk 4 demo_script (- 1) = Ok b \<and> b_size b = 8"
proof -
  obtain b where b: "newSpoolBlob demo_disk 4 demo_script (- 1) = Ok b"
    by (simp add: newSpoolBlob_def learn_size_def ensure_def demo_script_def demo_disk_def blob_length_def
      append_data_def spill_data_def maxInt64_def Let_def)
  from newSpoolBlob_establishes [OF b] b show ?thesis by (simp add: demo_script_def maxInt64_def)
qed

text \<open>
  C15: Sequential reads deliver the stream. From a non-negative cursor any sequence of \<open>Read\<close> calls returns, and its
  bytes joined together are what the stream has from the cursor on, with nothing skipped or repeated: the cursor
  advances by exactly that many bytes, and as long as no call reports an error other than \<open>EOF\<close>, they are all that was
  asked for together, or everything up to the end of the stream. When the source ends without an error and the disk
  works, no call reports such an error, so the whole stream is delivered, from memory and from the spill file.
\<close>

theorem reads_deliver_stream:
  assumes "blob_inv S E b" "0 \<le> b_pos b" "b_pos b + int (sum_list ns) < 2 ^ 63"
  shows "\<exists>b' bytes errs. reads d b ns = Some (b', bytes, errs) \<and> prefix bytes (drop (nat (b_pos b)) S)
    \<and> b_pos b' = b_pos b + int (length bytes)
    \<and> (list_all (\<lambda>err. err = None \<or> err = Some EOF) errs \<longrightarrow> bytes = take (sum_list ns) (drop (nat (b_pos b)) S))
    \<and> (healthy d \<and> E = None \<and> b_srcErr b = None \<longrightarrow> list_all (\<lambda>err. err = None \<or> err = Some EOF) errs)"
proof -
  have "clean_end = (\<lambda>err. err = None \<or> err = Some EOF)" by (rule ext) (simp add: clean_end_def)
  then show ?thesis using reads_prefix [OF assms, of d] by auto
qed

theorem reads_deliver_stream_witness:
  "\<exists>b' errs. reads demo_disk demo_blob [2, 5, 4] = Some (b', ''abcdefgh'', errs)"
  using reads_deliver_stream [OF demo_blob_inv, of "[2, 5, 4]" demo_disk] by (auto simp: demo_blob_def demo_disk_def healthy_def)

text \<open>
  Reading a prefix is cheap. With a reader that fills at most the 32 KiB buffer per call,
  making n bytes available pulls at most 32767 bytes beyond n from the source, and never
  holds more than the memory cap in memory.
\<close>

theorem ensure_is_lazy:
  assumes "ensure d n b = (b', err)" "\<forall>c \<in> set (b_src b). length (fst c) \<le> 32768" "blob_inv S E b"
  shows "blob_length b' \<le> max (blob_length b) (n + 32767) \<and> int (length (b_ram b')) \<le> b_ramCap b'"
proof
  show "blob_length b' \<le> max (blob_length b) (n + 32767)"
    using assms(1) pull_bound [OF _ assms(2), of d n b b' err] by (auto simp: ensure_def split: option.splits)
  show "int (length (b_ram b')) \<le> b_ramCap b'"
    using ensure_inv [OF assms(1,3)] by (auto simp: blob_inv_def store_ok_def)
qed

theorem ensure_is_lazy_witness:
  "blob_length (fst (ensure demo_disk 4 demo_blob)) \<le> 32771"
  using ensure_is_lazy [OF _ _ demo_blob_inv, of demo_disk 4 "fst (ensure demo_disk 4 demo_blob)"
      "snd (ensure demo_disk 4 demo_blob)"]
  by (simp add: demo_blob_def demo_script_def blob_length_def)

text \<open>
  \<open>Close\<close> is not a safe end of life for a spilled blob. Once content was spilled and the
  blob is closed, a \<open>ReadAt\<close> of buffered bytes beyond the memory part never returns: the
  copy loop keeps asking the removed spill file and makes no progress (while holding the
  mutex).
\<close>

theorem read_after_close_never_returns:
  assumes "b_srcErr b = None" "\<not> b_closed b" "0 < n"
    "int (length (b_ram b)) \<le> off" "off + int n \<le> blob_length b" "blob_length b < 2 ^ 63"
  shows "ReadAt d (close_blob b) n off = None"
proof -
  let ?b = "close_blob b"
  have c: "b_spill ?b = None" "b_srcErr ?b = None" "b_ram ?b = b_ram b" "blob_length ?b = blob_length b"
    using assms(1,2) by (simp_all add: close_blob_def blob_length_def)
  have w: "wrap64 (off + int n) = off + int n" using assms by (intro wrap64_id) auto
  have "copy_loop ?b off n [] = None"
    using copy_loop_stuck [of ?b off n "[]"] c assms by (cases "copy_loop ?b off n []") auto
  then show ?thesis
    using assms(3,5) c ensure_buffered [of "off + int n" ?b d] by (simp add: ReadAt_def readAtLocked_def w)
qed

theorem read_after_close_never_returns_witness:
  "ReadAt demo_disk (close_blob (fst (ensure demo_disk 7 demo_blob))) 2 5 = None"
proof -
  let ?b = "fst (ensure demo_disk 7 demo_blob)"
  have b: "?b = \<lparr>b_ramCap = 4, b_src = [(''h'', REof)], b_size = 8, b_known = True, b_ram = ''abcd'',
      b_spill = Some ''efg'', b_spillN = 3, b_eof = False, b_srcErr = None, b_pos = 0, b_closed = False\<rparr>"
    by (simp add: demo_blob_def ensure_def demo_script_def demo_disk_def blob_length_def
      append_data_def spill_data_def Let_def)
  show ?thesis by (rule read_after_close_never_returns) (simp_all add: b blob_length_def)
qed

end
