(* ===== verification/Database.thy ===== *)
theory Database
  imports Identifier
begin

text \<open>
  The SQLite database of a scan, as far as the scan and the consolidation use it: the
  tables of \<open>internal/database/migrations\<close> and the statements of
  \<open>internal/database/queries\<close>, with their uniqueness, CHECK and foreign key constraints.
  A statement runs in a transaction: it sees the tables as left by the previous one, and it
  may also fail for an I/O reason, which is the parameter \<open>fault\<close>, indexed by the number of
  the statement in the transaction. \<open>with_tx\<close> is \<open>tx.WithTx\<close>: an error rolls everything back.
\<close>

record bf_row =
  bf_id :: int
  bf_hash :: string
  bf_path :: string
  bf_title :: string
  bf_minhash :: string
  bf_description :: string
  bf_publisher :: string
  bf_date :: string
  bf_series :: string
  bf_series_index :: string

record book_row =
  bk_id :: int
  bk_title :: string
  bk_description :: string
  bk_series :: string
  bk_series_index :: string

record ident_row =
  ir_owner :: int
  ir_scheme :: string
  ir_value :: string
  ir_source :: source
  ir_ordinal :: int

record pub_row =
  pb_book :: int
  pb_publisher :: string
  pb_date :: string
  pb_ordinal :: int

record run_row =
  rn_id :: int
  rn_root :: string
  rn_mode :: string
  rn_status :: string
  rn_started :: int
  rn_finished :: "int option"

record db =
  t_authors :: "(int \<times> string) list"
  t_files :: "bf_row list"
  t_file_authors :: "(int \<times> int) list"
  t_file_subjects :: "(int \<times> string \<times> int) list"
  t_file_languages :: "(int \<times> string \<times> int) list"
  t_file_idents :: "ident_row list"
  t_duplicates :: "(string \<times> string) list"
  t_books :: "book_row list"
  t_book_files :: "(int \<times> int) list"
  t_book_authors :: "(int \<times> int) list"
  t_buckets :: "(int \<times> int \<times> int) list"
  t_book_subjects :: "(int \<times> string \<times> int) list"
  t_book_languages :: "(int \<times> string \<times> int) list"
  t_book_idents :: "ident_row list"
  t_book_pubs :: "pub_row list"
  t_scan_runs :: "run_row list"
  seq_authors :: int
  seq_files :: int
  seq_books :: int
  seq_runs :: int

datatype db_error = IOError string | UniqueViolation string | ForeignKey string | CheckFailed string | NoRows

type_synonym faults = "nat \<Rightarrow> string option"

type_synonym 'a stmt = "faults \<Rightarrow> db \<times> nat \<Rightarrow> (db_error, 'a) result \<times> (db \<times> nat)"

section \<open>Statements in a transaction\<close>

definition ret :: "'a \<Rightarrow> 'a stmt" where
  "ret x = (\<lambda>fl st. (Ok x, st))"

definition throw :: "db_error \<Rightarrow> 'a stmt" where
  "throw e = (\<lambda>fl st. (Err e, st))"

definition bind :: "'a stmt \<Rightarrow> ('a \<Rightarrow> 'b stmt) \<Rightarrow> 'b stmt" where
  "bind m k = (\<lambda>fl st. case m fl st of (Ok x, st') \<Rightarrow> k x fl st' | (Err e, st') \<Rightarrow> (Err e, st'))"

text \<open>\<open>x, err := m\<close>, with the error handed to the continuation.\<close>

definition attempt :: "'a stmt \<Rightarrow> ((db_error, 'a) result \<Rightarrow> 'b stmt) \<Rightarrow> 'b stmt" where
  "attempt m k = (\<lambda>fl st. case m fl st of (r, st') \<Rightarrow> k r fl st')"

text \<open>One SQL statement: it fails with an I/O error, or runs \<open>f\<close> on the tables; a statement
  that fails leaves them unchanged.\<close>

definition sql :: "(db \<Rightarrow> (db_error, 'a \<times> db) result) \<Rightarrow> 'a stmt" where
  "sql f = (\<lambda>fl (d, n). case fl n of
       Some msg \<Rightarrow> (Err (IOError msg), (d, Suc n))
     | None \<Rightarrow> (case f d of Err e \<Rightarrow> (Err e, (d, Suc n)) | Ok (x, d') \<Rightarrow> (Ok x, (d', Suc n))))"

fun for_each :: "('a \<Rightarrow> unit stmt) \<Rightarrow> 'a list \<Rightarrow> unit stmt" where
  "for_each f [] = ret ()"
| "for_each f (x # xs) = bind (f x) (\<lambda>_. for_each f xs)"

fun collect :: "('a \<Rightarrow> 'b stmt) \<Rightarrow> 'a list \<Rightarrow> 'b list stmt" where
  "collect f [] = ret []"
| "collect f (x # xs) = bind (f x) (\<lambda>y. bind (collect f xs) (\<lambda>ys. ret (y # ys)))"

text \<open>\<open>WithTx\<close> outside a transaction: begin and commit may fail too.\<close>

definition with_tx :: "string option \<Rightarrow> string option \<Rightarrow> unit stmt \<Rightarrow> faults \<Rightarrow> db \<Rightarrow> db_error option \<times> db" where
  "with_tx begin_err commit_err body fl d = (case begin_err of
       Some e \<Rightarrow> (Some (IOError e), d)
     | None \<Rightarrow> (case body fl (d, 0) of
         (Err e, _) \<Rightarrow> (Some e, d)
       | (Ok _, (d', _)) \<Rightarrow> (case commit_err of Some e \<Rightarrow> (Some (IOError e), d) | None \<Rightarrow> (None, d'))))"

section \<open>Queries\<close>

definition file_exists :: "db \<Rightarrow> int \<Rightarrow> bool" where
  "file_exists d i \<longleftrightarrow> i \<in> bf_id ` set (t_files d)"

definition author_exists :: "db \<Rightarrow> int \<Rightarrow> bool" where
  "author_exists d i \<longleftrightarrow> i \<in> fst ` set (t_authors d)"

definition book_exists :: "db \<Rightarrow> int \<Rightarrow> bool" where
  "book_exists d i \<longleftrightarrow> i \<in> bk_id ` set (t_books d)"

definition GetAuthorByName :: "string \<Rightarrow> int stmt" where
  "GetAuthorByName name = sql (\<lambda>d. case find (\<lambda>a. snd a = name) (t_authors d) of
       Some a \<Rightarrow> Ok (fst a, d) | None \<Rightarrow> Err NoRows)"

definition CreateAuthor :: "string \<Rightarrow> unit stmt" where
  "CreateAuthor name = sql (\<lambda>d. Ok ((), if name \<in> snd ` set (t_authors d) then d
     else d\<lparr>t_authors := t_authors d @ [(seq_authors d + 1, name)], seq_authors := seq_authors d + 1\<rparr>))"

definition CreateBookFile :: "bf_row \<Rightarrow> int stmt" where
  "CreateBookFile row = sql (\<lambda>d.
     if bf_hash row \<in> bf_hash ` set (t_files d) then Err NoRows
     else if bf_path row \<in> bf_path ` set (t_files d) then Err (UniqueViolation ''book_files.path'')
     else let i = seq_files d + 1 in
       Ok (i, d\<lparr>t_files := t_files d @ [row\<lparr>bf_id := i\<rparr>], seq_files := i\<rparr>))"

definition CreateBookFileDuplicate :: "string \<Rightarrow> string \<Rightarrow> unit stmt" where
  "CreateBookFileDuplicate hash path = sql (\<lambda>d.
     if (hash, path) \<in> set (t_duplicates d) then Ok ((), d)
     else if hash \<notin> bf_hash ` set (t_files d) then Err (ForeignKey ''book_file_duplicates'')
     else Ok ((), d\<lparr>t_duplicates := t_duplicates d @ [(hash, path)]\<rparr>))"

definition CreateBookFileAuthor :: "int \<Rightarrow> int \<Rightarrow> unit stmt" where
  "CreateBookFileAuthor f a = sql (\<lambda>d.
     if (f, a) \<in> set (t_file_authors d) then Err (UniqueViolation ''book_file_authors'')
     else if \<not> file_exists d f \<or> \<not> author_exists d a then Err (ForeignKey ''book_file_authors'')
     else Ok ((), d\<lparr>t_file_authors := t_file_authors d @ [(f, a)]\<rparr>))"

definition CreateBookFileSubject :: "int \<Rightarrow> string \<Rightarrow> int \<Rightarrow> unit stmt" where
  "CreateBookFileSubject f name ordinal = sql (\<lambda>d.
     if \<exists>r \<in> set (t_file_subjects d). fst r = f \<and> fst (snd r) = name then Ok ((), d)
     else if \<not> file_exists d f then Err (ForeignKey ''book_file_subjects'')
     else Ok ((), d\<lparr>t_file_subjects := t_file_subjects d @ [(f, name, ordinal)]\<rparr>))"

definition CreateBookFileLanguage :: "int \<Rightarrow> string \<Rightarrow> int \<Rightarrow> unit stmt" where
  "CreateBookFileLanguage f name ordinal = sql (\<lambda>d.
     if \<exists>r \<in> set (t_file_languages d). fst r = f \<and> fst (snd r) = name then Ok ((), d)
     else if \<not> file_exists d f then Err (ForeignKey ''book_file_languages'')
     else Ok ((), d\<lparr>t_file_languages := t_file_languages d @ [(f, name, ordinal)]\<rparr>))"

definition CreateBookFileIdentifier :: "ident_row \<Rightarrow> unit stmt" where
  "CreateBookFileIdentifier row = sql (\<lambda>d.
     if \<not> valid_source (ir_source row) then Err (CheckFailed ''book_file_identifiers.source'')
     else if \<exists>r \<in> set (t_file_idents d). ir_owner r = ir_owner row \<and> ir_scheme r = ir_scheme row \<and> ir_value r = ir_value row
       then Ok ((), d)
     else if \<not> file_exists d (ir_owner row) then Err (ForeignKey ''book_file_identifiers'')
     else Ok ((), d\<lparr>t_file_idents := t_file_idents d @ [row]\<rparr>))"

definition GetBookFileByPath :: "db \<Rightarrow> string \<Rightarrow> bf_row option" where
  "GetBookFileByPath d path = find (\<lambda>r. bf_path r = path) (t_files d)"

definition GetBookFileDuplicateByPath :: "db \<Rightarrow> string \<Rightarrow> (string \<times> string) option" where
  "GetBookFileDuplicateByPath d path = find (\<lambda>r. snd r = path) (t_duplicates d)"

text \<open>\<open>FindCandidateMinHashesByBand\<close>: the order of the rows is not specified, the callers
  collect them in a map.\<close>

definition candidates_by_band :: "db \<Rightarrow> int \<Rightarrow> int \<Rightarrow> (int \<times> string) list" where
  "candidates_by_band d idx hash = concat (map (\<lambda>(i, h, f).
     if i = idx \<and> h = hash then map (\<lambda>r. (bf_id r, bf_minhash r)) (filter (\<lambda>r. bf_id r = f) (t_files d)) else [])
     (t_buckets d))"

definition FindCandidateMinHashesByBand :: "int \<Rightarrow> int \<Rightarrow> (int \<times> string) list stmt" where
  "FindCandidateMinHashesByBand idx hash = sql (\<lambda>d. Ok (candidates_by_band d idx hash, d))"

definition GetBookIDByBookFileID :: "int \<Rightarrow> int stmt" where
  "GetBookIDByBookFileID f = sql (\<lambda>d. case find (\<lambda>r. snd r = f) (t_book_files d) of
       Some r \<Rightarrow> Ok (fst r, d) | None \<Rightarrow> Err NoRows)"

definition CreateBook :: "string \<Rightarrow> int stmt" where
  "CreateBook title = sql (\<lambda>d. let i = seq_books d + 1 in
     Ok (i, d\<lparr>t_books := t_books d @ [\<lparr>bk_id = i, bk_title = title, bk_description = [], bk_series = [], bk_series_index = []\<rparr>],
              seq_books := i\<rparr>))"

definition CreateBookBookFile :: "int \<Rightarrow> int \<Rightarrow> unit stmt" where
  "CreateBookBookFile b f = sql (\<lambda>d.
     if (b, f) \<in> set (t_book_files d) then Ok ((), d)
     else if \<not> book_exists d b \<or> \<not> file_exists d f then Err (ForeignKey ''book_book_files'')
     else Ok ((), d\<lparr>t_book_files := t_book_files d @ [(b, f)]\<rparr>))"

definition CreateBookAuthor :: "int \<Rightarrow> int \<Rightarrow> unit stmt" where
  "CreateBookAuthor b a = sql (\<lambda>d.
     if (b, a) \<in> set (t_book_authors d) then Ok ((), d)
     else if \<not> book_exists d b \<or> \<not> author_exists d a then Err (ForeignKey ''book_authors'')
     else Ok ((), d\<lparr>t_book_authors := t_book_authors d @ [(b, a)]\<rparr>))"

definition CreateLSHBucket :: "int \<Rightarrow> int \<Rightarrow> int \<Rightarrow> unit stmt" where
  "CreateLSHBucket idx hash f = sql (\<lambda>d.
     if (idx, hash, f) \<in> set (t_buckets d) then Ok ((), d)
     else if \<not> file_exists d f then Err (ForeignKey ''book_file_lsh_buckets'')
     else Ok ((), d\<lparr>t_buckets := t_buckets d @ [(idx, hash, f)]\<rparr>))"

text \<open>\<open>database.Open\<close> on a new file, and \<open>database.Clear\<close>: every table is emptied, the
  AUTOINCREMENT counters are kept.\<close>

definition empty_db :: db where
  "empty_db = \<lparr>t_authors = [], t_files = [], t_file_authors = [], t_file_subjects = [], t_file_languages = [],
     t_file_idents = [], t_duplicates = [], t_books = [], t_book_files = [], t_book_authors = [], t_buckets = [],
     t_book_subjects = [], t_book_languages = [], t_book_idents = [], t_book_pubs = [], t_scan_runs = [],
     seq_authors = 0, seq_files = 0, seq_books = 0, seq_runs = 0\<rparr>"

definition Clear :: "faults \<Rightarrow> string option \<Rightarrow> string option \<Rightarrow> db \<Rightarrow> db_error option \<times> db" where
  "Clear fl begin_err commit_err d = with_tx begin_err commit_err
     (for_each (\<lambda>upd. sql (\<lambda>d. Ok ((), upd d)))
       [t_buckets_update (\<lambda>_. []), t_book_files_update (\<lambda>_. []), t_book_authors_update (\<lambda>_. []),
        t_book_idents_update (\<lambda>_. []), t_book_languages_update (\<lambda>_. []), t_book_subjects_update (\<lambda>_. []),
        t_book_pubs_update (\<lambda>_. []),
        t_duplicates_update (\<lambda>_. []), t_file_authors_update (\<lambda>_. []), t_file_idents_update (\<lambda>_. []),
        t_file_languages_update (\<lambda>_. []), t_file_subjects_update (\<lambda>_. []), t_files_update (\<lambda>_. []),
        t_books_update (\<lambda>_. []), t_authors_update (\<lambda>_. []), t_scan_runs_update (\<lambda>_. [])]) fl d"

section \<open>Laws of transactions\<close>

lemma sql_cases:
  "sql f fl (d, n) = (r, (d', n')) \<Longrightarrow>
     (\<exists>e. r = Err e \<and> d' = d) \<or> (\<exists>x. r = Ok x \<and> fl n = None \<and> f d = Ok (x, d'))"
  by (auto simp: sql_def split: option.splits sum.splits prod.splits)

lemma sql_Ok: "sql f fl (d, n) = (Ok x, (d', n')) \<longleftrightarrow> fl n = None \<and> f d = Ok (x, d') \<and> n' = Suc n"
  by (auto simp: sql_def split: option.splits sum.splits prod.splits)

lemma bind_Ok: "bind m k fl st = (Ok y, st2) \<longleftrightarrow> (\<exists>x st1. m fl st = (Ok x, st1) \<and> k x fl st1 = (Ok y, st2))"
  by (auto simp: bind_def split: sum.splits prod.splits)

lemma attempt_Ok: "attempt m k fl st = (Ok y, st2) \<longleftrightarrow> (\<exists>r st1. m fl st = (r, st1) \<and> k r fl st1 = (Ok y, st2))"
  by (auto simp: attempt_def split: prod.splits)

lemma ret_Ok [simp]: "ret x fl st = (Ok y, st2) \<longleftrightarrow> y = x \<and> st2 = st"
  by (auto simp: ret_def)

lemma throw_Ok [simp]: "throw e fl st \<noteq> (Ok y, st2)"
  by (simp add: throw_def)

text \<open>What every statement keeps, a loop over statements keeps.\<close>

lemma for_each_keeps:
  assumes "\<And>x d n d' n'. x \<in> set xs \<Longrightarrow> P d \<Longrightarrow> f x fl (d, n) = (Ok (), (d', n')) \<Longrightarrow> P d'"
    and "P d" "for_each f xs fl (d, n) = (Ok (), (d', n'))"
  shows "P d'"
  using assms
proof (induction xs arbitrary: d n)
  case (Cons x xs)
  then obtain d1 n1 where "f x fl (d, n) = (Ok (), (d1, n1))" "for_each f xs fl (d1, n1) = (Ok (), (d', n'))"
    by (auto simp: bind_Ok)
  then show ?case using Cons by (metis list.set_intros)
qed simp

lemma with_tx_error: "with_tx b c body fl d = (Some e, d') \<Longrightarrow> d' = d"
  by (auto simp: with_tx_def split: option.splits sum.splits prod.splits)

lemma with_tx_ok: "with_tx b c body fl d = (None, d') \<longleftrightarrow> b = None \<and> c = None \<and> (\<exists>n. body fl (d, 0) = (Ok (), (d', n)))"
  by (auto simp: with_tx_def split: option.splits sum.splits prod.splits)

end
