(* ===== verification/Ingest.thy ===== *)
theory Ingest
  imports Database Lsh Formats Complex_Main
begin

text \<open>
  Model of the storing half of \<open>internal/processor/scan.go\<close>: the transaction of
  \<open>parseEbook\<close> that records one parsed file, its authors and metadata, its LSH buckets and
  the book it belongs to. The MinHash similarity \<open>tools.Jaccard\<close> and the iteration order of
  Go maps are parameters (\<open>jac\<close>, \<open>ord\<close>).
\<close>

record metadata =
  md_authors :: "string list"
  md_title :: string
  md_description :: string
  md_subjects :: "string list"
  md_languages :: "string list"
  md_idents :: "ident list"
  md_publisher :: string
  md_date :: string
  md_series :: string
  md_series_index :: string
  md_hash :: string
  md_minhash :: "u64 list"

type_synonym similarity = "u64 list \<Rightarrow> u64 list \<Rightarrow> real"
type_synonym map_order = "(int \<times> string) list \<Rightarrow> (int \<times> string) list"

definition MinSimilarityThreshold :: real where "MinSimilarityThreshold = 3 / 4"

section \<open>The steps of the transaction\<close>

text \<open>The author of a name, created when missing.\<close>

definition ensureAuthor :: "string \<Rightarrow> int stmt" where
  "ensureAuthor name = attempt (GetAuthorByName name) (\<lambda>r. case r of
       Ok a \<Rightarrow> ret a
     | Err e \<Rightarrow> if e = NoRows then bind (CreateAuthor name) (\<lambda>_. GetAuthorByName name) else throw e)"

fun number :: "int \<Rightarrow> 'a list \<Rightarrow> (int \<times> 'a) list" where
  "number i [] = []"
| "number i (x # xs) = (i, x) # number (i + 1) xs"

definition storeBookFileMetadata :: "int \<Rightarrow> metadata \<Rightarrow> unit stmt" where
  "storeBookFileMetadata f md =
     bind (for_each (\<lambda>(i, name). CreateBookFileSubject f name i) (number 0 (md_subjects md))) (\<lambda>_.
     bind (for_each (\<lambda>(i, name). CreateBookFileLanguage f name i) (number 0 (md_languages md))) (\<lambda>_.
     for_each (\<lambda>(i, x). CreateBookFileIdentifier \<lparr>ir_owner = f, ir_scheme = id_scheme x, ir_value = id_value x,
         ir_source = id_source x, ir_ordinal = i\<rparr>) (number 0 (md_idents md))))"

definition file_row :: "string \<Rightarrow> metadata \<Rightarrow> bf_row" where
  "file_row path md = \<lparr>bf_id = 0, bf_hash = md_hash md, bf_path = path, bf_title = md_title md,
     bf_minhash = encodeMinHash (md_minhash md), bf_description = md_description md,
     bf_publisher = md_publisher md, bf_date = md_date md, bf_series = md_series md,
     bf_series_index = md_series_index md\<rparr>"

text \<open>The candidate map, filled band by band, the new file itself left out.\<close>

definition add_candidates :: "int \<Rightarrow> (int \<times> string) list \<Rightarrow> (int \<times> string) list \<Rightarrow> (int \<times> string) list" where
  "add_candidates f rows cands =
     fold (\<lambda>(i, mh) m. if i \<noteq> f then upsert i mh (\<lambda>_. mh) m else m) rows cands"

fun find_candidates :: "int \<Rightarrow> band list \<Rightarrow> (int \<times> string) list \<Rightarrow> (int \<times> string) list stmt" where
  "find_candidates f [] cands = ret cands"
| "find_candidates f (b # bs) cands =
     bind (FindCandidateMinHashesByBand (int (BandIdx b)) (BucketHash b)) (\<lambda>rows.
       find_candidates f bs (add_candidates f rows cands))"

text \<open>The loop over the candidates: the first of the most similar ones above the threshold.\<close>

definition best_step :: "similarity \<Rightarrow> u64 list \<Rightarrow> int \<times> string \<Rightarrow> int \<times> real \<Rightarrow> int \<times> real" where
  "best_step jac sig cand best = (let sim = jac sig (decodeMinHash (snd cand)) in
     if MinSimilarityThreshold \<le> sim \<and> snd best < sim then (fst cand, sim) else best)"

definition bestMatch :: "similarity \<Rightarrow> u64 list \<Rightarrow> (int \<times> string) list \<Rightarrow> int" where
  "bestMatch jac sig cands = fst (fold (best_step jac sig) cands (0, 0))"

definition chooseBook :: "int \<Rightarrow> string \<Rightarrow> int stmt" where
  "chooseBook best title =
     attempt (if best \<noteq> 0 then GetBookIDByBookFileID best else throw NoRows) (\<lambda>r.
       let book = (case r of Ok b \<Rightarrow> b | Err _ \<Rightarrow> 0) in
       if book = 0 then CreateBook title else ret book)"

definition link_file :: "similarity \<Rightarrow> map_order \<Rightarrow> metadata \<Rightarrow> int list \<Rightarrow> int \<Rightarrow> unit stmt" where
  "link_file jac ord md authorIDs f =
     bind (storeBookFileMetadata f md) (\<lambda>_.
     bind (for_each (\<lambda>a. CreateBookFileAuthor f a) authorIDs) (\<lambda>_.
     let bands = ComputeBands (md_minhash md) in
     bind (find_candidates f bands []) (\<lambda>cands.
     bind (chooseBook (bestMatch jac (md_minhash md) (ord cands)) (md_title md)) (\<lambda>book.
     bind (CreateBookBookFile book f) (\<lambda>_.
     bind (for_each (\<lambda>a. CreateBookAuthor book a) authorIDs) (\<lambda>_.
     for_each (\<lambda>b. CreateLSHBucket (int (BandIdx b)) (BucketHash b) f) bands))))))"

definition record_file :: "similarity \<Rightarrow> map_order \<Rightarrow> string \<Rightarrow> metadata \<Rightarrow> unit stmt" where
  "record_file jac ord path md = (if md_hash md = [] then ret () else
     bind (collect ensureAuthor (md_authors md)) (\<lambda>authorIDs.
     attempt (CreateBookFile (file_row path md)) (\<lambda>r. case r of
       Ok f \<Rightarrow> link_file jac ord md authorIDs f
     | Err e \<Rightarrow> if e = NoRows then CreateBookFileDuplicate (md_hash md) path else throw e)))"

section \<open>The database invariant\<close>

text \<open>
  What the rest of the program relies on: identifiers are positive and below the counters,
  hashes, paths and names are unique, references are not dangling, every file belongs to
  exactly one book and every book has a file, duplicates name a recorded content, and a
  file is in exactly the buckets of its own signature.
\<close>

definition keys_ok :: "db \<Rightarrow> bool" where
  "keys_ok d \<longleftrightarrow> distinct (map bf_id (t_files d)) \<and> distinct (map bf_hash (t_files d)) \<and> distinct (map bf_path (t_files d))
     \<and> distinct (map fst (t_authors d)) \<and> distinct (map snd (t_authors d)) \<and> distinct (map bk_id (t_books d))
     \<and> (\<forall>i \<in> bf_id ` set (t_files d). 0 < i \<and> i \<le> seq_files d)
     \<and> (\<forall>i \<in> fst ` set (t_authors d). 0 < i \<and> i \<le> seq_authors d)
     \<and> (\<forall>i \<in> bk_id ` set (t_books d). 0 < i \<and> i \<le> seq_books d)
     \<and> 0 \<le> seq_files d \<and> 0 \<le> seq_authors d \<and> 0 \<le> seq_books d"

definition refs_ok :: "db \<Rightarrow> bool" where
  "refs_ok d \<longleftrightarrow> (\<forall>(f, a) \<in> set (t_file_authors d). file_exists d f \<and> author_exists d a)
     \<and> (\<forall>(f, _) \<in> set (t_file_subjects d). file_exists d f) \<and> (\<forall>(f, _) \<in> set (t_file_languages d). file_exists d f)
     \<and> (\<forall>r \<in> set (t_file_idents d). file_exists d (ir_owner r) \<and> valid_source (ir_source r))
     \<and> (\<forall>(h, p) \<in> set (t_duplicates d). h \<in> bf_hash ` set (t_files d))
     \<and> (\<forall>(b, f) \<in> set (t_book_files d). book_exists d b \<and> file_exists d f)
     \<and> (\<forall>(b, a) \<in> set (t_book_authors d). book_exists d b \<and> author_exists d a)
     \<and> (\<forall>(i, h, f) \<in> set (t_buckets d). file_exists d f)
     \<and> distinct (t_file_authors d) \<and> distinct (t_duplicates d) \<and> distinct (t_book_authors d) \<and> distinct (t_buckets d)"

text \<open>Every file has one book; \<open>link\<close> is the file being stored, if any.\<close>

definition books_ok :: "db \<Rightarrow> bool" where
  "books_ok d \<longleftrightarrow> distinct (map snd (t_book_files d))
     \<and> snd ` set (t_book_files d) = bf_id ` set (t_files d)
     \<and> fst ` set (t_book_files d) = bk_id ` set (t_books d)"

definition buckets_of :: "bf_row \<Rightarrow> (int \<times> int \<times> int) set" where
  "buckets_of r = (\<lambda>b. (int (BandIdx b), BucketHash b, bf_id r)) ` set (ComputeBands (decodeMinHash (bf_minhash r)))"

definition buckets_ok :: "db \<Rightarrow> bool" where
  "buckets_ok d \<longleftrightarrow> set (t_buckets d) = (\<Union>r \<in> set (t_files d). buckets_of r)"

definition db_inv :: "db \<Rightarrow> bool" where
  "db_inv d \<longleftrightarrow> keys_ok d \<and> refs_ok d \<and> books_ok d \<and> buckets_ok d"

section \<open>What each statement keeps\<close>

definition base_ok :: "db \<Rightarrow> bool" where
  "base_ok d \<longleftrightarrow> keys_ok d \<and> refs_ok d"

text \<open>The tables that decide which file is in which book and bucket.\<close>

definition core :: "db \<Rightarrow> db" where
  "core d = d\<lparr>t_file_authors := [], t_file_subjects := [], t_file_languages := [], t_file_idents := [],
     t_book_authors := []\<rparr>"

lemma core_fields:
  assumes "core d' = core d"
  shows "t_files d' = t_files d" "t_authors d' = t_authors d" "t_books d' = t_books d"
    "t_book_files d' = t_book_files d" "t_buckets d' = t_buckets d" "t_duplicates d' = t_duplicates d"
    "seq_files d' = seq_files d" "seq_authors d' = seq_authors d" "seq_books d' = seq_books d"
  using arg_cong [OF assms, of t_files] arg_cong [OF assms, of t_authors] arg_cong [OF assms, of t_books]
    arg_cong [OF assms, of t_book_files] arg_cong [OF assms, of t_buckets] arg_cong [OF assms, of t_duplicates]
    arg_cong [OF assms, of seq_files] arg_cong [OF assms, of seq_authors] arg_cong [OF assms, of seq_books]
  by (simp_all add: core_def)

lemmas ok_defs = base_ok_def keys_ok_def refs_ok_def file_exists_def author_exists_def book_exists_def

lemma CreateBookFileSubject_keeps:
  assumes "CreateBookFileSubject f s i fl (d, n) = (Ok (), (d', n'))" "base_ok d"
  shows "base_ok d' \<and> core d' = core d"
proof -
  have "d' = d \<or> file_exists d f \<and> d' = d\<lparr>t_file_subjects := t_file_subjects d @ [(f, s, i)]\<rparr>"
    using assms(1) by (auto simp: CreateBookFileSubject_def sql_Ok split: if_splits)
  then show ?thesis using assms(2) by (elim disjE) (simp_all add: ok_defs core_def)
qed

lemma CreateBookFileLanguage_keeps:
  assumes "CreateBookFileLanguage f s i fl (d, n) = (Ok (), (d', n'))" "base_ok d"
  shows "base_ok d' \<and> core d' = core d"
proof -
  have "d' = d \<or> file_exists d f \<and> d' = d\<lparr>t_file_languages := t_file_languages d @ [(f, s, i)]\<rparr>"
    using assms(1) by (auto simp: CreateBookFileLanguage_def sql_Ok split: if_splits)
  then show ?thesis using assms(2) by (elim disjE) (simp_all add: ok_defs core_def)
qed

lemma CreateBookFileIdentifier_keeps:
  assumes "CreateBookFileIdentifier r fl (d, n) = (Ok (), (d', n'))" "base_ok d"
  shows "base_ok d' \<and> core d' = core d"
proof -
  have "d' = d \<or> file_exists d (ir_owner r) \<and> valid_source (ir_source r) \<and> d' = d\<lparr>t_file_idents := t_file_idents d @ [r]\<rparr>"
    using assms(1) by (auto simp: CreateBookFileIdentifier_def sql_Ok split: if_splits)
  then show ?thesis using assms(2) by (elim disjE) (simp_all add: ok_defs core_def)
qed

lemma CreateBookFileAuthor_Ok:
  "CreateBookFileAuthor f a fl (d, n) = (Ok (), (d', n')) \<Longrightarrow>
    (f, a) \<notin> set (t_file_authors d) \<and> file_exists d f \<and> author_exists d a
    \<and> d' = d\<lparr>t_file_authors := t_file_authors d @ [(f, a)]\<rparr>"
  by (auto simp: CreateBookFileAuthor_def sql_Ok split: if_splits)

lemma CreateBookFileAuthor_keeps:
  assumes "CreateBookFileAuthor f a fl (d, n) = (Ok (), (d', n'))" "base_ok d"
  shows "base_ok d' \<and> core d' = core d"
  using CreateBookFileAuthor_Ok [OF assms(1)] assms(2) by (elim conjE) (simp add: ok_defs core_def)

lemma CreateBookAuthor_keeps:
  assumes "CreateBookAuthor b a fl (d, n) = (Ok (), (d', n'))" "base_ok d"
  shows "base_ok d' \<and> core d' = core d"
proof -
  have "d' = d \<or> (b, a) \<notin> set (t_book_authors d) \<and> book_exists d b \<and> author_exists d a
      \<and> d' = d\<lparr>t_book_authors := t_book_authors d @ [(b, a)]\<rparr>"
    using assms(1) by (auto simp: CreateBookAuthor_def sql_Ok split: if_splits)
  then show ?thesis using assms(2) by (elim disjE conjE) (simp_all add: ok_defs core_def)
qed

lemma CreateLSHBucket_keeps:
  assumes "CreateLSHBucket i h f fl (d, n) = (Ok (), (d', n'))" "base_ok d"
  shows "base_ok d' \<and> (core d')\<lparr>t_buckets := []\<rparr> = (core d)\<lparr>t_buckets := []\<rparr>
    \<and> set (t_buckets d') = insert (i, h, f) (set (t_buckets d))"
proof -
  have "d' = d \<and> (i, h, f) \<in> set (t_buckets d) \<or>
      (i, h, f) \<notin> set (t_buckets d) \<and> file_exists d f \<and> d' = d\<lparr>t_buckets := t_buckets d @ [(i, h, f)]\<rparr>"
    using assms(1) by (auto simp: CreateLSHBucket_def sql_Ok split: if_splits)
  then show ?thesis using assms(2) by (elim disjE conjE) (simp_all add: ok_defs core_def insert_absorb)
qed

lemma for_each_core:
  assumes "\<And>x d n d' n'. f x fl (d, n) = (Ok (), (d', n')) \<Longrightarrow> base_ok d \<Longrightarrow> base_ok d' \<and> core d' = core d"
    and "for_each f xs fl (d, n) = (Ok (), (d', n'))" "base_ok d"
  shows "base_ok d' \<and> core d' = core d"
proof -
  let ?P = "\<lambda>e. base_ok e \<and> core e = core d"
  show ?thesis
  proof (rule for_each_keeps [where P = ?P, OF _ _ assms(2)])
    show "?P e'" if "x \<in> set xs" "?P e" "f x fl (e, m) = (Ok (), (e', m'))" for x e m e' m'
      using assms(1) [OF that(3)] that(2) by simp
  qed (use assms(3) in simp)
qed

lemma storeBookFileMetadata_keeps:
  assumes "storeBookFileMetadata f md fl (d, n) = (Ok (), (d', n'))" "base_ok d"
  shows "base_ok d' \<and> core d' = core d"
proof -
  obtain d1 n1 d2 n2 where
    1: "for_each (\<lambda>(i, name). CreateBookFileSubject f name i) (number 0 (md_subjects md)) fl (d, n) = (Ok (), (d1, n1))"
    and 2: "for_each (\<lambda>(i, name). CreateBookFileLanguage f name i) (number 0 (md_languages md)) fl (d1, n1) = (Ok (), (d2, n2))"
    and 3: "for_each (\<lambda>(i, x). CreateBookFileIdentifier \<lparr>ir_owner = f, ir_scheme = id_scheme x, ir_value = id_value x,
         ir_source = id_source x, ir_ordinal = i\<rparr>) (number 0 (md_idents md)) fl (d2, n2) = (Ok (), (d', n'))"
    using assms(1) by (auto simp: storeBookFileMetadata_def bind_Ok)
  have "base_ok d1 \<and> core d1 = core d"
    by (rule for_each_core [OF _ 1 assms(2)]) (auto split: prod.splits dest: CreateBookFileSubject_keeps)
  moreover from this have "base_ok d2 \<and> core d2 = core d1"
    by (intro for_each_core [OF _ 2]) (auto split: prod.splits dest: CreateBookFileLanguage_keeps)
  moreover from this have "base_ok d' \<and> core d' = core d2"
    by (intro for_each_core [OF _ 3]) (auto split: prod.splits dest: CreateBookFileIdentifier_keeps)
  ultimately show ?thesis by simp
qed

section \<open>What the transaction does\<close>

text \<open>\<open>db_grows d d'\<close>: rows of files, authors and books are only added.\<close>

definition authors_grow :: "db \<Rightarrow> db \<Rightarrow> bool" where
  "authors_grow d d' \<longleftrightarrow> prefix (t_authors d) (t_authors d')
     \<and> d'\<lparr>t_authors := [], seq_authors := 0\<rparr> = d\<lparr>t_authors := [], seq_authors := 0\<rparr>"

lemma authors_grow_refl: "authors_grow d d"
  by (simp add: authors_grow_def)

lemma authors_grow_trans: "authors_grow a b \<Longrightarrow> authors_grow b c \<Longrightarrow> authors_grow a c"
  by (auto simp: authors_grow_def intro: prefix_order.trans)

lemma authors_grow_fields:
  assumes "authors_grow d d'"
  shows "t_files d' = t_files d" "t_books d' = t_books d" "t_book_files d' = t_book_files d"
    "t_buckets d' = t_buckets d" "t_duplicates d' = t_duplicates d" "seq_files d' = seq_files d" "seq_books d' = seq_books d"
    "author_exists d i \<Longrightarrow> author_exists d' i"
proof -
  have e: "d'\<lparr>t_authors := [], seq_authors := 0\<rparr> = d\<lparr>t_authors := [], seq_authors := 0\<rparr>"
    using assms by (simp add: authors_grow_def)
  show "t_files d' = t_files d" "t_books d' = t_books d" "t_book_files d' = t_book_files d"
    "t_buckets d' = t_buckets d" "t_duplicates d' = t_duplicates d" "seq_files d' = seq_files d" "seq_books d' = seq_books d"
    using arg_cong [OF e, of t_files] arg_cong [OF e, of t_books] arg_cong [OF e, of t_book_files]
      arg_cong [OF e, of t_buckets] arg_cong [OF e, of t_duplicates] arg_cong [OF e, of seq_files]
      arg_cong [OF e, of seq_books] by simp_all
  show "author_exists d i \<Longrightarrow> author_exists d' i"
    using assms by (auto simp: authors_grow_def author_exists_def dest: set_mono_prefix)
qed

lemma find_author: "find (\<lambda>a. snd a = name) as = Some a \<Longrightarrow> a \<in> set as \<and> snd a = name"
  by (auto simp: find_Some_iff)

lemma GetAuthorByName_Ok:
  "GetAuthorByName name fl (d, n) = (Ok a, (d', n')) \<Longrightarrow> d' = d \<and> (a, name) \<in> set (t_authors d)"
  by (auto simp: GetAuthorByName_def sql_Ok split: option.splits dest!: find_author)

lemma GetAuthorByName_state: "GetAuthorByName name fl (d, n) = (r, (d', n')) \<Longrightarrow> d' = d"
  by (auto simp: GetAuthorByName_def sql_def split: option.splits)

lemma CreateAuthor_keeps:
  assumes "CreateAuthor name fl (d, n) = (Ok (), (d', n'))" "base_ok d"
  shows "base_ok d' \<and> authors_grow d d'"
proof (cases "name \<in> snd ` set (t_authors d)")
  case False
  have new: "seq_authors d + 1 \<notin> fst ` set (t_authors d)" using assms(2) by (force simp: ok_defs)
  have d': "d' = d\<lparr>t_authors := t_authors d @ [(seq_authors d + 1, name)], seq_authors := seq_authors d + 1\<rparr>"
    using assms(1) False by (auto simp: CreateAuthor_def sql_Ok)
  have k: "keys_ok d" "refs_ok d" using assms(2) by (simp_all add: base_ok_def)
  have "keys_ok d'" using k(1) False new unfolding d' keys_ok_def by simp fastforce
  moreover have "refs_ok d'" using k(2) unfolding d' refs_ok_def file_exists_def author_exists_def book_exists_def
    by (auto split: prod.splits)
  ultimately show ?thesis by (simp add: base_ok_def authors_grow_def d')
qed (use assms in \<open>simp add: CreateAuthor_def sql_Ok authors_grow_refl\<close>)

lemma ensureAuthor_keeps:
  assumes "ensureAuthor name fl (d, n) = (Ok a, (d', n'))" "base_ok d"
  shows "base_ok d' \<and> authors_grow d d' \<and> author_exists d' a \<and> (a, name) \<in> set (t_authors d')"
proof -
  obtain r d1 n1 where r: "GetAuthorByName name fl (d, n) = (r, (d1, n1))" by (metis surj_pair)
  have d1: "d1 = d" using r by (rule GetAuthorByName_state)
  show ?thesis
  proof (cases r)
    case (Inr b)
    then have "a = b" "d' = d" using assms(1) r d1 by (simp_all add: ensureAuthor_def attempt_Ok)
    moreover have "(b, name) \<in> set (t_authors d)" using GetAuthorByName_Ok r Inr by blast
    ultimately show ?thesis using assms(2) by (simp add: authors_grow_refl author_exists_def) (metis fst_conv image_eqI)
  next
    case (Inl e)
    then obtain d2 n2 where c: "CreateAuthor name fl (d, n1) = (Ok (), (d2, n2))"
      and g: "GetAuthorByName name fl (d2, n2) = (Ok a, (d', n'))"
      using assms(1) r d1 by (auto simp: ensureAuthor_def attempt_Ok bind_Ok split: if_splits)
    have "(a, name) \<in> set (t_authors d')" "d' = d2" using GetAuthorByName_Ok [OF g] by simp_all
    then show ?thesis using CreateAuthor_keeps [OF c assms(2)] by (simp add: author_exists_def) (metis fst_conv image_eqI)
  qed
qed

lemma collect_authors_keeps:
  assumes "collect ensureAuthor names fl (d, n) = (Ok ids, (d', n'))" "base_ok d"
  shows "base_ok d' \<and> authors_grow d d' \<and> list_all (author_exists d') ids \<and> list_all2 (\<lambda>i name. (i, name) \<in> set (t_authors d')) ids names"
  using assms
proof (induction names arbitrary: d n ids)
  case Nil
  then show ?case by (simp add: authors_grow_refl)
next
  case (Cons name names)
  then obtain a d1 n1 ids1 where a: "ensureAuthor name fl (d, n) = (Ok a, (d1, n1))"
    and c: "collect ensureAuthor names fl (d1, n1) = (Ok ids1, (d', n'))" and ids: "ids = a # ids1"
    by (auto simp: bind_Ok)
  note 1 = ensureAuthor_keeps [OF a Cons.prems(2)]
  have 2: "base_ok d' \<and> authors_grow d1 d' \<and> list_all (author_exists d') ids1
      \<and> list_all2 (\<lambda>i name. (i, name) \<in> set (t_authors d')) ids1 names"
    using Cons.IH [OF c] 1 by blast
  have "set (t_authors d1) \<subseteq> set (t_authors d')" using 2 by (auto simp: authors_grow_def dest: set_mono_prefix)
  moreover have "author_exists d' a" using 1 2 authors_grow_fields(8) by blast
  moreover have "authors_grow d d'" using 1 2 authors_grow_trans by blast
  ultimately show ?case using 1 2 ids by auto
qed

lemma find_candidates_state:
  "find_candidates f bs cands fl (d, n) = (Ok out, (d', n')) \<Longrightarrow>
     d' = d \<and> out = fold (\<lambda>b. add_candidates f (candidates_by_band d (int (BandIdx b)) (BucketHash b))) bs cands"
proof (induction bs arbitrary: cands n)
  case (Cons b bs)
  then obtain rows d1 n1 where "FindCandidateMinHashesByBand (int (BandIdx b)) (BucketHash b) fl (d, n) = (Ok rows, (d1, n1))"
    and "find_candidates f bs (add_candidates f rows cands) fl (d1, n1) = (Ok out, (d', n'))"
    by (auto simp: bind_Ok)
  then show ?case using Cons.IH by (auto simp: FindCandidateMinHashesByBand_def sql_Ok)
qed simp

lemma GetBookIDByBookFileID_state:
  "GetBookIDByBookFileID f fl (d, n) = (r, (d', n')) \<Longrightarrow> d' = d \<and> (\<forall>b. r = Ok b \<longrightarrow> (b, f) \<in> set (t_book_files d))"
  by (auto simp: GetBookIDByBookFileID_def sql_def find_Some_iff in_set_conv_nth split: option.splits)

lemma CreateBook_keeps:
  assumes "CreateBook title fl (d, n) = (Ok b, (d', n'))" "base_ok d"
  shows "base_ok d' \<and> b = seq_books d + 1 \<and> d' = d\<lparr>t_books := t_books d @ [\<lparr>bk_id = b, bk_title = title,
      bk_description = [], bk_series = [], bk_series_index = []\<rparr>], seq_books := b\<rparr>"
proof -
  have b: "b = seq_books d + 1"
    and d': "d' = d\<lparr>t_books := t_books d @ [\<lparr>bk_id = b, bk_title = title,
      bk_description = [], bk_series = [], bk_series_index = []\<rparr>], seq_books := b\<rparr>"
    using assms(1) by (auto simp: CreateBook_def sql_Ok Let_def)
  have k: "keys_ok d" "refs_ok d" using assms(2) by (simp_all add: base_ok_def)
  have "b \<notin> bk_id ` set (t_books d)" using k(1) b by (force simp: keys_ok_def)
  then have "keys_ok d'" using k(1) unfolding d' b keys_ok_def by simp fastforce
  moreover have "refs_ok d'" using k(2) unfolding d' refs_ok_def file_exists_def author_exists_def book_exists_def
    by (auto split: prod.splits)
  ultimately show ?thesis using b d' by (simp add: base_ok_def)
qed

lemma chooseBook_result:
  assumes "chooseBook best title fl (d, n) = (Ok b, (d', n'))" "base_ok d"
  shows "base_ok d' \<and> book_exists d' b \<and>
    (d' = d \<and> best \<noteq> 0 \<and> (b, best) \<in> set (t_book_files d)
     \<or> b = seq_books d + 1 \<and> d' = d\<lparr>t_books := t_books d @ [\<lparr>bk_id = b, bk_title = title,
      bk_description = [], bk_series = [], bk_series_index = []\<rparr>], seq_books := b\<rparr>)"
proof -
  obtain r d1 n1 where r: "(if best \<noteq> 0 then GetBookIDByBookFileID best else throw NoRows) fl (d, n) = (r, (d1, n1))"
    by (metis surj_pair)
  then have d1: "d1 = d" and rb: "\<And>b. r = Ok b \<Longrightarrow> best \<noteq> 0 \<and> (b, best) \<in> set (t_book_files d)"
    using GetBookIDByBookFileID_state [of best fl d n r d1 n1] by (auto simp: throw_def split: if_splits)
  let ?book = "case r of Ok b \<Rightarrow> b | Err _ \<Rightarrow> 0"
  have step: "(if ?book = 0 then CreateBook title else ret ?book) fl (d, n1) = (Ok b, (d', n'))"
    using assms(1) r d1 by (simp add: chooseBook_def attempt_Ok Let_def)
  show ?thesis
  proof (cases "?book = 0")
    case True
    then have "CreateBook title fl (d, n1) = (Ok b, (d', n'))" using step by simp
    note k = CreateBook_keeps [OF this assms(2)]
    from k have "t_books d' = t_books d @ [\<lparr>bk_id = b, bk_title = title,
      bk_description = [], bk_series = [], bk_series_index = []\<rparr>]" by simp
    then have "book_exists d' b" by (simp add: book_exists_def)
    with k show ?thesis by blast
  next
    case False
    then have e: "b = ?book" "d' = d" using step by simp_all
    then have "r = Ok b" using False by (cases r) simp_all
    then have "best \<noteq> 0 \<and> (b, best) \<in> set (t_book_files d)" by (rule rb)
    moreover from this have "book_exists d b" using assms(2) by (auto simp: base_ok_def refs_ok_def)
    ultimately show ?thesis using e assms(2) by simp
  qed
qed

lemma CreateBookBookFile_result:
  assumes "CreateBookBookFile b f fl (d, n) = (Ok (), (d', n'))" "base_ok d" "f \<notin> snd ` set (t_book_files d)"
  shows "base_ok d' \<and> d' = d\<lparr>t_book_files := t_book_files d @ [(b, f)]\<rparr>"
proof -
  have "(b, f) \<notin> set (t_book_files d)" using assms(3) by (force simp: image_iff)
  then have "book_exists d b \<and> file_exists d f \<and> d' = d\<lparr>t_book_files := t_book_files d @ [(b, f)]\<rparr>"
    using assms(1) by (auto simp: CreateBookBookFile_def sql_Ok split: if_splits)
  then show ?thesis using assms(2) by (elim conjE) (simp add: ok_defs)
qed

lemma buckets_loop:
  assumes "for_each (\<lambda>b. CreateLSHBucket (int (BandIdx b)) (BucketHash b) f) bs fl (d, n) = (Ok (), (d', n'))" "base_ok d"
  shows "base_ok d' \<and> (core d')\<lparr>t_buckets := []\<rparr> = (core d)\<lparr>t_buckets := []\<rparr>
    \<and> set (t_buckets d') = (\<lambda>b. (int (BandIdx b), BucketHash b, f)) ` set bs \<union> set (t_buckets d)"
  using assms
proof (induction bs arbitrary: d n)
  case (Cons b bs)
  then obtain d1 n1 where 1: "CreateLSHBucket (int (BandIdx b)) (BucketHash b) f fl (d, n) = (Ok (), (d1, n1))"
    and 2: "for_each (\<lambda>b. CreateLSHBucket (int (BandIdx b)) (BucketHash b) f) bs fl (d1, n1) = (Ok (), (d', n'))"
    by (auto simp: bind_Ok)
  note k = CreateLSHBucket_keeps [OF 1 Cons.prems(2)]
  show ?case using Cons.IH [OF 2] k by auto
qed simp

lemma buckets_fields:
  assumes "(core d')\<lparr>t_buckets := []\<rparr> = (core d)\<lparr>t_buckets := []\<rparr>"
  shows "t_files d' = t_files d" "t_authors d' = t_authors d" "t_books d' = t_books d"
    "t_book_files d' = t_book_files d" "t_duplicates d' = t_duplicates d"
  using arg_cong [OF assms, of t_files] arg_cong [OF assms, of t_authors] arg_cong [OF assms, of t_books]
    arg_cong [OF assms, of t_book_files] arg_cong [OF assms, of t_duplicates]
  by (simp_all add: core_def)

text \<open>Without I/O faults the book of a stored file is decided by the best match alone.\<close>

lemma chooseBook_found:
  assumes "(b, best) \<in> set (t_book_files d)" "distinct (map snd (t_book_files d))" "best \<noteq> 0" "b \<noteq> 0"
  shows "chooseBook best title (\<lambda>_. None) (d, n) = (Ok b, (d, Suc n))"
proof -
  have "find (\<lambda>r. snd r = best) (t_book_files d) \<noteq> None" using assms(1) unfolding find_None_iff by force
  then obtain r where r: "find (\<lambda>r. snd r = best) (t_book_files d) = Some r" by blast
  then have "r \<in> set (t_book_files d)" "snd r = best" by (auto simp: find_Some_iff)
  then have "r = (b, best)" using assms(1,2) by (auto simp: distinct_map inj_on_def)
  then show ?thesis using r assms(3,4)
    by (simp add: chooseBook_def attempt_def GetBookIDByBookFileID_def sql_def ret_def)
qed

text \<open>
  Linking a file: the metadata rows leave the rest alone, one choice of a book is made on them, and
  then the file is attached to that book and to its buckets.
\<close>

definition bucket_candidates :: "db \<Rightarrow> int \<Rightarrow> u64 list \<Rightarrow> (int \<times> string) list" where
  "bucket_candidates d f mh = fold (\<lambda>b. add_candidates f (candidates_by_band d (int (BandIdx b)) (BucketHash b))) (ComputeBands mh) []"

lemma link_file_parts:
  assumes run: "link_file jac ord md ids f fl (d, n) = (Ok (), (d', n'))"
    and ok: "base_ok d" and new: "f \<notin> snd ` set (t_book_files d)"
  obtains d2 n2 book d4 n4 where "base_ok d2" "core d2 = core d"
    "chooseBook (bestMatch jac (md_minhash md) (ord (bucket_candidates d f (md_minhash md)))) (md_title md) fl (d2, n2) = (Ok book, (d4, n4))"
    "base_ok d'" "t_files d' = t_files d4" "t_authors d' = t_authors d4" "t_duplicates d' = t_duplicates d4" "t_books d' = t_books d4"
    "t_book_files d' = t_book_files d4 @ [(book, f)]"
    "set (t_buckets d') = (\<lambda>b. (int (BandIdx b), BucketHash b, f)) ` set (ComputeBands (md_minhash md)) \<union> set (t_buckets d4)"
proof -
  obtain d1 n1 d2 n2 cs d3 n3 book d4 n4 d5 n5 d6 n6 where
    1: "storeBookFileMetadata f md fl (d, n) = (Ok (), (d1, n1))"
    and 2: "for_each (\<lambda>a. CreateBookFileAuthor f a) ids fl (d1, n1) = (Ok (), (d2, n2))"
    and 3: "find_candidates f (ComputeBands (md_minhash md)) [] fl (d2, n2) = (Ok cs, (d3, n3))"
    and 4: "chooseBook (bestMatch jac (md_minhash md) (ord cs)) (md_title md) fl (d3, n3) = (Ok book, (d4, n4))"
    and 5: "CreateBookBookFile book f fl (d4, n4) = (Ok (), (d5, n5))"
    and 6: "for_each (\<lambda>a. CreateBookAuthor book a) ids fl (d5, n5) = (Ok (), (d6, n6))"
    and 7: "for_each (\<lambda>b. CreateLSHBucket (int (BandIdx b)) (BucketHash b) f) (ComputeBands (md_minhash md)) fl (d6, n6)
        = (Ok (), (d', n'))"
    using run by (auto simp: link_file_def bind_Ok Let_def)
  note k1 = storeBookFileMetadata_keeps [OF 1 ok]
  have k2: "base_ok d2 \<and> core d2 = core d1"
    by (rule for_each_core [OF _ 2]) (use k1 CreateBookFileAuthor_keeps in blast)+
  have c2: "core d2 = core d" using k1 k2 by simp
  have "candidates_by_band d2 = candidates_by_band d"
    by (intro ext) (simp only: candidates_by_band_def core_fields [OF c2])
  then have k3: "d3 = d2" "cs = bucket_candidates d f (md_minhash md)"
    using find_candidates_state [OF 3] by (simp_all add: bucket_candidates_def)
  note k4 = chooseBook_result [OF 4, unfolded k3(1), OF conjunct1 [OF k2]]
  have "t_book_files d4 = t_book_files d" using k4 core_fields [OF c2] by auto
  then have k5: "base_ok d5 \<and> d5 = d4\<lparr>t_book_files := t_book_files d4 @ [(book, f)]\<rparr>"
    using CreateBookBookFile_result [OF 5 conjunct1 [OF k4]] new by metis
  have k6: "base_ok d6 \<and> core d6 = core d5"
    by (rule for_each_core [OF _ 6]) (use k5 CreateBookAuthor_keeps in blast)+
  note f6 = core_fields [OF conjunct2 [OF k6]]
  note k7 = buckets_loop [OF 7 conjunct1 [OF k6]]
  note f7 = buckets_fields [OF conjunct1 [OF conjunct2 [OF k7]]]
  show thesis
    by (rule that [OF conjunct1 [OF k2] c2 4 [unfolded k3]]) (use k5 k7 f6 f7 in simp_all)
qed

text \<open>Storing a new file: its book is that of the best match, or a new one.\<close>

lemma link_file_result:
  assumes run: "link_file jac ord md ids f fl (d, n) = (Ok (), (d', n'))"
    and ok: "base_ok d" and new: "f \<notin> snd ` set (t_book_files d)"
  defines "cands \<equiv> bucket_candidates d f (md_minhash md)"
  shows "base_ok d' \<and> t_files d' = t_files d \<and> t_authors d' = t_authors d \<and> t_duplicates d' = t_duplicates d
    \<and> set (t_buckets d') = (\<lambda>b. (int (BandIdx b), BucketHash b, f)) ` set (ComputeBands (md_minhash md)) \<union> set (t_buckets d)
    \<and> (\<exists>book. t_book_files d' = t_book_files d @ [(book, f)] \<and>
        (t_books d' = t_books d \<and> bestMatch jac (md_minhash md) (ord cands) \<noteq> 0
           \<and> (book, bestMatch jac (md_minhash md) (ord cands)) \<in> set (t_book_files d)
         \<or> book = seq_books d + 1 \<and> t_books d' = t_books d @ [\<lparr>bk_id = book, bk_title = md_title md,
             bk_description = [], bk_series = [], bk_series_index = []\<rparr>])
        \<and> (\<forall>b. fl = (\<lambda>_. None) \<and> bestMatch jac (md_minhash md) (ord cands) \<noteq> 0 \<and> b \<noteq> 0
            \<and> (b, bestMatch jac (md_minhash md) (ord cands)) \<in> set (t_book_files d) \<and> distinct (map snd (t_book_files d))
            \<longrightarrow> book = b \<and> t_books d' = t_books d))"
proof -
  obtain d2 n2 book d4 n4 where ok2: "base_ok d2" and c2: "core d2 = core d"
    and choose: "chooseBook (bestMatch jac (md_minhash md) (ord cands)) (md_title md) fl (d2, n2) = (Ok book, (d4, n4))"
    and basics: "base_ok d'" "t_files d' = t_files d4" "t_authors d' = t_authors d4" "t_duplicates d' = t_duplicates d4"
      "t_books d' = t_books d4" "t_book_files d' = t_book_files d4 @ [(book, f)]"
      "set (t_buckets d') = (\<lambda>b. (int (BandIdx b), BucketHash b, f)) ` set (ComputeBands (md_minhash md)) \<union> set (t_buckets d4)"
    unfolding cands_def by (rule link_file_parts [OF run ok new])
  note f2 = core_fields [OF c2] and k4 = chooseBook_result [OF choose ok2]
  from k4 obtain bks sq where "d4 = d2 \<or> d4 = d2\<lparr>t_books := bks, seq_books := sq\<rparr>" by blast
  then have t4: "t_files d4 = t_files d \<and> t_authors d4 = t_authors d \<and> t_duplicates d4 = t_duplicates d
    \<and> t_buckets d4 = t_buckets d \<and> t_book_files d4 = t_book_files d"
    using f2 by (elim disjE) simp_all
  have choice: "t_books d4 = t_books d \<and> bestMatch jac (md_minhash md) (ord cands) \<noteq> 0
           \<and> (book, bestMatch jac (md_minhash md) (ord cands)) \<in> set (t_book_files d)
         \<or> book = seq_books d + 1 \<and> t_books d4 = t_books d @ [\<lparr>bk_id = book, bk_title = md_title md,
             bk_description = [], bk_series = [], bk_series_index = []\<rparr>]"
    using k4 f2 by auto
  have only: "book = b \<and> t_books d4 = t_books d" if "fl = (\<lambda>_. None)" "bestMatch jac (md_minhash md) (ord cands) \<noteq> 0" "b \<noteq> 0"
    "(b, bestMatch jac (md_minhash md) (ord cands)) \<in> set (t_book_files d)" "distinct (map snd (t_book_files d))" for b
  proof -
    have "chooseBook (bestMatch jac (md_minhash md) (ord cands)) (md_title md) fl (d2, n2) = (Ok b, (d2, Suc n2))"
      unfolding that(1) by (rule chooseBook_found) (use that f2 in simp_all)
    then show ?thesis using choose f2 by simp
  qed
  show ?thesis unfolding basics(2-7)
    by (intro conjI exI [of _ book] basics(1) choice) (use t4 only in auto)
qed

lemma CreateBookFile_Ok:
  assumes "CreateBookFile row fl (d, n) = (Ok f, (d', n'))" "base_ok d"
  shows "base_ok d' \<and> f = seq_files d + 1 \<and> f \<notin> bf_id ` set (t_files d)
    \<and> bf_hash row \<notin> bf_hash ` set (t_files d) \<and> bf_path row \<notin> bf_path ` set (t_files d)
    \<and> d' = d\<lparr>t_files := t_files d @ [row\<lparr>bf_id := f\<rparr>], seq_files := f\<rparr>"
proof -
  have f: "f = seq_files d + 1" "bf_hash row \<notin> bf_hash ` set (t_files d)" "bf_path row \<notin> bf_path ` set (t_files d)"
    and d': "d' = d\<lparr>t_files := t_files d @ [row\<lparr>bf_id := f\<rparr>], seq_files := f\<rparr>"
    using assms(1) by (auto simp: CreateBookFile_def sql_Ok Let_def split: if_splits)
  have k: "keys_ok d" "refs_ok d" using assms(2) by (simp_all add: base_ok_def)
  have new: "f \<notin> bf_id ` set (t_files d)" using k(1) f(1) by (force simp: keys_ok_def)
  then have "keys_ok d'" using k(1) f unfolding d' keys_ok_def by simp fastforce
  moreover have "refs_ok d'" using k(2) unfolding d' refs_ok_def file_exists_def author_exists_def book_exists_def
    by (auto split: prod.splits)
  ultimately have "base_ok d'" by (simp add: base_ok_def)
  then show ?thesis using f new d' by blast
qed

lemma CreateBookFile_state:
  "CreateBookFile row fl (d, n) = (Err e, (d', n')) \<Longrightarrow> d' = d \<and> (e = NoRows \<longrightarrow> bf_hash row \<in> bf_hash ` set (t_files d))"
  by (auto simp: CreateBookFile_def sql_def Let_def split: option.splits if_splits)

lemma CreateBookFileDuplicate_keeps:
  assumes "CreateBookFileDuplicate h path fl (d, n) = (Ok (), (d', n'))" "base_ok d"
  shows "base_ok d' \<and> (h, path) \<in> set (t_duplicates d')
    \<and> (d' = d \<or> d' = d\<lparr>t_duplicates := t_duplicates d @ [(h, path)]\<rparr>)"
proof -
  have "d' = d \<and> (h, path) \<in> set (t_duplicates d) \<or>
    (h, path) \<notin> set (t_duplicates d) \<and> h \<in> bf_hash ` set (t_files d) \<and> d' = d\<lparr>t_duplicates := t_duplicates d @ [(h, path)]\<rparr>"
    using assms(1) by (auto simp: CreateBookFileDuplicate_def sql_Ok split: if_splits)
  then show ?thesis using assms(2) by (elim disjE conjE) (simp_all add: ok_defs)
qed

text \<open>The three ways a committed transaction can end.\<close>

lemma record_file_cases:
  assumes run: "record_file jac ord path md fl (d, n) = (Ok (), (d', n'))" and ok: "base_ok d"
  obtains (no_hash) "md_hash md = []" "d' = d"
  | (duplicate) d1 where "md_hash md \<noteq> []" "base_ok d1" "base_ok d'" "authors_grow d d1"
      "md_hash md \<in> bf_hash ` set (t_files d)" "(md_hash md, path) \<in> set (t_duplicates d')"
      "d' = d1 \<or> d' = d1\<lparr>t_duplicates := t_duplicates d1 @ [(md_hash md, path)]\<rparr>"
  | (stored) d1 d2 f ids m where "md_hash md \<noteq> []" "base_ok d1" "base_ok d2" "authors_grow d d1" "f = seq_files d + 1"
      "f \<notin> bf_id ` set (t_files d)" "md_hash md \<notin> bf_hash ` set (t_files d)" "path \<notin> bf_path ` set (t_files d)"
      "d2 = d1\<lparr>t_files := t_files d1 @ [(file_row path md)\<lparr>bf_id := f\<rparr>], seq_files := f\<rparr>"
      "link_file jac ord md ids f fl (d2, m) = (Ok (), (d', n'))"
proof (cases "md_hash md = []")
  case True
  then show ?thesis using run no_hash by (simp add: record_file_def)
next
  case False
  obtain ids d1 n1 where 1: "collect ensureAuthor (md_authors md) fl (d, n) = (Ok ids, (d1, n1))"
    and rest: "attempt (CreateBookFile (file_row path md)) (\<lambda>r. case r of
       Ok f \<Rightarrow> link_file jac ord md ids f
     | Err e \<Rightarrow> if e = NoRows then CreateBookFileDuplicate (md_hash md) path else throw e) fl (d1, n1) = (Ok (), (d', n'))"
    using run False by (auto simp: record_file_def bind_Ok)
  note k1 = collect_authors_keeps [OF 1 ok]
  have g: "authors_grow d d1" and b1: "base_ok d1" using k1 by simp_all
  note gf = authors_grow_fields [OF g]
  obtain r d2 n2 where c: "CreateBookFile (file_row path md) fl (d1, n1) = (r, (d2, n2))" by (metis surj_pair)
  show ?thesis
  proof (cases r)
    case (Inr f)
    then have l: "link_file jac ord md ids f fl (d2, n2) = (Ok (), (d', n'))" using rest c by (simp add: attempt_Ok)
    note cf = CreateBookFile_Ok [OF c [unfolded Inr] b1]
    have hp: "bf_hash (file_row path md) = md_hash md" "bf_path (file_row path md) = path"
      by (simp_all add: file_row_def)
    from cf have "base_ok d2" "f = seq_files d1 + 1" "f \<notin> bf_id ` set (t_files d1)"
      "md_hash md \<notin> bf_hash ` set (t_files d1)" "path \<notin> bf_path ` set (t_files d1)"
      "d2 = d1\<lparr>t_files := t_files d1 @ [(file_row path md)\<lparr>bf_id := f\<rparr>], seq_files := f\<rparr>"
      unfolding hp by blast+
    then show ?thesis by (intro stored [OF False b1 _ g _ _ _ _ _ l]) (simp_all only: gf not_False_eq_True)
  next
    case (Inl e)
    have e: "e = NoRows" "CreateBookFileDuplicate (md_hash md) path fl (d2, n2) = (Ok (), (d', n'))"
      using rest c Inl by (auto simp: attempt_Ok split: if_splits)
    note s = CreateBookFile_state [OF c [unfolded Inl]]
    note dup = CreateBookFileDuplicate_keeps [OF e(2)]
    show ?thesis by (rule duplicate [OF False b1 _ g]) (use s dup b1 e(1) gf in \<open>auto simp: file_row_def\<close>)
  qed
qed

lemma books_ok_new:
  assumes "books_ok d" "f \<notin> bf_id ` set (t_files d)"
  shows "f \<notin> snd ` set (t_book_files d)"
  using assms by (simp add: books_ok_def)

lemma record_file_inv:
  assumes run: "record_file jac ord path md fl (d, n) = (Ok (), (d', n'))" and inv: "db_inv d"
  shows "db_inv d'"
proof -
  have ok: "base_ok d" using inv by (simp add: db_inv_def base_ok_def)
  show ?thesis
    using run ok
  proof (cases rule: record_file_cases)
    case no_hash
    then show ?thesis using inv by simp
  next
    case (duplicate d1)
    note gf = authors_grow_fields [OF duplicate(4)]
    have "t_files d' = t_files d" "t_books d' = t_books d" "t_book_files d' = t_book_files d" "t_buckets d' = t_buckets d"
      using duplicate(7) gf by auto
    then have "books_ok d' = books_ok d" "buckets_ok d' = buckets_ok d" by (simp_all add: books_ok_def buckets_ok_def)
    then show ?thesis using inv duplicate(3) by (simp add: db_inv_def base_ok_def)
  next
    case (stored d1 d2 f ids m)
    note gf = authors_grow_fields [OF stored(4)]
    have d2: "t_files d2 = t_files d @ [(file_row path md)\<lparr>bf_id := f\<rparr>]" "t_books d2 = t_books d"
      "t_book_files d2 = t_book_files d" "t_buckets d2 = t_buckets d"
      using stored(9) gf by simp_all
    have new: "f \<notin> snd ` set (t_book_files d)" using books_ok_new stored(6) inv by (simp add: db_inv_def)
    have new2: "f \<notin> snd ` set (t_book_files d2)" using new d2(3) by simp
    note l = link_file_result [OF stored(10) stored(3) new2]
    from l obtain book m where bk: "t_book_files d' = t_book_files d @ [(book, f)]"
      "t_books d' = t_books d \<and> (book, m) \<in> set (t_book_files d)
       \<or> t_books d' = t_books d @ [\<lparr>bk_id = book, bk_title = md_title md, bk_description = [], bk_series = [], bk_series_index = []\<rparr>]"
      unfolding d2(2,3) by blast
    have B: "books_ok d" "buckets_ok d" using inv by (simp_all add: db_inv_def)
    have tf: "t_files d' = t_files d @ [(file_row path md)\<lparr>bf_id := f\<rparr>]" using l d2(1) by simp
    have tb: "set (t_buckets d') = (\<lambda>b. (int (BandIdx b), BucketHash b, f)) ` set (ComputeBands (md_minhash md)) \<union> set (t_buckets d)"
      using l d2(4) by simp
    have "books_ok d'" using bk(2)
    proof
      assume old: "t_books d' = t_books d \<and> (book, m) \<in> set (t_book_files d)"
      then have "book \<in> fst ` set (t_book_files d)" by (metis fst_conv image_eqI)
      then show ?thesis using old B(1) bk(1) new by (simp add: books_ok_def tf insert_absorb)
    next
      assume "t_books d' = t_books d @ [\<lparr>bk_id = book, bk_title = md_title md, bk_description = [], bk_series = [], bk_series_index = []\<rparr>]"
      then show ?thesis using B(1) bk(1) new by (simp add: books_ok_def tf)
    qed
    moreover have "buckets_ok d'" using B(2) tf tb
      by (simp add: buckets_ok_def buckets_of_def file_row_def decode_encode Un_commute)
    ultimately show ?thesis using l by (simp add: db_inv_def base_ok_def)
  qed
qed

section \<open>Recorded paths\<close>

text \<open>A path is recorded when resume finds it, as a file or as a duplicate.\<close>

definition recorded :: "db \<Rightarrow> string \<Rightarrow> bool" where
  "recorded d path \<longleftrightarrow> GetBookFileByPath d path \<noteq> None \<or> GetBookFileDuplicateByPath d path \<noteq> None"

lemma recorded_iff: "recorded d path \<longleftrightarrow> path \<in> bf_path ` set (t_files d) \<union> snd ` set (t_duplicates d)"
  by (auto simp: recorded_def GetBookFileByPath_def GetBookFileDuplicateByPath_def find_None_iff image_iff) force

lemma record_file_records:
  assumes run: "record_file jac ord path md fl (d, n) = (Ok (), (d', n'))" and inv: "db_inv d"
  shows "(md_hash md \<noteq> [] \<longrightarrow> recorded d' path) \<and> (\<forall>p. recorded d p \<longrightarrow> recorded d' p)
    \<and> prefix (t_files d) (t_files d') \<and> prefix (t_book_files d) (t_book_files d')"
proof -
  have ok: "base_ok d" using inv by (simp add: db_inv_def base_ok_def)
  show ?thesis
    using run ok
  proof (cases rule: record_file_cases)
    case no_hash
    then show ?thesis by simp
  next
    case (duplicate d1)
    note gf = authors_grow_fields [OF duplicate(4)]
    have "t_files d' = t_files d" "t_book_files d' = t_book_files d" "set (t_duplicates d) \<subseteq> set (t_duplicates d')"
      using duplicate(7) gf by auto
    moreover have "path \<in> snd ` set (t_duplicates d')" using duplicate(6) by force
    ultimately show ?thesis by (auto simp: recorded_iff)
  next
    case (stored d1 d2 f ids m)
    note gf = authors_grow_fields [OF stored(4)]
    have d2: "t_files d2 = t_files d @ [(file_row path md)\<lparr>bf_id := f\<rparr>]" "t_book_files d2 = t_book_files d"
      "t_duplicates d2 = t_duplicates d"
      using stored(9) gf by simp_all
    have "f \<notin> snd ` set (t_book_files d2)" using books_ok_new stored(6) inv d2(2) by (simp add: db_inv_def)
    from link_file_result [OF stored(10) stored(3) this] obtain book where
      "t_files d' = t_files d2" "t_duplicates d' = t_duplicates d2" "t_book_files d' = t_book_files d2 @ [(book, f)]" by blast
    then show ?thesis using d2 by (auto simp: recorded_iff file_row_def)
  qed
qed

section \<open>The best match\<close>

lemma upsert_const_set:
  "\<forall>s \<in> set kvs. fst s = k \<longrightarrow> snd s = v \<Longrightarrow> set (upsert k v0 (\<lambda>_. v) kvs) = insert (k, v) (set kvs)"
  by (induction kvs) (auto split: if_splits)

lemma add_candidates_set:
  assumes "\<forall>r \<in> set rows. \<forall>s \<in> set rows. fst r = fst s \<longrightarrow> snd r = snd s"
    "\<forall>r \<in> set rows. \<forall>s \<in> set cands. fst r = fst s \<longrightarrow> snd r = snd s"
  shows "set (add_candidates f rows cands) = set cands \<union> {r \<in> set rows. fst r \<noteq> f}"
  using assms
proof (induction rows arbitrary: cands)
  case (Cons r rows)
  obtain i mh where r: "r = (i, mh)" by fastforce
  let ?c = "if i \<noteq> f then upsert i mh (\<lambda>_. mh) cands else cands"
  have "\<forall>s \<in> set cands. fst s = i \<longrightarrow> snd s = mh" using Cons.prems(2) r by fastforce
  then have s: "set ?c = set cands \<union> (if i \<noteq> f then {r} else {})" unfolding r by (simp add: upsert_const_set)
  have "set (add_candidates f rows ?c) = set ?c \<union> {r \<in> set rows. fst r \<noteq> f}"
  proof (rule Cons.IH)
    show "\<forall>x \<in> set rows. \<forall>y \<in> set ?c. fst x = fst y \<longrightarrow> snd x = snd y"
    proof (intro ballI impI)
      fix x y assume x: "x \<in> set rows" and "y \<in> set ?c" and e: "fst x = fst y"
      then have "y \<in> set cands \<union> {r}" unfolding s by (auto split: if_splits)
      then consider "y \<in> set cands" | "y = r" by blast
      then show "snd x = snd y"
      proof cases
        case 1
        have "x \<in> set (r # rows)" using x by simp
        with Cons.prems(2) e 1 show ?thesis by blast
      next
        case 2
        have "r \<in> set (r # rows)" "x \<in> set (r # rows)" using x by simp_all
        with Cons.prems(1) e 2 show ?thesis by blast
      qed
    qed
  qed (use Cons.prems(1) in \<open>meson list.set_intros(2)\<close>)
  moreover have "add_candidates f (r # rows) cands = add_candidates f rows ?c" by (simp add: add_candidates_def r)
  moreover have "{x \<in> set (r # rows). fst x \<noteq> f} = (if i \<noteq> f then {r} else {}) \<union> {x \<in> set rows. fst x \<noteq> f}"
    unfolding r by (cases "i = f") auto
  ultimately show ?case by (simp add: s Un_assoc)
qed (simp add: add_candidates_def)

lemma best_step_inv:
  "fold (best_step jac sig) cands (b, s) = (b', s') \<Longrightarrow>
    s \<le> s' \<and> (b' = b \<and> s' = s \<or> (\<exists>c \<in> set cands. b' = fst c \<and> s' = jac sig (decodeMinHash (snd c)) \<and> MinSimilarityThreshold \<le> s'))
    \<and> (\<forall>c \<in> set cands. MinSimilarityThreshold \<le> jac sig (decodeMinHash (snd c)) \<longrightarrow> jac sig (decodeMinHash (snd c)) \<le> s')"
proof (induction cands arbitrary: b s)
  case (Cons c cands)
  obtain b1 s1 where 1: "best_step jac sig c (b, s) = (b1, s1)" by fastforce
  have run: "fold (best_step jac sig) cands (b1, s1) = (b', s')" using Cons.prems 1 by simp
  note IH = Cons.IH [OF run]
  let ?sim = "jac sig (decodeMinHash (snd c))"
  show ?case
  proof (cases "MinSimilarityThreshold \<le> ?sim \<and> s < ?sim")
    case True
    then have "b1 = fst c" "s1 = ?sim" using 1 by (simp_all add: best_step_def Let_def)
    then show ?thesis using IH True by auto
  next
    case False
    then have "b1 = b" "s1 = s" using 1 by (auto simp: best_step_def Let_def)
    moreover have "MinSimilarityThreshold \<le> ?sim \<Longrightarrow> ?sim \<le> s'" using False IH \<open>s1 = s\<close> by linarith
    ultimately show ?thesis using IH by auto
  qed
qed simp

text \<open>The chosen candidate is at or above the threshold and no candidate is more similar;
  none is chosen exactly when none reaches the threshold.\<close>

lemma bestMatch_max:
  assumes "bestMatch jac sig cands = b" "0 \<notin> fst ` set cands"
  shows "(b = 0 \<longleftrightarrow> (\<forall>c \<in> set cands. jac sig (decodeMinHash (snd c)) < MinSimilarityThreshold))
    \<and> (b \<noteq> 0 \<longrightarrow> (\<exists>c \<in> set cands. fst c = b \<and> MinSimilarityThreshold \<le> jac sig (decodeMinHash (snd c))
        \<and> (\<forall>c' \<in> set cands. jac sig (decodeMinHash (snd c')) \<le> jac sig (decodeMinHash (snd c)))))"
proof -
  obtain s where f: "fold (best_step jac sig) cands (0, 0) = (b, s)"
    using assms(1) by (metis bestMatch_def prod.collapse)
  note inv = best_step_inv [OF f]
  have pos: "0 < MinSimilarityThreshold" by (simp add: MinSimilarityThreshold_def)
  show ?thesis
  proof (cases "b = 0 \<and> s = 0")
    case True
    then have "\<not> MinSimilarityThreshold \<le> jac sig (decodeMinHash (snd c))" if "c \<in> set cands" for c
      using inv that pos by force
    then show ?thesis using True by force
  next
    case False
    then obtain c where c: "c \<in> set cands" "b = fst c" "s = jac sig (decodeMinHash (snd c))" "MinSimilarityThreshold \<le> s"
      using inv by auto
    have "b \<noteq> 0" using c(1,2) assms(2) by auto
    moreover have "jac sig (decodeMinHash (snd c')) \<le> s" if "c' \<in> set cands" for c'
      using inv that c(4) by (cases "MinSimilarityThreshold \<le> jac sig (decodeMinHash (snd c'))") auto
    ultimately show ?thesis using c by force
  qed
qed

definition file_rows :: "db \<Rightarrow> (int \<times> string) set" where
  "file_rows d = (\<lambda>r. (bf_id r, bf_minhash r)) ` set (t_files d)"

text \<open>The recorded files that share a bucket with the bands of a signature.\<close>

definition shares_bucket :: "db \<Rightarrow> band list \<Rightarrow> bf_row set" where
  "shares_bucket d bs = {r \<in> set (t_files d). \<exists>b \<in> set bs. (int (BandIdx b), BucketHash b, bf_id r) \<in> set (t_buckets d)}"

lemma candidates_by_band_set:
  "set (candidates_by_band d i h) =
     (\<lambda>r. (bf_id r, bf_minhash r)) ` {r \<in> set (t_files d). (i, h, bf_id r) \<in> set (t_buckets d)}" (is "?A = ?B")
proof
  show "?A \<subseteq> ?B" unfolding candidates_by_band_def by (clarsimp split: if_splits)
  show "?B \<subseteq> ?A"
  proof
    fix x assume "x \<in> ?B"
    then obtain r where "r \<in> set (t_files d)" "(i, h, bf_id r) \<in> set (t_buckets d)" "x = (bf_id r, bf_minhash r)" by blast
    then show "x \<in> ?A" unfolding candidates_by_band_def set_concat set_map
      by (intro UN_I [of "(i, h, bf_id r)"] UN_I) auto
  qed
qed

lemma file_rows_fun:
  assumes "distinct (map bf_id (t_files d))" "x \<in> file_rows d" "y \<in> file_rows d" "fst x = fst y"
  shows "snd x = snd y"
proof -
  obtain r s where "r \<in> set (t_files d)" "s \<in> set (t_files d)" "x = (bf_id r, bf_minhash r)" "y = (bf_id s, bf_minhash s)"
    using assms(2,3) unfolding file_rows_def by blast
  moreover from this have "r = s" using assms(1,4) by (metis distinct_map fst_conv inj_onD)
  ultimately show ?thesis by simp
qed

lemma candidate_rows_set:
  assumes "distinct (map bf_id (t_files d))" "set cs \<subseteq> file_rows d"
  shows "set (fold (\<lambda>b. add_candidates f (candidates_by_band d (int (BandIdx b)) (BucketHash b))) bs cs)
    = set cs \<union> (\<lambda>r. (bf_id r, bf_minhash r)) ` {r \<in> shares_bucket d bs. bf_id r \<noteq> f}"
  using assms(2)
proof (induction bs arbitrary: cs)
  case (Cons b bs)
  let ?rows = "candidates_by_band d (int (BandIdx b)) (BucketHash b)"
  have sub: "set ?rows \<subseteq> file_rows d" by (auto simp: candidates_by_band_set file_rows_def)
  have a: "set (add_candidates f ?rows cs) = set cs \<union> {r \<in> set ?rows. fst r \<noteq> f}"
    by (intro add_candidates_set ballI impI; rule file_rows_fun [OF assms(1)])
       (assumption | erule subsetD [OF sub] | erule subsetD [OF Cons.prems])+
  then have "set (add_candidates f ?rows cs) \<subseteq> file_rows d" using sub Cons.prems by blast
  then show ?case using Cons.IH a by (auto simp: candidates_by_band_set shares_bucket_def)
qed (simp add: shares_bucket_def)

lemma duplicate_authors_loop:
  "for_each (\<lambda>a. CreateBookFileAuthor f a) ids fl (d, n) = (Ok (), (d', n')) \<Longrightarrow>
    distinct ids \<and> (\<forall>a \<in> set ids. (f, a) \<notin> set (t_file_authors d))"
proof (induction ids arbitrary: d n)
  case (Cons a ids)
  then obtain d1 n1 where 1: "CreateBookFileAuthor f a fl (d, n) = (Ok (), (d1, n1))"
    and 2: "for_each (\<lambda>a. CreateBookFileAuthor f a) ids fl (d1, n1) = (Ok (), (d', n'))"
    by (auto simp: bind_Ok)
  from CreateBookFileAuthor_Ok [OF 1] Cons.IH [OF 2] show ?case by auto
qed simp

lemma author_ids_distinct:
  assumes "list_all2 (\<lambda>i name. (i, name) \<in> A) ids names" "distinct ids" "\<And>i j name. (i, name) \<in> A \<Longrightarrow> (j, name) \<in> A \<Longrightarrow> i = j"
  shows "distinct names"
  using assms(1,2)
proof (induction ids names rule: list_all2_induct)
  case (Cons i ids name names)
  have "name \<notin> set names"
  proof
    assume "name \<in> set names"
    then obtain k where k: "k < length names" "names ! k = name" by (auto simp: in_set_conv_nth)
    then have "(ids ! k, name) \<in> A" "k < length ids" using Cons.hyps(2) by (auto simp: list_all2_conv_all_nth)
    then have "i \<in> set ids" using assms(3) Cons.hyps(1) by (metis nth_mem)
    then show False using Cons.prems by simp
  qed
  then show ?case using Cons by simp
qed simp

section \<open>Properties\<close>

lemma empty_db_inv: "db_inv empty_db"
  by (simp add: db_inv_def keys_ok_def refs_ok_def books_ok_def buckets_ok_def empty_db_def)

text \<open>
  C7: Storing a parsed file is all or nothing and keeps the database sound, whatever
  statement, begin or commit fails. On an error the tables are unchanged; on success the
  invariant holds again: unique keys, no dangling reference, every file in exactly one book,
  no book without a file, and every file in exactly the buckets of its own signature.
\<close>

theorem parse_transaction_keeps_invariant:
  assumes "db_inv d" "with_tx begin_err commit_err (record_file jac ord path md) fl d = (err, d')"
  shows "db_inv d' \<and> (err \<noteq> None \<longrightarrow> d' = d)"
proof (cases err)
  case None
  then obtain n where "record_file jac ord path md fl (d, 0) = (Ok (), (d', n))" using assms(2) by (auto simp: with_tx_ok)
  from record_file_inv [OF this assms(1)] None show ?thesis by simp
next
  case (Some e)
  then show ?thesis using assms with_tx_error by (metis option.distinct(1))
qed

definition demo_md :: metadata where
  "demo_md = \<lparr>md_authors = [''A''], md_title = ''T'', md_description = [], md_subjects = [''s''], md_languages = [''en''],
     md_idents = [], md_publisher = [], md_date = [], md_series = [], md_series_index = [], md_hash = ''h'', md_minhash = []\<rparr>"

lemmas exec_tx = with_tx_def record_file_def demo_md_def bind_def attempt_def ret_def throw_def sql_def ensureAuthor_def
  GetAuthorByName_def CreateAuthor_def CreateBookFile_def link_file_def storeBookFileMetadata_def
  CreateBookFileSubject_def CreateBookFileLanguage_def CreateBookFileAuthor_def ComputeBands_def ComputeBandsCustom_def
  bestMatch_def chooseBook_def CreateBook_def CreateBookBookFile_def CreateBookAuthor_def file_row_def Let_def
  file_exists_def author_exists_def book_exists_def empty_db_def

theorem parse_transaction_keeps_invariant_witness:
  "\<exists>d'. with_tx None None (record_file (\<lambda>_ _. 0) id ''p'' demo_md) (\<lambda>_. None) empty_db = (None, d')
     \<and> db_inv d' \<and> length (t_files d') = 1"
proof -
  obtain d' where r: "with_tx None None (record_file (\<lambda>_ _. 0) id ''p'' demo_md) (\<lambda>_. None) empty_db = (None, d')"
    "length (t_files d') = 1"
    by (simp add: exec_tx)
  from parse_transaction_keeps_invariant [OF empty_db_inv r(1)] r show ?thesis by blast
qed

text \<open>
  C16: A successful scan of a file is remembered. When the transaction commits for content
  with a hash, the path is recorded (as a file or as an exact duplicate), so that a resumed
  scan skips it; no path that was recorded is forgotten, and no stored file or membership
  of a file in a book is changed or removed.
\<close>

theorem stored_files_are_recorded:
  assumes "db_inv d" "with_tx b c (record_file jac ord path md) fl d = (None, d')"
  shows "(md_hash md \<noteq> [] \<longrightarrow> recorded d' path) \<and> (\<forall>p. recorded d p \<longrightarrow> recorded d' p)
    \<and> prefix (t_files d) (t_files d') \<and> prefix (t_book_files d) (t_book_files d')"
  using assms(2) record_file_records [OF _ assms(1)] by (auto simp: with_tx_ok)

theorem stored_files_are_recorded_witness:
  "\<exists>d'. with_tx None None (record_file (\<lambda>_ _. 0) id ''p'' demo_md) (\<lambda>_. None) empty_db = (None, d') \<and> recorded d' ''p''"
proof -
  obtain d' where r: "with_tx None None (record_file (\<lambda>_ _. 0) id ''p'' demo_md) (\<lambda>_. None) empty_db = (None, d')"
    by (simp add: exec_tx)
  from stored_files_are_recorded [OF empty_db_inv r] r show ?thesis by (auto simp: demo_md_def)
qed

lemma bucket_candidates_set:
  "base_ok d \<Longrightarrow> set (bucket_candidates d f mh)
     = (\<lambda>r. (bf_id r, bf_minhash r)) ` {r \<in> shares_bucket d (ComputeBands mh). bf_id r \<noteq> f}"
  using candidate_rows_set [of d "[]" f "ComputeBands mh"] by (simp add: bucket_candidates_def base_ok_def keys_ok_def)

lemma recorded_file_has_book:
  assumes "db_inv d" "r \<in> set (t_files d)"
  obtains b where "(b, bf_id r) \<in> set (t_book_files d)" "b \<noteq> 0"
proof -
  have B: "books_ok d" and ok: "base_ok d" using assms(1) by (simp_all add: db_inv_def base_ok_def)
  then have "bf_id r \<in> snd ` set (t_book_files d)" using assms(2) unfolding books_ok_def by (metis imageI)
  then obtain b where b: "(b, bf_id r) \<in> set (t_book_files d)" by auto
  then have "b \<in> bk_id ` set (t_books d)" using B by (force simp: books_ok_def)
  then have "b \<noteq> 0" using ok by (auto simp: base_ok_def keys_ok_def)
  with b show thesis by (rule that)
qed

text \<open>
  C17: Grouping picks the best match. For new content stored without I/O faults, let the
  candidates be the recorded files that share a bucket with it. If one of them reaches the
  similarity threshold of 0.75, the file joins the existing book of a most similar
  candidate and no book is created; otherwise it gets a new book of its own. This holds for
  every iteration order of the candidate map.
\<close>

theorem new_file_joins_best_match:
  assumes inv: "db_inv d" and run: "record_file jac ord path md (\<lambda>_. None) (d, n) = (Ok (), (d', n'))"
    and new: "md_hash md \<noteq> []" "md_hash md \<notin> bf_hash ` set (t_files d)"
    and ord: "\<And>xs. set (ord xs) = set xs"
  defines "sim \<equiv> \<lambda>r. jac (md_minhash md) (decodeMinHash (bf_minhash r))"
    and "C \<equiv> shares_bucket d (ComputeBands (md_minhash md))"
  shows "\<exists>book. t_book_files d' = t_book_files d @ [(book, seq_files d + 1)] \<and>
    (if \<exists>r \<in> C. 3 / 4 \<le> sim r
     then t_books d' = t_books d \<and> (\<exists>r \<in> C. 3 / 4 \<le> sim r \<and> (\<forall>r' \<in> C. sim r' \<le> sim r) \<and> (book, bf_id r) \<in> set (t_book_files d))
     else book = seq_books d + 1 \<and> t_books d' = t_books d @ [\<lparr>bk_id = book, bk_title = md_title md,
             bk_description = [], bk_series = [], bk_series_index = []\<rparr>])"
proof -
  have ok: "base_ok d" using inv by (simp add: db_inv_def base_ok_def)
  from run ok show ?thesis
  proof (cases rule: record_file_cases)
    case (stored d1 d2 f ids m)
    note gf = authors_grow_fields [OF stored(4)]
    have d2: "t_files d2 = t_files d @ [(file_row path md)\<lparr>bf_id := f\<rparr>]" "t_book_files d2 = t_book_files d"
      "t_books d2 = t_books d" "t_buckets d2 = t_buckets d" "seq_books d2 = seq_books d"
      using stored(9) gf by simp_all
    let ?rows = "bucket_candidates d2 f (md_minhash md)" and ?best = "bestMatch jac (md_minhash md) (ord (bucket_candidates d2 f (md_minhash md)))"
    have "{r \<in> shares_bucket d2 (ComputeBands (md_minhash md)). bf_id r \<noteq> f} = C"
      using stored(6) d2 by (auto simp: shares_bucket_def C_def)
    then have rows: "set (ord ?rows) = (\<lambda>r. (bf_id r, bf_minhash r)) ` C"
      using bucket_candidates_set [OF stored(3)] ord by simp
    have zero: "0 \<notin> fst ` set (ord ?rows)"
      unfolding rows using ok by (force simp: C_def shares_bucket_def base_ok_def keys_ok_def)
    note best = bestMatch_max [OF HOL.refl zero, of jac "md_minhash md", unfolded rows MinSimilarityThreshold_def]
    have "f \<notin> snd ` set (t_book_files d2)" using books_ok_new stored(6) inv d2(2) by (simp add: db_inv_def)
    note l = link_file_result [OF stored(10) stored(3) this, unfolded d2]
    show ?thesis
    proof (cases "?best = 0")
      case True
      then have "\<not> (\<exists>r \<in> C. 3 / 4 \<le> sim r)" using best by (fastforce simp: sim_def)
      then show ?thesis using l True stored(5) by (simp add: d2)
    next
      case False
      then obtain r where r: "r \<in> C" "bf_id r = ?best" "3 / 4 \<le> sim r" "\<forall>r' \<in> C. sim r' \<le> sim r"
        using best by (auto simp: sim_def)
      have "r \<in> set (t_files d)" using r(1) by (simp add: C_def shares_bucket_def)
      then obtain b where b: "(b, ?best) \<in> set (t_book_files d)" "b \<noteq> 0"
        using recorded_file_has_book [OF inv] unfolding r(2) [symmetric] by blast
      then have "t_book_files d' = t_book_files d @ [(b, f)] \<and> t_books d' = t_books d"
        using l False b inv by (auto simp: db_inv_def books_ok_def d2)
      then show ?thesis using r b stored(5) by auto
    qed
  qed (use new in auto)
qed

definition demo_md1 :: metadata where
  "demo_md1 = demo_md\<lparr>md_hash := ''h1'', md_minhash := [1, 2, 3, 4, 5]\<rparr>"

definition demo_md2 :: metadata where
  "demo_md2 = demo_md\<lparr>md_hash := ''h2'', md_minhash := [1, 2, 3, 4, 5]\<rparr>"

definition demo_key :: int where "demo_key = HashBand [1, 2, 3, 4, 5]"

lemma demo_bands: "ComputeBands [1, 2, 3, 4, 5] = [\<lparr>BandIdx = 0, BucketHash = demo_key\<rparr>]"
  by (simp add: ComputeBands_eq rows_at_def demo_key_def)

lemmas exec_link = record_file_def bind_def attempt_def ret_def throw_def sql_def ensureAuthor_def
  GetAuthorByName_def CreateAuthor_def CreateBookFile_def link_file_def storeBookFileMetadata_def
  CreateBookFileSubject_def CreateBookFileLanguage_def CreateBookFileAuthor_def demo_bands
  FindCandidateMinHashesByBand_def candidates_by_band_def add_candidates_def best_step_def GetBookIDByBookFileID_def
  bestMatch_def chooseBook_def CreateBook_def CreateBookBookFile_def CreateBookAuthor_def CreateLSHBucket_def file_row_def Let_def
  file_exists_def author_exists_def book_exists_def decode_encode MinSimilarityThreshold_def

lemma demo_first: "\<exists>d n. record_file (\<lambda>_ _. 1) id ''p'' demo_md1 (\<lambda>_. None) (empty_db, 0) = (Ok (), (d, n))
    \<and> t_files d = [(file_row ''p'' demo_md1)\<lparr>bf_id := 1\<rparr>] \<and> t_buckets d = [(0, demo_key, 1)] \<and> t_book_files d = [(1, 1)]
    \<and> seq_files d = 1 \<and> t_authors d = [(1, ''A'')] \<and> t_books d \<noteq> []"
  by (simp add: exec_link demo_md1_def demo_md_def empty_db_def)

theorem new_file_joins_best_match_witness:
  "\<exists>d d' n n'. record_file (\<lambda>_ _. 1) id ''q'' demo_md2 (\<lambda>_. None) (d, n) = (Ok (), (d', n'))
     \<and> t_book_files d' = [(1, 1), (1, 2)]"
proof -
  obtain d n where d: "record_file (\<lambda>_ _. 1) id ''p'' demo_md1 (\<lambda>_. None) (empty_db, 0) = (Ok (), (d, n))"
    and f: "t_files d = [(file_row ''p'' demo_md1)\<lparr>bf_id := 1\<rparr>]" "t_buckets d = [(0, demo_key, 1)]"
      "t_book_files d = [(1, 1)]" "seq_files d = 1" "t_authors d = [(1, ''A'')]" "t_books d \<noteq> []"
    using demo_first by blast
  have inv: "db_inv d" by (rule record_file_inv [OF d empty_db_inv])
  have "book_exists d 1" using inv f(3) by (auto simp: db_inv_def refs_ok_def)
  moreover have "(2, 1) \<notin> set (t_file_authors d)" using inv f(1) by (auto simp: db_inv_def refs_ok_def file_exists_def)
  ultimately have "\<exists>d' n'. record_file (\<lambda>_ _. 1) id ''q'' demo_md2 (\<lambda>_. None) (d, n) = (Ok (), (d', n'))"
    using f by (simp add: exec_link demo_md1_def demo_md2_def demo_md_def image_iff) 
  then obtain d' n' where r: "record_file (\<lambda>_ _. 1) id ''q'' demo_md2 (\<lambda>_. None) (d, n) = (Ok (), (d', n'))" by blast
  have "\<exists>r \<in> shares_bucket d (ComputeBands (md_minhash demo_md2)). True"
    by (simp add: shares_bucket_def f demo_md2_def demo_bands)
  moreover have "md_hash demo_md2 \<noteq> []" "md_hash demo_md2 \<notin> bf_hash ` set (t_files d)"
    by (simp_all add: f demo_md2_def demo_md1_def file_row_def)
  ultimately have "t_book_files d' = [(1, 1), (1, 2)]"
    using new_file_joins_best_match [OF inv r] f by auto
  with r show ?thesis by blast
qed

text \<open>
  A file whose metadata lists the same author twice can never be stored. Whatever the
  database and whichever statements fail, the transaction for such a file with new content
  does not commit: the second link violates the primary key of the author links.
\<close>

theorem repeated_author_is_rejected:
  assumes "db_inv d" "md_hash md \<noteq> []" "md_hash md \<notin> bf_hash ` set (t_files d)" "\<not> distinct (md_authors md)"
  shows "fst (with_tx b c (record_file jac ord path md) fl d) \<noteq> None"
proof
  assume "fst (with_tx b c (record_file jac ord path md) fl d) = None"
  then obtain d' where "with_tx b c (record_file jac ord path md) fl d = (None, d')" by (metis prod.collapse)
  then obtain n' where run: "record_file jac ord path md fl (d, 0) = (Ok (), (d', n'))" by (auto simp: with_tx_ok)
  have ok: "base_ok d" using assms(1) by (simp add: db_inv_def base_ok_def)
  obtain ids d1 n1 where 1: "collect ensureAuthor (md_authors md) fl (d, 0) = (Ok ids, (d1, n1))"
    and rest: "attempt (CreateBookFile (file_row path md)) (\<lambda>r. case r of
       Ok f \<Rightarrow> link_file jac ord md ids f
     | Err e \<Rightarrow> if e = NoRows then CreateBookFileDuplicate (md_hash md) path else throw e) fl (d1, n1) = (Ok (), (d', n'))"
    using run assms(2) by (auto simp: record_file_def bind_Ok)
  note k1 = collect_authors_keeps [OF 1 ok]
  have files: "t_files d1 = t_files d" using k1 authors_grow_fields(1) by blast
  obtain r d2 n2 where c: "CreateBookFile (file_row path md) fl (d1, n1) = (r, (d2, n2))" by (metis surj_pair)
  have "r \<noteq> Inl NoRows" using CreateBookFile_state [of "file_row path md" fl d1 n1 NoRows d2 n2] c assms(3) files
    by (auto simp: file_row_def)
  then obtain f where "link_file jac ord md ids f fl (d2, n2) = (Ok (), (d', n'))"
    using rest c by (cases r) (auto simp: attempt_Ok split: if_splits)
  then obtain d3 n3 d4 n4 where "for_each (\<lambda>a. CreateBookFileAuthor f a) ids fl (d3, n3) = (Ok (), (d4, n4))"
    by (auto simp: link_file_def bind_Ok)
  then have "distinct ids" using duplicate_authors_loop by blast
  moreover have "i = j" if "(i, name) \<in> set (t_authors d1)" "(j, name) \<in> set (t_authors d1)" for i j name
  proof -
    have "distinct (map snd (t_authors d1))" using k1 by (simp add: base_ok_def keys_ok_def)
    then show ?thesis using that by (metis Pair_inject distinct_map inj_onD snd_conv)
  qed
  ultimately have "distinct (md_authors md)" using author_ids_distinct k1 by blast
  then show False using assms(4) by blast
qed

theorem repeated_author_is_rejected_witness:
  "fst (with_tx None None (record_file (\<lambda>_ _. 0) id ''p'' (demo_md\<lparr>md_authors := [''A'', ''A'']\<rparr>)) (\<lambda>_. None) empty_db) \<noteq> None"
  by (rule repeated_author_is_rejected) (simp_all add: empty_db_inv demo_md_def, simp add: empty_db_def)

text \<open>
  The choice among equally similar candidates is left to the iteration order of a Go
  map: there are candidates for which two orders lead to different best matches, so two
  scans of the same files can group them differently.
\<close>

theorem best_match_depends_on_map_order:
  "\<exists>jac sig cands. distinct (map fst cands) \<and> bestMatch jac sig cands \<noteq> bestMatch jac sig (rev cands)"
proof -
  have "bestMatch (\<lambda>_ _. 1) [] [(1, []), (2, [])] \<noteq> bestMatch (\<lambda>_ _. 1) [] (rev [(1, []), (2, [])])"
    by (simp add: bestMatch_def best_step_def Let_def MinSimilarityThreshold_def)
  then show ?thesis by (intro exI [of _ "\<lambda>_ _. 1"] exI [of _ "[]"] exI [of _ "[(1, []), (2, [])]"]) simp
qed

end
