(* ===== verification/Processor.thy ===== *)
theory Processor
  imports Ingest Walker
begin

text \<open>
  Model of the state of a scan in \<open>internal/processor/scan.go\<close> and \<open>resume.go\<close>, with the parser
  registry: counters, failures, extension statistics and progress reports, the checks that
  pass a file over, and \<open>parseEbook\<close>, which parses one ebook and records it.

  What the code reads from outside is a record \<open>'c world\<close> over an abstract type \<open>'c\<close> of
  contents: what a parser makes of a content, what an archive library finds in it, which
  database access fails, and when the context is found cancelled (the number of the check).
\<close>

section \<open>Parsers\<close>

definition DefaultMinDocumentSize :: int where "DefaultMinDocumentSize = 15 * 1024"

definition ResolveMinSize :: "int \<Rightarrow> int" where
  "ResolveMinSize configured = (if configured < 0 then 0 else if configured = 0 then DefaultMinDocumentSize else configured)"

datatype parser = EbookParser | TxtParser int | RtfParser int | PDFParser int bool

definition ParsersWithOptions :: "int \<Rightarrow> bool \<Rightarrow> string \<Rightarrow> parser option" where
  "ParsersWithOptions minSize tools =
     (map_of (map (\<lambda>f. (f, EbookParser)) EbookFormats))
       (''txt'' \<mapsto> TxtParser minSize, ''rtf'' \<mapsto> RtfParser minSize, ''pdf'' \<mapsto> PDFParser minSize tools)"

text \<open>\<open>SizeFilter\<close> is implemented by the document parsers only.\<close>

fun MinSize :: "parser \<Rightarrow> int option" where
  "MinSize EbookParser = None"
| "MinSize (TxtParser m) = Some (ResolveMinSize m)"
| "MinSize (RtfParser m) = Some (ResolveMinSize m)"
| "MinSize (PDFParser m _) = Some (ResolveMinSize m)"

section \<open>Errors, contents and the world\<close>

text \<open>What \<open>errors.Is\<close> can find in an error: a cancellation, \<open>ErrNotABook\<close>, the unsupported zip
  algorithm. Wrapping with \<open>%w\<close> keeps it.\<close>

datatype kind = Plain | Canceled | NotABook | Algorithm

datatype perr = Perr string kind | Database db_error

fun kind_of :: "perr \<Rightarrow> kind" where
  "kind_of (Perr _ k) = k"
| "kind_of (Database _) = Plain"

fun wrap :: "string \<Rightarrow> perr \<Rightarrow> perr" where
  "wrap p (Perr m k) = Perr (p @ m) k"
| "wrap p e = e"

record 'c zip_entry =
  ze_dir :: bool
  ze_name :: string
  ze_nonutf8 :: bool
  ze_encrypted :: bool
  ze_size :: int
  ze_open :: "(perr, 'c) result"

record 'c tar_entry =
  te_regular :: bool
  te_name :: string
  te_size :: int
  te_content :: 'c

record 'c file_info =
  fi_dir :: bool
  fi_name :: string
  fi_size :: int
  fi_open :: "(perr, 'c) result"

text \<open>A reader is a file on disk (\<open>*os.File\<close>) or any other stream.\<close>

datatype 'c reader = OnDisk 'c | Stream 'c

fun content :: "'c reader \<Rightarrow> 'c" where
  "content (OnDisk c) = c"
| "content (Stream c) = c"

fun on_disk :: "'c reader \<Rightarrow> bool" where
  "on_disk (OnDisk c) = True"
| "on_disk (Stream c) = False"

record 'c world =
  w_maxDepth :: int
  w_minDoc :: int
  w_pdfTools :: bool
  w_resume :: bool
  w_extStats :: bool
  w_env :: env
  w_script :: "rune \<Rightarrow> string"
  w_charmaps :: "(string \<Rightarrow> string option) list"
  w_cancelled :: "nat \<Rightarrow> bool"
  w_query :: faults
  w_tx :: "nat \<Rightarrow> string option \<times> string option \<times> faults"
  w_similarity :: similarity
  w_order :: map_order
  w_open :: "string \<Rightarrow> (perr, 'c reader) result"
  w_fileBlob :: "'c \<Rightarrow> perr option"
  w_spool :: "'c \<Rightarrow> int \<Rightarrow> perr option"
  w_blobSize :: "'c \<Rightarrow> (perr, int) result"
  w_parse :: "string \<Rightarrow> 'c \<Rightarrow> (perr, metadata) result"
  w_gunzip :: "'c \<Rightarrow> (perr, 'c) result"
  w_bunzip :: "'c \<Rightarrow> 'c"
  w_zip :: "'c \<Rightarrow> int \<Rightarrow> (perr, 'c zip_entry list) result"
  w_tar :: "'c \<Rightarrow> 'c tar_entry list \<times> perr option"
  w_rar :: "'c \<Rightarrow> 'c file_info list \<times> perr option"
  w_sevenzip :: "'c \<Rightarrow> 'c file_info list \<times> perr option"

section \<open>The state of a scan\<close>

record stats =
  st_scan :: progress
  st_found :: int
  st_parsed :: int
  st_failed :: int
  st_skipped :: int
  st_ext :: "(string \<times> int) list option"
  st_active :: int
  st_current :: "string list"

text \<open>\<open>pr_results\<close> and \<open>pr_reports\<close> are the calls of \<open>OnResult\<close> and \<open>OnProgress\<close>; \<open>pr_stop\<close> says
  that the processor cancelled its own context; \<open>pr_calls\<close> lists the paths handed to a parser's \<open>Parse\<close>; \<open>pr_clock\<close>, \<open>pr_queries\<close> and \<open>pr_txs\<close> count the
  checks of the context, the queries and the transactions made so far.\<close>

record proc =
  pr_parsed :: int
  pr_failed :: int
  pr_found :: int
  pr_skipped :: int
  pr_scan :: progress
  pr_failures :: "(string \<times> perr) list"
  pr_ext :: "(string \<times> int) list"
  pr_active :: int
  pr_current :: "string list"
  pr_results :: "(string \<times> string \<times> metadata) list"
  pr_reports :: "stats list"
  pr_db :: db
  pr_stop :: bool
  pr_clock :: nat
  pr_queries :: nat
  pr_txs :: nat
  pr_calls :: "string list"

definition NewScanProcessor :: "db \<Rightarrow> proc" where
  "NewScanProcessor d = \<lparr>pr_parsed = 0, pr_failed = 0, pr_found = 0, pr_skipped = 0, pr_scan = \<lparr>p_dirs = 0, p_files = 0, p_found = 0\<rparr>,
     pr_failures = [], pr_ext = [], pr_active = 0, pr_current = [], pr_results = [], pr_reports = [], pr_db = d,
     pr_stop = False, pr_clock = 0, pr_queries = 0, pr_txs = 0, pr_calls = []\<rparr>"

text \<open>\<open>if ctx.Err() != nil { return }\<close> before the rest \<open>k\<close> of a body.\<close>

definition unless_cancelled :: "'c world \<Rightarrow> (proc \<Rightarrow> proc) \<Rightarrow> proc \<Rightarrow> proc" where
  "unless_cancelled w k s = (let s' = s\<lparr>pr_clock := Suc (pr_clock s)\<rparr> in
     if pr_stop s \<or> w_cancelled w (pr_clock s) then s' else k s')"

definition extCountsCopy :: "proc \<Rightarrow> (string \<times> int) list option" where
  "extCountsCopy s = (if pr_ext s = [] then None else Some (pr_ext s))"

definition Stats :: "proc \<Rightarrow> stats" where
  "Stats s = \<lparr>st_scan = pr_scan s, st_found = p_found (pr_scan s) + pr_found s, st_parsed = pr_parsed s, st_failed = pr_failed s,
     st_skipped = pr_skipped s, st_ext = extCountsCopy s, st_active = pr_active s, st_current = pr_current s\<rparr>"

definition report :: "proc \<Rightarrow> proc" where
  "report s = s\<lparr>pr_reports := pr_reports s @ [Stats s]\<rparr>"

definition setScanProgress :: "progress \<Rightarrow> proc \<Rightarrow> proc" where
  "setScanProgress sp s = s\<lparr>pr_scan := sp\<rparr>"

definition fail :: "'c world \<Rightarrow> string \<Rightarrow> perr \<Rightarrow> proc \<Rightarrow> proc" where
  "fail w path err = unless_cancelled w (\<lambda>s. if kind_of err = Canceled then s
     else s\<lparr>pr_failed := pr_failed s + 1, pr_failures := pr_failures s @ [(path, err)]\<rparr>)"

text \<open>\<open>p.fail(path, err); p.report()\<close>.\<close>

definition fail_report :: "'c world \<Rightarrow> string \<Rightarrow> perr \<Rightarrow> proc \<Rightarrow> proc" where
  "fail_report w path err s = report (fail w path err s)"

definition skip :: "proc \<Rightarrow> proc" where
  "skip s = report (s\<lparr>pr_skipped := pr_skipped s + 1\<rparr>)"

definition recordExt :: "'c world \<Rightarrow> string \<Rightarrow> proc \<Rightarrow> proc" where
  "recordExt w name s = (if \<not> w_extStats w then s
     else case ExtKey (w_env w) name of (ext, isArchive) \<Rightarrow>
       if isArchive then s else s\<lparr>pr_ext := upsert ext 0 (\<lambda>n. n + 1) (pr_ext s)\<rparr>)"

definition beginWork :: "string \<Rightarrow> proc \<Rightarrow> proc" where
  "beginWork path s = (let cur = pr_current s @ [path] in
     s\<lparr>pr_active := pr_active s + 1, pr_current := (if 4 < length cur then drop (length cur - 4) cur else cur)\<rparr>)"

definition endWork :: "string \<Rightarrow> proc \<Rightarrow> proc" where
  "endWork path s = s\<lparr>pr_active := pr_active s - 1, pr_current := remove1 path (pr_current s)\<rparr>"

section \<open>Files that are passed over\<close>

definition pdfDisabled :: "'c world \<Rightarrow> string \<Rightarrow> bool" where
  "pdfDisabled w format \<longleftrightarrow> format = ''pdf'' \<and> \<not> w_pdfTools w"

definition parser_of :: "'c world \<Rightarrow> string \<Rightarrow> parser option" where
  "parser_of w format = ParsersWithOptions (w_minDoc w) (w_pdfTools w) format"

definition belowMinSize :: "'c world \<Rightarrow> string \<Rightarrow> int \<Rightarrow> bool" where
  "belowMinSize w format sz = (if sz < 0 then False else case parser_of w format of
       None \<Rightarrow> False
     | Some par \<Rightarrow> (case MinSize par of None \<Rightarrow> False | Some minSize \<Rightarrow> 0 < minSize \<and> sz < minSize))"

text \<open>A query outside a transaction; it fails when \<open>w_query\<close> says so.\<close>

definition lookup_ok :: "'c world \<Rightarrow> (db \<Rightarrow> 'a option) \<Rightarrow> proc \<Rightarrow> bool \<times> proc" where
  "lookup_ok w f s = (w_query w (pr_queries s) = None \<and> f (pr_db s) \<noteq> None, s\<lparr>pr_queries := Suc (pr_queries s)\<rparr>)"

definition shouldSkip :: "'c world \<Rightarrow> string \<Rightarrow> proc \<Rightarrow> bool \<times> proc" where
  "shouldSkip w path s = (if \<not> w_resume w then (False, s)
     else case lookup_ok w (\<lambda>d. GetBookFileByPath d path) s of
       (True, s) \<Rightarrow> (True, s)
     | (False, s) \<Rightarrow> lookup_ok w (\<lambda>d. GetBookFileDuplicateByPath d path) s)"

text \<open>\<open>if p.shouldSkip(ctx, path) { p.skip(); return }\<close> before \<open>k\<close>.\<close>

definition unless_recorded :: "'c world \<Rightarrow> string \<Rightarrow> (proc \<Rightarrow> proc) \<Rightarrow> proc \<Rightarrow> proc" where
  "unless_recorded w path k s = (case shouldSkip w path s of (True, s) \<Rightarrow> skip s | (False, s) \<Rightarrow> k s)"

section \<open>Parsing one ebook\<close>

definition store :: "'c world \<Rightarrow> string \<Rightarrow> metadata \<Rightarrow> proc \<Rightarrow> db_error option \<times> proc" where
  "store w path md s = (case w_tx w (pr_txs s) of (begin_err, commit_err, fl) \<Rightarrow>
     (case with_tx begin_err commit_err (record_file (w_similarity w) (w_order w) path md) fl (pr_db s) of
       (err, d) \<Rightarrow> (err, s\<lparr>pr_db := d, pr_txs := Suc (pr_txs s)\<rparr>)))"

text \<open>What follows the call of \<open>parser.Parse\<close>, given its result.\<close>

definition after_parse :: "'c world \<Rightarrow> string \<Rightarrow> string \<Rightarrow> (perr, metadata) result \<Rightarrow> proc \<Rightarrow> proc" where
  "after_parse w path format res s = (case res of
         Err e \<Rightarrow> unless_cancelled w (\<lambda>s. if kind_of e = NotABook then skip s else fail_report w path e s) s
       | Ok md \<Rightarrow> (case store w path md s of
           (Some e, s) \<Rightarrow> unless_cancelled w (fail_report w path (Database e)) s
         | (None, s) \<Rightarrow> report (s\<lparr>pr_parsed := pr_parsed s + 1, pr_results := pr_results s @ [(path, format, md)]\<rparr>)))"

definition parseEbook :: "'c world \<Rightarrow> string \<Rightarrow> string \<Rightarrow> 'c \<Rightarrow> proc \<Rightarrow> proc" where
  "parseEbook w path format b = unless_cancelled w (\<lambda>s. case parser_of w format of
       None \<Rightarrow> unless_cancelled w (fail_report w path (Perr (''no parser registered for format '' @ format) Plain)) s
     | Some _ \<Rightarrow> after_parse w path format (w_parse w format b) (s\<lparr>pr_calls := pr_calls s @ [path]\<rparr>))"

definition parseEbookStream :: "'c world \<Rightarrow> string \<Rightarrow> string \<Rightarrow> int \<Rightarrow> 'c \<Rightarrow> proc \<Rightarrow> proc" where
  "parseEbookStream w path format sz c = unless_cancelled w (\<lambda>s. case w_spool w c sz of
       Some e \<Rightarrow> fail_report w path e s
     | None \<Rightarrow> parseEbook w path format c s)"

end
