(* ===== verification/Archive.thy ===== *)
theory Archive
  imports Processor
begin

text \<open>
  Model of \<open>internal/processor/archive.go\<close>: the archive formats, their members, nested
  archives up to the depth limit, and the names of zip members. The archive libraries are
  functions of the world from a content to the members they find.

  Functions that meet a nested archive take the recursive call as the argument \<open>unpack\<close>;
  \<open>processArchiveStream\<close> passes itself one level deeper.
\<close>

section \<open>Names of members\<close>

definition dropSuffix :: "string \<Rightarrow> string" where
  "dropSuffix name = (let ext = Ext name in if ext = [] then name else take (length name - length ext) name)"

definition zipMemberError :: "perr \<Rightarrow> perr" where
  "zipMemberError e = (if kind_of e = Algorithm
     then wrap ''zip member uses an unsupported compression or encryption algorithm: '' e
     else wrap ''zip member: '' e)"

text \<open>The script most letters belong to, the first to reach the count.\<close>

definition script_step :: "(rune \<Rightarrow> string) \<Rightarrow> rune \<Rightarrow> (string \<times> nat) \<times> (string \<times> nat) list \<Rightarrow> (string \<times> nat) \<times> (string \<times> nat) list" where
  "script_step script r st = (case st of ((dominant, dominantCount), counts) \<Rightarrow>
     let counts = upsert (script r) 0 Suc counts; n = the (map_of counts (script r)) in
     (if dominantCount < n then (script r, n) else (dominant, dominantCount), counts))"

definition dominant_script :: "env \<Rightarrow> (rune \<Rightarrow> string) \<Rightarrow> rune list \<Rightarrow> string" where
  "dominant_script u script rs = fst (fst (fold (script_step script) (filter (is_letter u) rs) (([], 0), [])))"

definition rune_score :: "env \<Rightarrow> (rune \<Rightarrow> string) \<Rightarrow> string \<Rightarrow> rune \<Rightarrow> int" where
  "rune_score u script dominant r =
     (if r = RuneError then - 20
      else if is_letter u r then (if script r \<noteq> dominant then - 6 else 3)
      else if is_digit u r then 2
      else if is_space r \<or> is_punct u r then 1
      else if is_symbol u r then - 4
      else if is_control r then - 20
      else - 4)"

definition scoreLegacyName :: "env \<Rightarrow> (rune \<Rightarrow> string) \<Rightarrow> string \<Rightarrow> int" where
  "scoreLegacyName u script s = (let dominant = dominant_script u script (runes s) in
     sum_list (map (rune_score u script dominant) (runes s)))"

definition legacy_step :: "env \<Rightarrow> (rune \<Rightarrow> string) \<Rightarrow> string \<Rightarrow> (string \<Rightarrow> string option) \<Rightarrow> string \<times> int \<Rightarrow> string \<times> int" where
  "legacy_step u script raw decoder best = (case decoder raw of
       None \<Rightarrow> best
     | Some d \<Rightarrow> if \<not> utf8_valid d then best
         else let sc = scoreLegacyName u script d in if snd best < sc then (d, sc) else best)"

definition decodeZipName :: "'c world \<Rightarrow> 'c zip_entry \<Rightarrow> string" where
  "decodeZipName w f = (let name = ze_name f; u = w_env w; script = w_script w in
     if \<not> ze_nonutf8 f \<and> utf8_valid name then name
     else if utf8_valid name then name
     else fst (fold (legacy_step u script name) (w_charmaps w) (name, scoreLegacyName u script name)))"

section \<open>Members\<close>

definition member :: "string \<Rightarrow> string \<Rightarrow> string" where
  "member parent name = parent @ ''!'' @ name"

type_synonym 'c unpack = "string \<Rightarrow> 'c \<Rightarrow> string \<Rightarrow> int \<Rightarrow> proc \<Rightarrow> proc"

definition handleMember :: "'c world \<Rightarrow> 'c unpack \<Rightarrow> string \<Rightarrow> 'c \<Rightarrow> string \<Rightarrow> int \<Rightarrow> proc \<Rightarrow> proc" where
  "handleMember w unpack name c parent sz s = (case FormatOf (w_env w) name of
       None \<Rightarrow> s
     | Some format \<Rightarrow> (let display = member parent name in
         if IsArchiveFormat format then unpack format c display sz s
         else if pdfDisabled w format then skip s
         else if belowMinSize w format sz then skip s
         else unless_recorded w display (\<lambda>s. parseEbookStream w display format sz c (s\<lparr>pr_found := pr_found s + 1\<rparr>)) s))"

definition processSingleStream :: "'c world \<Rightarrow> 'c unpack \<Rightarrow> 'c \<Rightarrow> string \<Rightarrow> proc \<Rightarrow> proc" where
  "processSingleStream w unpack c inner s = (let s = recordExt w inner s in
     case FormatOf (w_env w) inner of
       None \<Rightarrow> s
     | Some format \<Rightarrow>
         if IsArchiveFormat format then unpack format c inner (- 1) s
         else unless_recorded w inner (\<lambda>s. parseEbookStream w inner format (- 1) c (s\<lparr>pr_found := pr_found s + 1\<rparr>)) s)"

section \<open>Containers\<close>

text \<open>A loop over members that returns early when the context is cancelled.\<close>

fun members_loop :: "'c world \<Rightarrow> ('m \<Rightarrow> proc \<Rightarrow> proc) \<Rightarrow> 'm list \<Rightarrow> (proc \<Rightarrow> proc) \<Rightarrow> proc \<Rightarrow> proc" where
  "members_loop w f [] finish s = finish s"
| "members_loop w f (m # ms) finish s = unless_cancelled w (\<lambda>s. members_loop w f ms finish (f m s)) s"

definition zip_member :: "'c world \<Rightarrow> 'c unpack \<Rightarrow> string \<Rightarrow> 'c zip_entry \<Rightarrow> proc \<Rightarrow> proc" where
  "zip_member w unpack path f s = (if ze_dir f then s
     else let name = decodeZipName w f; s = recordExt w name s; display = member path name in
       if FormatOf (w_env w) name = None then s
       else unless_recorded w display (\<lambda>s.
         if ze_encrypted f then fail_report w display
           (Perr ''password-protected zip member; --archive-password is not supported yet'' Plain) s
         else case ze_open f of
           Err e \<Rightarrow> fail_report w display (zipMemberError e) s
         | Ok c \<Rightarrow> handleMember w unpack name c path (wrap64 (ze_size f)) s) s)"

definition processZip :: "'c world \<Rightarrow> 'c unpack \<Rightarrow> 'c \<Rightarrow> int \<Rightarrow> string \<Rightarrow> proc \<Rightarrow> proc" where
  "processZip w unpack c sz path s = (case w_zip w c sz of
       Err e \<Rightarrow> fail_report w path e s
     | Ok fs \<Rightarrow> members_loop w (zip_member w unpack path) fs (\<lambda>s. s) s)"

definition tar_member :: "'c world \<Rightarrow> 'c unpack \<Rightarrow> string \<Rightarrow> 'c tar_entry \<Rightarrow> proc \<Rightarrow> proc" where
  "tar_member w unpack path h s = (if \<not> te_regular h then s
     else handleMember w unpack (te_name h) (te_content h) path (te_size h) (recordExt w (te_name h) s))"

definition finish_archive :: "'c world \<Rightarrow> string \<Rightarrow> perr option \<Rightarrow> proc \<Rightarrow> proc" where
  "finish_archive w path end_err s = (case end_err of None \<Rightarrow> s | Some e \<Rightarrow> fail_report w path e s)"

definition processTar :: "'c world \<Rightarrow> 'c unpack \<Rightarrow> 'c \<Rightarrow> string \<Rightarrow> proc \<Rightarrow> proc" where
  "processTar w unpack c path s = (case w_tar w c of (hs, end_err) \<Rightarrow>
     members_loop w (tar_member w unpack path) hs (finish_archive w path end_err) s)"

text \<open>The handler of \<open>Extract\<close> for rar and 7z; \<open>fs.SkipAll\<close> ends the walk without an error.\<close>

definition handleArchiveFile :: "'c world \<Rightarrow> 'c unpack \<Rightarrow> string \<Rightarrow> 'c file_info \<Rightarrow> proc \<Rightarrow> proc" where
  "handleArchiveFile w unpack path f s = (if fi_dir f then s
     else let s = recordExt w (fi_name f) s; display = member path (fi_name f) in
       if FormatOf (w_env w) (fi_name f) = None then s
       else unless_recorded w display (\<lambda>s. case fi_open f of
           Err e \<Rightarrow> fail_report w display e s
         | Ok c \<Rightarrow> handleMember w unpack (fi_name f) c path (fi_size f) s) s)"

definition extract_all :: "'c world \<Rightarrow> 'c unpack \<Rightarrow> 'c file_info list \<times> perr option \<Rightarrow> string \<Rightarrow> proc \<Rightarrow> proc" where
  "extract_all w unpack listing path s = (case listing of (fs, end_err) \<Rightarrow>
     members_loop w (handleArchiveFile w unpack path) fs (finish_archive w path end_err) s)"

section \<open>Archives\<close>

text \<open>\<open>readerAtView\<close> and \<open>seekReadAtView\<close>: a file is used as it is, a stream is spooled.\<close>

definition readerAtView :: "'c world \<Rightarrow> int \<Rightarrow> 'c reader \<Rightarrow> perr option" where
  "readerAtView w sz r = (if on_disk r then w_fileBlob w (content r) else w_spool w (content r) sz)"

definition seekReadAtView :: "'c world \<Rightarrow> int \<Rightarrow> 'c reader \<Rightarrow> perr option" where
  "seekReadAtView w sz r = (if on_disk r then None else w_spool w (content r) sz)"

definition processZipStream :: "'c world \<Rightarrow> 'c unpack \<Rightarrow> 'c reader \<Rightarrow> string \<Rightarrow> int \<Rightarrow> proc \<Rightarrow> proc" where
  "processZipStream w unpack r path sz s = (case readerAtView w sz r of
       Some e \<Rightarrow> fail_report w path e s
     | None \<Rightarrow> (case w_blobSize w (content r) of
         Err e \<Rightarrow> fail_report w path e s
       | Ok bsize \<Rightarrow> processZip w unpack (content r) bsize path s))"

definition processSevenZipStream :: "'c world \<Rightarrow> 'c unpack \<Rightarrow> 'c reader \<Rightarrow> string \<Rightarrow> int \<Rightarrow> proc \<Rightarrow> proc" where
  "processSevenZipStream w unpack r path sz s = (case seekReadAtView w sz r of
       Some e \<Rightarrow> fail_report w path e s
     | None \<Rightarrow> extract_all w unpack (w_sevenzip w (content r)) path s)"

text \<open>The formats, once the depth limit is passed.\<close>

definition open_archive :: "'c world \<Rightarrow> 'c unpack \<Rightarrow> string \<Rightarrow> 'c reader \<Rightarrow> string \<Rightarrow> int \<Rightarrow> proc \<Rightarrow> proc" where
  "open_archive w unpack format r path sz s = (let c = content r in
     if format = ''zip'' then processZipStream w unpack r path sz s
     else if format = ''tar'' then processTar w unpack c path s
     else if format = ''tgz'' then (case w_gunzip w c of
         Err e \<Rightarrow> fail_report w path e s | Ok c \<Rightarrow> processTar w unpack c path s)
     else if format = ''tbz2'' then processTar w unpack (w_bunzip w c) path s
     else if format = ''gz'' then (case w_gunzip w c of
         Err e \<Rightarrow> fail_report w path e s | Ok c \<Rightarrow> processSingleStream w unpack c (dropSuffix path) s)
     else if format = ''bz2'' then processSingleStream w unpack (w_bunzip w c) (dropSuffix path) s
     else if format = ''rar'' then extract_all w unpack (w_rar w c) path s
     else if format = ''7z'' then processSevenZipStream w unpack r path sz s
     else fail_report w path (Perr (''unsupported archive format '' @ format) Plain) s)"

definition depth_error :: perr where
  "depth_error = Perr ''archive nesting depth exceeds the limit (raise it with --archive-depth)'' Plain"

function processArchiveStream :: "'c world \<Rightarrow> string \<Rightarrow> 'c reader \<Rightarrow> string \<Rightarrow> int \<Rightarrow> int \<Rightarrow> proc \<Rightarrow> proc" where
  "processArchiveStream w format r path depth sz s =
     (if w_maxDepth w \<le> depth then fail_report w path depth_error s
      else open_archive w (\<lambda>format c path sz s. processArchiveStream w format (Stream c) path (depth + 1) sz s) format r path sz s)"
  by pat_completeness auto
termination
  by (relation "measure (\<lambda>(w, _, _, _, depth, _, _). nat (w_maxDepth w - depth))") auto

declare processArchiveStream.simps [simp del]

definition processArchive :: "'c world \<Rightarrow> scan_result \<Rightarrow> int \<Rightarrow> proc \<Rightarrow> proc" where
  "processArchive w r depth s = (case w_open w (r_path r) of
       Err e \<Rightarrow> fail_report w (r_path r) e s
     | Ok rc \<Rightarrow> processArchiveStream w (r_format r) rc (r_path r) depth (if on_disk rc then - 1 else r_size r) s)"

section \<open>One unit of work\<close>

definition processSource :: "'c world \<Rightarrow> scan_result \<Rightarrow> proc \<Rightarrow> proc" where
  "processSource w r = unless_cancelled w (\<lambda>s. let path = r_path r; format = r_format r in
     if IsArchiveFormat format then processArchive w r 0 s
     else if pdfDisabled w format then skip s
     else if belowMinSize w format (r_size r) then skip s
     else unless_recorded w path (\<lambda>s. case w_open w path of
         Err e \<Rightarrow> fail_report w path e s
       | Ok (OnDisk c) \<Rightarrow> (case w_fileBlob w c of
           Some e \<Rightarrow> fail_report w path e s
         | None \<Rightarrow> parseEbook w path format c s)
       | Ok (Stream c) \<Rightarrow> parseEbookStream w path format (r_size r) c s) s)"

end
