(* ===== verification/ScanSteps.thy ===== *)
theory ScanSteps
  imports Archive
begin

text \<open>
  The contract of the scan: a relation between states that holds across every elementary step
  (a check of the context, a query, a failure, a skip, a report, a counted name, a found
  member, a stored file) holds across the processing of any unit of work, whatever archives
  it nests. The interpretations give the growth of the database, the consistency of the
  counters and the behaviour of a resumed scan.
\<close>

section \<open>Recorded paths\<close>

text \<open>What is known of a path when it is parsed: a resumed scan has not found it recorded.\<close>

definition parse_allowed :: "'c world \<Rightarrow> string \<Rightarrow> proc \<Rightarrow> bool" where
  "parse_allowed w path s \<longleftrightarrow> (w_resume w \<and> (\<forall>k. w_query w k = None) \<longrightarrow> \<not> recorded (pr_db s) path)"

lemma shouldSkip_state: "shouldSkip w path s = (b, s') \<Longrightarrow> \<exists>n. s' = s\<lparr>pr_queries := n\<rparr>"
  by (auto simp: shouldSkip_def lookup_ok_def split: if_splits bool.splits intro: exI [of _ "pr_queries s"])

lemma shouldSkip_answer:
  assumes "shouldSkip w path s = (b, s')" "w_resume w" "\<forall>k. w_query w k = None"
  shows "b \<longleftrightarrow> recorded (pr_db s) path"
  using assms by (auto simp: shouldSkip_def lookup_ok_def recorded_def split: if_splits bool.splits)

lemma parse_allowed_db: "pr_db s' = pr_db s \<Longrightarrow> parse_allowed w path s' = parse_allowed w path s"
  by (simp add: parse_allowed_def)

section \<open>The contract\<close>

locale quiet_steps =
  fixes w :: "'c world" and R :: "proc \<Rightarrow> proc \<Rightarrow> bool"
  assumes refl: "R s s"
    and trans: "R s s1 \<Longrightarrow> R s1 s2 \<Longrightarrow> R s s2"
    and clock: "R s (s\<lparr>pr_clock := n\<rparr>)"
    and queries: "R s (s\<lparr>pr_queries := n\<rparr>)"
    and failed: "R s (s\<lparr>pr_failed := pr_failed s + 1, pr_failures := pr_failures s @ [x]\<rparr>)"
    and skipped: "R s (s\<lparr>pr_skipped := pr_skipped s + 1\<rparr>)"
    and reported: "R s (s\<lparr>pr_reports := l\<rparr>)"
    and counted: "R s (s\<lparr>pr_ext := e\<rparr>)"
    and found_one: "R s (s\<lparr>pr_found := pr_found s + 1\<rparr>)"
begin

lemma cancel_step: "(\<And>s. R s (k s)) \<Longrightarrow> R s (unless_cancelled w k s)"
  unfolding unless_cancelled_def Let_def by (auto intro: clock trans [OF clock])

lemma if_step: "R s a \<Longrightarrow> R s b \<Longrightarrow> R s (if c then a else b)"
  by simp

lemma case_step: "(\<And>e. r = Err e \<Longrightarrow> R s (f e)) \<Longrightarrow> (\<And>x. r = Ok x \<Longrightarrow> R s (g x)) \<Longrightarrow> R s (case r of Err e \<Rightarrow> f e | Ok x \<Rightarrow> g x)"
  by (cases r) simp_all

lemma option_step: "(r = None \<Longrightarrow> R s f) \<Longrightarrow> (\<And>x. r = Some x \<Longrightarrow> R s (g x)) \<Longrightarrow> R s (case r of None \<Rightarrow> f | Some x \<Rightarrow> g x)"
  by (cases r) simp_all

lemma fail_step: "R s (fail w path e s)"
  unfolding fail_def by (rule cancel_step) (simp add: refl failed)

lemma report_step: "R s (report s)"
  by (simp add: report_def reported)

lemma fail_report_step: "R s (fail_report w path e s)"
  unfolding fail_report_def by (rule trans [OF fail_step report_step])

lemma skip_step: "R s (skip s)"
  unfolding skip_def by (rule trans [OF skipped report_step])

lemma ext_step: "R s (recordExt w name s)"
  by (simp add: recordExt_def refl counted split: prod.split)

lemma finish_step: "R s (finish_archive w path e s)"
  by (simp add: finish_archive_def refl fail_report_step split: option.split)

text \<open>The continuation runs where resume did not find the path.\<close>

lemma recorded_step:
  assumes "\<And>s. parse_allowed w path s \<Longrightarrow> R s (k s)"
  shows "R s (unless_recorded w path k s)"
proof -
  obtain b s' where r: "shouldSkip w path s = (b, s')" by force
  obtain n where s': "s' = s\<lparr>pr_queries := n\<rparr>" using shouldSkip_state [OF r] by blast
  have q: "R s s'" unfolding s' by (rule queries)
  show ?thesis
  proof (cases b)
    case True
    then show ?thesis using trans [OF q skip_step] r by (simp add: unless_recorded_def)
  next
    case False
    then have "parse_allowed w path s'" using shouldSkip_answer [OF r] by (auto simp: parse_allowed_def s')
    then show ?thesis using trans [OF q assms] r False by (simp add: unless_recorded_def)
  qed
qed

lemma members_step:
  "(\<And>m s. R s (f m s)) \<Longrightarrow> (\<And>s. R s (finish s)) \<Longrightarrow> R s (members_loop w f ms finish s)"
proof (induction ms arbitrary: s)
  case (Cons m ms)
  have "R s (members_loop w f ms finish (f m s))" for s by (rule trans [OF Cons.prems(1)]) (rule Cons.IH [OF Cons.prems])
  then show ?case by (simp add: cancel_step)
qed simp

end

text \<open>Adding the call of a parser and the two outcomes of storing a parsed file.\<close>

locale scan_steps = quiet_steps w R for w :: "'c world" and R +
  assumes called: "parse_allowed w path s \<Longrightarrow> R s (s\<lparr>pr_calls := pr_calls s @ [path]\<rparr>)"
    and rejected: "parse_allowed w path s \<Longrightarrow> store w path md s = (Some e, s') \<Longrightarrow> R s s'"
    and stored: "parse_allowed w path s \<Longrightarrow> store w path md s = (None, s') \<Longrightarrow>
      R s (s'\<lparr>pr_parsed := pr_parsed s' + 1, pr_results := pr_results s' @ [(path, format, md)]\<rparr>)"
begin

text \<open>Checks of the context keep the licence to parse.\<close>

lemma cancel_allowed:
  assumes "\<And>s. parse_allowed w path s \<Longrightarrow> R s (k s)" "parse_allowed w path s"
  shows "R s (unless_cancelled w k s)"
proof -
  have "parse_allowed w path (s\<lparr>pr_clock := Suc (pr_clock s)\<rparr>)" using assms(2) by (simp add: parse_allowed_def)
  then show ?thesis unfolding unless_cancelled_def Let_def by (auto intro: clock trans [OF clock assms(1)])
qed

lemma after_parse_step:
  assumes a: "parse_allowed w path s"
  shows "R s (after_parse w path format res s)"
proof -
  have "R s (case store w path md s of (Some e, s) \<Rightarrow> unless_cancelled w (fail_report w path (Database e)) s
      | (None, s) \<Rightarrow> report (s\<lparr>pr_parsed := pr_parsed s + 1, pr_results := pr_results s @ [(path, format, md)]\<rparr>))" for md
  proof (cases "store w path md s")
    case (Pair err s')
    show ?thesis
    proof (cases err)
      case None
      then show ?thesis using trans [OF stored [OF a] report_step] Pair by simp
    next
      case (Some e)
      then show ?thesis using trans [OF rejected [OF a] cancel_step [OF fail_report_step]] Pair by simp
    qed
  qed
  then show ?thesis unfolding after_parse_def by (intro case_step cancel_step if_step fail_report_step skip_step)
qed

lemma parse_step:
  assumes "parse_allowed w path s"
  shows "R s (parseEbook w path format c s)"
  unfolding parseEbook_def
proof (rule cancel_allowed [OF _ assms])
  fix s assume a: "parse_allowed w path s"
  then have "parse_allowed w path (s\<lparr>pr_calls := pr_calls s @ [path]\<rparr>)" by (simp add: parse_allowed_def)
  then have "R s (after_parse w path format (w_parse w format c) (s\<lparr>pr_calls := pr_calls s @ [path]\<rparr>))"
    by (rule trans [OF called [OF a] after_parse_step])
  then show "R s (case parser_of w format of
       None \<Rightarrow> unless_cancelled w (fail_report w path (Perr (''no parser registered for format '' @ format) Plain)) s
     | Some _ \<Rightarrow> after_parse w path format (w_parse w format c) (s\<lparr>pr_calls := pr_calls s @ [path]\<rparr>))"
    by (intro option_step cancel_step fail_report_step)
qed

lemma stream_step: "parse_allowed w path s \<Longrightarrow> R s (parseEbookStream w path format sz c s)"
  unfolding parseEbookStream_def
  by (rule cancel_allowed) (auto split: option.split intro: fail_report_step parse_step)

lemma found_stream_step:
  "parse_allowed w path s \<Longrightarrow> R s (parseEbookStream w path format sz c (s\<lparr>pr_found := pr_found s + 1\<rparr>))"
  by (rule trans [OF found_one stream_step]) (simp add: parse_allowed_def)

lemmas steps = refl fail_report_step skip_step finish_step ext_step recorded_step found_stream_step cancel_step members_step

lemma handleMember_step:
  "(\<And>format c path sz s. R s (unpack format c path sz s)) \<Longrightarrow> R s (handleMember w unpack name c parent sz s)"
  unfolding handleMember_def Let_def by (intro option_step if_step refl skip_step recorded_step found_stream_step)

lemma single_step:
  assumes "\<And>format c path sz s. R s (unpack format c path sz s)"
  shows "R s (processSingleStream w unpack c inner s)"
proof -
  have "R s (case FormatOf (w_env w) inner of None \<Rightarrow> s
     | Some format \<Rightarrow> if IsArchiveFormat format then unpack format c inner (- 1) s
         else unless_recorded w inner (\<lambda>s. parseEbookStream w inner format (- 1) c (s\<lparr>pr_found := pr_found s + 1\<rparr>)) s)" for s
    by (intro option_step if_step assms refl recorded_step found_stream_step)
  then show ?thesis unfolding processSingleStream_def Let_def by (rule trans [OF ext_step])
qed

lemma zip_member_step:
  assumes "\<And>format c path sz s. R s (unpack format c path sz s)"
  shows "R s (zip_member w unpack path f s)"
proof -
  have inner: "R s (if FormatOf (w_env w) name = None then s
       else unless_recorded w display (\<lambda>s. if ze_encrypted f then fail_report w display e0 s
         else case ze_open f of Err e \<Rightarrow> fail_report w display (zipMemberError e) s
         | Ok c \<Rightarrow> handleMember w unpack name c path (wrap64 (ze_size f)) s) s)" for s display e0 name
    by (intro if_step refl recorded_step fail_report_step case_step handleMember_step assms)
  show ?thesis unfolding zip_member_def Let_def by (rule if_step [OF refl trans [OF ext_step inner]])
qed

lemma tar_member_step:
  "(\<And>format c path sz s. R s (unpack format c path sz s)) \<Longrightarrow> R s (tar_member w unpack path h s)"
  unfolding tar_member_def by (rule if_step [OF refl trans [OF ext_step handleMember_step]])

lemma file_info_step:
  assumes "\<And>format c path sz s. R s (unpack format c path sz s)"
  shows "R s (handleArchiveFile w unpack path f s)"
proof -
  have inner: "R s (if FormatOf (w_env w) (fi_name f) = None then s
       else unless_recorded w display (\<lambda>s. case fi_open f of Err e \<Rightarrow> fail_report w display e s
         | Ok c \<Rightarrow> handleMember w unpack (fi_name f) c path (fi_size f) s) s)" for s display
    by (intro if_step refl recorded_step fail_report_step case_step handleMember_step assms)
  show ?thesis unfolding handleArchiveFile_def Let_def by (rule if_step [OF refl trans [OF ext_step inner]])
qed

lemma archive_step:
  assumes u: "\<And>format c path sz s. R s (unpack format c path sz s)"
  shows "R s (open_archive w unpack format r path sz s)"
proof -
  have tar: "R s (processTar w unpack c path s)" for c s
    unfolding processTar_def by (auto split: prod.split intro: members_step tar_member_step [OF u] finish_step)
  have ext: "R s (extract_all w unpack listing path s)" for listing s
    unfolding extract_all_def by (auto split: prod.split intro: members_step file_info_step [OF u] finish_step)
  have zip: "R s (processZip w unpack c n path s)" for c n s
    unfolding processZip_def by (auto split: sum.split intro: members_step zip_member_step [OF u] steps)
  have "R s (processZipStream w unpack r path sz s)" "R s (processSevenZipStream w unpack r path sz s)" for s
    unfolding processZipStream_def processSevenZipStream_def by (intro option_step case_step zip ext fail_report_step)+
  then show ?thesis
    unfolding open_archive_def Let_def by (intro if_step case_step tar ext single_step [OF u] fail_report_step)
qed

lemma archives_step: "R s (processArchiveStream w format r path depth sz s)"
proof (induction "nat (w_maxDepth w - depth)" arbitrary: format r path depth sz s rule: less_induct)
  case less
  show ?case
  proof (cases "w_maxDepth w \<le> depth")
    case False
    then have "R s (processArchiveStream w format (Stream c) path (depth + 1) sz s)" for format c path sz s
      by (intro less) simp
    then show ?thesis using False by (subst processArchiveStream.simps) (simp add: archive_step)
  qed (simp add: processArchiveStream.simps fail_report_step)
qed

lemma source_step: "R s (processSource w r s)"
proof -
  have "R s (case rc of OnDisk c \<Rightarrow> (case w_fileBlob w c of Some e \<Rightarrow> fail_report w path e s | None \<Rightarrow> parseEbook w path format c s)
      | Stream c \<Rightarrow> parseEbookStream w path format sz c s)" if "parse_allowed w path s" for rc path format sz s
    using that by (cases rc) (auto split: option.split intro: fail_report_step parse_step stream_step)
  then show ?thesis unfolding processSource_def processArchive_def Let_def
    by (intro cancel_step if_step skip_step case_step archives_step fail_report_step recorded_step)
qed

lemma sources_step: "R s (fold (processSource w) rs s)"
proof (induction rs arbitrary: s)
  case (Cons r rs)
  show ?case using trans [OF source_step Cons] by simp
qed (simp add: refl)

end

end
