(* ===== verification/Accounting.thy ===== *)
theory Accounting
  imports ScanSteps
begin

text \<open>
  The accounting of a scan: an independent count of the supported files behind one scanner
  result, and the proof that a full scan parses, skips or reports as failed exactly that many.
\<close>

section \<open>Counting the files behind a result\<close>

definition member_items :: "'c world \<Rightarrow> (string \<Rightarrow> 'c \<Rightarrow> string \<Rightarrow> int \<Rightarrow> nat) \<Rightarrow> string \<Rightarrow> 'c \<Rightarrow> string \<Rightarrow> int \<Rightarrow> nat" where
  "member_items w sub name c parent sz = (case FormatOf (w_env w) name of
       None \<Rightarrow> 0
     | Some format \<Rightarrow> if IsArchiveFormat format then sub format c (member parent name) sz else 1)"

definition single_items :: "'c world \<Rightarrow> (string \<Rightarrow> 'c \<Rightarrow> string \<Rightarrow> int \<Rightarrow> nat) \<Rightarrow> 'c \<Rightarrow> string \<Rightarrow> nat" where
  "single_items w sub c inner = (case FormatOf (w_env w) inner of
       None \<Rightarrow> 0
     | Some format \<Rightarrow> if IsArchiveFormat format then sub format c inner (- 1) else 1)"

definition zip_items :: "'c world \<Rightarrow> (string \<Rightarrow> 'c \<Rightarrow> string \<Rightarrow> int \<Rightarrow> nat) \<Rightarrow> string \<Rightarrow> 'c zip_entry \<Rightarrow> nat" where
  "zip_items w sub path f = (if ze_dir f \<or> FormatOf (w_env w) (decodeZipName w f) = None then 0
     else if ze_encrypted f then 1
     else case ze_open f of Err _ \<Rightarrow> 1 | Ok c \<Rightarrow> member_items w sub (decodeZipName w f) c path (wrap64 (ze_size f)))"

definition tar_items :: "'c world \<Rightarrow> (string \<Rightarrow> 'c \<Rightarrow> string \<Rightarrow> int \<Rightarrow> nat) \<Rightarrow> string \<Rightarrow> 'c tar_entry \<Rightarrow> nat" where
  "tar_items w sub path h = (if te_regular h then member_items w sub (te_name h) (te_content h) path (te_size h) else 0)"

definition info_items :: "'c world \<Rightarrow> (string \<Rightarrow> 'c \<Rightarrow> string \<Rightarrow> int \<Rightarrow> nat) \<Rightarrow> string \<Rightarrow> 'c file_info \<Rightarrow> nat" where
  "info_items w sub path f = (if fi_dir f \<or> FormatOf (w_env w) (fi_name f) = None then 0
     else case fi_open f of Err _ \<Rightarrow> 1 | Ok c \<Rightarrow> member_items w sub (fi_name f) c path (fi_size f))"

text \<open>An archive that ends in an error counts one more.\<close>

definition listed :: "('m \<Rightarrow> nat) \<Rightarrow> 'm list \<times> perr option \<Rightarrow> nat" where
  "listed f listing = sum_list (map f (fst listing)) + (if snd listing = None then 0 else 1)"

definition archive_items :: "'c world \<Rightarrow> (string \<Rightarrow> 'c \<Rightarrow> string \<Rightarrow> int \<Rightarrow> nat) \<Rightarrow> string \<Rightarrow> 'c reader \<Rightarrow> string \<Rightarrow> int \<Rightarrow> nat" where
  "archive_items w sub format r path sz = (let c = content r in
     if format = ''zip'' then (case readerAtView w sz r of Some _ \<Rightarrow> 1 | None \<Rightarrow> (case w_blobSize w c of Err _ \<Rightarrow> 1
       | Ok n \<Rightarrow> (case w_zip w c n of Err _ \<Rightarrow> 1 | Ok fs \<Rightarrow> sum_list (map (zip_items w sub path) fs))))
     else if format = ''tar'' then listed (tar_items w sub path) (w_tar w c)
     else if format = ''tgz'' then (case w_gunzip w c of Err _ \<Rightarrow> 1 | Ok c \<Rightarrow> listed (tar_items w sub path) (w_tar w c))
     else if format = ''tbz2'' then listed (tar_items w sub path) (w_tar w (w_bunzip w c))
     else if format = ''gz'' then (case w_gunzip w c of Err _ \<Rightarrow> 1 | Ok c \<Rightarrow> single_items w sub c (dropSuffix path))
     else if format = ''bz2'' then single_items w sub (w_bunzip w c) (dropSuffix path)
     else if format = ''rar'' then listed (info_items w sub path) (w_rar w c)
     else if format = ''7z'' then (case seekReadAtView w sz r of Some _ \<Rightarrow> 1 | None \<Rightarrow> listed (info_items w sub path) (w_sevenzip w c))
     else 1)"

function items :: "'c world \<Rightarrow> string \<Rightarrow> 'c reader \<Rightarrow> string \<Rightarrow> int \<Rightarrow> int \<Rightarrow> nat" where
  "items w format r path depth sz = (if w_maxDepth w \<le> depth then 1
     else archive_items w (\<lambda>format c path sz. items w format (Stream c) path (depth + 1) sz) format r path sz)"
  by pat_completeness auto
termination
  by (relation "measure (\<lambda>(w, _, _, _, depth, _). nat (w_maxDepth w - depth))") auto

declare items.simps [simp del]

definition source_items :: "'c world \<Rightarrow> scan_result \<Rightarrow> nat" where
  "source_items w r = (if IsArchiveFormat (r_format r) then (case w_open w (r_path r) of
       Err _ \<Rightarrow> 1
     | Ok rc \<Rightarrow> items w (r_format r) rc (r_path r) 0 (if on_disk rc then - 1 else r_size r)) else 1)"

section \<open>Worlds without cancellation\<close>

text \<open>The context is never cancelled and no library reports a cancellation of its own.\<close>

definition real_error :: "perr \<Rightarrow> bool" where
  "real_error e \<longleftrightarrow> kind_of e \<noteq> Canceled"

definition real_end :: "'m list \<times> perr option \<Rightarrow> bool" where
  "real_end l \<longleftrightarrow> (case snd l of None \<Rightarrow> True | Some e \<Rightarrow> real_error e)"

definition calm_errors :: "'c world \<Rightarrow> bool" where
  "calm_errors w \<longleftrightarrow> (\<forall>p e. w_open w p = Err e \<longrightarrow> real_error e) \<and> (\<forall>c e. w_fileBlob w c = Some e \<longrightarrow> real_error e)
     \<and> (\<forall>c n e. w_spool w c n = Some e \<longrightarrow> real_error e) \<and> (\<forall>c e. w_blobSize w c = Err e \<longrightarrow> real_error e)
     \<and> (\<forall>f c e. w_parse w f c = Err e \<longrightarrow> real_error e) \<and> (\<forall>c e. w_gunzip w c = Err e \<longrightarrow> real_error e)"

definition calm_archives :: "'c world \<Rightarrow> bool" where
  "calm_archives w \<longleftrightarrow> (\<forall>c n e. w_zip w c n = Err e \<longrightarrow> real_error e)
     \<and> (\<forall>c n fs. w_zip w c n = Ok fs \<longrightarrow> (\<forall>f \<in> set fs. \<forall>e. ze_open f = Err e \<longrightarrow> real_error e))
     \<and> (\<forall>c. real_end (w_tar w c)) \<and> (\<forall>c. real_end (w_rar w c)) \<and> (\<forall>c. real_end (w_sevenzip w c))
     \<and> (\<forall>c. \<forall>f \<in> set (fst (w_rar w c)). \<forall>e. fi_open f = Err e \<longrightarrow> real_error e)
     \<and> (\<forall>c. \<forall>f \<in> set (fst (w_sevenzip w c)). \<forall>e. fi_open f = Err e \<longrightarrow> real_error e)"

definition calm :: "'c world \<Rightarrow> bool" where
  "calm w \<longleftrightarrow> (\<forall>k. \<not> w_cancelled w k) \<and> calm_errors w \<and> calm_archives w"

section \<open>What each step accounts for\<close>

definition accounted :: "proc \<Rightarrow> int" where
  "accounted s = pr_parsed s + pr_failed s + pr_skipped s"

definition adds :: "nat \<Rightarrow> proc \<Rightarrow> proc \<Rightarrow> bool" where
  "adds n s s' \<longleftrightarrow> (\<not> pr_stop s \<longrightarrow> \<not> pr_stop s' \<and> accounted s' = accounted s + int n)"

lemma adds_none: "pr_stop s' = pr_stop s \<Longrightarrow> accounted s' = accounted s \<Longrightarrow> adds 0 s s'"
  by (simp add: adds_def)

lemma adds_refl: "adds 0 s s"
  by (simp add: adds_def)

lemma adds_trans: "adds m s s1 \<Longrightarrow> adds n s1 s2 \<Longrightarrow> adds (m + n) s s2"
  by (auto simp: adds_def)

lemma adds_after: "adds 0 s s1 \<Longrightarrow> adds n s1 s2 \<Longrightarrow> adds n s s2"
  using adds_trans [of 0 s s1 n s2] by simp

lemma adds_cancel: "calm w \<Longrightarrow> (\<And>s. adds n s (k s)) \<Longrightarrow> adds n s (unless_cancelled w k s)"
  unfolding unless_cancelled_def calm_def Let_def
  using adds_after [OF adds_none [of "s\<lparr>pr_clock := Suc (pr_clock s)\<rparr>" s]]
  by (cases "pr_stop s") (auto simp: accounted_def adds_def)

lemma adds_if: "(c \<Longrightarrow> adds m s a) \<Longrightarrow> (\<not> c \<Longrightarrow> adds n s b) \<Longrightarrow> adds (if c then m else n) s (if c then a else b)"
  by simp

lemma adds_result: "(\<And>e. r = Err e \<Longrightarrow> adds (m e) s (f e)) \<Longrightarrow> (\<And>x. r = Ok x \<Longrightarrow> adds (n x) s (g x)) \<Longrightarrow>
    adds (case r of Err e \<Rightarrow> m e | Ok x \<Rightarrow> n x) s (case r of Err e \<Rightarrow> f e | Ok x \<Rightarrow> g x)"
  by (cases r) simp_all

lemma adds_option: "(r = None \<Longrightarrow> adds m s f) \<Longrightarrow> (\<And>x. r = Some x \<Longrightarrow> adds (n x) s (g x)) \<Longrightarrow>
    adds (case r of None \<Rightarrow> m | Some x \<Rightarrow> n x) s (case r of None \<Rightarrow> f | Some x \<Rightarrow> g x)"
  by (cases r) simp_all

lemma adds_fail: "calm w \<Longrightarrow> real_error e \<Longrightarrow> adds 1 s (fail_report w path e s)"
proof -
  assume "calm w" "real_error e"
  then have "adds 1 s (fail w path e s)" unfolding fail_def
    by (intro adds_cancel) (simp_all add: adds_def accounted_def real_error_def)
  then show ?thesis by (simp add: fail_report_def report_def adds_def accounted_def)
qed

lemma adds_skip: "adds 1 s (skip s)"
  by (simp add: skip_def report_def adds_def accounted_def)

lemma adds_ext: "adds 0 s (recordExt w name s)"
  by (simp add: recordExt_def adds_def accounted_def split: prod.split)

lemma full_scan: "\<not> w_resume w \<Longrightarrow> unless_recorded w path k s = k s"
  by (simp add: unless_recorded_def shouldSkip_def)

lemma adds_after_parse:
  assumes "calm w" "\<And>e. res = Err e \<Longrightarrow> real_error e"
  shows "adds 1 s (after_parse w path format res s)"
proof (cases res)
  case (Inl e)
  have "adds 1 s (unless_cancelled w (\<lambda>s. if kind_of e = NotABook then skip s else fail_report w path e s) s)"
    using assms(2) [OF Inl] by (intro adds_cancel [OF assms(1)]) (simp add: adds_skip adds_fail [OF assms(1)] del: One_nat_def)
  then show ?thesis using Inl by (simp add: after_parse_def)
next
  case (Inr md)
  obtain err s' where st: "store w path md s = (err, s')" by force
  have same: "adds 0 s s'" using st by (auto simp: store_def adds_def accounted_def split: prod.splits)
  show ?thesis
  proof (cases err)
    case None
    have "adds 1 s' (report (s'\<lparr>pr_parsed := pr_parsed s' + 1, pr_results := pr_results s' @ [(path, format, md)]\<rparr>))"
      by (simp add: report_def adds_def accounted_def)
    then show ?thesis using adds_after [OF same] Inr st None by (simp add: after_parse_def)
  next
    case (Some e)
    have "adds 1 s' (unless_cancelled w (fail_report w path (Database e)) s')"
      by (intro adds_cancel [OF assms(1)] adds_fail [OF assms(1)]) (simp add: real_error_def)
    then show ?thesis using adds_after [OF same] Inr st Some by (simp add: after_parse_def)
  qed
qed

lemma adds_parse:
  assumes "calm w"
  shows "adds 1 s (parseEbook w path format c s)"
  unfolding parseEbook_def
proof (rule adds_cancel [OF assms])
  fix s
  have "adds 0 s (s\<lparr>pr_calls := pr_calls s @ [path]\<rparr>)" by (simp add: adds_def accounted_def)
  moreover have "w_parse w format c = Err e \<Longrightarrow> real_error e" for e using assms by (auto simp: calm_def calm_errors_def)
  ultimately have "adds 1 s (after_parse w path format (w_parse w format c) (s\<lparr>pr_calls := pr_calls s @ [path]\<rparr>))"
    by (intro adds_after [OF _ adds_after_parse [OF assms]])
  then show "adds 1 s (case parser_of w format of
       None \<Rightarrow> unless_cancelled w (fail_report w path (Perr (''no parser registered for format '' @ format) Plain)) s
     | Some _ \<Rightarrow> after_parse w path format (w_parse w format c) (s\<lparr>pr_calls := pr_calls s @ [path]\<rparr>))"
    using adds_cancel [OF assms adds_fail [OF assms]] by (simp add: real_error_def split: option.split)
qed

lemma adds_stream:
  assumes "calm w"
  shows "adds 1 s (parseEbookStream w path format sz c s)"
  unfolding parseEbookStream_def
proof (rule adds_cancel [OF assms])
  fix s
  have "w_spool w c sz = Some e \<Longrightarrow> real_error e" for e using assms by (auto simp: calm_def calm_errors_def)
  then show "adds 1 s (case w_spool w c sz of Some e \<Rightarrow> fail_report w path e s | None \<Rightarrow> parseEbook w path format c s)"
    using adds_parse [OF assms] adds_fail [OF assms] by (auto split: option.split)
qed

lemma adds_found_stream:
  assumes "calm w"
  shows "adds 1 s (parseEbookStream w path format sz c (s\<lparr>pr_found := pr_found s + 1\<rparr>))"
  by (rule adds_after [OF adds_none adds_stream [OF assms]]) (simp_all add: accounted_def)

lemma adds_loop:
  assumes "calm w" "\<And>m s. m \<in> set ms \<Longrightarrow> adds (cnt m) s (f m s)" "\<And>s. adds n s (finish s)"
  shows "adds (sum_list (map cnt ms) + n) s (members_loop w f ms finish s)"
  using assms(2)
proof (induction ms arbitrary: s)
  case (Cons m ms)
  have "adds (cnt m + (sum_list (map cnt ms) + n)) s (members_loop w f ms finish (f m s))" for s
    by (rule adds_trans [OF Cons.prems]) (simp, rule Cons.IH, use Cons.prems in auto)
  then show ?case using adds_cancel [OF assms(1)] by (simp add: add.assoc)
qed (simp add: assms(3))

lemma adds_finish: "calm w \<Longrightarrow> real_end l \<Longrightarrow> adds (if snd l = None then 0 else 1) s (finish_archive w path (snd l) s)"
  by (auto simp: finish_archive_def real_end_def adds_refl adds_fail simp del: One_nat_def split: option.splits)

section \<open>Members and archives\<close>

lemma adds_member:
  assumes "calm w" "\<not> w_resume w" "\<And>format c path sz s. adds (sub format c path sz) s (unpack format c path sz s)"
  shows "adds (member_items w sub name c parent sz) s (handleMember w unpack name c parent sz s)"
  using assms(3) adds_skip adds_found_stream [OF assms(1)]
  by (auto simp: member_items_def handleMember_def Let_def full_scan [OF assms(2)] adds_refl simp del: One_nat_def split: option.split)

lemma adds_single:
  assumes "calm w" "\<not> w_resume w" "\<And>format c path sz s. adds (sub format c path sz) s (unpack format c path sz s)"
  shows "adds (single_items w sub c inner) s (processSingleStream w unpack c inner s)"
proof -
  have "adds (single_items w sub c inner) s (case FormatOf (w_env w) inner of None \<Rightarrow> s
     | Some format \<Rightarrow> if IsArchiveFormat format then unpack format c inner (- 1) s
         else unless_recorded w inner (\<lambda>s. parseEbookStream w inner format (- 1) c (s\<lparr>pr_found := pr_found s + 1\<rparr>)) s)" for s
    using assms(3) adds_found_stream [OF assms(1)]
    by (auto simp: single_items_def full_scan [OF assms(2)] adds_refl simp del: One_nat_def split: option.split)
  then show ?thesis unfolding processSingleStream_def Let_def by (rule adds_after [OF adds_ext])
qed

lemma adds_zip_member:
  assumes "calm w" "\<not> w_resume w" "\<And>format c path sz s. adds (sub format c path sz) s (unpack format c path sz s)"
    "\<And>e. ze_open f = Err e \<Longrightarrow> real_error e"
  shows "adds (zip_items w sub path f) s (zip_member w unpack path f s)"
proof (cases "ze_dir f")
  case False
  let ?name = "decodeZipName w f"
  have wrapped: "real_error e \<Longrightarrow> real_error (zipMemberError e)" for e
    by (cases e) (simp_all add: real_error_def zipMemberError_def)
  have inner: "adds (zip_items w sub path f) s (if FormatOf (w_env w) ?name = None then s
       else if ze_encrypted f then fail_report w (member path ?name)
           (Perr ''password-protected zip member; --archive-password is not supported yet'' Plain) s
         else case ze_open f of Err e \<Rightarrow> fail_report w (member path ?name) (zipMemberError e) s
         | Ok c \<Rightarrow> handleMember w unpack ?name c path (wrap64 (ze_size f)) s)" for s
  proof (cases "FormatOf (w_env w) ?name = None \<or> ze_encrypted f")
    case True
    then show ?thesis using False adds_fail [OF assms(1)] by (auto simp: zip_items_def adds_refl real_error_def simp del: One_nat_def)
  next
    case supported: False
    then obtain format where y: "FormatOf (w_env w) ?name = Some format" by auto
    show ?thesis
    proof (cases "ze_open f")
      case (Inl e)
      then show ?thesis using supported y False adds_fail [OF assms(1) wrapped [OF assms(4)]]
        by (simp add: zip_items_def del: One_nat_def)
    next
      case (Inr c)
      then show ?thesis using supported y False adds_member [OF assms(1,2), of sub unpack, OF assms(3)] by (simp add: zip_items_def)
    qed
  qed
  have "zip_member w unpack path f s = (if FormatOf (w_env w) ?name = None then recordExt w ?name s
       else if ze_encrypted f then fail_report w (member path ?name)
           (Perr ''password-protected zip member; --archive-password is not supported yet'' Plain) (recordExt w ?name s)
         else case ze_open f of Err e \<Rightarrow> fail_report w (member path ?name) (zipMemberError e) (recordExt w ?name s)
         | Ok c \<Rightarrow> handleMember w unpack ?name c path (wrap64 (ze_size f)) (recordExt w ?name s))"
    using False by (simp add: zip_member_def Let_def full_scan [OF assms(2)])
  with adds_after [OF adds_ext inner] show ?thesis by (simp only:)
qed (simp add: zip_member_def zip_items_def adds_refl)

lemma adds_tar_member:
  assumes "calm w" "\<not> w_resume w" "\<And>format c path sz s. adds (sub format c path sz) s (unpack format c path sz s)"
  shows "adds (tar_items w sub path h) s (tar_member w unpack path h s)"
proof (cases "te_regular h")
  case True
  have "adds (member_items w sub (te_name h) (te_content h) path (te_size h)) s
      (handleMember w unpack (te_name h) (te_content h) path (te_size h) (recordExt w (te_name h) s))"
    by (rule adds_after [OF adds_ext adds_member [OF assms]])
  then show ?thesis using True by (simp add: tar_items_def tar_member_def)
qed (simp add: tar_items_def tar_member_def adds_refl)

lemma adds_file_info:
  assumes "calm w" "\<not> w_resume w" "\<And>format c path sz s. adds (sub format c path sz) s (unpack format c path sz s)"
    "\<And>e. fi_open f = Err e \<Longrightarrow> real_error e"
  shows "adds (info_items w sub path f) s (handleArchiveFile w unpack path f s)"
proof (cases "fi_dir f \<or> FormatOf (w_env w) (fi_name f) = None")
  case True
  then show ?thesis using adds_ext by (auto simp: handleArchiveFile_def info_items_def Let_def adds_refl)
next
  case False
  then obtain format where y: "FormatOf (w_env w) (fi_name f) = Some format" by auto
  have inner: "adds (info_items w sub path f) s (case fi_open f of Err e \<Rightarrow> fail_report w (member path (fi_name f)) e s
         | Ok c \<Rightarrow> handleMember w unpack (fi_name f) c path (fi_size f) s)" for s
  proof (cases "fi_open f")
    case (Inl e)
    then show ?thesis using False y adds_fail [OF assms(1) assms(4)] by (simp add: info_items_def del: One_nat_def)
  next
    case (Inr c)
    then show ?thesis using False y adds_member [OF assms(1,2), of sub unpack, OF assms(3)] by (simp add: info_items_def)
  qed
  show ?thesis using adds_after [OF adds_ext inner] False y by (simp add: handleArchiveFile_def Let_def full_scan [OF assms(2)])
qed

lemma adds_archive:
  assumes c: "calm w" and full: "\<not> w_resume w"
    and u: "\<And>format c path sz s. adds (sub format c path sz) s (unpack format c path sz s)"
  shows "adds (archive_items w sub format r path sz) s (open_archive w unpack format r path sz s)"
proof -
  have ends: "real_end (w_tar w b)" "real_end (w_rar w b)" "real_end (w_sevenzip w b)" for b
    using c by (auto simp: calm_def calm_archives_def)
  have tar: "adds (listed (tar_items w sub path) (w_tar w b)) s (processTar w unpack b path s)" for b s
    unfolding processTar_def listed_def case_prod_unfold
    by (intro adds_loop [OF c adds_tar_member [OF c full u] adds_finish [OF c ends(1)]])
  have rar: "adds (listed (info_items w sub path) (w_rar w b)) s (extract_all w unpack (w_rar w b) path s)" for b s
    unfolding extract_all_def listed_def case_prod_unfold
    by (intro adds_loop [OF c adds_file_info [OF c full u] adds_finish [OF c ends(2)]]) (use c in \<open>auto simp: calm_def calm_archives_def\<close>)
  have sz7: "adds (listed (info_items w sub path) (w_sevenzip w b)) s (extract_all w unpack (w_sevenzip w b) path s)" for b s
    unfolding extract_all_def listed_def case_prod_unfold
    by (intro adds_loop [OF c adds_file_info [OF c full u] adds_finish [OF c ends(3)]]) (use c in \<open>auto simp: calm_def calm_archives_def\<close>)
  have zip: "adds (case w_zip w b n of Err _ \<Rightarrow> 1 | Ok fs \<Rightarrow> sum_list (map (zip_items w sub path) fs)) s (processZip w unpack b n path s)" for b n s
    unfolding processZip_def
  proof (rule adds_result)
    show "adds 1 s (fail_report w path e s)" if "w_zip w b n = Err e" for e
      using that c by (intro adds_fail) (auto simp: calm_def calm_archives_def)
    show "adds (sum_list (map (zip_items w sub path) fs)) s (members_loop w (zip_member w unpack path) fs (\<lambda>s. s) s)" if "w_zip w b n = Ok fs" for fs
      using adds_loop [OF c adds_zip_member [OF c full u] adds_refl, of fs] that c by (auto simp: calm_def calm_archives_def)
  qed
  have e: "w_fileBlob w b = Some e \<Longrightarrow> real_error e" "w_spool w b n = Some e \<Longrightarrow> real_error e" "w_blobSize w b = Err e \<Longrightarrow> real_error e"
    "w_gunzip w b = Err e \<Longrightarrow> real_error e" for b n e using c by (auto simp: calm_def calm_errors_def)
  have "readerAtView w sz r = Some e \<Longrightarrow> real_error e" "seekReadAtView w sz r = Some e \<Longrightarrow> real_error e" for e
    using e by (auto simp: readerAtView_def seekReadAtView_def split: if_splits)
  note fails = adds_fail [OF c this(1)] adds_fail [OF c this(2)] adds_fail [OF c e(3)] adds_fail [OF c e(4)]
  have unsupported: "adds 1 s (fail_report w path (Perr (''unsupported archive format '' @ format) Plain) s)"
    by (rule adds_fail [OF c]) (simp add: real_error_def)
  show ?thesis unfolding archive_items_def open_archive_def processZipStream_def processSevenZipStream_def Let_def
    by (intro adds_if adds_result adds_option zip tar rar sz7 adds_single [OF c full u] unsupported fails)
qed

lemma adds_archives:
  assumes "calm w" "\<not> w_resume w"
  shows "adds (items w format r path depth sz) s (processArchiveStream w format r path depth sz s)"
proof (induction "nat (w_maxDepth w - depth)" arbitrary: format r path depth sz s rule: less_induct)
  case less
  show ?case
  proof (cases "w_maxDepth w \<le> depth")
    case True
    then show ?thesis using adds_fail [OF assms(1)]
      by (simp add: items.simps processArchiveStream.simps depth_error_def real_error_def del: One_nat_def)
  next
    case False
    then have "adds (items w format (Stream c) path (depth + 1) sz) s (processArchiveStream w format (Stream c) path (depth + 1) sz s)"
      for format c path sz s by (intro less) simp
    from adds_archive [OF assms this] show ?thesis using False by (subst items.simps, subst processArchiveStream.simps) simp
  qed
qed

lemma adds_source:
  assumes "calm w" "\<not> w_resume w"
  shows "adds (source_items w r) s (processSource w r s)"
  unfolding processSource_def
proof (rule adds_cancel [OF assms(1)])
  fix s
  have e: "w_open w p = Err e \<Longrightarrow> real_error e" "w_fileBlob w b = Some e \<Longrightarrow> real_error e" for p b e
    using assms(1) by (auto simp: calm_def calm_errors_def)
  have parse: "adds 1 s (case w_open w (r_path r) of Err e \<Rightarrow> fail_report w (r_path r) e s
       | Ok (OnDisk c) \<Rightarrow> (case w_fileBlob w c of Some e \<Rightarrow> fail_report w (r_path r) e s | None \<Rightarrow> parseEbook w (r_path r) (r_format r) c s)
       | Ok (Stream c) \<Rightarrow> parseEbookStream w (r_path r) (r_format r) (r_size r) c s)"
    using adds_fail [OF assms(1) e(1)] adds_fail [OF assms(1) e(2)] adds_parse [OF assms(1)] adds_stream [OF assms(1)]
    by (auto split: sum.split reader.split option.split simp del: One_nat_def)
  show "adds (source_items w r) s (let path = r_path r; format = r_format r in
     if IsArchiveFormat format then processArchive w r 0 s
     else if pdfDisabled w format then skip s
     else if belowMinSize w format (r_size r) then skip s
     else unless_recorded w path (\<lambda>s. case w_open w path of
         Err e \<Rightarrow> fail_report w path e s
       | Ok (OnDisk c) \<Rightarrow> (case w_fileBlob w c of Some e \<Rightarrow> fail_report w path e s | None \<Rightarrow> parseEbook w path format c s)
       | Ok (Stream c) \<Rightarrow> parseEbookStream w path format (r_size r) c s) s)"
    using adds_archives [OF assms] adds_skip parse adds_fail [OF assms(1) e(1)]
    by (auto simp: source_items_def processArchive_def Let_def full_scan [OF assms(2)] simp del: One_nat_def split: sum.split)
qed

lemma adds_sources:
  assumes "calm w" "\<not> w_resume w"
  shows "adds (sum_list (map (source_items w) rs)) s (fold (processSource w) rs s)"
proof (induction rs arbitrary: s)
  case (Cons r rs)
  show ?case using adds_trans [OF adds_source [OF assms] Cons] by simp
qed (simp add: adds_refl)

end
