(* ===== verification/Pipeline.thy ===== *)
theory Pipeline
  imports Accounting
begin

text \<open>
  Model of \<open>ScanProcessor.Process\<close> in \<open>internal/processor/scan.go\<close>: the scanner of theory
  Walker with the callbacks of the processor, the result queue, the parse workers and the main
  goroutine as one step relation. A step is one action of a goroutine; \<open>processSource\<close> on one
  result is a single step, so the interleaving of two workers inside it is not modelled.

  The context of \<open>Process\<close> is cancelled when \<open>pr_stop\<close> holds; the scanner's own context is
  derived from it, so it is cancelled with it but not the other way round.
\<close>

section \<open>The goroutines\<close>

datatype scan_error = Refused scan_refusal | Walk string

datatype outcome = Completed | FatalError string | ScanError scan_error | ContextError

datatype parse_pc = PStarting | PIdle | PTaken scan_result | PBusy scan_result | PEnding scan_result | PStopped

datatype pmain = PScanning | PReturned "scan_error option" | PChecked bool "scan_error option"
  | PWaiting "scan_error option" | PFinished outcome

text \<open>\<open>pi_taken\<close> lists the results handed to \<open>processSource\<close>, for the statements only.\<close>

record pipe =
  pi_scan :: scan_state
  pi_queue :: "scan_result resultQueue"
  pi_proc :: proc
  pi_fatal :: "string option"
  pi_workers :: "parse_pc list"
  pi_main :: pmain
  pi_taken :: "scan_result list"

text \<open>\<open>NewScanProcessor\<close> replaces values of the configuration that are too small.\<close>

definition valid_workers :: "int \<Rightarrow> nat" where
  "valid_workers n = (if n < 1 then 1 else nat n)"

definition valid_depth :: "'c world \<Rightarrow> 'c world" where
  "valid_depth w = (if w_maxDepth w < 0 then w\<lparr>w_maxDepth := 0\<rparr> else w)"

definition Process_init :: "nat \<Rightarrow> nat \<Rightarrow> proc \<Rightarrow> pipe" where
  "Process_init scanWorkers parseWorkers s = \<lparr>pi_scan = scan_init scanWorkers, pi_queue = newResultQueue,
     pi_proc = s\<lparr>pr_failures := [], pr_stop := False\<rparr>, pi_fatal = None,
     pi_workers = replicate (max 1 parseWorkers) PStarting, pi_main = PScanning, pi_taken = []\<rparr>"

section \<open>The callbacks\<close>

fun on_event :: "'c world \<Rightarrow> event \<Rightarrow> pipe \<Rightarrow> pipe" where
  "on_event w (EvDir d) p = p"
| "on_event w (EvFile name) p = p\<lparr>pi_proc := recordExt w name (pi_proc p)\<rparr>"
| "on_event w (EvResult r) p = (if pr_stop (pi_proc p) then p else p\<lparr>pi_queue := fst (rq_push (pi_queue p) r)\<rparr>)"
| "on_event w (EvError path err) p = p\<lparr>pi_proc := fail_report w path (Perr err Plain) (pi_proc p)\<rparr>"

definition on_report :: "progress \<Rightarrow> pipe \<Rightarrow> pipe" where
  "on_report sp p = p\<lparr>pi_proc := report (setScanProgress sp (pi_proc p))\<rparr>"

text \<open>A step of the scanner calls back for every event and report it adds to its log.\<close>

definition deliver :: "'c world \<Rightarrow> scan_state \<Rightarrow> pipe \<Rightarrow> pipe" where
  "deliver w sc p = (let old = sh (pi_scan p) in
     fold on_report (drop (length (reports old)) (reports (sh sc)))
       (fold (on_event w) (drop (length (shared.log old)) (shared.log (sh sc))) (p\<lparr>pi_scan := sc\<rparr>)))"

section \<open>Workers and main goroutine\<close>

definition cancel_all :: "pipe \<Rightarrow> pipe" where
  "cancel_all p = p\<lparr>pi_proc := (pi_proc p)\<lparr>pr_stop := True\<rparr>, pi_scan := user_cancelled (pi_scan p)\<rparr>"

definition report_fatal :: "string \<Rightarrow> pipe \<Rightarrow> pipe" where
  "report_fatal err p = cancel_all (if pi_fatal p = None then p\<lparr>pi_fatal := Some err\<rparr> else p)"

text \<open>One action of a parse worker; \<open>start\<close> is the error of \<open>newSource\<close>, if any.\<close>

fun parse_step :: "'c world \<Rightarrow> string option \<Rightarrow> pipe \<Rightarrow> parse_pc \<Rightarrow> (pipe \<times> parse_pc) option" where
  "parse_step w start p PStarting = Some (case start of
       Some err \<Rightarrow> (report_fatal err p, PStopped)
     | None \<Rightarrow> (p, PIdle))"
| "parse_step w start p PIdle = (case rq_pop (pi_queue p) of
       (q, Item r) \<Rightarrow> Some (p\<lparr>pi_queue := q\<rparr>, PTaken r)
     | (q, Drained) \<Rightarrow> Some (p, PStopped)
     | (q, Blocked) \<Rightarrow> None)"
| "parse_step w start p (PTaken r) = Some (
     if pr_stop (pi_proc p) then (p, PIdle)
     else (p\<lparr>pi_proc := beginWork (r_path r) (pi_proc p)\<rparr>, PBusy r))"
| "parse_step w start p (PBusy r) = Some (
     p\<lparr>pi_proc := processSource w r (pi_proc p), pi_taken := pi_taken p @ [r]\<rparr>, PEnding r)"
| "parse_step w start p (PEnding r) = Some (p\<lparr>pi_proc := endWork (r_path r) (pi_proc p)\<rparr>, PIdle)"
| "parse_step w start p PStopped = None"

definition result_of_process :: "pipe \<Rightarrow> scan_error option \<Rightarrow> outcome" where
  "result_of_process p err = (case pi_fatal p of
       Some e \<Rightarrow> FatalError e
     | None \<Rightarrow> (case err of
         Some e \<Rightarrow> ScanError e
       | None \<Rightarrow> if pr_stop (pi_proc p) then ContextError else Completed))"

text \<open>\<open>chk\<close> is the outcome of the checks at the start of \<open>Scan\<close>.\<close>

inductive process_step :: "'c world \<Rightarrow> tree \<Rightarrow> string \<Rightarrow> (scan_refusal, unit) result \<Rightarrow> pipe \<Rightarrow> pipe \<Rightarrow> bool"
  for w t rt chk where
  refused: "pi_main p = PScanning \<Longrightarrow> chk = Err e \<Longrightarrow>
    process_step w t rt chk p (p\<lparr>pi_main := PReturned (Some (Refused e))\<rparr>)"
| scanner: "chk = Ok () \<Longrightarrow> scanner_step t rt (pi_scan p) sc \<Longrightarrow> process_step w t rt chk p (deliver w sc p)"
| returned: "pi_main p = PScanning \<Longrightarrow> mn (pi_scan p) = MExited n err \<Longrightarrow>
    process_step w t rt chk p (p\<lparr>pi_main := PReturned (map_option Walk err)\<rparr>)"
| checked: "pi_main p = PReturned err \<Longrightarrow>
    process_step w t rt chk p (p\<lparr>pi_main := PChecked (pr_stop (pi_proc p)) err\<rparr>)"
| shut: "pi_main p = PChecked stop err \<Longrightarrow> process_step w t rt chk p
    (p\<lparr>pi_queue := (if stop then rq_abort (pi_queue p) else rq_close (pi_queue p)), pi_main := PWaiting err\<rparr>)"
| finish: "pi_main p = PWaiting err \<Longrightarrow> set (pi_workers p) \<subseteq> {PStopped} \<Longrightarrow>
    process_step w t rt chk p (p\<lparr>pi_main := PFinished (result_of_process p err)\<rparr>)"
| worker: "i < length (pi_workers p) \<Longrightarrow> parse_step w start p (pi_workers p ! i) = Some (p', pc) \<Longrightarrow>
    process_step w t rt chk p (p'\<lparr>pi_workers := (pi_workers p)[i := pc]\<rparr>)"
| cancelled: "\<not> pr_stop (pi_proc p) \<Longrightarrow> (\<forall>r. pi_main p \<noteq> PFinished r) \<Longrightarrow> process_step w t rt chk p (cancel_all p)"

inductive process_steps :: "'c world \<Rightarrow> tree \<Rightarrow> string \<Rightarrow> (scan_refusal, unit) result \<Rightarrow> nat \<Rightarrow> pipe \<Rightarrow> pipe \<Rightarrow> bool"
  for w t rt chk where
  none: "process_steps w t rt chk 0 p p"
| more: "process_steps w t rt chk n p p1 \<Longrightarrow> process_step w t rt chk p1 p2 \<Longrightarrow> process_steps w t rt chk (Suc n) p p2"

section \<open>The scanner inside\<close>

lemma scan_step_logs:
  assumes "scan_step t rt s s'"
  shows "prefix (shared.log (sh s)) (shared.log (sh s')) \<and> prefix (reports (sh s)) (reports (sh s'))"
  using assms
proof cases
  case (worker i start h' pc')
  then show ?thesis
    by (cases "(t, start, sh s, ws s ! i)" rule: worker_step.cases)
       (auto simp: reportFatal_def reportError_def scan_file_def Let_def split: prod.splits popped.splits option.splits if_splits sum.splits)
qed auto

lemma fold_on_event_frame:
  "pi_scan (fold (on_event w) evs p) = pi_scan p \<and> pi_fatal (fold (on_event w) evs p) = pi_fatal p
   \<and> pi_workers (fold (on_event w) evs p) = pi_workers p \<and> pi_main (fold (on_event w) evs p) = pi_main p
   \<and> pi_taken (fold (on_event w) evs p) = pi_taken p"
proof (induction evs arbitrary: p)
  case (Cons e evs)
  then show ?case by (cases e) (simp_all add: Cons)
qed simp

lemma fold_on_report_frame:
  "pi_scan (fold on_report l p) = pi_scan p \<and> pi_fatal (fold on_report l p) = pi_fatal p \<and> pi_queue (fold on_report l p) = pi_queue p
   \<and> pi_workers (fold on_report l p) = pi_workers p \<and> pi_main (fold on_report l p) = pi_main p \<and> pi_taken (fold on_report l p) = pi_taken p"
  by (induction l arbitrary: p) (simp_all add: on_report_def)

lemma deliver_frame [simp]:
  "pi_scan (deliver w sc p) = sc" "pi_fatal (deliver w sc p) = pi_fatal p" "pi_workers (deliver w sc p) = pi_workers p"
  "pi_main (deliver w sc p) = pi_main p" "pi_taken (deliver w sc p) = pi_taken p"
  by (simp_all add: deliver_def Let_def fold_on_event_frame fold_on_report_frame)

section \<open>Units of work leave the workers' state alone\<close>

definition same_work :: "proc \<Rightarrow> proc \<Rightarrow> bool" where
  "same_work s s' \<longleftrightarrow> pr_stop s' = pr_stop s \<and> pr_active s' = pr_active s \<and> pr_current s' = pr_current s"

lemma store_same_work: "store w path md s = (err, s') \<Longrightarrow> same_work s s'"
  by (auto simp: store_def same_work_def split: prod.splits)

interpretation untouched: quiet_steps w same_work for w
  by unfold_locales (simp_all add: same_work_def)

interpretation untouched: scan_steps w same_work for w
  by unfold_locales (auto dest: store_same_work simp: same_work_def)

lemma on_event_same_work: "same_work (pi_proc p) (pi_proc (on_event w e p))"
  by (cases e) (simp_all add: untouched.refl untouched.ext_step untouched.fail_report_step)

lemma fold_on_event_same_work: "same_work (pi_proc p) (pi_proc (fold (on_event w) evs p))"
proof (induction evs arbitrary: p)
  case (Cons e evs)
  show ?case using untouched.trans [OF on_event_same_work Cons] by simp
qed (simp add: untouched.refl)

lemma fold_on_report_same_work: "same_work (pi_proc p) (pi_proc (fold on_report l p))"
  by (induction l arbitrary: p) (simp_all add: on_report_def same_work_def setScanProgress_def report_def)

lemma deliver_same_work: "same_work (pi_proc p) (pi_proc (deliver w sc p))"
  using untouched.trans [OF fold_on_event_same_work fold_on_report_same_work] unfolding deliver_def Let_def
  by (metis pipe.select_convs(3) pipe.surjective pipe.update_convs(1))

lemma deliver_work [simp]:
  "pr_stop (pi_proc (deliver w sc p)) = pr_stop (pi_proc p)" "pr_active (pi_proc (deliver w sc p)) = pr_active (pi_proc p)"
  "pr_current (pi_proc (deliver w sc p)) = pr_current (pi_proc p)"
  using deliver_same_work [of p w sc] by (simp_all add: same_work_def)

section \<open>What the events bring\<close>

fun result_of :: "event \<Rightarrow> scan_result multiset" where
  "result_of (EvResult r) = {#r#}"
| "result_of _ = {#}"

fun error_of :: "event \<Rightarrow> nat" where
  "error_of (EvError _ _) = 1"
| "error_of _ = 0"

definition results_in :: "event multiset \<Rightarrow> scan_result multiset" where
  "results_in M = sum_mset (image_mset result_of M)"

definition errors_in :: "event multiset \<Rightarrow> nat" where
  "errors_in M = sum_mset (image_mset error_of M)"

lemma results_in_simps [simp]: "results_in {#} = {#}" "results_in (M + N) = results_in M + results_in N"
  "results_in (add_mset e M) = result_of e + results_in M"
  by (simp_all add: results_in_def)

lemma errors_in_simps [simp]: "errors_in {#} = 0" "errors_in (M + N) = errors_in M + errors_in N"
  "errors_in (add_mset e M) = error_of e + errors_in M"
  by (simp_all add: errors_in_def)

definition open_queue :: "pipe \<Rightarrow> bool" where
  "open_queue p \<longleftrightarrow> \<not> rq_closed (pi_queue p) \<and> \<not> pr_stop (pi_proc p)"

lemma on_event_queue:
  "open_queue p \<Longrightarrow> open_queue (on_event w e p) \<and>
    mset (rq_items (pi_queue (on_event w e p))) = mset (rq_items (pi_queue p)) + result_of e"
  using on_event_same_work [of p w e] by (cases e) (auto simp: open_queue_def rq_push_def same_work_def)

lemma fold_on_event_queue:
  "open_queue p \<Longrightarrow> mset (rq_items (pi_queue (fold (on_event w) evs p))) = mset (rq_items (pi_queue p)) + results_in (mset evs)"
proof (induction evs arbitrary: p)
  case (Cons e evs)
  then show ?case using on_event_queue [OF Cons.prems, of w e] by simp
qed simp

lemma fold_on_event_closed: "rq_closed (pi_queue (fold (on_event w) evs p)) = rq_closed (pi_queue p)"
proof (induction evs arbitrary: p)
  case (Cons e evs)
  then show ?case by (cases e) (simp_all add: Cons rq_push_def)
qed simp

lemma deliver_queue:
  assumes "scanner_step t rt (pi_scan p) sc"
  shows "rq_closed (pi_queue (deliver w sc p)) = rq_closed (pi_queue p)"
    and "open_queue p \<Longrightarrow> mset (rq_items (pi_queue (deliver w sc p))) + results_in (mset (shared.log (sh (pi_scan p))))
      = mset (rq_items (pi_queue p)) + results_in (mset (shared.log (sh sc)))"
    and "set (ws (pi_scan p)) \<subseteq> {Done} \<Longrightarrow> pi_queue (deliver w sc p) = pi_queue p \<and> shared.log (sh sc) = shared.log (sh (pi_scan p))"
proof -
  obtain evs where evs: "shared.log (sh sc) = shared.log (sh (pi_scan p)) @ evs"
    using scan_step_logs assms unfolding scanner_step_def prefix_def by blast
  show "rq_closed (pi_queue (deliver w sc p)) = rq_closed (pi_queue p)"
    by (simp add: deliver_def Let_def fold_on_report_frame fold_on_event_closed)
  show "mset (rq_items (pi_queue (deliver w sc p))) + results_in (mset (shared.log (sh (pi_scan p))))
      = mset (rq_items (pi_queue p)) + results_in (mset (shared.log (sh sc)))" if "open_queue p"
    using fold_on_event_queue [of "p\<lparr>pi_scan := sc\<rparr>" w evs] that evs
    by (simp add: deliver_def Let_def fold_on_report_frame open_queue_def)
  show "pi_queue (deliver w sc p) = pi_queue p \<and> shared.log (sh sc) = shared.log (sh (pi_scan p))" if "set (ws (pi_scan p)) \<subseteq> {Done}"
  proof -
    have "shared.log (sh sc) = shared.log (sh (pi_scan p))"
      using assms that unfolding scanner_step_def by (elim conjE scan_step.cases) (auto dest!: nth_mem)
    then show ?thesis by (simp add: deliver_def Let_def fold_on_report_frame)
  qed
qed

section \<open>The scanner when it returns\<close>

definition quiet_exit :: "scan_state \<Rightarrow> bool" where
  "quiet_exit s \<longleftrightarrow> (\<forall>k e. mn s = MReturned k e \<or> mn s = MExited k e \<longrightarrow> set (ws s) \<subseteq> {Done} \<and> e = fatal (sh s))"

definition complete_exit :: "tree \<Rightarrow> nat \<Rightarrow> string \<Rightarrow> scan_state \<Rightarrow> bool" where
  "complete_exit t n rt s \<longleftrightarrow> (\<forall>k. mn s = MReturned k None \<or> mn s = MExited k None \<longrightarrow> mset (shared.log (sh s)) = tree_events t n rt)"

definition own_cancel :: "scan_state \<Rightarrow> bool" where
  "own_cancel s \<longleftrightarrow> (cancelled (sh s) \<longrightarrow> fatal (sh s) \<noteq> None \<or> (\<exists>k e. mn s = MExited k e))"

lemma quiet_exit_step:
  assumes "quiet_exit s" "scan_step t rt s s'"
  shows "quiet_exit s'"
  using assms(2)
proof cases
  case (worker i start h' pc')
  then have "ws s ! i \<noteq> Done" by auto
  then have "\<nexists>k e. mn s = MReturned k e \<or> mn s = MExited k e"
    using assms(1) worker(2) unfolding quiet_exit_def by (metis nth_mem singletonD subsetD)
  then show ?thesis using worker by (simp add: quiet_exit_def)
qed (use assms(1) in \<open>auto simp: quiet_exit_def\<close>)

lemma own_cancel_step:
  assumes "own_cancel s" "scanner_step t rt s s'"
  shows "own_cancel s'"
proof -
  have st: "scan_step t rt s s'" using assms(2) by (simp add: scanner_step_def)
  show ?thesis using st
proof cases
  case (worker i start h' pc')
  then show ?thesis using assms(1)
    by (cases "(t, start, sh s, ws s ! i)" rule: worker_step.cases)
       (auto simp: own_cancel_def reportFatal_def reportError_def scan_file_def Let_def split: prod.splits popped.splits option.splits if_splits sum.splits)
qed (use assms in \<open>auto simp: own_cancel_def scanner_step_def user_cancelled_def\<close>)
qed

lemma complete_exit_step:
  assumes "complete_exit t n rt s" "quiet_exit s" "own_cancel s" "scan_inv t n rt s" "ws s \<noteq> []" "scan_step t rt s s'"
  shows "complete_exit t n rt s'"
  using assms(6)
proof cases
  case (worker i start h' pc')
  then have "ws s ! i \<noteq> Done" by auto
  then have "\<nexists>k e. mn s = MReturned k e \<or> mn s = MExited k e"
    using assms(2) worker(2) unfolding quiet_exit_def by (metis nth_mem singletonD subsetD)
  then show ?thesis using worker by (simp add: complete_exit_def)
next
  case wait_done
  then show ?thesis using finished_complete [OF assms(4) _ _ assms(5)] assms(3)
    by (auto simp: complete_exit_def own_cancel_def dispatched_def)
qed (use assms(1) in \<open>auto simp: complete_exit_def\<close>)

section \<open>Invariants\<close>

abbreviation stopped :: "pipe \<Rightarrow> bool" where
  "stopped p \<equiv> pr_stop (pi_proc p)"

lemma user_cancelled_same: "cancelled (sh s) \<Longrightarrow> user_cancelled s = s"
  by (simp add: user_cancelled_def)

lemma user_cancelled_simps [simp]: "mn (user_cancelled s) = mn s" "ws (user_cancelled s) = ws s" "shared.log (sh (user_cancelled s)) = shared.log (sh s)"
  by (simp_all add: user_cancelled_def)

lemma user_cancelled_step: "user_cancelled s = s \<or> scan_step t rt s (user_cancelled s)"
  using scan_step.user_cancel [of s t rt] user_cancelled_same by (cases "cancelled (sh s)") (auto simp: user_cancelled_def)

lemma parse_step_frame:
  assumes "parse_step w start p pc = Some (p', pc')"
  shows "pi_main p' = pi_main p" "pi_workers p' = pi_workers p"
    "pi_scan p' = pi_scan p \<and> stopped p' = stopped p \<and> pi_fatal p' = pi_fatal p
      \<or> pi_scan p' = user_cancelled (pi_scan p) \<and> stopped p' \<and> pi_fatal p' \<noteq> None"
    "rq_closed (pi_queue p') = rq_closed (pi_queue p)"
  using assms untouched.source_step
  by (cases "(w, start, p, pc)" rule: parse_step.cases;
      fastforce simp: report_fatal_def cancel_all_def beginWork_def endWork_def same_work_def Let_def rq_pop_def
        split: option.splits prod.splits popped.splits list.splits if_splits)+

definition scan_ok :: "tree \<Rightarrow> nat \<Rightarrow> string \<Rightarrow> pipe \<Rightarrow> bool" where
  "scan_ok t n rt p \<longleftrightarrow> (let sc = pi_scan p in scan_inv t n rt sc \<and> ws sc \<noteq> [] \<and> quiet_exit sc
     \<and> (\<not> stopped p \<longrightarrow> own_cancel sc \<and> complete_exit t n rt sc))"

lemma scan_ok_cancelled:
  assumes "scan_ok t n rt p" "bounded t n rt" "pi_scan p' = user_cancelled (pi_scan p)" "stopped p'"
  shows "scan_ok t n rt p'"
proof -
  have "scan_inv t n rt (pi_scan p') \<and> quiet_exit (pi_scan p')"
    using user_cancelled_step [of "pi_scan p" t rt] assms scan_inv_step quiet_exit_step by (fastforce simp: scan_ok_def Let_def)
  moreover have "ws (pi_scan p') \<noteq> []" using assms(1,3) by (simp add: scan_ok_def Let_def user_cancelled_def)
  ultimately show ?thesis using assms(4) by (simp add: scan_ok_def Let_def)
qed

lemma scan_ok_step:
  assumes "scan_ok t n rt p" "bounded t n rt" "process_step w t rt chk p p'"
  shows "scan_ok t n rt p'"
  using assms(3)
proof cases
  case (scanner sc)
  then have st: "scan_step t rt (pi_scan p) sc" by (simp add: scanner_step_def)
  have inv: "scan_inv t n rt (pi_scan p)" "ws (pi_scan p) \<noteq> []" "quiet_exit (pi_scan p)" using assms(1) by (simp_all add: scan_ok_def Let_def)
  have "ws sc \<noteq> []" using st inv(2) by (auto elim: scan_step.cases)
  moreover have "own_cancel (pi_scan p) \<and> complete_exit t n rt (pi_scan p) \<Longrightarrow> own_cancel sc \<and> complete_exit t n rt sc"
    using own_cancel_step [OF _ scanner(3)] complete_exit_step [OF _ inv(3) _ inv(1,2) st] by blast
  ultimately show ?thesis using scanner scan_inv_step [OF inv(1) assms(2) st] quiet_exit_step [OF inv(3) st] assms(1)
    by (simp add: scan_ok_def Let_def)
next
  case (worker i start p1 pc)
  then show ?thesis using parse_step_frame(3) [OF worker(3)] scan_ok_cancelled [OF assms(1,2), of "p1\<lparr>pi_workers := (pi_workers p)[i := pc]\<rparr>"] assms(1)
    by (auto simp: scan_ok_def Let_def)
next
  case cancelled
  then show ?thesis using scan_ok_cancelled [OF assms(1,2), of p'] by (simp add: cancel_all_def)
qed (use assms(1) in \<open>simp_all add: scan_ok_def Let_def\<close>)

text \<open>Where the main goroutine is, what it knows, and when the queue is closed.\<close>

definition scan_result_is :: "(scan_refusal, unit) result \<Rightarrow> scan_state \<Rightarrow> scan_error option \<Rightarrow> bool" where
  "scan_result_is chk sc err \<longleftrightarrow> (case chk of Err e \<Rightarrow> err = Some (Refused e)
     | Ok _ \<Rightarrow> (\<exists>k e. mn sc = MExited k e \<and> err = map_option Walk e))"

definition main_ok :: "(scan_refusal, unit) result \<Rightarrow> pipe \<Rightarrow> bool" where
  "main_ok chk p \<longleftrightarrow> (case pi_main p of
       PScanning \<Rightarrow> \<not> rq_closed (pi_queue p)
     | PReturned err \<Rightarrow> \<not> rq_closed (pi_queue p) \<and> scan_result_is chk (pi_scan p) err
     | PChecked stop err \<Rightarrow> \<not> rq_closed (pi_queue p) \<and> scan_result_is chk (pi_scan p) err \<and> (stop \<longrightarrow> stopped p)
     | PWaiting err \<Rightarrow> rq_closed (pi_queue p) \<and> scan_result_is chk (pi_scan p) err
     | PFinished r \<Rightarrow> rq_closed (pi_queue p) \<and> set (pi_workers p) \<subseteq> {PStopped}
         \<and> (\<exists>err. scan_result_is chk (pi_scan p) err \<and> r = result_of_process p err))
   \<and> (chk \<noteq> Ok () \<longrightarrow> mn (pi_scan p) = MStart)"

lemma scan_result_is_step: "scan_result_is chk sc err \<Longrightarrow> chk = Ok () \<Longrightarrow> scan_step t rt sc sc' \<Longrightarrow> scan_result_is chk sc' err"
  by (auto simp: scan_result_is_def elim: scan_step.cases)

lemma scan_result_is_cancelled [simp]: "scan_result_is chk (user_cancelled sc) err = scan_result_is chk sc err"
  by (auto simp: scan_result_is_def user_cancelled_def split: sum.split)

lemma main_ok_step:
  assumes "main_ok chk p" "process_step w t rt chk p p'"
  shows "main_ok chk p'"
  using assms(2)
proof cases
  case (scanner sc)
  then have st: "scan_step t rt (pi_scan p) sc" by (simp add: scanner_step_def)
  have "result_of_process (deliver w sc p) err = result_of_process p err" for err by (simp add: result_of_process_def)
  then show ?thesis using assms(1) scanner scan_result_is_step [OF _ _ st, of chk] deliver_queue(1) [OF scanner(3)]
    by (fastforce simp: main_ok_def split: pmain.splits)
next
  case (worker i start p1 pc)
  have not_done: "pi_main p \<noteq> PFinished r" for r
  proof -
    have "pi_workers p ! i \<noteq> PStopped" using worker(3) by auto
    then have "\<not> set (pi_workers p) \<subseteq> {PStopped}" using worker(2) nth_mem by fastforce
    then show ?thesis using assms(1) by (auto simp: main_ok_def)
  qed
  show ?thesis using assms(1) worker not_done parse_step_frame [OF worker(3)] by (auto simp: main_ok_def split: pmain.splits)
next
  case cancelled
  then show ?thesis using assms(1) by (auto simp: main_ok_def cancel_all_def split: pmain.splits)
next
  case (refused e)
  then show ?thesis using assms(1) by (simp add: main_ok_def scan_result_is_def)
next
  case (returned n err)
  then show ?thesis using assms(1) by (auto simp: main_ok_def scan_result_is_def split: sum.splits)
next
  case (finish err)
  then show ?thesis using assms(1) by (auto simp: main_ok_def result_of_process_def)
qed (use assms(1) in \<open>auto simp: main_ok_def rq_close_def rq_abort_def\<close>)

text \<open>Until a cancellation, every result the scanner reported is queued, in a worker's hands or processed.\<close>

fun in_hand :: "parse_pc \<Rightarrow> scan_result multiset" where
  "in_hand (PTaken r) = {#r#}"
| "in_hand (PBusy r) = {#r#}"
| "in_hand _ = {#}"

fun working_on :: "parse_pc \<Rightarrow> string multiset" where
  "working_on (PBusy r) = {#r_path r#}"
| "working_on (PEnding r) = {#r_path r#}"
| "working_on _ = {#}"

definition scanned :: "pipe \<Rightarrow> event multiset" where
  "scanned p = mset (shared.log (sh (pi_scan p)))"

definition conserved :: "pipe \<Rightarrow> bool" where
  "conserved p \<longleftrightarrow> (\<not> stopped p \<longrightarrow> results_in (scanned p)
     = mset (rq_items (pi_queue p)) + sum_list (map in_hand (pi_workers p)) + mset (pi_taken p))"

lemma rq_pop_Item: "rq_pop q = (q', Item r) \<longleftrightarrow> rq_items q = r # rq_items q' \<and> rq_closed q' = rq_closed q"
  by (cases q, cases q') (auto simp: rq_pop_def split: list.splits)

lemma parse_step_conserves:
  assumes "parse_step w start p pc = Some (p', pc')" "\<not> stopped p'"
  shows "\<not> stopped p \<and> scanned p' = scanned p \<and> mset (rq_items (pi_queue p')) + in_hand pc' + mset (pi_taken p')
    = mset (rq_items (pi_queue p)) + in_hand pc + mset (pi_taken p)"
  using assms untouched.source_step
  by (cases "(w, start, p, pc)" rule: parse_step.cases)
     (fastforce simp: report_fatal_def cancel_all_def beginWork_def endWork_def same_work_def Let_def rq_pop_Item scanned_def
        split: option.splits prod.splits popped.splits if_splits)+

lemma conserved_step:
  assumes "conserved p" "main_ok chk p" "scan_ok t n rt p" "process_step w t rt chk p p'"
  shows "conserved p'"
  using assms(4)
proof cases
  case (scanner sc)
  show ?thesis
  proof (cases "rq_closed (pi_queue p)")
    case False
    then show ?thesis using deliver_queue(2) [OF scanner(3), of w] assms(1) scanner
      by (auto simp: conserved_def open_queue_def scanned_def ac_simps)
  next
    case True
    then have "\<exists>k e. mn (pi_scan p) = MExited k e"
      using assms(2) scanner(2) by (auto simp: main_ok_def scan_result_is_def split: pmain.splits)
    then have "set (ws (pi_scan p)) \<subseteq> {Done}" using assms(3) by (auto simp: scan_ok_def quiet_exit_def Let_def)
    then show ?thesis using deliver_queue(3) [OF scanner(3), of w] assms(1) scanner by (simp add: conserved_def scanned_def)
  qed
next
  case (worker i start p1 pc)
  show ?thesis
  proof (cases "stopped p'")
    case False
    let ?hand = "\<lambda>l. sum_list (map in_hand l)"
    have c: "\<not> stopped p" "scanned p1 = scanned p" "mset (rq_items (pi_queue p1)) + in_hand pc + mset (pi_taken p1)
        = mset (rq_items (pi_queue p)) + in_hand (pi_workers p ! i) + mset (pi_taken p)"
      using parse_step_conserves [OF worker(3)] False worker(1) by auto
    have "results_in (scanned p) + in_hand (pi_workers p ! i)
        = mset (rq_items (pi_queue p)) + in_hand (pi_workers p ! i) + mset (pi_taken p) + ?hand (pi_workers p)"
      using assms(1) c(1) by (simp add: conserved_def ac_simps)
    also have "\<dots> = mset (rq_items (pi_queue p1)) + mset (pi_taken p1) + (?hand (pi_workers p) + in_hand pc)"
      using arg_cong [OF c(3), of "\<lambda>x. x + ?hand (pi_workers p)"] by (simp only: ac_simps)
    also have "\<dots> = mset (rq_items (pi_queue p1)) + mset (pi_taken p1) + ?hand ((pi_workers p)[i := pc]) + in_hand (pi_workers p ! i)"
      using sum_list_swap [OF worker(2), of in_hand pc] by (simp add: ac_simps)
    finally show ?thesis using worker(1) c(2) by (simp add: conserved_def scanned_def ac_simps)
  qed (simp add: conserved_def)
next
  case (shut stop err)
  then show ?thesis using assms(1,2) by (auto simp: conserved_def main_ok_def rq_close_def scanned_def)
qed (use assms(1) in \<open>auto simp: conserved_def cancel_all_def scanned_def\<close>)

text \<open>A worker stops only when the queue is closed and drained, or after a cancellation.\<close>

definition drained_ok :: "pipe \<Rightarrow> bool" where
  "drained_ok p \<longleftrightarrow> (PStopped \<in> set (pi_workers p) \<and> \<not> stopped p \<longrightarrow> rq_closed (pi_queue p) \<and> rq_items (pi_queue p) = [])
     \<and> pi_workers p \<noteq> [] \<and> (pi_fatal p \<noteq> None \<longrightarrow> stopped p)"

lemma parse_step_drained:
  assumes "parse_step w start p pc = Some (p', pc')" "\<not> stopped p'"
  shows "(pc' = PStopped \<longrightarrow> rq_closed (pi_queue p') \<and> rq_items (pi_queue p') = [])
    \<and> (rq_items (pi_queue p) = [] \<longrightarrow> rq_items (pi_queue p') = []) \<and> \<not> stopped p \<and> pi_fatal p' = pi_fatal p"
  using assms untouched.source_step
  by (cases "(w, start, p, pc)" rule: parse_step.cases)
     (fastforce simp: report_fatal_def cancel_all_def beginWork_def endWork_def same_work_def Let_def rq_pop_def
        split: option.splits prod.splits popped.splits if_splits list.splits)+

lemma drained_ok_step:
  assumes "drained_ok p" "main_ok chk p" "scan_ok t n rt p" "process_step w t rt chk p p'"
  shows "drained_ok p'"
  using assms(4)
proof cases
  case (scanner sc)
  show ?thesis
  proof (cases "rq_closed (pi_queue p)")
    case False
    then show ?thesis using deliver_queue(1) [OF scanner(3), of w] assms(1) scanner by (auto simp: drained_ok_def)
  next
    case True
    then have "\<exists>k e. mn (pi_scan p) = MExited k e"
      using assms(2) scanner(2) by (auto simp: main_ok_def scan_result_is_def split: pmain.splits)
    then have "set (ws (pi_scan p)) \<subseteq> {Done}" using assms(3) by (auto simp: scan_ok_def quiet_exit_def Let_def)
    then show ?thesis using deliver_queue(3) [OF scanner(3), of w] assms(1) scanner by (simp add: drained_ok_def)
  qed
next
  case (worker i start p1 pc)
  have mem: "PStopped \<in> set ((pi_workers p)[i := pc]) \<Longrightarrow> pc = PStopped \<or> PStopped \<in> set (pi_workers p)"
    using set_update_subset_insert [of "pi_workers p" i pc] by auto
  show ?thesis
  proof (cases "stopped p1")
    case True
    then show ?thesis using worker assms(1) by (simp add: drained_ok_def)
  next
    case False
    then show ?thesis using parse_step_drained [OF worker(3) False] parse_step_frame [OF worker(3)] assms(1) worker(1) mem
      by (auto simp: drained_ok_def)
  qed
qed (use assms(1,2) in \<open>auto simp: drained_ok_def cancel_all_def main_ok_def rq_close_def rq_abort_def split: if_splits\<close>)

text \<open>The line of active files shows only what workers are busy with.\<close>

definition active_ok :: "pipe \<Rightarrow> bool" where
  "active_ok p \<longleftrightarrow> (let busy = sum_list (map working_on (pi_workers p)) in
     pr_active (pi_proc p) = int (size busy) \<and> mset (pr_current (pi_proc p)) \<subseteq># busy)"

lemma beginWork_current: "mset (pr_current (beginWork path s)) \<subseteq># mset (pr_current s) + {#path#}"
proof -
  have "mset (drop k l) \<subseteq># mset l" for k :: nat and l :: "string list"
    by (metis append_take_drop_id mset_append mset_subset_eq_add_right)
  note drops = this
  let ?cur = "pr_current s @ [path]"
  have "pr_current (beginWork path s) = (if 4 < length ?cur then drop (length ?cur - 4) ?cur else ?cur)"
    unfolding beginWork_def Let_def by simp
  then have "mset (pr_current (beginWork path s)) \<subseteq># mset ?cur" by (metis drops subset_mset.order_refl)
  then show ?thesis by simp
qed

lemma beginWork_active: "pr_active (beginWork path s) = pr_active s + 1"
  by (simp add: beginWork_def Let_def)

lemma parse_step_active:
  assumes "parse_step w start p pc = Some (p', pc')" "mset (pr_current (pi_proc p)) \<subseteq># others + working_on pc"
    "pr_active (pi_proc p) = int (size others + size (working_on pc))"
  shows "mset (pr_current (pi_proc p')) \<subseteq># others + working_on pc' \<and> pr_active (pi_proc p') = int (size others + size (working_on pc'))"
proof (cases pc)
  case PStarting
  then show ?thesis using assms by (auto simp: report_fatal_def cancel_all_def split: option.splits)
next
  case PIdle
  then show ?thesis using assms by (auto split: prod.splits popped.splits)
next
  case (PTaken r)
  have "mset (pr_current (beginWork (r_path r) (pi_proc p))) \<subseteq># others + {#r_path r#}"
    using beginWork_current [of "r_path r" "pi_proc p"] assms(2) PTaken by (auto intro: subset_mset.order_trans)
  then show ?thesis using PTaken assms by (auto simp: beginWork_active split: if_splits)
next
  case (PBusy r)
  then show ?thesis using assms untouched.source_step [of "pi_proc p" w r] by (auto simp: same_work_def)
next
  case (PEnding r)
  have "mset (pr_current (pi_proc p)) - {#r_path r#} \<subseteq># others" using assms(2) PEnding by (simp add: subset_eq_diff_conv)
  then show ?thesis using PEnding assms by (auto simp: endWork_def)
next
  case PStopped
  then show ?thesis using assms by simp
qed

lemma active_ok_step:
  assumes "active_ok p" "process_step w t rt chk p p'"
  shows "active_ok p'"
  using assms(2)
proof cases
  case (worker i start p1 pc)
  let ?busy = "\<lambda>l. sum_list (map working_on l)"
  have sub: "working_on (pi_workers p ! i) \<subseteq># ?busy (pi_workers p)"
    using worker(2) by (metis mset_subset_eq_add_right sum_list_swap list_update_id subset_mset.le_iff_add nth_mem in_set_conv_decomp map_append list.map(2) sum_list.append sum_list.Cons add.left_commute)
  define others where "others = ?busy (pi_workers p) - working_on (pi_workers p ! i)"
  have o: "?busy (pi_workers p) = others + working_on (pi_workers p ! i)" using sub by (simp add: others_def)
  have "?busy ((pi_workers p)[i := pc]) = others + working_on pc"
    using sum_list_swap [OF worker(2), of working_on pc] by (simp add: o ac_simps)
  then show ?thesis using parse_step_active [OF worker(3), of others] assms(1) worker(1) by (simp add: active_ok_def o Let_def)
qed (use assms(1) in \<open>simp_all add: active_ok_def cancel_all_def\<close>)

section \<open>Accounting\<close>

definition tallied :: "'c world \<Rightarrow> pipe \<Rightarrow> bool" where
  "tallied w p \<longleftrightarrow> (\<not> stopped p \<longrightarrow>
     accounted (pi_proc p) = int (sum_list (map (source_items w) (pi_taken p)) + errors_in (scanned p)))"

lemma on_event_adds: "calm w \<Longrightarrow> adds (error_of e) (pi_proc p) (pi_proc (on_event w e p))"
  by (cases e) (simp_all add: adds_refl adds_ext adds_fail real_error_def del: One_nat_def)

lemma fold_on_event_adds: "calm w \<Longrightarrow> adds (errors_in (mset evs)) (pi_proc p) (pi_proc (fold (on_event w) evs p))"
proof (induction evs arbitrary: p)
  case (Cons e evs)
  show ?case using adds_trans [OF on_event_adds [OF Cons.prems] Cons.IH [OF Cons.prems]] by simp
qed (simp add: adds_refl)

lemma on_report_accounted: "accounted (pi_proc (fold on_report l p)) = accounted (pi_proc p)"
  by (induction l arbitrary: p) (simp_all add: on_report_def accounted_def setScanProgress_def report_def)

lemma tallied_step:
  assumes "tallied w p" "calm w" "\<not> w_resume w" "process_step w t rt chk p p'"
  shows "tallied w p'"
  using assms(4)
proof cases
  case (scanner sc)
  obtain evs where evs: "shared.log (sh sc) = shared.log (sh (pi_scan p)) @ evs"
    using scan_step_logs scanner(3) unfolding scanner_step_def prefix_def by blast
  have "\<not> stopped p \<Longrightarrow> accounted (pi_proc (deliver w sc p)) = accounted (pi_proc p) + int (errors_in (mset evs))"
    using fold_on_event_adds [OF assms(2), of evs "p\<lparr>pi_scan := sc\<rparr>"] evs
    by (simp add: deliver_def Let_def on_report_accounted adds_def)
  then show ?thesis using assms(1) scanner evs by (simp add: tallied_def scanned_def)
next
  case (worker i start p1 pc)
  have "tallied w p1"
    using worker(3)
  proof (cases "(w, start, p, pi_workers p ! i)" rule: parse_step.cases)
    case (4 w' start' p' r)
    then show ?thesis using worker(3) assms(1) adds_source [OF assms(2,3), of r "pi_proc p"] untouched.source_step [of "pi_proc p" w r]
      by (auto simp: tallied_def adds_def same_work_def scanned_def)
  qed (use assms(1) in \<open>auto simp: tallied_def scanned_def report_fatal_def cancel_all_def beginWork_def endWork_def accounted_def Let_def
      split: option.splits prod.splits popped.splits if_splits\<close>)
  then show ?thesis using worker(1) by (simp add: tallied_def scanned_def)
qed (use assms(1) in \<open>auto simp: tallied_def cancel_all_def scanned_def\<close>)

section \<open>Termination\<close>

text \<open>A weight that every action lowers; a queued result is worth five.\<close>

fun parse_weight :: "parse_pc \<Rightarrow> nat" where
  "parse_weight PStarting = 2"
| "parse_weight PIdle = 1"
| "parse_weight (PTaken _) = 5"
| "parse_weight (PBusy _) = 4"
| "parse_weight (PEnding _) = 3"
| "parse_weight PStopped = 0"

fun pmain_weight :: "pmain \<Rightarrow> nat" where
  "pmain_weight PScanning = 4"
| "pmain_weight (PReturned _) = 3"
| "pmain_weight (PChecked _ _) = 2"
| "pmain_weight (PWaiting _) = 1"
| "pmain_weight (PFinished _) = 0"

definition own_weight :: "pipe \<Rightarrow> nat" where
  "own_weight p = 5 * length (rq_items (pi_queue p)) + sum_list (map parse_weight (pi_workers p)) + pmain_weight (pi_main p)
     + of_bool (\<not> stopped p)"

definition pipe_weight :: "tree \<Rightarrow> nat \<Rightarrow> string \<Rightarrow> pipe \<Rightarrow> nat" where
  "pipe_weight t n rt p = weight t n rt (pi_scan p) + own_weight p"

lemma worker_step_results:
  assumes "worker_step t start h pc = Some (h', pc')" "pc_ok t n pc" "\<forall>d \<in> set (dq_items (sq h)). bounded t n d"
  shows "\<exists>evs. shared.log h' = shared.log h @ evs \<and> queue_weight t n (sq h') + flag_weight h' + pc_weight t n pc' + 5 * size (results_in (mset evs))
    < queue_weight t n (sq h) + flag_weight h + pc_weight t n pc"
proof (cases "\<exists>d e es. pc = Walking d (e # es) \<and> \<not> e_isdir e")
  case True
  then obtain d e es where pc: "pc = Walking d (e # es)" "\<not> e_isdir e" by blast
  then have s: "h' = scan_file t d e h" "pc' = Walking d es" using assms(1) by auto
  have "size (results_in (mset (file_events t d e))) < 2 * size (mset (file_events t d e))"
    by (simp add: file_events_def split: option.split)
  then show ?thesis using pc s
    by (intro exI [of _ "file_events t d e"]) (simp add: scan_file_def entries_events_Cons entry_events_def flag_weight_def)
next
  case False
  then have "\<exists>evs. shared.log h' = shared.log h @ evs \<and> results_in (mset evs) = {#}"
    using assms(1) by (cases "(t, start, h, pc)" rule: worker_step.cases)
      (auto simp: reportFatal_def reportError_def Let_def split: prod.splits popped.splits option.splits if_splits sum.splits)
  then show ?thesis using worker_step_weight [OF assms] by auto
qed

lemma scan_step_results:
  assumes "scan_inv t n rt s" "bounded t n rt" "scan_step t rt s s'"
  shows "\<exists>evs. shared.log (sh s') = shared.log (sh s) @ evs \<and> weight t n rt s' + 5 * size (results_in (mset evs)) < weight t n rt s"
proof (cases "shared.log (sh s') = shared.log (sh s)")
  case True
  then show ?thesis using weight_step [OF assms] by (intro exI [of _ "[]"]) simp
next
  case False
  with assms(3) show ?thesis
  proof cases
    case (worker i start h' pc')
    have "pc_ok t n (ws s ! i)" "\<forall>d \<in> set (dq_items (sq (sh s))). bounded t n d"
      using assms(1) nth_mem [OF worker(2)] by (auto simp: scan_inv_def dirs_ok_def)
    then obtain evs where evs: "shared.log h' = shared.log (sh s) @ evs"
      "queue_weight t n (sq h') + flag_weight h' + pc_weight t n pc' + 5 * size (results_in (mset evs))
      < queue_weight t n (sq (sh s)) + flag_weight (sh s) + pc_weight t n (ws s ! i)"
      using worker_step_results [OF worker(3)] by blast
    have "sum_list (map (pc_weight t n) ((ws s)[i := pc'])) + pc_weight t n (ws s ! i)
      = sum_list (map (pc_weight t n) (ws s)) + pc_weight t n pc'"
      by (rule sum_list_swap) (rule worker(2))
    then show ?thesis using worker(1) evs by (intro exI [of _ evs]) (simp add: weight_def)
  qed auto
qed

lemma fold_on_event_length:
  "length (rq_items (pi_queue (fold (on_event w) evs p))) \<le> length (rq_items (pi_queue p)) + size (results_in (mset evs))"
proof (induction evs arbitrary: p)
  case (Cons e evs)
  have "length (rq_items (pi_queue (on_event w e p))) \<le> length (rq_items (pi_queue p)) + size (result_of e)"
    by (cases e) (simp_all add: rq_push_def)
  then show ?case using Cons [of "on_event w e p"] by simp
qed simp

lemma parse_step_weight:
  assumes "parse_step w start p pc = Some (p', pc')"
  shows "5 * length (rq_items (pi_queue p')) + parse_weight pc' < 5 * length (rq_items (pi_queue p)) + parse_weight pc"
  using assms by (cases "(w, start, p, pc)" rule: parse_step.cases)
    (auto simp: report_fatal_def cancel_all_def rq_pop_def split: option.splits prod.splits popped.splits if_splits list.splits)

lemma weight_cancelled: "weight t n rt (user_cancelled s) \<le> weight t n rt s"
  by (simp add: weight_def user_cancelled_def flag_weight_def)

lemma pipe_weight_step:
  assumes "scan_ok t n rt p" "bounded t n rt" "process_step w t rt chk p p'"
  shows "pipe_weight t n rt p' < pipe_weight t n rt p"
  using assms(3)
proof cases
  case (scanner sc)
  obtain evs where evs: "shared.log (sh sc) = shared.log (sh (pi_scan p)) @ evs"
    "weight t n rt sc + 5 * size (results_in (mset evs)) < weight t n rt (pi_scan p)"
    using scan_step_results [OF _ assms(2)] assms(1) scanner(3) by (fastforce simp: scanner_step_def scan_ok_def Let_def)
  have "length (rq_items (pi_queue (deliver w sc p))) \<le> length (rq_items (pi_queue p)) + size (results_in (mset evs))"
    using fold_on_event_length [of w evs "p\<lparr>pi_scan := sc\<rparr>"] evs(1) by (simp add: deliver_def Let_def fold_on_report_frame)
  then show ?thesis using scanner(1) evs(2) by (simp add: pipe_weight_def own_weight_def)
next
  case (worker i start p1 pc)
  have "sum_list (map parse_weight ((pi_workers p)[i := pc])) + parse_weight (pi_workers p ! i)
      = sum_list (map parse_weight (pi_workers p)) + parse_weight pc"
    by (rule sum_list_swap) (rule worker(2))
  moreover have "weight t n rt (pi_scan p1) \<le> weight t n rt (pi_scan p) \<and> of_bool (\<not> stopped p1) \<le> (of_bool (\<not> stopped p) :: nat)"
    using parse_step_frame(3) [OF worker(3)] weight_cancelled by auto
  ultimately show ?thesis using worker(1) parse_step_weight [OF worker(3)] parse_step_frame(1) [OF worker(3)]
    by (simp add: pipe_weight_def own_weight_def)
next
  case cancelled
  then show ?thesis using weight_cancelled [of t n rt "pi_scan p"] by (simp add: pipe_weight_def own_weight_def cancel_all_def)
qed (simp_all add: pipe_weight_def own_weight_def rq_abort_def rq_close_def)

text \<open>Nobody waits for ever: some goroutine can act without a cancellation.\<close>

lemma parse_enabled:
  assumes "pc \<noteq> PStopped" "rq_closed (pi_queue p)"
  shows "\<exists>p' pc'. parse_step w None p pc = Some (p', pc') \<and> stopped p' = stopped p"
proof (cases pc)
  case PIdle
  have "snd (rq_pop (pi_queue p)) \<noteq> Blocked" using rq.deq_not_blocked_closed [OF assms(2)] .
  then show ?thesis using PIdle by (auto split: prod.splits popped.splits)
qed (use assms untouched.source_step in \<open>auto simp: same_work_def beginWork_def endWork_def Let_def\<close>)

lemma process_progress:
  assumes "scan_ok t n rt p" "main_ok chk p" "\<And>r. pi_main p \<noteq> PFinished r"
  shows "\<exists>p'. process_step w t rt chk p p' \<and> stopped p' = stopped p"
proof (cases "pi_main p")
  case PScanning
  show ?thesis
  proof (cases chk)
    case (Inl e)
    then show ?thesis using process_step.refused [OF PScanning] by fastforce
  next
    case (Inr u)
    then have ok: "chk = Ok ()" by simp
    show ?thesis
    proof (cases "\<exists>k e. mn (pi_scan p) = MExited k e")
      case True
      then show ?thesis using process_step.returned [OF PScanning] by fastforce
    next
      case False
      then obtain sc where "scanner_step t rt (pi_scan p) sc"
        using scan_progress [of t n rt "pi_scan p"] assms(1) by (auto simp: scan_ok_def Let_def)
      then show ?thesis using process_step.scanner [OF ok] deliver_work(1) by blast
    qed
  qed
next
  case (PReturned err)
  then show ?thesis using process_step.checked by fastforce
next
  case (PChecked stop err)
  then show ?thesis using process_step.shut by fastforce
next
  case (PWaiting err)
  show ?thesis
  proof (cases "set (pi_workers p) \<subseteq> {PStopped}")
    case True
    then show ?thesis using process_step.finish [OF PWaiting] by fastforce
  next
    case False
    then obtain i where i: "i < length (pi_workers p)" "pi_workers p ! i \<noteq> PStopped" by (metis in_set_conv_nth insertI1 subsetI)
    have "rq_closed (pi_queue p)" using assms(2) PWaiting by (simp add: main_ok_def)
    then obtain p1 pc where "parse_step w None p (pi_workers p ! i) = Some (p1, pc)" "stopped p1 = stopped p" using parse_enabled i(2) by blast
    then show ?thesis using process_step.worker [OF i(1)] by fastforce
  qed
qed (use assms(3) in blast)

end
