(* ===== verification/ScanProps.thy ===== *)
theory ScanProps
  imports ScanSteps
begin

text \<open>
  The interpretations of the contract of theory ScanSteps: the growth of the database with
  the consistency of the counters, and the behaviour of a resumed scan.
\<close>

section \<open>Storing\<close>

lemma store_result:
  assumes "store w path md s = (err, s')"
  shows "\<exists>d. s' = s\<lparr>pr_db := d, pr_txs := Suc (pr_txs s)\<rparr> \<and> (err \<noteq> None \<longrightarrow> d = pr_db s)
    \<and> (db_inv (pr_db s) \<longrightarrow> db_inv d \<and> (\<forall>p. recorded (pr_db s) p \<longrightarrow> recorded d p) \<and> prefix (t_files (pr_db s)) (t_files d)
       \<and> (err = None \<longrightarrow> md_hash md \<noteq> [] \<longrightarrow> recorded d path))"
proof -
  obtain b c fl where tx: "w_tx w (pr_txs s) = (b, c, fl)" by (rule prod_cases3)
  obtain err0 d where run: "with_tx b c (record_file (w_similarity w) (w_order w) path md) fl (pr_db s) = (err0, d)" by force
  have s': "err0 = err" "s' = s\<lparr>pr_db := d, pr_txs := Suc (pr_txs s)\<rparr>" using assms tx run by (simp_all add: store_def)
  show ?thesis
  proof (cases err)
    case None
    then obtain n where "record_file (w_similarity w) (w_order w) path md fl (pr_db s, 0) = (Ok (), (d, n))"
      using run s'(1) by (auto simp: with_tx_ok)
    then show ?thesis using s'(2) None record_file_inv record_file_records by (intro exI [of _ d]) blast
  next
    case (Some e)
    then have "d = pr_db s" using run s'(1) with_tx_error by blast
    then show ?thesis using s'(2) Some by (intro exI [of _ d]) simp
  qed
qed

section \<open>Growth\<close>

definition grows :: "proc \<Rightarrow> proc \<Rightarrow> bool" where
  "grows s s' \<longleftrightarrow> (db_inv (pr_db s) \<longrightarrow> db_inv (pr_db s') \<and> (\<forall>p. recorded (pr_db s) p \<longrightarrow> recorded (pr_db s') p)
       \<and> prefix (t_files (pr_db s)) (t_files (pr_db s')))
     \<and> prefix (pr_results s) (pr_results s') \<and> prefix (pr_failures s) (pr_failures s') \<and> pr_skipped s \<le> pr_skipped s'
     \<and> pr_parsed s' - int (length (pr_results s')) = pr_parsed s - int (length (pr_results s))
     \<and> pr_failed s' - int (length (pr_failures s')) = pr_failed s - int (length (pr_failures s))"

lemma grows_trans:
  assumes "grows s s1" "grows s1 s2"
  shows "grows s s2"
  using assms prefix_order.trans unfolding grows_def by (smt (verit))

interpretation growth: quiet_steps w grows for w
proof (unfold_locales, goal_cases)
  case 2
  then show ?case by (rule grows_trans)
qed (simp_all add: grows_def)

interpretation growth: scan_steps w grows for w
proof unfold_locales
  show "grows s (s\<lparr>pr_calls := pr_calls s @ [path]\<rparr>)" for path s by (simp add: grows_def)
next
  fix path s md e s' assume "store w path md s = (Some e, s')"
  then show "grows s s'" using store_result by (fastforce simp: grows_def)
next
  fix path s md s' format assume "store w path md s = (None, s')"
  then show "grows s (s'\<lparr>pr_parsed := pr_parsed s' + 1, pr_results := pr_results s' @ [(path, format, md)]\<rparr>)"
    using store_result by (fastforce simp: grows_def)
qed

section \<open>Resuming\<close>

definition hashed :: "(string \<times> string \<times> metadata) list \<Rightarrow> string list" where
  "hashed rs = map fst (filter (\<lambda>x. md_hash (snd (snd x)) \<noteq> []) rs)"

definition resumes :: "'c world \<Rightarrow> proc \<Rightarrow> proc \<Rightarrow> bool" where
  "resumes w s s' \<longleftrightarrow> (w_resume w \<and> (\<forall>k. w_query w k = None) \<and> db_inv (pr_db s) \<longrightarrow>
     db_inv (pr_db s') \<and> (\<forall>p. recorded (pr_db s) p \<longrightarrow> recorded (pr_db s') p)
     \<and> (\<exists>calls. pr_calls s' = pr_calls s @ calls \<and> (\<forall>p \<in> set calls. \<not> recorded (pr_db s) p))
     \<and> (\<exists>new. pr_results s' = pr_results s @ new \<and> (\<forall>x \<in> set new. \<not> recorded (pr_db s) (fst x))
          \<and> (\<forall>p \<in> set (hashed new). recorded (pr_db s') p) \<and> distinct (hashed new)))"

lemma resumes_trans:
  assumes "resumes w s s1" "resumes w s1 s2"
  shows "resumes w s s2"
  unfolding resumes_def
proof (rule impI)
  assume h: "w_resume w \<and> (\<forall>k. w_query w k = None) \<and> db_inv (pr_db s)"
  obtain new1 where 1: "db_inv (pr_db s1)" "\<forall>p. recorded (pr_db s) p \<longrightarrow> recorded (pr_db s1) p" "pr_results s1 = pr_results s @ new1"
    "\<forall>x \<in> set new1. \<not> recorded (pr_db s) (fst x)" "\<forall>p \<in> set (hashed new1). recorded (pr_db s1) p" "distinct (hashed new1)"
    and c1: "\<exists>calls. pr_calls s1 = pr_calls s @ calls \<and> (\<forall>p \<in> set calls. \<not> recorded (pr_db s) p)"
    using assms(1) h unfolding resumes_def by blast
  obtain new2 where 2: "db_inv (pr_db s2)" "\<forall>p. recorded (pr_db s1) p \<longrightarrow> recorded (pr_db s2) p" "pr_results s2 = pr_results s1 @ new2"
    "\<forall>x \<in> set new2. \<not> recorded (pr_db s1) (fst x)" "\<forall>p \<in> set (hashed new2). recorded (pr_db s2) p" "distinct (hashed new2)"
    and c2: "\<exists>calls. pr_calls s2 = pr_calls s1 @ calls \<and> (\<forall>p \<in> set calls. \<not> recorded (pr_db s1) p)"
    using assms(2) h 1(1) unfolding resumes_def by blast
  have "set (hashed new2) \<subseteq> fst ` set new2" by (auto simp: hashed_def)
  then have "set (hashed new1) \<inter> set (hashed new2) = {}" using 1(5) 2(4) by fastforce
  moreover have "hashed (new1 @ new2) = hashed new1 @ hashed new2" by (simp add: hashed_def)
  moreover have "\<exists>calls. pr_calls s2 = pr_calls s @ calls \<and> (\<forall>p \<in> set calls. \<not> recorded (pr_db s) p)"
  proof -
    obtain k1 k2 where "pr_calls s1 = pr_calls s @ k1" "\<forall>p \<in> set k1. \<not> recorded (pr_db s) p"
      "pr_calls s2 = pr_calls s1 @ k2" "\<forall>p \<in> set k2. \<not> recorded (pr_db s1) p" using c1 c2 by blast
    then show ?thesis using 1(2) by (intro exI [of _ "k1 @ k2"]) auto
  qed
  ultimately show "db_inv (pr_db s2) \<and> (\<forall>p. recorded (pr_db s) p \<longrightarrow> recorded (pr_db s2) p)
     \<and> (\<exists>calls. pr_calls s2 = pr_calls s @ calls \<and> (\<forall>p \<in> set calls. \<not> recorded (pr_db s) p))
     \<and> (\<exists>new. pr_results s2 = pr_results s @ new \<and> (\<forall>x \<in> set new. \<not> recorded (pr_db s) (fst x))
          \<and> (\<forall>p \<in> set (hashed new). recorded (pr_db s2) p) \<and> distinct (hashed new))"
    using 1 2 by (intro conjI exI [of _ "new1 @ new2"]) auto
qed

interpretation resumed: quiet_steps w "resumes w" for w
proof (unfold_locales, goal_cases)
  case 2
  then show ?case by (rule resumes_trans)
qed (simp_all add: resumes_def hashed_def)

interpretation resumed: scan_steps w "resumes w" for w
proof unfold_locales
  show "resumes w s (s\<lparr>pr_calls := pr_calls s @ [path]\<rparr>)" if "parse_allowed w path s" for path s
    using that by (simp add: resumes_def hashed_def parse_allowed_def)
next
  fix path s md e s' assume "store w path md s = (Some e, s')"
  then show "resumes w s s'" using store_result by (fastforce simp: resumes_def hashed_def)
next
  fix path s md s' format assume a: "parse_allowed w path s" and st: "store w path md s = (None, s')"
  obtain d where d: "s' = s\<lparr>pr_db := d, pr_txs := Suc (pr_txs s)\<rparr>"
    "db_inv (pr_db s) \<longrightarrow> db_inv d \<and> (\<forall>p. recorded (pr_db s) p \<longrightarrow> recorded d p) \<and> (md_hash md \<noteq> [] \<longrightarrow> recorded d path)"
    using store_result [OF st] by blast
  show "resumes w s (s'\<lparr>pr_parsed := pr_parsed s' + 1, pr_results := pr_results s' @ [(path, format, md)]\<rparr>)"
    unfolding resumes_def using a d by (auto simp: parse_allowed_def hashed_def)
qed

end
