(* ===== verification/ScanClaims.thy ===== *)
theory ScanClaims
  imports ScanProps Accounting
begin

text \<open>
  What a whole list of scanner results does, on every world, and a small concrete world in
  which the statements are applied: contents are books, bundles of named contents (which every
  archive library opens) or broken bytes.
\<close>

section \<open>A concrete world\<close>

datatype demo = Book metadata | Bundle "(string \<times> demo) list" | Broken

fun demo_parse :: "string \<Rightarrow> demo \<Rightarrow> (perr, metadata) result" where
  "demo_parse format (Book md) = Ok md"
| "demo_parse format (Bundle ms) = Err (Perr ''a bundle'' NotABook)"
| "demo_parse format Broken = Err (Perr ''broken'' Plain)"

fun demo_single :: "demo \<Rightarrow> (perr, demo) result" where
  "demo_single (Bundle [(n, c)]) = Ok c"
| "demo_single c = Err (Perr ''not compressed'' Plain)"

fun demo_members :: "demo \<Rightarrow> (string \<times> demo) list" where
  "demo_members (Bundle ms) = ms"
| "demo_members c = []"

definition demo_infos :: "demo \<Rightarrow> demo file_info list \<times> perr option" where
  "demo_infos c = (map (\<lambda>(n, m). \<lparr>fi_dir = False, fi_name = n, fi_size = 100, fi_open = Ok m\<rparr>) (demo_members c), None)"

definition demo_world :: "bool \<Rightarrow> (string \<Rightarrow> demo) \<Rightarrow> demo world" where
  "demo_world resume disk = \<lparr>w_maxDepth = 2, w_minDoc = - 1, w_pdfTools = False, w_resume = resume, w_extStats = False,
     w_env = plain_env, w_script = (\<lambda>_. []), w_charmaps = [], w_cancelled = (\<lambda>_. False), w_query = (\<lambda>_. None),
     w_tx = (\<lambda>_. (None, None, (\<lambda>_. None))), w_similarity = (\<lambda>_ _. 0), w_order = id,
     w_open = (\<lambda>p. Ok (OnDisk (disk p))), w_fileBlob = (\<lambda>_. None), w_spool = (\<lambda>_ _. None), w_blobSize = (\<lambda>_. Ok 1),
     w_parse = demo_parse, w_gunzip = demo_single, w_bunzip = id,
     w_zip = (\<lambda>c _. Ok (map (\<lambda>(n, m). \<lparr>ze_dir = False, ze_name = n, ze_nonutf8 = False, ze_encrypted = False, ze_size = 100,
        ze_open = Ok m\<rparr>) (demo_members c))),
     w_tar = (\<lambda>c. (map (\<lambda>(n, m). \<lparr>te_regular = True, te_name = n, te_size = 100, te_content = m\<rparr>) (demo_members c), None)),
     w_rar = demo_infos, w_sevenzip = demo_infos\<rparr>"

lemma demo_single_error: "demo_single c = Err e \<Longrightarrow> real_error e"
  by (cases c rule: demo_single.cases) (auto simp: real_error_def)

lemma demo_parse_error: "demo_parse f c = Err e \<Longrightarrow> real_error e"
  by (cases c) (auto simp: real_error_def)

lemma demo_calm: "calm (demo_world resume disk)"
  unfolding calm_def
proof (intro conjI)
  show "calm_errors (demo_world resume disk)"
    by (auto simp: calm_errors_def demo_world_def dest: demo_single_error demo_parse_error)
  show "calm_archives (demo_world resume disk)"
    by (auto simp: calm_archives_def demo_world_def demo_infos_def real_end_def)
qed (simp add: demo_world_def)

text \<open>A disk with an archive of one book and one file that is not a book.\<close>

definition demo_disk :: "string \<Rightarrow> demo" where
  "demo_disk p = (if p = ''a.tar'' then Bundle [(''b.epub'', Book demo_md), (''c.mobi'', Broken), (''d'', Broken)] else Broken)"

definition demo_results :: "scan_result list" where
  "demo_results = [\<lparr>r_path = ''a.tar'', r_format = ''tar'', r_size = 9\<rparr>, \<lparr>r_path = ''e.epub'', r_format = ''epub'', r_size = 9\<rparr>]"

lemma demo_formats: "FormatOf plain_env ''b.epub'' = Some ''epub''" "FormatOf plain_env ''c.mobi'' = Some ''mobi''" "FormatOf plain_env ''d'' = None"
proof -
  have "to_lower plain_env ''b.epub'' = ''b.epub''" "to_lower plain_env ''c.mobi'' = ''c.mobi''" "to_lower plain_env ''d'' = ''d''"
    by (simp_all add: string_eval)
  moreover have "classify ''b.epub'' = Some ''epub''" "classify ''c.mobi'' = Some ''mobi''" "classify ''d'' = None" by code_simp+
  ultimately show "FormatOf plain_env ''b.epub'' = Some ''epub''" "FormatOf plain_env ''c.mobi'' = Some ''mobi''" "FormatOf plain_env ''d'' = None"
    by (simp_all add: FormatOf_def)
qed

lemma demo_kinds: "IsArchiveFormat ''tar''" "\<not> IsArchiveFormat ''epub''" "\<not> IsArchiveFormat ''mobi''"
  by code_simp+

lemma demo_parsers: "parser_of (demo_world resume disk) ''epub'' = Some EbookParser" "parser_of (demo_world resume disk) ''mobi'' = Some EbookParser"
proof -
  have "map_of (map (\<lambda>f. (f, EbookParser)) EbookFormats) ''epub'' = Some EbookParser" "map_of (map (\<lambda>f. (f, EbookParser)) EbookFormats) ''mobi'' = Some EbookParser"
    by code_simp+
  then show "parser_of (demo_world resume disk) ''epub'' = Some EbookParser" "parser_of (demo_world resume disk) ''mobi'' = Some EbookParser"
    by (simp_all add: parser_of_def ParsersWithOptions_def)
qed

lemma demo_fields [simp]:
  "w_maxDepth (demo_world resume disk) = 2" "w_env (demo_world resume disk) = plain_env" "w_resume (demo_world resume disk) = resume"
  "w_cancelled (demo_world resume disk) k = False" "w_open (demo_world resume disk) p = Ok (OnDisk (disk p))"
  "w_fileBlob (demo_world resume disk) c = None" "w_spool (demo_world resume disk) c n = None" "w_parse (demo_world resume disk) = demo_parse"
  "w_query (demo_world resume disk) k = None" "w_gunzip (demo_world resume disk) = demo_single" "w_extStats (demo_world resume disk) = False"
  "w_tx (demo_world resume disk) k = (None, None, (\<lambda>_. None))" "w_similarity (demo_world resume disk) = (\<lambda>_ _. 0)" "w_order (demo_world resume disk) = id"
  "w_tar (demo_world resume disk) c = (map (\<lambda>(n, m). \<lparr>te_regular = True, te_name = n, te_size = 100, te_content = m\<rparr>) (demo_members c), None)"
  by (simp_all add: demo_world_def)

lemmas run_scan = processSource_def unless_cancelled_def Let_def processArchive_def processArchiveStream.simps open_archive_def processTar_def
  tar_member_def handleMember_def pdfDisabled_def belowMinSize_def parseEbookStream_def parseEbook_def after_parse_def finish_archive_def
  unless_recorded_def shouldSkip_def recordExt_def fail_report_def report_def fail_def

section \<open>The whole list\<close>

definition demo_books :: "string \<Rightarrow> demo" where
  "demo_books p = Book demo_md"

definition demo_book_results :: "scan_result list" where
  "demo_book_results = [\<lparr>r_path = ''e.epub'', r_format = ''epub'', r_size = 9\<rparr>]"

lemma demo_file_run:
  "\<exists>d n. processSource (demo_world resume demo_books) \<lparr>r_path = ''e.epub'', r_format = ''epub'', r_size = 9\<rparr> (NewScanProcessor empty_db)
     = report ((NewScanProcessor d)\<lparr>pr_parsed := 1, pr_results := [(''e.epub'', ''epub'', demo_md)], pr_clock := 2, pr_queries := n, pr_txs := 1,
         pr_calls := [''e.epub'']\<rparr>)"
proof -
  obtain d where d: "with_tx None None (record_file (\<lambda>_ _. 0) id ''e.epub'' demo_md) (\<lambda>_. None) empty_db = (None, d)"
    by (simp add: exec_tx)
  have no: "GetBookFileByPath empty_db ''e.epub'' = None" "GetBookFileDuplicateByPath empty_db ''e.epub'' = None"
    by (simp_all add: GetBookFileByPath_def GetBookFileDuplicateByPath_def empty_db_def)
  show ?thesis
    by (rule exI [of _ d], cases resume)
      (auto simp: processSource_def unless_cancelled_def Let_def pdfDisabled_def belowMinSize_def parseEbook_def after_parse_def unless_recorded_def
        shouldSkip_def lookup_ok_def demo_kinds demo_parsers demo_books_def NewScanProcessor_def store_def d no report_def Stats_def extCountsCopy_def)
qed
lemma demo_results_once:
  "pr_results (fold (processSource (demo_world True demo_books)) demo_book_results (NewScanProcessor empty_db)) = [(''e.epub'', ''epub'', demo_md)]"
  using demo_file_run [of True] by (auto simp: demo_book_results_def report_def)

text \<open>
  C4: A scan never damages what is recorded. Whatever the scanner found and in whatever order,
  with any faults, archives and cancellation: the database keeps its invariant, no recorded
  path is forgotten, no stored file is changed or removed, the counters of parsed and failed
  files are exactly the numbers of reported results and failures, and they only grow.
\<close>

theorem scan_keeps_database:
  assumes "db_inv (pr_db s)" "pr_parsed s = int (length (pr_results s))" "pr_failed s = int (length (pr_failures s))"
    "s' = fold (processSource w) rs s"
  shows "db_inv (pr_db s') \<and> (\<forall>p. recorded (pr_db s) p \<longrightarrow> recorded (pr_db s') p) \<and> prefix (t_files (pr_db s)) (t_files (pr_db s'))
    \<and> pr_parsed s' = int (length (pr_results s')) \<and> pr_failed s' = int (length (pr_failures s'))
    \<and> pr_parsed s \<le> pr_parsed s' \<and> pr_failed s \<le> pr_failed s'"
proof -
  have g: "grows s s'" unfolding assms(4) by (rule growth.sources_step)
  then have "length (pr_results s) \<le> length (pr_results s')" "length (pr_failures s) \<le> length (pr_failures s')"
    by (auto simp: grows_def intro: prefix_length_le)
  then show ?thesis using g assms(1-3) by (simp add: grows_def)
qed

theorem scan_keeps_database_witness:
  "db_inv (pr_db (fold (processSource (demo_world True demo_books)) demo_book_results (NewScanProcessor empty_db)))
     \<and> pr_parsed (fold (processSource (demo_world True demo_books)) demo_book_results (NewScanProcessor empty_db)) = 1"
  using scan_keeps_database [of "NewScanProcessor empty_db", OF _ _ _ HOL.refl, of "demo_world True demo_books" demo_book_results]
    demo_results_once empty_db_inv by (auto simp: NewScanProcessor_def)

text \<open>
  A full scan accounts for every file. Without cancellation, each supported file that the
  results lead to (directly, or as a member of a nested archive, with one more for an archive
  that cannot be opened or ends in an error) is counted exactly once, as parsed, failed or
  skipped; the number is computed by an independent walk over the archives.
\<close>

theorem full_scan_accounts_for_every_file:
  assumes "\<not> w_resume w" "calm w" "\<not> pr_stop s"
  shows "accounted (fold (processSource w) rs s) = accounted s + int (sum_list (map (source_items w) rs))"
  using adds_sources [OF assms(2,1), of rs s] assms(3) by (simp add: adds_def)

lemma demo_items: "sum_list (map (source_items (demo_world resume demo_disk)) demo_results) = 3"
  by (simp add: demo_results_def source_items_def demo_kinds items.simps archive_items_def demo_disk_def listed_def tar_items_def
      member_items_def demo_formats)

theorem full_scan_accounts_for_every_file_witness:
  "accounted (fold (processSource (demo_world False demo_disk)) demo_results (NewScanProcessor empty_db)) = 3"
proof -
  have "\<not> w_resume (demo_world False demo_disk)" "\<not> pr_stop (NewScanProcessor empty_db)" "accounted (NewScanProcessor empty_db) = 0"
    by (simp_all add: NewScanProcessor_def accounted_def)
  then show ?thesis using full_scan_accounts_for_every_file [OF _ demo_calm, of False demo_disk "NewScanProcessor empty_db" demo_results]
    by (simp add: demo_items)
qed

end
