(* ===== verification/PipelineProps.thy ===== *)
theory PipelineProps
  imports Pipeline ScanClaims
begin

text \<open>
  What \<open>Process\<close> guarantees, on every interleaving of the scanner, the parse workers and a
  cancellation, and a concrete run: a root with a text file and an unreadable directory.
\<close>

section \<open>Reachable states\<close>

definition pipe_inv :: "tree \<Rightarrow> nat \<Rightarrow> string \<Rightarrow> (scan_refusal, unit) result \<Rightarrow> pipe \<Rightarrow> bool" where
  "pipe_inv t n rt chk p \<longleftrightarrow> scan_ok t n rt p \<and> main_ok chk p \<and> conserved p \<and> drained_ok p \<and> active_ok p"

lemma pipe_inv_init: "pipe_inv t n rt chk (Process_init sw pw (NewScanProcessor d))"
proof -
  have "ws (scan_init sw) \<noteq> []" "mn (scan_init sw) = MStart" "shared.log (sh (scan_init sw)) = []" "\<not> cancelled (sh (scan_init sw))"
    by (simp_all add: scan_init_def)
  then have "scan_ok t n rt (Process_init sw pw (NewScanProcessor d))"
    by (simp add: scan_ok_def Process_init_def Let_def scan_inv_init quiet_exit_def own_cancel_def complete_exit_def)
  then show ?thesis
    by (simp add: pipe_inv_def Process_init_def main_ok_def newResultQueue_def conserved_def scanned_def scan_init_def
        drained_ok_def active_ok_def NewScanProcessor_def sum_list_replicate Let_def)
qed

lemma pipe_inv_step:
  assumes "pipe_inv t n rt chk p" "bounded t n rt" "process_step w t rt chk p p'"
  shows "pipe_inv t n rt chk p'"
proof -
  have i: "scan_ok t n rt p" "main_ok chk p" "conserved p" "drained_ok p" "active_ok p" using assms(1) by (simp_all add: pipe_inv_def)
  show ?thesis unfolding pipe_inv_def
    using scan_ok_step [OF i(1) assms(2,3)] main_ok_step [OF i(2) assms(3)] conserved_step [OF i(3,2,1) assms(3)]
      drained_ok_step [OF i(4,2,1) assms(3)] active_ok_step [OF i(5) assms(3)] by blast
qed

lemma pipe_inv_steps:
  "process_steps w t rt chk k p p' \<Longrightarrow> pipe_inv t n rt chk p \<Longrightarrow> bounded t n rt \<Longrightarrow>
    pipe_inv t n rt chk p' \<and> k + pipe_weight t n rt p' \<le> pipe_weight t n rt p"
proof (induction rule: process_steps.induct)
  case (more k p p1 p2)
  then have i: "pipe_inv t n rt chk p1" "k + pipe_weight t n rt p1 \<le> pipe_weight t n rt p" by blast+
  then have "pipe_weight t n rt p2 < pipe_weight t n rt p1" using pipe_weight_step more by (auto simp: pipe_inv_def)
  then show ?case using i(2) pipe_inv_step [OF i(1) more.prems(2) more.hyps(2)] by simp
qed simp

lemma tallied_init: "tallied w (Process_init sw pw (NewScanProcessor d))"
  by (simp add: tallied_def Process_init_def NewScanProcessor_def accounted_def scanned_def scan_init_def)

lemma tallied_steps:
  "process_steps w t rt chk k p p' \<Longrightarrow> tallied w p \<Longrightarrow> calm w \<Longrightarrow> \<not> w_resume w \<Longrightarrow> tallied w p'"
  by (induction rule: process_steps.induct) (auto intro: tallied_step)

lemma completed_state:
  assumes "pipe_inv t n rt chk p" "pi_main p = PFinished Completed"
  shows "\<not> stopped p \<and> chk = Ok () \<and> mset (shared.log (sh (pi_scan p))) = tree_events t n rt \<and> set (pi_workers p) \<subseteq> {PStopped}
    \<and> rq_items (pi_queue p) = []"
proof -
  obtain err where err: "scan_result_is chk (pi_scan p) err" "Completed = result_of_process p err" "set (pi_workers p) \<subseteq> {PStopped}"
    using assms by (auto simp: pipe_inv_def main_ok_def)
  then have live: "\<not> stopped p" "err = None" by (auto simp: result_of_process_def split: option.splits if_splits)
  then have chk: "chk = Ok ()" using err(1) by (cases chk) (auto simp: scan_result_is_def)
  then obtain k where "mn (pi_scan p) = MExited k None" using err(1) live(2) by (auto simp: scan_result_is_def)
  then have "mset (shared.log (sh (pi_scan p))) = tree_events t n rt"
    using assms(1) live(1) by (auto simp: pipe_inv_def scan_ok_def complete_exit_def Let_def)
  moreover have "PStopped \<in> set (pi_workers p)" using assms(1) err(3) by (cases "pi_workers p") (auto simp: pipe_inv_def drained_ok_def)
  ultimately show ?thesis using assms(1) live chk err(3) by (auto simp: pipe_inv_def drained_ok_def)
qed

lemma all_stopped: "set l \<subseteq> {PStopped} \<Longrightarrow> sum_list (map in_hand l) = {#} \<and> sum_list (map working_on l) = {#}"
  by (induction l) auto

section \<open>Relations kept by every unit of work\<close>

text \<open>
  A relation in the contract of theory ScanSteps that also ignores the scanner's progress, the
  files shown as being worked on and the cancellation holds between any two states of a run.
\<close>

locale process_run = scan_steps w R for w :: "'c world" and R +
  assumes progressed: "R s (s\<lparr>pr_scan := sp\<rparr>)"
    and worked: "R s (s\<lparr>pr_active := a, pr_current := l\<rparr>)"
    and halted: "R s (s\<lparr>pr_stop := b\<rparr>)"
begin

lemma event_step: "R (pi_proc p) (pi_proc (on_event w e p))"
  by (cases e) (simp_all add: refl ext_step fail_report_step)

lemma events_step: "R (pi_proc p) (pi_proc (fold (on_event w) evs p))"
proof (induction evs arbitrary: p)
  case (Cons e evs)
  show ?case using trans [OF event_step Cons] by simp
qed (simp add: refl)

lemma reports_step: "R (pi_proc p) (pi_proc (fold on_report l p))"
proof (induction l arbitrary: p)
  case (Cons sp l)
  have "R (pi_proc p) (pi_proc (on_report sp p))"
    unfolding on_report_def setScanProgress_def using trans [OF progressed report_step] by simp
  from trans [OF this Cons] show ?case by simp
qed (simp add: refl)

lemma deliver_step: "R (pi_proc p) (pi_proc (deliver w sc p))"
  using trans [OF events_step reports_step] unfolding deliver_def Let_def
  by (metis pipe.select_convs(3) pipe.surjective pipe.update_convs(1))

lemma fatal_step: "R (pi_proc p) (pi_proc (report_fatal e p))"
  by (simp add: report_fatal_def cancel_all_def halted)

lemma goroutine_step: "parse_step w start p pc = Some (p', pc') \<Longrightarrow> R (pi_proc p) (pi_proc p')"
  by (cases "(w, start, p, pc)" rule: parse_step.cases)
    (auto simp: beginWork_def endWork_def Let_def refl worked source_step fatal_step
       split: option.splits prod.splits popped.splits if_splits)

lemma process_step_related: "process_step w t rt chk p p' \<Longrightarrow> R (pi_proc p) (pi_proc p')"
  by (induction rule: process_step.induct)
    (auto simp: refl deliver_step cancel_all_def halted dest: goroutine_step)

lemma process_steps_related: "process_steps w t rt chk k p p' \<Longrightarrow> R (pi_proc p) (pi_proc p')"
  by (induction rule: process_steps.induct) (blast intro: refl trans process_step_related)+

end

interpretation resumed: process_run w "resumes w" for w
  by unfold_locales (simp_all add: resumes_def hashed_def)

section \<open>A concrete run\<close>

datatype pchoice = PScan choice | PWork nat | PMain

fun pexec1 :: "'c world \<Rightarrow> tree \<Rightarrow> string \<Rightarrow> pchoice \<Rightarrow> pipe \<Rightarrow> pipe option" where
  "pexec1 w t rt (PScan c) p = (if c = CCancel then None else map_option (\<lambda>sc. deliver w sc p) (exec1 t rt c (pi_scan p)))"
| "pexec1 w t rt (PWork i) p = (if i < length (pi_workers p)
     then map_option (\<lambda>(p', pc). p'\<lparr>pi_workers := (pi_workers p)[i := pc]\<rparr>) (parse_step w None p (pi_workers p ! i)) else None)"
| "pexec1 w t rt PMain p = (case pi_main p of
       PScanning \<Rightarrow> (case mn (pi_scan p) of MExited n err \<Rightarrow> Some (p\<lparr>pi_main := PReturned (map_option Walk err)\<rparr>) | _ \<Rightarrow> None)
     | PReturned err \<Rightarrow> Some (p\<lparr>pi_main := PChecked (pr_stop (pi_proc p)) err\<rparr>)
     | PChecked stop err \<Rightarrow> Some (p\<lparr>pi_queue := (if stop then rq_abort (pi_queue p) else rq_close (pi_queue p)), pi_main := PWaiting err\<rparr>)
     | PWaiting err \<Rightarrow> if set (pi_workers p) \<subseteq> {PStopped} then Some (p\<lparr>pi_main := PFinished (result_of_process p err)\<rparr>) else None
     | PFinished _ \<Rightarrow> None)"

fun pexec :: "'c world \<Rightarrow> tree \<Rightarrow> string \<Rightarrow> pchoice list \<Rightarrow> pipe \<Rightarrow> pipe option" where
  "pexec w t rt [] p = Some p"
| "pexec w t rt (c # cs) p = (case pexec1 w t rt c p of None \<Rightarrow> None | Some p1 \<Rightarrow> pexec w t rt cs p1)"

lemma exec1_scanner_step:
  assumes "exec1 t rt c s = Some s'" "c \<noteq> CCancel"
  shows "scanner_step t rt s s'"
proof (rule scanner_stepI [OF exec1_step [OF assms(1)]], cases c)
  case (CWorker i start)
  then obtain h' pc where "i < length (ws s)" "worker_step t start (sh s) (ws s ! i) = Some (h', pc)" "ws s' = (ws s)[i := pc]"
    using assms(1) by (auto split: if_splits option.splits)
  then show "mn s' \<noteq> mn s \<or> ws s' \<noteq> ws s \<or> cancelled (sh s)" using worker_step_moves by (metis nth_list_update_eq)
qed (use assms in \<open>auto split: mainpc.splits if_splits\<close>)

lemma pexec1_step: "pexec1 w t rt c p = Some p' \<Longrightarrow> process_step w t rt (Ok ()) p p'"
proof (cases c)
  case (PScan d)
  moreover assume "pexec1 w t rt c p = Some p'"
  ultimately show ?thesis using process_step.scanner [OF HOL.refl exec1_scanner_step] by (fastforce split: if_splits)
next
  case (PWork i)
  moreover assume "pexec1 w t rt c p = Some p'"
  ultimately show ?thesis using process_step.worker by (auto split: if_splits)
next
  case PMain
  assume run: "pexec1 w t rt c p = Some p'"
  show ?thesis
  proof (cases "pi_main p")
    case (PChecked stop err)
    then show ?thesis using process_step.shut [OF PChecked, of w t rt "Ok ()"] PMain run by simp
  qed (use PMain run process_step.returned process_step.checked process_step.finish in \<open>auto split: mainpc.splits if_splits\<close>)
qed

lemma process_steps_first: "process_steps w t rt chk k p1 p2 \<Longrightarrow> process_step w t rt chk p p1 \<Longrightarrow> process_steps w t rt chk (Suc k) p p2"
  by (induction rule: process_steps.induct) (auto intro: process_steps.intros)

lemma pexec_steps: "pexec w t rt cs p = Some p' \<Longrightarrow> process_steps w t rt (Ok ()) (length cs) p p'"
  by (induction cs arbitrary: p) (auto intro: process_steps.none process_steps_first pexec1_step split: option.splits)


definition demo_pipe_world :: "demo world" where
  "demo_pipe_world = demo_world False (\<lambda>_. Broken)"

definition demo_pschedule :: "pchoice list" where
  "demo_pschedule = map PScan demo_schedule @ [PScan CMain, PWork 0, PMain, PMain, PMain] @ replicate 5 (PWork 0) @ [PMain]"

lemma stop_simps:
  "pr_stop (fail_report w path e s) = pr_stop s" "pr_stop (report s) = pr_stop s" "pr_stop (setScanProgress sp s) = pr_stop s"
  "pr_stop (recordExt w name s) = pr_stop s" "pr_stop (processSource w r s) = pr_stop s" "pr_stop (beginWork path s) = pr_stop s"
  "pr_stop (endWork path s) = pr_stop s" "pr_stop (NewScanProcessor d) = False"
  using untouched.fail_report_step [of s w path e] untouched.ext_step [of s w name] untouched.source_step [of s w r]
  by (simp_all add: same_work_def report_def setScanProgress_def beginWork_def endWork_def NewScanProcessor_def Let_def)

lemma demo_process_run:
  "\<exists>p. pexec w demo_tree ''r'' demo_pschedule (Process_init 1 1 (NewScanProcessor d)) = Some p
     \<and> pi_main p = PFinished Completed \<and> pi_taken p = [\<lparr>r_path = ''r/a.txt'', r_format = ''txt'', r_size = 9\<rparr>]"
  by (simp add: demo_pschedule_def demo_schedule_def Process_init_def scan_init_def newDirQueue_def dq_pop_def dq_push_def dq_close_def numeral_eq_Suc
     demo_tree_def reportError_def scan_file_def file_events_def FormatOf_demo ftp_Join_def has_suffix_def deliver_def Let_def
     progress_of_def IsArchiveFormat_def archiveExtensions_def newResultQueue_def rq_push_def rq_pop_def rq_close_def on_report_def stop_simps result_of_process_def)

lemma demo_process_steps:
  obtains p where "process_steps w demo_tree ''r'' (Ok ()) (length demo_pschedule) (Process_init 1 1 (NewScanProcessor d)) p"
    "pi_main p = PFinished Completed" "pi_taken p = [\<lparr>r_path = ''r/a.txt'', r_format = ''txt'', r_size = 9\<rparr>]"
  using demo_process_run pexec_steps by blast

section \<open>Properties\<close>

text \<open>
  C1: A scan that completes has processed everything. Whatever the numbers of scanner and parse
  workers and however they interleave: when \<open>Process\<close> returns without an error, the results
  handed to \<open>processSource\<close> are, with multiplicity, exactly the supported files and archives
  of the tree below the root; the queue is empty, and no file is shown as being worked on.
\<close>

theorem completed_scan_processed_everything:
  assumes "bounded t n rt" "process_steps w t rt chk k (Process_init sw pw (NewScanProcessor d)) p" "pi_main p = PFinished Completed"
  shows "mset (pi_taken p) = results_in (tree_events t n rt) \<and> rq_items (pi_queue p) = []
    \<and> pr_active (pi_proc p) = 0 \<and> pr_current (pi_proc p) = []"
proof -
  have inv: "pipe_inv t n rt chk p" using pipe_inv_steps [OF assms(2) pipe_inv_init assms(1)] by blast
  note c = completed_state [OF inv assms(3)]
  show ?thesis using inv c all_stopped [of "pi_workers p"]
    by (simp add: pipe_inv_def conserved_def active_ok_def scanned_def Let_def)
qed

theorem completed_scan_processed_everything_witness:
  "mset [\<lparr>r_path = ''r/a.txt'', r_format = ''txt'', r_size = 9\<rparr>] = results_in (tree_events demo_tree 2 ''r'')"
proof (rule demo_process_steps)
  fix p assume run: "process_steps demo_pipe_world demo_tree ''r'' (Ok ()) (length demo_pschedule) (Process_init 1 1 (NewScanProcessor empty_db)) p"
    "pi_main p = PFinished Completed" "pi_taken p = [\<lparr>r_path = ''r/a.txt'', r_format = ''txt'', r_size = 9\<rparr>]"
  from completed_scan_processed_everything [OF demo_bounded run(1,2)] run(3) show ?thesis by simp
qed

text \<open>
  C2: The final counts are the number of files. When a full scan completes without cancellation,
  parsed, failed and skipped files together are the supported files of the tree (those inside
  archives included, each unreadable archive counting one) plus its unreadable directories.
\<close>

theorem completed_scan_counts_every_file:
  assumes "bounded t n rt" "process_steps w t rt chk k (Process_init sw pw (NewScanProcessor d)) p" "pi_main p = PFinished Completed"
    and "calm w" "\<not> w_resume w"
  shows "pr_parsed (pi_proc p) + pr_failed (pi_proc p) + pr_skipped (pi_proc p)
    = int (sum_mset (image_mset (source_items w) (results_in (tree_events t n rt))) + errors_in (tree_events t n rt))"
proof -
  have inv: "pipe_inv t n rt chk p" using pipe_inv_steps [OF assms(2) pipe_inv_init assms(1)] by blast
  note c = completed_state [OF inv assms(3)]
  have "tallied w p" using tallied_steps [OF assms(2) tallied_init assms(4,5)] .
  moreover have "mset (pi_taken p) = results_in (tree_events t n rt)"
    using inv c all_stopped [of "pi_workers p"] by (simp add: pipe_inv_def conserved_def scanned_def)
  then have "sum_list (map (source_items w) (pi_taken p)) = sum_mset (image_mset (source_items w) (results_in (tree_events t n rt)))"
    by (metis mset_map sum_mset_sum_list)
  ultimately show ?thesis using c by (simp add: tallied_def accounted_def scanned_def)
qed

theorem completed_scan_counts_every_file_witness:
  "\<exists>p :: pipe. pi_main p = PFinished Completed \<and> pr_parsed (pi_proc p) + pr_failed (pi_proc p) + pr_skipped (pi_proc p) = 2"
proof (rule demo_process_steps)
  fix p assume run: "process_steps demo_pipe_world demo_tree ''r'' (Ok ()) (length demo_pschedule) (Process_init 1 1 (NewScanProcessor empty_db)) p"
    "pi_main p = PFinished Completed"
  have w: "calm demo_pipe_world" "\<not> w_resume demo_pipe_world" by (simp_all add: demo_pipe_world_def demo_calm)
  have "tree_events demo_tree 2 ''r'' = {# EvDir ''r'', EvDir ''r/d'', EvError ''r/d'' ''denied'', EvFile ''a.txt'',
      EvResult \<lparr>r_path = ''r/a.txt'', r_format = ''txt'', r_size = 9\<rparr> #}"
    by (simp add: numeral_2_eq_2 demo_tree_def body_events_def entries_events_def entry_events_def file_events_def FormatOf_demo
        ftp_Join_def has_suffix_def)
  moreover have "\<not> IsArchiveFormat ''txt''" by code_simp
  ultimately have "pr_parsed (pi_proc p) + pr_failed (pi_proc p) + pr_skipped (pi_proc p) = 2"
    using completed_scan_counts_every_file [OF demo_bounded run w] by (simp add: source_items_def)
  then show ?thesis using run(2) by blast
qed

text \<open>
  C12: \<open>Process\<close> always returns. On a finite tree, in every reachable state, cancelled or not,
  some goroutine can act without a cancellation until the call has returned, and no execution
  has more actions than ten per event of the tree, two per worker of either kind, and nine.
\<close>

theorem process_always_returns:
  assumes "bounded t n rt" "process_steps w t rt chk k (Process_init sw pw (NewScanProcessor d)) p"
  shows "k \<le> 10 * size (tree_events t n rt) + 2 * max 1 sw + 2 * max 1 pw + 9
    \<and> ((\<exists>r. pi_main p = PFinished r) \<or> (\<exists>p'. process_step w t rt chk p p' \<and> stopped p' = stopped p))"
proof -
  have inv: "pipe_inv t n rt chk p" "k \<le> pipe_weight t n rt (Process_init sw pw (NewScanProcessor d))"
    using pipe_inv_steps [OF assms(2) pipe_inv_init assms(1)] by fastforce+
  have "pipe_weight t n rt (Process_init sw pw (NewScanProcessor d)) = 10 * size (tree_events t n rt) + 2 * max 1 sw + 2 * max 1 pw + 9"
    using weight_init [of t n rt sw] by (simp add: pipe_weight_def own_weight_def Process_init_def newResultQueue_def sum_list_replicate)
  then show ?thesis using inv process_progress [of t n rt p chk w] by (auto simp: pipe_inv_def)
qed

theorem process_always_returns_witness:
  "\<exists>p. process_step demo_pipe_world demo_tree ''r'' (Ok ()) (Process_init 1 1 (NewScanProcessor empty_db)) p"
  using process_always_returns [OF demo_bounded process_steps.none, of 1 1 empty_db demo_pipe_world "Ok ()"]
  by (auto simp: Process_init_def)

text \<open>
  C9: A resumed scan does no work twice. When the lookups succeed, then on every schedule of the
  workers, and at every moment of the run, no path that was recorded before the run, as a file or
  as a duplicate, has been handed to a parser; and every path reported as parsed with a content
  hash is recorded, so that the next resumed run will not parse it again. (Of two files of one
  run that are recorded under one path nothing is claimed: both may be parsed.)
\<close>

theorem resume_never_reprocesses:
  assumes "w_resume w" "\<forall>k. w_query w k = None" "db_inv d"
    and "process_steps w t rt chk k (Process_init sw pw (NewScanProcessor d)) p"
  shows "(\<forall>path \<in> set (pr_calls (pi_proc p)). \<not> recorded d path)
    \<and> (\<forall>path. recorded d path \<longrightarrow> recorded (pr_db (pi_proc p)) path)
    \<and> (\<forall>path \<in> set (hashed (pr_results (pi_proc p))). recorded (pr_db (pi_proc p)) path)"
  using resumed.process_steps_related [OF assms(4)] assms(1-3)
  by (auto simp: resumes_def Process_init_def NewScanProcessor_def)

theorem resume_never_reprocesses_witness:
  "\<exists>d (p :: pipe). recorded d ''r/a.txt'' \<and> pi_main p = PFinished Completed \<and> map r_path (pi_taken p) = [''r/a.txt'']
     \<and> ''r/a.txt'' \<notin> set (pr_calls (pi_proc p))"
proof -
  let ?w = "demo_world True demo_books"
  obtain err s where st: "store ?w ''r/a.txt'' demo_md (NewScanProcessor empty_db) = (err, s)" by force
  then have "err = None" by (auto simp: store_def NewScanProcessor_def exec_tx)
  then have d: "db_inv (pr_db s)" "recorded (pr_db s) ''r/a.txt''"
    using store_result [OF st] empty_db_inv by (auto simp: NewScanProcessor_def demo_md_def)
  show ?thesis
  proof (rule demo_process_steps [of ?w "pr_db s"])
    fix p assume run: "process_steps ?w demo_tree ''r'' (Ok ()) (length demo_pschedule) (Process_init 1 1 (NewScanProcessor (pr_db s))) p"
      "pi_main p = PFinished Completed" "pi_taken p = [\<lparr>r_path = ''r/a.txt'', r_format = ''txt'', r_size = 9\<rparr>]"
    have "''r/a.txt'' \<notin> set (pr_calls (pi_proc p))"
      using resume_never_reprocesses [OF _ _ d(1) run(1)] d(2) by auto
    then show ?thesis using d(2) run(2,3) by auto
  qed
qed

end
