(* ===== verification/ArchiveProps.thy ===== *)
theory ArchiveProps
  imports ScanClaims
begin

text \<open>
  Properties of the archives: an archive that contains itself, the names of zip members, and
  the path under which a compressed file is recorded.
\<close>

section \<open>An archive that contains itself\<close>

fun nested :: "string \<Rightarrow> string \<Rightarrow> nat \<Rightarrow> string" where
  "nested path name 0 = path"
| "nested path name (Suc k) = nested (member path name) name k"

definition only_fails :: "string \<Rightarrow> perr \<Rightarrow> proc \<Rightarrow> proc \<Rightarrow> bool" where
  "only_fails path e s s' \<longleftrightarrow> pr_failures s' = pr_failures s @ [(path, e)] \<and> pr_failed s' = pr_failed s + 1 \<and> pr_parsed s' = pr_parsed s
     \<and> pr_skipped s' = pr_skipped s \<and> pr_found s' = pr_found s \<and> pr_db s' = pr_db s \<and> pr_results s' = pr_results s"

lemma fail_report_only_fails:
  assumes "\<forall>k. \<not> w_cancelled w k" "\<not> pr_stop s" "kind_of e \<noteq> Canceled"
  shows "only_fails path e s (fail_report w path e s)"
  using assms by (simp add: only_fails_def fail_report_def report_def fail_def unless_cancelled_def Let_def)

lemma recordExt_frame:
  "pr_failures (recordExt w n s) = pr_failures s" "pr_failed (recordExt w n s) = pr_failed s" "pr_parsed (recordExt w n s) = pr_parsed s"
  "pr_skipped (recordExt w n s) = pr_skipped s" "pr_found (recordExt w n s) = pr_found s" "pr_db (recordExt w n s) = pr_db s"
  "pr_results (recordExt w n s) = pr_results s" "pr_stop (recordExt w n s) = pr_stop s"
  by (simp_all add: recordExt_def split: prod.split)

lemma self_containing_step:
  assumes "w_tar w c = ([\<lparr>te_regular = True, te_name = name, te_size = n, te_content = c\<rparr>], None)"
    "FormatOf (w_env w) name = Some ''tar''" "\<forall>k. \<not> w_cancelled w k" "\<not> pr_stop s"
    "\<And>s. \<not> pr_stop s \<Longrightarrow> only_fails path' e s (unpack ''tar'' c (member path name) n s)"
  shows "only_fails path' e s (processTar w unpack c path s)"
proof -
  let ?s = "recordExt w name (s\<lparr>pr_clock := Suc (pr_clock s)\<rparr>)"
  have "processTar w unpack c path s = unpack ''tar'' c (member path name) n ?s"
    using assms(1-4) by (simp add: processTar_def unless_cancelled_def Let_def tar_member_def handleMember_def demo_kinds finish_archive_def)
  moreover have "\<not> pr_stop ?s" using assms(4) by (simp add: recordExt_frame)
  ultimately show ?thesis using assms(5) [of ?s] by (simp add: only_fails_def recordExt_frame)
qed

text \<open>
  An archive that contains itself is harmless. A tar whose only member is a tar with the same
  content is unpacked exactly to the depth limit and then reported as one failure, under the
  path of the innermost member; nothing is parsed, found, skipped or stored.
\<close>

theorem self_containing_archive_fails_once:
  assumes "w_tar w c = ([\<lparr>te_regular = True, te_name = name, te_size = n, te_content = c\<rparr>], None)"
    "FormatOf (w_env w) name = Some ''tar''" "\<forall>k. \<not> w_cancelled w k" "\<not> pr_stop s" "depth \<le> w_maxDepth w" "content r = c"
  shows "only_fails (nested path name (nat (w_maxDepth w - depth))) depth_error s (processArchiveStream w ''tar'' r path depth sz s)"
  using assms(4-6)
proof (induction "nat (w_maxDepth w - depth)" arbitrary: depth s path sz r)
  case 0
  then show ?case using fail_report_only_fails [OF assms(3)] by (simp add: processArchiveStream.simps depth_error_def)
next
  case (Suc k)
  have inner: "only_fails (nested (member path name) name k) depth_error s (processArchiveStream w ''tar'' (Stream c) (member path name) (depth + 1) n s)"
    if "\<not> pr_stop s" for s
  proof -
    have k: "k = nat (w_maxDepth w - (depth + 1))" "depth + 1 \<le> w_maxDepth w" using Suc.hyps(2) by auto
    have "content (Stream c) = c" by simp
    show ?thesis by (subst k(1)) (rule Suc.hyps(1) [OF k(1) that k(2) \<open>content (Stream c) = c\<close>])
  qed
  have "only_fails (nested (member path name) name k) depth_error s
      (processTar w (\<lambda>format c path sz s. processArchiveStream w format (Stream c) path (depth + 1) sz s) c path s)"
    using self_containing_step [OF assms(1-3) Suc.prems(1), of "nested (member path name) name k" depth_error
        "\<lambda>format c path sz s. processArchiveStream w format (Stream c) path (depth + 1) sz s" path] inner by blast
  moreover have "processArchiveStream w ''tar'' r path depth sz s
      = processTar w (\<lambda>format c path sz s. processArchiveStream w format (Stream c) path (depth + 1) sz s) c path s"
    using Suc.hyps(2) Suc.prems(3) by (subst processArchiveStream.simps) (simp add: open_archive_def)
  moreover have "nested path name (nat (w_maxDepth w - depth)) = nested (member path name) name k"
    by (simp flip: Suc.hyps(2))
  ultimately show ?case by simp
qed

definition quine_world :: "unit world" where
  "quine_world = \<lparr>w_maxDepth = 2, w_minDoc = 0, w_pdfTools = False, w_resume = False, w_extStats = True,
     w_env = plain_env, w_script = (\<lambda>_. []), w_charmaps = [], w_cancelled = (\<lambda>_. False), w_query = (\<lambda>_. None),
     w_tx = (\<lambda>_. (None, None, (\<lambda>_. None))), w_similarity = (\<lambda>_ _. 0), w_order = id,
     w_open = (\<lambda>p. Ok (OnDisk ())), w_fileBlob = (\<lambda>_. None), w_spool = (\<lambda>_ _. None), w_blobSize = (\<lambda>_. Ok 1),
     w_parse = (\<lambda>_ _. Err (Perr [] NotABook)), w_gunzip = Ok, w_bunzip = id, w_zip = (\<lambda>_ _. Ok []),
     w_tar = (\<lambda>_. ([\<lparr>te_regular = True, te_name = ''x.tar'', te_size = 9, te_content = ()\<rparr>], None)),
     w_rar = (\<lambda>_. ([], None)), w_sevenzip = (\<lambda>_. ([], None))\<rparr>"

theorem self_containing_archive_fails_once_witness:
  "pr_failures (processArchiveStream quine_world ''tar'' (OnDisk ()) ''q.tar'' 0 (- 1) (NewScanProcessor empty_db))
     = [(''q.tar!x.tar!x.tar'', depth_error)]"
proof -
  have "to_lower plain_env ''x.tar'' = ''x.tar''" by (simp add: string_eval)
  moreover have "classify ''x.tar'' = Some ''tar''" by code_simp
  ultimately have f: "FormatOf plain_env ''x.tar'' = Some ''tar''" by (simp add: FormatOf_def)
  have "only_fails (nested ''q.tar'' ''x.tar'' (nat (w_maxDepth quine_world - 0))) depth_error (NewScanProcessor empty_db)
      (processArchiveStream quine_world ''tar'' (OnDisk ()) ''q.tar'' 0 (- 1) (NewScanProcessor empty_db))"
    by (rule self_containing_archive_fails_once) (simp_all add: quine_world_def f NewScanProcessor_def)
  then show ?thesis by (simp add: only_fails_def NewScanProcessor_def quine_world_def numeral_2_eq_2 member_def)
qed

section \<open>A compressed file beside the file itself\<close>






section \<open>Names of zip members\<close>

text \<open>The readings of a raw name: the name itself and its valid decodings.\<close>

definition readings :: "'c world \<Rightarrow> string \<Rightarrow> string set" where
  "readings w raw = insert raw {d. utf8_valid d \<and> (\<exists>decoder \<in> set (w_charmaps w). decoder raw = Some d)}"

lemma legacy_fold:
  assumes "snd b = scoreLegacyName u sc (fst b)"
  shows "let r = fold (legacy_step u sc raw) ds b in snd r = scoreLegacyName u sc (fst r) \<and> snd b \<le> snd r
    \<and> (fst r = fst b \<or> utf8_valid (fst r) \<and> (\<exists>decoder \<in> set ds. decoder raw = Some (fst r)))
    \<and> (\<forall>decoder \<in> set ds. \<forall>d. decoder raw = Some d \<longrightarrow> utf8_valid d \<longrightarrow> scoreLegacyName u sc d \<le> snd r)"
  using assms
proof (induction ds arbitrary: b)
  case (Cons decoder ds)
  define b1 where "b1 = legacy_step u sc raw decoder b"
  have b1: "snd b1 = scoreLegacyName u sc (fst b1)" "snd b \<le> snd b1" "fst b1 = fst b \<or> utf8_valid (fst b1) \<and> decoder raw = Some (fst b1)"
    "\<And>d. decoder raw = Some d \<Longrightarrow> utf8_valid d \<Longrightarrow> scoreLegacyName u sc d \<le> snd b1"
    using Cons.prems by (auto simp: b1_def legacy_step_def Let_def split: option.splits)
  define r where "r = fold (legacy_step u sc raw) ds b1"
  have r: "fold (legacy_step u sc raw) (decoder # ds) b = r" by (simp add: r_def b1_def)
  have ih: "snd r = scoreLegacyName u sc (fst r)" "snd b1 \<le> snd r"
    "fst r = fst b1 \<or> utf8_valid (fst r) \<and> (\<exists>decoder \<in> set ds. decoder raw = Some (fst r))"
    "\<forall>decoder \<in> set ds. \<forall>d. decoder raw = Some d \<longrightarrow> utf8_valid d \<longrightarrow> scoreLegacyName u sc d \<le> snd r"
    using Cons.IH [OF b1(1)] unfolding Let_def r_def by blast+
  have "fst r = fst b \<or> utf8_valid (fst r) \<and> (\<exists>decoder \<in> set (decoder # ds). decoder raw = Some (fst r))"
    using ih(3) b1(3) by auto
  moreover have "scoreLegacyName u sc d \<le> snd r" if "decoder raw = Some d" "utf8_valid d" for d
    using b1(4) [OF that] ih(2) by linarith
  ultimately show ?case unfolding Let_def r using ih b1(2) by auto
qed simp

text \<open>
  The names of zip members. A name that is valid UTF-8 is kept as it is; any other name is
  replaced by a reading of it, in one of the legacy encodings or unchanged, that no other
  reading outscores.
\<close>

theorem zip_names_read_best:
  "(utf8_valid (ze_name f) \<longrightarrow> decodeZipName w f = ze_name f)
   \<and> decodeZipName w f \<in> readings w (ze_name f)
   \<and> (\<not> utf8_valid (ze_name f) \<longrightarrow> (\<forall>d \<in> readings w (ze_name f).
        scoreLegacyName (w_env w) (w_script w) d \<le> scoreLegacyName (w_env w) (w_script w) (decodeZipName w f)))"
proof (cases "utf8_valid (ze_name f)")
  case False
  let ?b = "(ze_name f, scoreLegacyName (w_env w) (w_script w) (ze_name f))"
  have "decodeZipName w f = fst (fold (legacy_step (w_env w) (w_script w) (ze_name f)) (w_charmaps w) ?b)"
    using False by (simp add: decodeZipName_def Let_def)
  then show ?thesis using legacy_fold [of ?b "w_env w" "w_script w" "ze_name f" "w_charmaps w"] False by (auto simp: readings_def Let_def)
qed (simp add: decodeZipName_def readings_def Let_def)

theorem zip_names_read_best_witness:
  "decodeZipName (demo_world False demo_disk) \<lparr>ze_dir = False, ze_name = ''a.txt'', ze_nonutf8 = True, ze_encrypted = False,
     ze_size = 1, ze_open = Ok Broken\<rparr> = ''a.txt''"
proof -
  have "utf8_valid ''a.txt''" by (simp add: utf8_valid_def segs_ascii ascii_def RuneError_def)
  then show ?thesis using zip_names_read_best [of "\<lparr>ze_dir = False, ze_name = ''a.txt'', ze_nonutf8 = True, ze_encrypted = False,
     ze_size = 1, ze_open = Ok Broken\<rparr>" "demo_world False demo_disk"] by simp
qed

end
