(* ===== verification/Patterns.thy ===== *)
theory Patterns
  imports StringLaws
begin

text \<open>
  The part of package \<open>regexp\<close> the sources use with \<open>MatchString\<close>: expressions over runes, a
  derivative matcher, and its correctness with respect to the words an expression accepts.
  \<open>search\<close> is an unanchored match, \<open>match_prefix\<close> one anchored at the start, \<open>match_all\<close> one
  anchored at both ends. Under the flag \<open>(?i)\<close> the letters s and k also match their
  non-ASCII case variants U+017F and U+212A.
\<close>

datatype re = Never | Eps | Cls "rune \<Rightarrow> bool" | Seq re re | Alt re re | Star re

inductive accepts :: "re \<Rightarrow> rune list \<Rightarrow> bool" where
  "accepts Eps []"
| "p r \<Longrightarrow> accepts (Cls p) [r]"
| "accepts e v \<Longrightarrow> accepts f w \<Longrightarrow> accepts (Seq e f) (v @ w)"
| "accepts e w \<Longrightarrow> accepts (Alt e f) w"
| "accepts f w \<Longrightarrow> accepts (Alt e f) w"
| "accepts (Star e) []"
| "accepts e v \<Longrightarrow> v \<noteq> [] \<Longrightarrow> accepts (Star e) w \<Longrightarrow> accepts (Star e) (v @ w)"

inductive_simps accepts_simps [simp]:
  "accepts Never w" "accepts Eps w" "accepts (Cls p) w" "accepts (Alt e f) w"

inductive_cases accepts_Seq: "accepts (Seq e f) w"
inductive_cases accepts_Star: "accepts (Star e) w"

fun nullable :: "re \<Rightarrow> bool" where
  "nullable Never = False"
| "nullable Eps = True"
| "nullable (Cls p) = False"
| "nullable (Seq e f) = (nullable e \<and> nullable f)"
| "nullable (Alt e f) = (nullable e \<or> nullable f)"
| "nullable (Star e) = True"

fun deriv :: "rune \<Rightarrow> re \<Rightarrow> re" where
  "deriv r Never = Never"
| "deriv r Eps = Never"
| "deriv r (Cls p) = (if p r then Eps else Never)"
| "deriv r (Seq e f) = (if nullable e then Alt (Seq (deriv r e) f) (deriv r f) else Seq (deriv r e) f)"
| "deriv r (Alt e f) = Alt (deriv r e) (deriv r f)"
| "deriv r (Star e) = Seq (deriv r e) (Star e)"

definition match_all :: "re \<Rightarrow> rune list \<Rightarrow> bool" where
  "match_all e w = nullable (fold deriv w e)"

fun match_prefix :: "re \<Rightarrow> rune list \<Rightarrow> bool" where
  "match_prefix e [] = nullable e"
| "match_prefix e (r # rs) = (nullable e \<or> match_prefix (deriv r e) rs)"

fun search :: "re \<Rightarrow> rune list \<Rightarrow> bool" where
  "search e [] = nullable e"
| "search e (r # rs) = (match_prefix e (r # rs) \<or> search e rs)"

section \<open>Correctness of the matcher\<close>

lemma nullable_iff: "nullable e = accepts e []"
proof (induction e)
  case (Seq e f)
  then show ?case using accepts.intros(3) [of e "[]" f "[]"] by (auto elim: accepts_Seq)
qed (auto intro: accepts.intros)

lemma deriv_iff: "accepts (deriv r e) w = accepts e (r # w)"
proof (induction e arbitrary: w)
  case (Seq e f)
  have "accepts (Seq e f) (r # w) \<longleftrightarrow>
      (\<exists>v u. w = v @ u \<and> accepts e (r # v) \<and> accepts f u) \<or> accepts e [] \<and> accepts f (r # w)"
  proof
    assume "accepts (Seq e f) (r # w)"
    then obtain v u where "r # w = v @ u" "accepts e v" "accepts f u" by (auto elim: accepts_Seq)
    then show "(\<exists>v u. w = v @ u \<and> accepts e (r # v) \<and> accepts f u) \<or> accepts e [] \<and> accepts f (r # w)"
      by (cases v) auto
  next
    assume "(\<exists>v u. w = v @ u \<and> accepts e (r # v) \<and> accepts f u) \<or> accepts e [] \<and> accepts f (r # w)"
    then show "accepts (Seq e f) (r # w)"
      using accepts.intros(3) [of e "[]" f "r # w"] accepts.intros(3) [of e "r # _" f] by auto
  qed
  moreover have "accepts (Seq (deriv r e) f) w \<longleftrightarrow> (\<exists>v u. w = v @ u \<and> accepts e (r # v) \<and> accepts f u)"
    using Seq.IH(1) by (auto elim!: accepts_Seq intro: accepts.intros)
  ultimately show ?case using Seq.IH by (simp add: nullable_iff disj_commute)
next
  case (Star e)
  have "accepts (Star e) (r # w) \<longleftrightarrow> (\<exists>v u. w = v @ u \<and> accepts e (r # v) \<and> accepts (Star e) u)"
  proof
    assume "accepts (Star e) (r # w)"
    then obtain v u where "r # w = v @ u" "accepts e v" "v \<noteq> []" "accepts (Star e) u"
      by (cases rule: accepts_Star) auto
    then show "\<exists>v u. w = v @ u \<and> accepts e (r # v) \<and> accepts (Star e) u"
      by (metis append_eq_Cons_conv)
  next
    assume "\<exists>v u. w = v @ u \<and> accepts e (r # v) \<and> accepts (Star e) u"
    then show "accepts (Star e) (r # w)" using accepts.intros(7) [of e "r # _"] by auto
  qed
  then show ?case using Star.IH by (auto elim!: accepts_Seq intro: accepts.intros)
qed auto

lemma match_all_iff: "match_all e w = accepts e w"
  by (induction w arbitrary: e) (simp_all add: match_all_def nullable_iff deriv_iff)

lemma match_prefix_iff: "match_prefix e w \<longleftrightarrow> (\<exists>v u. w = v @ u \<and> accepts e v)"
proof (induction w arbitrary: e)
  case (Cons r w)
  then show ?case by (auto simp: nullable_iff deriv_iff Cons_eq_append_conv)
qed (simp add: nullable_iff)

lemma search_iff: "search e w \<longleftrightarrow> (\<exists>x v u. w = x @ v @ u \<and> accepts e v)"
proof (induction w)
  case (Cons r w)
  have "(\<exists>x v u. r # w = x @ v @ u \<and> accepts e v) \<longleftrightarrow>
      (\<exists>v u. r # w = v @ u \<and> accepts e v) \<or> (\<exists>x v u. w = x @ v @ u \<and> accepts e v)"
    by (simp add: Cons_eq_append_conv) blast
  then show ?case using Cons by (simp add: match_prefix_iff [of e "r # w"] del: match_prefix.simps)
qed (simp add: nullable_iff)

text \<open>A rune that every accepted word contains rules out a match of a text without it.\<close>

fun needs :: "(rune \<Rightarrow> bool) \<Rightarrow> re \<Rightarrow> bool" where
  "needs p Never = True"
| "needs p Eps = False"
| "needs p (Cls q) = (\<forall>r. q r \<longrightarrow> p r)"
| "needs p (Seq e f) = (needs p e \<or> needs p f)"
| "needs p (Alt e f) = (needs p e \<and> needs p f)"
| "needs p (Star e) = False"

lemma needs_accepts: "accepts e w \<Longrightarrow> needs p e \<Longrightarrow> \<exists>r \<in> set w. p r"
  by (induction rule: accepts.induct) auto

lemma needs_no_match:
  assumes "needs p e" "list_all (\<lambda>r. \<not> p r) w"
  shows "\<not> search e w" "\<not> match_prefix e w" "\<not> match_all e w"
  using assms needs_accepts [of e _ p] by (fastforce simp: search_iff match_prefix_iff match_all_iff list_all_iff)+

section \<open>Expressions\<close>

fun seqs :: "re list \<Rightarrow> re" where
  "seqs [] = Eps"
| "seqs [e] = e"
| "seqs (e # es) = Seq e (seqs es)"

fun alts :: "re list \<Rightarrow> re" where
  "alts [] = Never"
| "alts [e] = e"
| "alts (e # es) = Alt e (alts es)"

definition opt :: "re \<Rightarrow> re" where "opt e = Alt e Eps"
definition plus :: "re \<Rightarrow> re" where "plus e = Seq e (Star e)"

definition one_of :: "string \<Rightarrow> re" where
  "one_of cs = Cls (\<lambda>r. r \<in> set (map byte cs))"

definition lit :: "string \<Rightarrow> re" where
  "lit s = seqs (map (\<lambda>c. Cls (\<lambda>r. r = byte c)) s)"

text \<open>A lower-case ASCII literal under \<open>(?i)\<close>.\<close>

definition same_letter :: "rune \<Rightarrow> char \<Rightarrow> bool" where
  "same_letter r c \<longleftrightarrow> r = byte c \<or> (97 \<le> byte c \<and> byte c \<le> 122 \<and> r = byte c - 32)
     \<or> (c = CHR ''s'' \<and> r = 383) \<or> (c = CHR ''k'' \<and> r = 8490)"

definition lit_ci :: "string \<Rightarrow> re" where
  "lit_ci s = seqs (map (\<lambda>c. Cls (\<lambda>r. same_letter r c)) s)"

definition re_digit :: "rune \<Rightarrow> bool" where
  "re_digit r \<longleftrightarrow> 48 \<le> r \<and> r \<le> 57"

definition re_alpha :: "rune \<Rightarrow> bool" where
  "re_alpha r \<longleftrightarrow> (65 \<le> r \<and> r \<le> 90) \<or> (97 \<le> r \<and> r \<le> 122)"

definition re_space :: "rune \<Rightarrow> bool" where
  "re_space r \<longleftrightarrow> r = 9 \<or> r = 10 \<or> r = 12 \<or> r = 13 \<or> r = 32"

definition re_word :: "rune \<Rightarrow> bool" where
  "re_word r \<longleftrightarrow> re_digit r \<or> re_alpha r \<or> r = 95"

definition re_word_ci :: "rune \<Rightarrow> bool" where
  "re_word_ci r \<longleftrightarrow> re_word r \<or> r = 383 \<or> r = 8490"

text \<open>An anchored alternative of words followed by an ASCII word boundary.\<close>

definition starts_with_word :: "string list \<Rightarrow> rune list \<Rightarrow> bool" where
  "starts_with_word ws rs \<longleftrightarrow> list_ex (\<lambda>w. length w \<le> length rs \<and> list_all2 same_letter (take (length w) rs) w
     \<and> (re_word (rs ! (length w - 1)) \<noteq> (length w < length rs \<and> re_word (rs ! length w)))) ws"

end
