(* ===== verification/Metaheur.thy ===== *)
theory Metaheur
  imports Patterns GoPaths
begin

text \<open>
  Model of package \<open>internal/metaheur\<close>: the plausibility scores for personal names and
  title lines, with the keyword tables of \<open>keywords.go\<close>. The report uses them to recover
  authors and titles from file names, the text parsers to read title pages.
\<close>

section \<open>Keyword tables\<close>

definition chapterWords :: "string list" where
  "chapterWords = [
     ''chapter'', ''fejezet'', ''prolog'', ''prologus'', ''epilog'', ''epilogus'', ''eloszo'', ''utoszo'',
     ''tartalom'', ''tartalomjegyzek'', ''impresszum'', ''ajanlas'', ''motto'', ''fuggelek'', ''jegyzetek'']"

definition articles :: "string list" where
  "articles = [
     ''a'', ''az'', ''egy'', ''the'', ''an'', ''der'', ''die'', ''das'', ''ein'', ''eine'', ''le'', ''la'',
     ''les'', ''un'', ''une'', ''el'', ''los'', ''las'', ''una'', ''il'', ''lo'', ''gli'', ''i'']"

definition particles :: "string list" where
  "particles = [
     ''de'', ''van'', ''von'', ''di'', ''du'', ''le'', ''la'', ''bin'', ''ibn'', ''del'', ''della'', ''dos'',
     ''das'', ''der'', ''den'', ''ter'', ''ten'', ''al'']"

definition creditStems :: "string list" where
  "creditStems = [
     ''borito'', ''fedel'', ''fordit'', ''szerkeszt'', ''nyomd'', ''digitaliz'', ''szkenn'', ''korrekt'',
     ''impresszum'', ''tartalomjegyzek'', ''fulszoveg'']"

definition creditWords :: "string list" where
  "creditWords = [
     ''copyright'', ''ocr'', ''mek'']"

definition creditPhrases :: "string list" where
  "creditPhrases = [
     ''cover design'', ''cover art'', ''translated by'', ''edited by'', ''printed by'',
     ''all rights reserved'', ''minden jog fenntartva'', ''magyar elektronikus konyvtar'']"

definition publisherStems :: "string list" where
  "publisherStems = [
     ''kiad'', ''konyvkiad'']"

definition organizationStems :: "string list" where
  "organizationStems = [
     ''konyvtar'', ''akademia'', ''egyetem'', ''intezet'', ''alapitvany'', ''tarsasag'', ''muzeum'',
     ''miniszterium'', ''konyvkiad'', ''szerkesztoseg'', ''hivatal'', ''university'', ''institute'',
     ''academy'', ''foundation'', ''society'', ''association'', ''corporation'', ''publishing'',
     ''publishers'', ''library'']"

definition publisherWords :: "string list" where
  "publisherWords = [
     ''publisher'', ''press'', ''books'']"

definition publisherPhrases :: "string list" where
  "publisherPhrases = [
     ''published by'']"

definition chapterHeading :: "rune list \<Rightarrow> bool" where
  "chapterHeading = starts_with_word [
     ''chapter'', ''fejezet'', ''prolog'', ''epilog'', ''eloszo'', ''utoszo'', ''tartalom'',
     ''tartalomjegyzek'', ''impresszum'', ''ajanlas'', ''motto'', ''fuggelek'', ''jegyzetek'']"

definition NameThreshold :: int where "NameThreshold = 3"

definition nnclValue :: re where
  "nnclValue = Seq (lit_ci ''nncl'') (Star (Cls (\<lambda>r. re_space r \<or> re_word_ci r \<or> r \<in> {46, 47, 45})))"

definition isbnLabel :: re where
  "isbnLabel = Seq (Alt (lit_ci ''isbn'') (lit_ci ''issn'')) (Cls (\<lambda>r. re_space r \<or> r \<in> {58, 46, 45}))"

definition urlValue :: re where
  "urlValue = Alt (seqs [lit_ci ''http'', opt (lit_ci ''s''), lit_ci ''://'']) (lit_ci ''www.'')"

definition emailValue :: re where
  "emailValue = seqs [plus (Cls (\<lambda>r. re_word r \<or> r \<in> {46, 43, 45})), lit ''@'',
     plus (Cls (\<lambda>r. re_word r \<or> r \<in> {46, 45})), lit ''.'', Cls re_alpha, plus (Cls re_alpha)]"

definition numeralHeading :: re where
  "numeralHeading = Seq (Alt (Seq (Cls re_digit) (opt (Cls re_digit))) (plus (one_of ''IVXLCDM''))) (opt (lit ''.''))"

section \<open>Strings and words\<close>

definition Normalize :: "string \<Rightarrow> string" where
  "Normalize s = join '' '' (fields s)"

definition Fold :: "env \<Rightarrow> string \<Rightarrow> string" where
  "Fold u s = utf8_encode (filter (\<lambda>r. \<not> is_mn u r) (runes (nfd u (to_lower u (Normalize s)))))"

definition trimWord :: "string \<Rightarrow> string" where
  "trimWord w = trim_cutset (map byte (CHR 0x22 # CHR 0x27 # ''()[]{}.,;:!?'')) w"

definition hasLetter :: "env \<Rightarrow> string \<Rightarrow> bool" where
  "hasLetter u s = list_ex (is_letter u) (runes s)"

definition hasDigit :: "env \<Rightarrow> string \<Rightarrow> bool" where
  "hasDigit u s = list_ex (is_digit u) (runes s)"

definition hasLatinLetter :: "env \<Rightarrow> string \<Rightarrow> bool" where
  "hasLatinLetter u s = list_ex (is_latin u) (runes s)"

definition firstRune :: "string \<Rightarrow> rune" where
  "firstRune s = fst (decode_rune s)"

definition startsUpper :: "env \<Rightarrow> string \<Rightarrow> bool" where
  "startsUpper u s = is_upper u (firstRune (trim_left_func (\<lambda>r. r \<in> set (map byte [CHR 0x22, CHR 0x27, CHR ''('', CHR ''['']))  s))"

definition wordSet :: "env \<Rightarrow> string \<Rightarrow> string set" where
  "wordSet u s = set (fields_func (\<lambda>r. \<not> is_letter u r \<and> \<not> is_digit u r) s)"

definition isArticle :: "env \<Rightarrow> string \<Rightarrow> bool" where
  "isArticle u w = (Fold u (trimWord w) \<in> set articles)"

definition isParticle :: "env \<Rightarrow> string \<Rightarrow> bool" where
  "isParticle u w = (Fold u (trimWord w) \<in> set particles)"

definition isInitial :: "env \<Rightarrow> string \<Rightarrow> bool" where
  "isInitial u w0 = (let w = trim_cutset [46] (trimWord w0) in
     if w = [] then False
     else list_all (is_letter u) (runes w) \<and> rune_len w \<le> 3 \<and> is_upper u (firstRune w))"

definition nameCaseOK :: "env \<Rightarrow> string \<Rightarrow> bool" where
  "nameCaseOK u s = list_all (\<lambda>w0. let w = trimWord w0 in
     w = [] \<or> isParticle u w \<or> isInitial u w \<or> startsUpper u w) (fields s)"

definition hasLowerWord :: "env \<Rightarrow> string list \<Rightarrow> bool" where
  "hasLowerWord u ws = list_ex (\<lambda>w0. let w = trimWord w0 in
     w \<noteq> [] \<and> is_lower u (firstRune w) \<and> \<not> isParticle u w) ws"

definition hasOpeningQuote :: "string \<Rightarrow> bool" where
  "hasOpeningQuote s0 = (let s = trim_space s0 in
     has_prefix s [CHR 0x22] \<or> has_prefix s (utf8_encode [8222]) \<or> has_prefix s (utf8_encode [8220]))"

section \<open>Lines that are neither names nor titles\<close>

definition IsJunkValue :: "env \<Rightarrow> string \<Rightarrow> bool" where
  "IsJunkValue u s0 = (let s = Normalize s0; rs = runes s in
     if s = [] then True
     else if match_all nnclValue rs \<or> match_prefix isbnLabel rs then True
     else if search urlValue rs \<or> search emailValue rs \<or> contains s ''://'' then True
     else \<not> hasLetter u s \<and> \<not> hasDigit u s)"

definition IsCredit :: "env \<Rightarrow> string \<Rightarrow> bool" where
  "IsCredit u s0 = (let s = Normalize s0; f = Fold u s; fs = fields f in
     if s = [] then False
     else if list_ex (contains f) creditStems then True
     else if list_ex (contains f) creditPhrases then True
     else if list_ex (\<lambda>w. w \<in> wordSet u f) creditWords then True
     else if fs \<noteq> [] \<and> isArticle u (hd fs) \<and> length fs \<le> 3 then False
     else if list_ex (contains f) publisherStems then True
     else if list_ex (contains f) publisherPhrases then True
     else list_ex (\<lambda>w. w \<in> wordSet u f) publisherWords)"

definition LooksLikeProse :: "string \<Rightarrow> bool" where
  "LooksLikeProse s0 = (let s = Normalize s0 in
     if length (fields s) < 8 \<or> rune_len s < 60 then False
     else has_suffix s ''.'' \<or> has_suffix s ''!'' \<or> has_suffix s ''?'')"

definition isChapterHeading :: "env \<Rightarrow> string \<Rightarrow> bool" where
  "isChapterHeading u s = (let f = Fold u s in
     chapterHeading (runes f) \<or> match_all numeralHeading (runes (trim_space s))
       \<or> list_ex (\<lambda>w. trimWord w \<in> set chapterWords) (take 2 (fields f)))"

section \<open>Scores\<close>

text \<open>The comma form \<open>Last, First\<close>: a bonus, or None when the form disqualifies the line.\<close>

definition comma_bonus :: "env \<Rightarrow> string \<Rightarrow> int option" where
  "comma_bonus u s = (case index_of s '','' of
       None \<Rightarrow> Some 0
     | Some i \<Rightarrow> (let left = trim_space (take i s); right = trim_space (drop (i + 1) s);
           lw = length (fields left); rw = length (fields right) in
         if left = [] \<or> right = [] then None
         else if lw < 1 \<or> 3 < lw \<or> rw < 1 \<or> 4 < rw then None
         else if \<not> nameCaseOK u left \<or> \<not> nameCaseOK u right then None
         else if rw = 1 \<and> isArticle u (hd (fields right)) then None
         else Some 2))"

definition word_score :: "env \<Rightarrow> string \<Rightarrow> int \<Rightarrow> int" where
  "word_score u w0 score = (let w = trimWord w0 in
     if w = [] then score
     else if isParticle u w then score
     else if isInitial u w then score + 1
     else if \<not> startsUpper u w then score - 3
     else score + 1)"

definition word_count_score :: "nat \<Rightarrow> int" where
  "word_count_score n = (if n = 2 then 3 else if n = 3 then 2 else if n = 4 then 1 else 0)"

definition ScoreName :: "env \<Rightarrow> string \<Rightarrow> int" where
  "ScoreName u s0 = (let s = Normalize s0; ws = fields s in
     if s = [] \<or> 60 < rune_len s then - 10
     else if IsJunkValue u s \<or> IsCredit u s then - 10
     else if contains_any s (map byte ('':;!?/@&'' @ [CHR 0x5C])) then - 10
     else if list_ex (contains (Fold u s)) organizationStems then - 10
     else if ws = [] \<or> 6 < length ws \<or> \<not> hasLetter u s \<or> hasDigit u s then - 10
     else if \<not> hasLatinLetter u s then (if 2 \<le> length ws then NameThreshold else 1)
     else if 1 < count_sub s '','' then - 10
     else case comma_bonus u s of
         None \<Rightarrow> - 10
       | Some bonus \<Rightarrow> (let score = word_count_score (length ws) + bonus in
           if isArticle u (hd ws) then - 10
           else if length ws = 1 then score
           else fold (word_score u) ws score))"

definition IsName :: "env \<Rightarrow> string \<Rightarrow> bool" where
  "IsName u s \<longleftrightarrow> NameThreshold \<le> ScoreName u s"

definition ScoreTitle :: "env \<Rightarrow> string \<Rightarrow> int" where
  "ScoreTitle u s0 = (let s = Normalize s0; ws = fields s in
     if s = [] \<or> 200 < rune_len s then - 10
     else if IsJunkValue u s \<or> IsCredit u s \<or> isChapterHeading u s then - 10
     else if ws = [] \<or> 12 < length ws then - 10
     else if length ws = 1 \<and> isArticle u (hd ws) then - 10
     else if has_suffix s ''.'' \<and> 5 \<le> length ws then - 10
     else if LooksLikeProse s then - 10
     else (if length ws = 1 then 1 else if length ws \<le> 10 then 2 else 1)
       + (if isArticle u (hd ws) then 2 else 0)
       + (if contains_any s (map byte ''?!'') then 1 else 0)
       + (if contains s '':'' then 1 else 0)
       + (if hasLowerWord u ws then 1 else 0)
       - (if hasOpeningQuote s then 2 else 0)
       - (if NameThreshold \<le> ScoreName u s then 3 else 0))"

definition IsTitle :: "env \<Rightarrow> string \<Rightarrow> bool" where
  "IsTitle u s \<longleftrightarrow> 1 \<le> ScoreTitle u s"


section \<open>Laws\<close>

lemma Normalize_collapse: "Normalize s = collapse s"
  by (simp add: Normalize_def collapse_def)

lemma Normalize_idem [simp]: "Normalize (Normalize s) = Normalize s"
  by (simp add: Normalize_collapse)

lemma fields_Normalize [simp]: "fields (Normalize s) = fields s"
  by (simp add: Normalize_collapse fields_collapse)

lemma Normalize_eq_iff: "Normalize s = Normalize t \<longleftrightarrow> fields s = fields t"
  by (simp add: Normalize_collapse collapse_eq_iff)

lemma fold_add_bounds:
  assumes "\<And>w a :: int. w \<in> set ws \<Longrightarrow> a - 3 \<le> f w a \<and> f w a \<le> a + 1"
  shows "a - 3 * int (length ws) \<le> fold f ws a \<and> fold f ws a \<le> a + int (length ws)"
  using assms
proof (induction ws arbitrary: a)
  case (Cons w ws)
  have "a - 3 \<le> f w a" "f w a \<le> a + 1" using Cons.prems [of w] by simp_all
  moreover have "f w a - 3 * int (length ws) \<le> fold f ws (f w a)" "fold f ws (f w a) \<le> f w a + int (length ws)"
    using Cons.IH [of "f w a"] Cons.prems by simp_all
  ultimately show ?case by simp
qed simp

lemma word_score_step: "a - 3 \<le> word_score u w a \<and> word_score u w a \<le> a + 1"
  by (simp add: word_score_def Let_def)

lemma comma_bonus_range: "comma_bonus u s = Some b \<Longrightarrow> b = 0 \<or> b = 2"
  by (auto simp: comma_bonus_def Let_def split: option.splits if_splits)

lemma word_count_range: "0 \<le> word_count_score n \<and> word_count_score n + int n \<le> 5 \<or> 5 \<le> n \<and> word_count_score n = 0"
  by (auto simp: word_count_score_def)

lemma ScoreName_bounds: "- 18 \<le> ScoreName u s \<and> ScoreName u s \<le> 8"
proof -
  let ?s = "Normalize s" and ?ws = "fields s"
  have main: "- 18 \<le> fold (word_score u) ?ws (word_count_score (length ?ws) + b)
      \<and> fold (word_score u) ?ws (word_count_score (length ?ws) + b) \<le> 8"
    if "length ?ws \<le> 6" "b = 0 \<or> b = 2" for b
    using fold_add_bounds [where f = "word_score u" and ws = ?ws and a = "word_count_score (length ?ws) + b", OF word_score_step]
      word_count_range [of "length ?ws"] that by (elim disjE conjE) linarith+
  have "word_count_score n + b \<le> 8 \<and> - 18 \<le> word_count_score n + b" if "b = 0 \<or> b = 2" for n b
    using that by (auto simp: word_count_score_def)
  then show ?thesis
    using main comma_bonus_range [of u ?s]
    by (simp add: ScoreName_def Let_def NameThreshold_def not_less split: option.split)
qed

section \<open>Properties\<close>

text \<open>A name evaluated step by step.\<close>

lemmas word_eval = Normalize_def fields_def fields_func_def is_space_def between_def string_eval Let_def
  trimWord_def trim_cutset_def trim_func_def bytes_of_def

lemma demo_words: "fields ''Jules Verne'' = [''Jules'', ''Verne'']" "Normalize ''Jules Verne'' = ''Jules Verne''"
  "trimWord ''Jules'' = ''Jules''" "trimWord ''Verne'' = ''Verne''" "runes ''Jules Verne'' = map byte ''Jules Verne''"
  by (simp_all add: word_eval)

lemma demo_fold: "Fold plain_env ''Jules Verne'' = ''jules verne''" "Fold plain_env ''Jules'' = ''jules''"
  "Fold plain_env ''Verne'' = ''verne''"
  by (simp_all add: word_eval Fold_def is_mn_def)

lemma demo_letters: "hasLetter plain_env ''Jules Verne''" "hasLatinLetter plain_env ''Jules Verne''"
  "\<not> hasDigit plain_env ''Jules Verne''"
  by (simp_all add: hasLetter_def hasLatinLetter_def hasDigit_def is_letter_def is_latin_def is_digit_def latin1_latin_def
      between_def demo_words)

lemma demo_not_junk: "\<not> IsJunkValue plain_env ''Jules Verne''"
proof -
  let ?w = "map byte ''Jules Verne'' :: rune list"
  have "\<not> match_all nnclValue ?w"
    by (rule needs_no_match(3) [of "\<lambda>r. same_letter r CHR ''c''"]) (simp_all add: nnclValue_def lit_ci_def same_letter_def)
  moreover have "\<not> match_prefix isbnLabel ?w"
    by (rule needs_no_match(2) [of "\<lambda>r. same_letter r CHR ''i''"]) (simp_all add: isbnLabel_def lit_ci_def same_letter_def)
  moreover have "\<not> search urlValue ?w"
    by (rule needs_no_match(1) [of "\<lambda>r. same_letter r CHR '':'' \<or> same_letter r CHR ''.''"])
      (simp_all add: urlValue_def lit_ci_def opt_def same_letter_def)
  moreover have "\<not> search emailValue ?w"
    by (rule needs_no_match(1) [of "\<lambda>r. r = 64"]) (simp_all add: emailValue_def plus_def lit_def)
  moreover have "\<not> contains ''Jules Verne'' ''://''" by (simp add: contains_def has_prefix_def)
  ultimately show ?thesis using demo_letters by (simp add: IsJunkValue_def Let_def demo_words)
qed

lemma demo_plain: "contains_any ''Jules Verne'' (map byte ('':;!?/@&'' @ [CHR 0x5C])) = False" "count_sub ''Jules Verne'' '','' = 0"
  "index_of ''Jules Verne'' '','' = None" "rune_len ''Jules Verne'' = 11"
  by (simp_all add: contains_any_def demo_words has_prefix_def rune_len_def segs_ascii ascii_def)

lemma demo_not_credit: "\<not> IsCredit plain_env ''Jules Verne''" "\<not> list_ex (contains ''jules verne'') organizationStems"
proof -
  have "wordSet plain_env ''jules verne'' = {''jules'', ''verne''}" "fields ''jules verne'' = [''jules'', ''verne'']"
    "Fold plain_env ''jules'' = ''jules''" "trimWord ''jules'' = ''jules''"
    by (simp_all add: wordSet_def word_eval Fold_def is_mn_def is_letter_def is_digit_def latin1_latin_def)
  then show "\<not> IsCredit plain_env ''Jules Verne''"
    by (simp add: IsCredit_def Let_def demo_words demo_fold contains_def has_prefix_def creditStems_def creditPhrases_def
        creditWords_def publisherStems_def publisherPhrases_def publisherWords_def)
  show "\<not> list_ex (contains ''jules verne'') organizationStems"
    by (simp add: contains_def has_prefix_def organizationStems_def)
qed

lemma demo_score: "ScoreName plain_env ''Jules Verne'' = 5"
proof -
  have "\<not> isArticle plain_env ''Jules''" "\<not> isParticle plain_env ''Jules''" "\<not> isParticle plain_env ''Verne''"
    by (simp_all add: isArticle_def isParticle_def demo_words demo_fold articles_def particles_def)
  moreover have "\<not> isInitial plain_env ''Jules''" "\<not> isInitial plain_env ''Verne''"
    by (simp_all add: isInitial_def demo_words trim_cutset_def trim_func_def bytes_of_def segs_ascii ascii_def rune_len_def)
  moreover have "startsUpper plain_env ''Jules''" "startsUpper plain_env ''Verne''"
    by (simp_all add: startsUpper_def trim_left_func_def bytes_of_def segs_ascii ascii_def firstRune_def is_upper_def between_def)
  ultimately have words: "comma_bonus plain_env ''Jules Verne'' = Some 0" "\<not> isArticle plain_env ''Jules''"
    "word_score plain_env ''Jules'' = (\<lambda>a. a + 1)" "word_score plain_env ''Verne'' = (\<lambda>a. a + 1)"
    by (simp_all add: comma_bonus_def demo_plain word_score_def demo_words fun_eq_iff del: index_of.simps)
  have junk: "(IsJunkValue plain_env ''Jules Verne'' \<or> IsCredit plain_env ''Jules Verne'') = False"
    using demo_not_junk demo_not_credit by blast
  have "ScoreName plain_env ''Jules Verne'' = fold (word_score plain_env) [''Jules'', ''Verne''] (word_count_score 2 + 0)"
    unfolding ScoreName_def Let_def demo_words demo_fold junk demo_plain
    using demo_not_credit(2) demo_letters words(1,2) by (simp add: numeral_2_eq_2)
  then show ?thesis using words by (simp add: word_count_score_def)
qed

text \<open>
  What the name test guarantees to its callers. A string accepted as a personal name is
  not blank, has at most 60 characters and six words, contains a letter and no digit, is
  neither junk (URL, e-mail, ISBN label) nor a publisher or translator credit, holds no
  path or sentence separator, and names no institution; a name in Latin letters has at most
  one comma and does not begin with an article.
\<close>

theorem IsName_sound:
  assumes "IsName u name"
  defines "s \<equiv> Normalize name"
  shows "s \<noteq> [] \<and> rune_len s \<le> 60 \<and> length (fields s) \<le> 6 \<and> hasLetter u s \<and> \<not> hasDigit u s
    \<and> \<not> IsJunkValue u s \<and> \<not> IsCredit u s \<and> \<not> contains_any s (map byte ('':;!?/@&'' @ [CHR 0x5C]))
    \<and> \<not> list_ex (contains (Fold u s)) organizationStems
    \<and> (hasLatinLetter u s \<longrightarrow> count_sub s '','' \<le> 1 \<and> \<not> isArticle u (hd (fields s)))"
  using assms(1) unfolding IsName_def ScoreName_def Let_def s_def NameThreshold_def
  by (simp split: if_splits option.splits)

theorem IsName_sound_witness: "hasLetter plain_env (Normalize ''Jules Verne'')"
proof -
  have "IsName plain_env ''Jules Verne''"
    by (simp add: IsName_def NameThreshold_def demo_score)
  from IsName_sound [OF this] show ?thesis by blast
qed

text \<open>
  The plausibility scores are bounded and look only at the words: a name scores between
  -18 and 8, a title between -10 and 7, and two strings that differ only in white space
  (leading, trailing or repeated) get the same scores, so they are accepted or rejected
  together.
\<close>

theorem scores_bounded_and_spacing_independent:
  "- 18 \<le> ScoreName u s \<and> ScoreName u s \<le> 8 \<and> - 10 \<le> ScoreTitle u s \<and> ScoreTitle u s \<le> 7
   \<and> ScoreName u (join '' '' (fields s)) = ScoreName u s \<and> ScoreTitle u (join '' '' (fields s)) = ScoreTitle u s"
proof (intro conjI)
  show "- 10 \<le> ScoreTitle u s" "ScoreTitle u s \<le> 7" by (simp_all add: ScoreTitle_def Let_def)
  show "ScoreName u (join '' '' (fields s)) = ScoreName u s"
    unfolding Normalize_def [symmetric] by (simp add: ScoreName_def)
  show "ScoreTitle u (join '' '' (fields s)) = ScoreTitle u s"
    unfolding Normalize_def [symmetric] by (simp add: ScoreTitle_def)
qed (use ScoreName_bounds in auto)

end
