(* ===== verification/TextHead.thy ===== *)
theory TextHead
  imports Metaheur
begin

text \<open>
  Model of \<open>internal/parser/textdoc/headgate.go\<close> and \<open>junk.go\<close>: the gate that captures the head
  of a decoded text while it streams through, and the checks for files that are not books.
\<close>

section \<open>The head gate\<close>

text \<open>\<open>truncateUTF8\<close>: cut to \<open>n\<close> bytes, then drop bytes until the rest is valid.\<close>

function cut_to_valid :: "string \<Rightarrow> string" where
  "cut_to_valid b = (if b \<noteq> [] \<and> \<not> utf8_valid b then cut_to_valid (butlast b) else b)"
  by pat_completeness auto
termination by (relation "measure length") auto

declare cut_to_valid.simps [simp del]

definition truncateUTF8 :: "string \<Rightarrow> nat \<Rightarrow> string" where
  "truncateUTF8 b n = cut_to_valid (take n b)"

text \<open>
  The check is a function of the head and the size. The constructor passes it, so the gate keeps it as a field;
  None is the nil check.
\<close>

record 'e gate =
  g_limit :: nat
  g_size :: int
  g_check :: "(string \<Rightarrow> int \<Rightarrow> 'e option) option"
  g_buf :: string
  g_checked :: bool

definition NewHeadGate :: "nat \<Rightarrow> int \<Rightarrow> (string \<Rightarrow> int \<Rightarrow> 'e option) option \<Rightarrow> 'e gate" where
  "NewHeadGate limit sz check = \<lparr>g_limit = limit, g_size = sz, g_check = check, g_buf = [], g_checked = False\<rparr>"

definition Head :: "'e gate \<Rightarrow> string" where
  "Head g = truncateUTF8 (g_buf g) (g_limit g)"

definition gate_run :: "'e gate \<Rightarrow> 'e option \<times> 'e gate" where
  "gate_run g = (let g = g\<lparr>g_checked := True\<rparr> in
     (case g_check g of None \<Rightarrow> None | Some check \<Rightarrow> check (Head g) (g_size g), g))"

text \<open>\<open>Write\<close> accepts all of its bytes or none.\<close>

definition gate_Write :: "string \<Rightarrow> 'e gate \<Rightarrow> (nat \<times> 'e option) \<times> 'e gate" where
  "gate_Write p g =
     (let g = (if \<not> g_checked g \<and> length (g_buf g) < g_limit g
          then g\<lparr>g_buf := g_buf g @ take (min (length p) (g_limit g - length (g_buf g))) p\<rparr> else g) in
      if \<not> g_checked g \<and> g_limit g \<le> length (g_buf g)
      then (case gate_run g of (Some e, g) \<Rightarrow> ((0, Some e), g) | (None, g) \<Rightarrow> ((length p, None), g))
      else ((length p, None), g))"

definition gate_Finish :: "'e gate \<Rightarrow> 'e option \<times> 'e gate" where
  "gate_Finish g = (if g_checked g then (None, g) else gate_run g)"

text \<open>
  How the parsers drive the gate: a tee writes every block the fingerprint reads, the first error ends the
  reading, and \<open>Finish\<close> runs at the end of the text.
\<close>

fun gate_stream :: "string list \<Rightarrow> 'e gate \<Rightarrow> 'e option \<times> 'e gate" where
  "gate_stream [] g = gate_Finish g"
| "gate_stream (p # ps) g = (case gate_Write p g of ((_, Some e), g) \<Rightarrow> (Some e, g) | ((_, None), g) \<Rightarrow> gate_stream ps g)"

section \<open>Files that are not books\<close>

definition newlineReplacer :: "(string \<times> string) list" where
  "newlineReplacer = [([chr 13, chr 10], [chr 10]), ([chr 13], [chr 10])]"

definition nonEmptyLines :: "string \<Rightarrow> string list" where
  "nonEmptyLines s = filter (\<lambda>l. l \<noteq> []) (map trim_space (go_split (replacer newlineReplacer s) [chr 10]))"

definition countLetters :: "env \<Rightarrow> string \<Rightarrow> nat" where
  "countLetters u s = length (filter (is_letter u) (runes s))"

definition tooFewLetters :: "env \<Rightarrow> string \<Rightarrow> bool" where
  "tooFewLetters u s \<longleftrightarrow> countLetters u s < 32"

definition isPageNumber :: "env \<Rightarrow> string \<Rightarrow> bool" where
  "isPageNumber u s0 = (let s = trim_space s0 in
     s \<noteq> [] \<and> list_all (is_digit u) (runes s) \<and> 1 \<le> rune_len s \<and> rune_len s \<le> 4)"

definition lastField :: "string \<Rightarrow> string" where
  "lastField s = (if GoStrings.fields s = [] then [] else last (GoStrings.fields s))"

definition looksLikeHTML :: "string \<Rightarrow> bool" where
  "looksLikeHTML lower = (list_ex (has_prefix lower) [''<!doctype'', ''<html'', ''<head'', ''<body'']
     \<or> (let sample = take 4096 lower; tags = count_sub sample ''<'' + count_sub sample ''>'' in
        40 < tags \<and> length sample < tags * 100))"

definition looksLikeHTTPCache :: "env \<Rightarrow> string \<Rightarrow> bool" where
  "looksLikeHTTPCache u head = (let sample = take 8192 head; lower = to_lower u sample;
       headers = length (filter (contains lower) [''http/1.'', ''content-type:'', ''content-length:'', ''last-modified:'', ''accept-ranges:'']);
       urls = count_sub lower ''http://'' + count_sub lower ''https://''; ws = length (GoStrings.fields sample) in
     contains lower ''hts-cache'' \<or> 2 \<le> headers \<or> (5 \<le> urls \<and> 0 < ws \<and> ws < urls * 20))"

definition looksLikeCreditsOnly :: "env \<Rightarrow> string \<Rightarrow> bool" where
  "looksLikeCreditsOnly u head = (let lines = nonEmptyLines head;
       letters = sum_list (map (countLetters u) lines);
       credit = length (filter (\<lambda>l. IsCredit u l \<or> IsJunkValue u l \<or> isPageNumber u l) lines) in
     lines \<noteq> [] \<and> length lines * 70 \<le> credit * 100 \<and> letters < 1000)"

definition looksLikeBlurbOnly :: "env \<Rightarrow> string \<Rightarrow> bool" where
  "looksLikeBlurbOnly u head = (let lines = nonEmptyLines head in
     lines \<noteq> [] \<and> has_prefix (Fold u (hd lines)) ''fulszoveg'' \<and> length lines \<le> 12)"

definition toc_line :: "env \<Rightarrow> string \<Rightarrow> bool" where
  "toc_line u l \<longleftrightarrow> has_prefix (Fold u l) ''tartalom'' \<or> has_suffix l ''.'' \<or> contains l ''...'' \<or> isPageNumber u (lastField l)"

definition looksLikeTOCOnly :: "env \<Rightarrow> string \<Rightarrow> bool" where
  "looksLikeTOCOnly u head = (let lines = nonEmptyLines head; toc = length (filter (toc_line u) lines) in
     5 \<le> length lines \<and> length lines * 60 \<le> toc * 100)"

definition IsJunkContent :: "env \<Rightarrow> string \<Rightarrow> int \<Rightarrow> bool" where
  "IsJunkContent u head sz = (let h = trim_space (trim_prefix head (encode_rune 65279)) in
     if h = [] then False
     else if looksLikeHTML (to_lower u h) \<or> looksLikeHTTPCache u h then True
     else if 0 \<le> sz \<and> sz < 4096 \<and> (tooFewLetters u h \<or> looksLikeCreditsOnly u h \<or> looksLikeBlurbOnly u h) then True
     else 0 \<le> sz \<and> sz < 20480 \<and> looksLikeTOCOnly u h)"

section \<open>Laws of the head gate\<close>

text \<open>The head is the longest valid text within the first \<open>limit\<close> bytes.\<close>

definition longest_text :: "string \<Rightarrow> string \<Rightarrow> bool" where
  "longest_text b h \<longleftrightarrow> prefix h b \<and> utf8_valid h \<and> (\<forall>p. prefix p b \<longrightarrow> utf8_valid p \<longrightarrow> length p \<le> length h)"

lemma cut_to_valid_longest:
  "prefix (cut_to_valid b) b \<and> utf8_valid (cut_to_valid b) \<and> (\<forall>p. prefix p b \<longrightarrow> utf8_valid p \<longrightarrow> length p \<le> length (cut_to_valid b))"
proof (induction b rule: cut_to_valid.induct)
  case (1 b)
  show ?case
  proof (cases "b \<noteq> [] \<and> \<not> utf8_valid b")
    case True
    then have eq: "cut_to_valid b = cut_to_valid (butlast b)" by (subst cut_to_valid.simps) simp
    have "prefix (butlast b) b" by (simp add: prefixeq_butlast)
    moreover have "prefix p (butlast b)" if "prefix p b" "utf8_valid p" for p
    proof -
      have "p \<noteq> b" using that True by auto
      then show ?thesis using that(1) True by (metis append_butlast_last_id prefix_snoc)
    qed
    ultimately show ?thesis using "1.IH" [OF True] unfolding eq by (meson prefix_order.trans)
  next
    case False
    then have "cut_to_valid b = b" by (subst cut_to_valid.simps) auto
    moreover have "utf8_valid []" by (simp add: utf8_valid_def)
    ultimately show ?thesis using False by (auto dest: prefix_length_le)
  qed
qed

text \<open>Once checked, the gate is transparent; before, the blocks only add up.\<close>

lemma gate_Write_checked: "g_checked g \<Longrightarrow> gate_Write p g = ((length p, None), g)"
  by (simp add: gate_Write_def)

lemma gate_stream_checked: "g_checked g \<Longrightarrow> gate_stream ps g = (None, g)"
  by (induction ps) (simp_all add: gate_Finish_def gate_Write_checked)

lemma gate_buffer:
  assumes "length (g_buf g) \<le> g_limit g"
  shows "(if length (g_buf g) < g_limit g then g\<lparr>g_buf := g_buf g @ take (min (length p) (g_limit g - length (g_buf g))) p\<rparr> else g)
    = g\<lparr>g_buf := take (g_limit g) (g_buf g @ p)\<rparr>"
proof -
  have "take (min (length p) k) p = take k p" for k by (simp add: min_def)
  then show ?thesis using assms by (cases g) auto
qed

lemma gate_Write_open:
  assumes "\<not> g_checked g" "length (g_buf g) \<le> g_limit g"
  shows "gate_Write p g = (let g = g\<lparr>g_buf := take (g_limit g) (g_buf g @ p)\<rparr> in
      if g_limit g \<le> length (g_buf g)
      then (case gate_run g of (Some e, g) \<Rightarrow> ((0, Some e), g) | (None, g) \<Rightarrow> ((length p, None), g))
      else ((length p, None), g))"
  using assms by (simp add: gate_Write_def gate_buffer Let_def)

lemma gate_run_shape: "\<exists>r. gate_run g = (r, g\<lparr>g_checked := True\<rparr>)"
  by (simp add: gate_run_def Let_def)

lemma gate_stream_open:
  assumes "\<not> g_checked g" "length (g_buf g) \<le> g_limit g"
  shows "gate_stream ps g = gate_run (g\<lparr>g_buf := take (g_limit g) (g_buf g @ concat ps)\<rparr>)"
  using assms
proof (induction ps arbitrary: g)
  case Nil
  then show ?case by (simp add: gate_Finish_def)
next
  case (Cons p ps)
  let ?g = "g\<lparr>g_buf := take (g_limit g) (g_buf g @ p)\<rparr>"
  have all: "g\<lparr>g_buf := take (g_limit g) (g_buf g @ concat (p # ps))\<rparr>
      = ?g\<lparr>g_buf := take (g_limit ?g) (g_buf ?g @ concat ps)\<rparr>"
    by (simp add: take_append min_def)
  show ?case
  proof (cases "g_limit ?g \<le> length (g_buf ?g)")
    case True
    then have same: "?g\<lparr>g_buf := take (g_limit ?g) (g_buf ?g @ concat ps)\<rparr> = ?g" using Cons.prems(2) by (simp add: min_absorb1)
    obtain r where r: "gate_run ?g = (r, ?g\<lparr>g_checked := True\<rparr>)" using gate_run_shape by blast
    show ?thesis unfolding all same using Cons.prems True r
      by (cases r) (simp_all add: gate_Write_open Let_def gate_stream_checked)
  next
    case False
    then have "gate_stream (p # ps) g = gate_stream ps ?g"
      by (simp only: gate_stream.simps gate_Write_open [OF Cons.prems] Let_def False if_False prod.case option.case)
    also have "\<dots> = gate_run (?g\<lparr>g_buf := take (g_limit ?g) (g_buf ?g @ concat ps)\<rparr>)"
      by (rule Cons.IH) (use Cons.prems in simp_all)
    finally show ?thesis unfolding all .
  qed
qed

lemma gate_stream_head:
  obtains g where "gate_stream ps (NewHeadGate limit sz (Some check)) = (check (cut_to_valid (take limit (concat ps))) sz, g)"
    "Head g = cut_to_valid (take limit (concat ps))"
proof -
  let ?g = "NewHeadGate limit sz (Some check)" and ?t = "take limit (concat ps)"
  have "gate_stream ps ?g = gate_run (?g\<lparr>g_buf := ?t\<rparr>)"
    using gate_stream_open [of ?g ps] by (simp add: NewHeadGate_def)
  then have "gate_stream ps ?g = (check (cut_to_valid ?t) sz, ?g\<lparr>g_buf := ?t, g_checked := True\<rparr>)"
    by (simp add: gate_run_def Let_def Head_def truncateUTF8_def NewHeadGate_def min_def)
  moreover have "Head (?g\<lparr>g_buf := ?t, g_checked := True\<rparr>) = cut_to_valid ?t"
    by (simp add: Head_def truncateUTF8_def NewHeadGate_def min_def)
  ultimately show thesis by (rule that)
qed

section \<open>Properties\<close>

text \<open>
  C26: The gate sees the head of the text, once, however the text arrives. In whatever blocks the decoded text
  is written, the verdict is that of the check on the longest valid text within the first \<open>limit\<close>
  bytes, and that text is the head the parsers go on with.
\<close>

theorem head_gate_checks_head_once:
  "\<exists>g h. gate_stream ps (NewHeadGate limit sz (Some check)) = (check h sz, g) \<and> Head g = h \<and> longest_text (take limit (concat ps)) h"
  using gate_stream_head [of ps limit sz check] cut_to_valid_longest [of "take limit (concat ps)"]
  unfolding longest_text_def by metis

end
