(* ===== verification/TextLabels.thy ===== *)
theory TextLabels
  imports TextHead
begin

text \<open>
  Model of the value cleaning and the labelled headers of \<open>internal/parser/textdoc/metadata.go\<close>.
  The expressions with capture groups are written as parsers of the segmented line; the
  parts they capture keep their bytes.
\<close>

definition metadataLines :: nat where "metadataLines = 100"
definition markerSearchLines :: nat where "markerSearchLines = 200"

section \<open>Values\<close>

definition placeholderValues :: "string list" where
  "placeholderValues = [''unknown'', ''unknown author'', ''author unknown'', ''anonymous'', ''n/a'', ''none'', ''null'', ''ismeretlen'',
     ''nevtelen'', ''n'' @ encode_rune 233 @ ''vtelen'', ''untitled'', ''cim nelkul'',
     ''c'' @ encode_rune 237 @ ''m n'' @ encode_rune 233 @ ''lk'' @ encode_rune 252 @ ''l'']"

definition IsPlaceholder :: "env \<Rightarrow> string \<Rightarrow> bool" where
  "IsPlaceholder u s \<longleftrightarrow> to_lower u (trim_space s) \<in> set placeholderValues"

definition quotePairs :: "(string \<times> string) list" where
  "quotePairs = [([CHR 0x22], [CHR 0x22]), ([CHR 0x27], [CHR 0x27]), (encode_rune 8220, encode_rune 8221), (encode_rune 8216, encode_rune 8217)]"

definition strip_quotes :: "string \<times> string \<Rightarrow> string \<Rightarrow> string" where
  "strip_quotes q s = (if length (fst q) + length (snd q) \<le> length s \<and> has_prefix s (fst q) \<and> has_suffix s (snd q)
     then trim_space (drop (length (fst q)) (take (length s - length (snd q)) s)) else s)"

definition CleanValue :: "string \<Rightarrow> string" where
  "CleanValue s = Normalize (fold strip_quotes quotePairs (trim_space s))"

section \<open>Author lists\<close>

text \<open>The separators \<open>(?i),?\s+(?:and|with|\'es|es)\s+\<close>.\<close>

definition author_words :: "(rune \<Rightarrow> bool) list list" where
  "author_words = [map (\<lambda>c r. same_letter r c) ''and'', map (\<lambda>c r. same_letter r c) ''with'',
     [\<lambda>r. r = 233 \<or> r = 201, \<lambda>r. same_letter r CHR ''s''], map (\<lambda>c r. same_letter r c) ''es'']"

definition match_word :: "(rune \<Rightarrow> bool) list \<Rightarrow> (rune \<times> string) list \<Rightarrow> bool" where
  "match_word ps ss \<longleftrightarrow> length ps \<le> length ss \<and> list_all2 (\<lambda>p x. p (fst x)) ps (take (length ps) ss)"

definition author_sep :: "(rune \<times> string) list \<Rightarrow> (rune \<times> string) list option" where
  "author_sep ss = (let ss1 = (if ss \<noteq> [] \<and> fst (hd ss) = 44 then tl ss else ss);
       sp = takeWhile (re_space \<circ> fst) ss1; r1 = dropWhile (re_space \<circ> fst) ss1 in
     if sp = [] then None
     else case find (\<lambda>ps. match_word ps r1) author_words of
         None \<Rightarrow> None
       | Some ps \<Rightarrow> (let r2 = drop (length ps) r1 in
           if r2 = [] \<or> \<not> re_space (fst (hd r2)) then None else Some (dropWhile (re_space \<circ> fst) r2)))"

lemma author_sep_shorter: "author_sep (x # ss) = Some r \<Longrightarrow> length r < length (x # ss)"
proof -
  assume sep: "author_sep (x # ss) = Some r"
  let ?s1 = "if fst x = 44 then ss else x # ss"
  let ?r1 = "dropWhile (re_space \<circ> fst) ?s1"
  have 1: "takeWhile (re_space \<circ> fst) ?s1 \<noteq> []" "\<exists>n. r = dropWhile (re_space \<circ> fst) (drop n ?r1)"
    using sep by (auto simp: author_sep_def Let_def split: if_splits option.splits)
  have "length (takeWhile (re_space \<circ> fst) ?s1) + length ?r1 = length ?s1" by (metis length_append takeWhile_dropWhile_id)
  moreover have "length ?s1 \<le> length (x # ss)" by simp
  moreover have "length r \<le> length ?r1"
    using 1(2) length_dropWhile_le [of "re_space \<circ> fst"] by (metis (no_types) diff_le_self length_drop order_trans)
  moreover have "0 < length (takeWhile (re_space \<circ> fst) ?s1)" using 1(1) by blast
  ultimately show ?thesis by linarith
qed

function authorSplit :: "(rune \<times> string) list \<Rightarrow> string" where
  "authorSplit [] = []"
| "authorSplit (x # ss) = (case author_sep (x # ss) of Some r \<Rightarrow> '';'' @ authorSplit r | None \<Rightarrow> snd x @ authorSplit ss)"
  by pat_completeness auto
termination by (relation "measure length") (auto dest: author_sep_shorter)

definition SplitAuthors :: "env \<Rightarrow> string \<Rightarrow> string list" where
  "SplitAuthors u raw0 = (let raw = trim_space raw0;
       raw = (if has_prefix raw ''['' \<and> has_suffix raw '']'' then replace_all '','' '';'' (trim_suffix (trim_prefix raw ''['') '']'') else raw);
       raw = authorSplit (segs raw);
       parts = fields_func (\<lambda>r. r = 38 \<or> r = 59) raw in
     filter (\<lambda>name. name \<noteq> [] \<and> \<not> IsPlaceholder u name) (map CleanValue parts))"

definition plausible_author :: "env \<Rightarrow> string \<Rightarrow> string \<Rightarrow> bool" where
  "plausible_author u title name \<longleftrightarrow> \<not> (name = [] \<or> IsPlaceholder u name \<or> IsCredit u name \<or> IsJunkValue u name \<or> \<not> hasLetter u name)
     \<and> \<not> (title \<noteq> [] \<and> Fold u name = Fold u title)"

definition FilterMetadataAuthors :: "env \<Rightarrow> string list \<Rightarrow> string \<Rightarrow> string list" where
  "FilterMetadataAuthors u authors title = dedup_by (Fold u) {} (filter (plausible_author u title) (map CleanValue authors))"

section \<open>Label lines\<close>

definition titleKeys :: "string list" where
  "titleKeys = [''title'', ''c'' @ encode_rune 237 @ ''m'', ''cim'', ''k'' @ encode_rune 246 @ ''nyv c'' @ encode_rune 237 @ ''me'', ''konyv cime'', ''ti'']"

definition authorKeys :: "string list" where
  "authorKeys = [''author'', ''authors'', ''by'', ''creator'', ''szerz'' @ encode_rune 337, ''szerzo'', ''szerz'' @ encode_rune 337 @ ''k'', ''szerzok'',
     encode_rune 237 @ ''r'' @ encode_rune 243, ''iro'', ''au'']"

text \<open>The expression \<open>labelLine\<close> and its two groups.\<close>

definition label_rune :: "env \<Rightarrow> rune \<Rightarrow> bool" where
  "label_rune u r \<longleftrightarrow> is_letter u r \<or> is_number u r \<or> r = 32 \<or> r = 95 \<or> r = 45"

definition blank_rune :: "rune \<times> string \<Rightarrow> bool" where
  "blank_rune x \<longleftrightarrow> fst x = 32 \<or> fst x = 9"

definition labelLine :: "env \<Rightarrow> string \<Rightarrow> (string \<times> string) option" where
  "labelLine u s = (let ss = segs s; ks = takeWhile (label_rune u \<circ> fst) ss; after = dropWhile (label_rune u \<circ> fst) ss; rest = tl after;
       v = rev (dropWhile blank_rune (rev (dropWhile blank_rune rest))) in
     if ks \<noteq> [] \<and> is_letter u (fst (hd ks)) \<and> length ks \<le> 32 \<and> after \<noteq> [] \<and> fst (hd after) = 58
        \<and> rest \<noteq> [] \<and> list_all (\<lambda>x. fst x \<noteq> 10) rest
     then Some (bytes_of ks, bytes_of (if v = [] then [last rest] else v)) else None)"

definition upperLabel_re :: re where
  "upperLabel_re = (let up = Cls (\<lambda>r. 65 \<le> r \<and> r \<le> 90) in
     seqs [up, up, opt up, opt up, opt up, opt up, Star (one_of [chr 32, chr 9]), lit '':''])"

definition upperLabel :: "string \<Rightarrow> bool" where
  "upperLabel s \<longleftrightarrow> match_prefix (Seq upperLabel_re (Cls re_space)) (runes s) \<or> match_all upperLabel_re (runes s)"

definition parseLabelLine :: "env \<Rightarrow> string \<Rightarrow> (string \<times> string) option" where
  "parseLabelLine u line = map_option (map_prod trim_space id) (labelLine u (trim_space line))"

definition isTitleKey :: "env \<Rightarrow> string \<Rightarrow> bool" where
  "isTitleKey u key \<longleftrightarrow> to_lower u (trim_space key) \<in> set titleKeys"

definition isAuthorKey :: "env \<Rightarrow> string \<Rightarrow> bool" where
  "isAuthorKey u key \<longleftrightarrow> to_lower u (trim_space key) \<in> set authorKeys"

definition isKnownLabelLine :: "env \<Rightarrow> string \<Rightarrow> bool" where
  "isKnownLabelLine u line0 = (let line = trim_space line0 in
     upperLabel line \<or> (case parseLabelLine u line of Some (key, _) \<Rightarrow> isTitleKey u key \<or> isAuthorKey u key | None \<Rightarrow> False))"

definition label_step :: "env \<Rightarrow> string \<Rightarrow> string \<times> string list \<Rightarrow> string \<times> string list" where
  "label_step u line acc = (case acc of (title, authors) \<Rightarrow> (case parseLabelLine u line of
       None \<Rightarrow> (title, authors)
     | Some (key, raw) \<Rightarrow>
         if isTitleKey u key then
           (if title = [] then (let v = CleanValue raw in
              (if \<not> IsPlaceholder u v \<and> \<not> IsJunkValue u v then v else title, authors)) else (title, authors))
         else if isAuthorKey u key then
           (if authors = [] then (title, FilterMetadataAuthors u (SplitAuthors u raw) []) else (title, authors))
         else (title, authors)))"

definition parseLabels :: "env \<Rightarrow> string list \<Rightarrow> string \<times> string list" where
  "parseLabels u lines = fold (label_step u) lines ([], [])"

end
