(* ===== verification/TitlePage.thy ===== *)
theory TitlePage
  imports TextLabels
begin

text \<open>
  Model of \<open>internal/parser/textdoc/titlepage.go\<close>: the title and author read off the title page of a
  plain text, and the specification of the choice: the one reading that beats every other by two points.
\<close>

definition titlePageCandidateLimit :: nat where "titlePageCandidateLimit = 6"
definition pairScoreThreshold :: int where "pairScoreThreshold = 6"

section \<open>Lines of a title page\<close>

definition isTitlePageNoise :: "env \<Rightarrow> string \<Rightarrow> bool" where
  "isTitlePageNoise u line \<longleftrightarrow> IsJunkValue u line \<or> IsCredit u line \<or> isPageNumber u line \<or> isChapterHeading u line"

definition isSentenceLine :: "env \<Rightarrow> string \<Rightarrow> bool" where
  "isSentenceLine u line \<longleftrightarrow> has_suffix line ''.'' \<and> 2 \<le> length (GoStrings.fields line)
     \<and> list_ex (\<lambda>w. is_lower u (firstRune (trimWord w))) (GoStrings.fields line)"

fun page_lines :: "env \<Rightarrow> string list \<Rightarrow> string list \<Rightarrow> string list" where
  "page_lines u out [] = out"
| "page_lines u out (raw # ls) = (let line = trim_space raw in
     if line = [] then page_lines u out ls
     else if isKnownLabelLine u line \<or> isTitlePageNoise u line then (if out \<noteq> [] then out else page_lines u out ls)
     else if isSentenceLine u line \<or> LooksLikeProse line then out
     else if titlePageCandidateLimit \<le> length (out @ [line]) then out @ [line]
     else page_lines u (out @ [line]) ls)"

definition titlePageCandidates :: "env \<Rightarrow> string list \<Rightarrow> string list" where
  "titlePageCandidates u lines = page_lines u [] (take metadataLines lines)"

section \<open>Pairs\<close>

fun pair_splits :: "nat \<Rightarrow> string \<Rightarrow> string \<Rightarrow> nat \<Rightarrow> (string \<times> string) list" where
  "pair_splits 0 sep line idx = []"
| "pair_splits (Suc n) sep line idx = (case index_of (drop idx line) sep of
       None \<Rightarrow> []
     | Some j \<Rightarrow> (let i = idx + j; left = trim_space (take i line); right = trim_space (drop (i + length sep) line) in
         (if left \<noteq> [] \<and> right \<noteq> [] then [(left, right)] else []) @ pair_splits n sep line (i + length sep)))"

definition pairSeparators :: "string list" where
  "pairSeparators = ['': '', '' - '', '' '' @ encode_rune 8211 @ '' '', '' '' @ encode_rune 8212 @ '' '']"

definition splitPairLine :: "string \<Rightarrow> (string \<times> string) list" where
  "splitPairLine line = concat (map (\<lambda>sep. pair_splits (if sep = '': '' then 1 else 3) sep line 0) pairSeparators)"

text \<open>A reading of the page: its title, its authors and its score.\<close>

record reading =
  rd_title :: string
  rd_authors :: "string list"
  rd_score :: int

definition pair_reading :: "env \<Rightarrow> string \<Rightarrow> string \<Rightarrow> reading" where
  "pair_reading u name title = \<lparr>rd_title = title, rd_authors = [name], rd_score = ScoreName u name + ScoreTitle u title\<rparr>"

definition orientPair :: "env \<Rightarrow> string \<Rightarrow> string \<Rightarrow> reading option" where
  "orientPair u a b = (let aName = IsName u a; bName = IsName u b; aTitle = IsTitle u a; bTitle = IsTitle u b;
       aScore = ScoreName u a + ScoreTitle u b; bScore = ScoreName u b + ScoreTitle u a;
       aFits = (aName \<and> bTitle); bFits = (bName \<and> aTitle) in
     if aFits \<and> \<not> bFits then Some (pair_reading u a b)
     else if bFits \<and> \<not> aFits then Some (pair_reading u b a)
     else if aFits \<and> bFits then
       (if bScore + 2 \<le> aScore then Some (pair_reading u a b)
        else if aScore + 2 \<le> bScore then Some (pair_reading u b a) else None)
     else None)"

section \<open>The choice\<close>

definition consider_reading :: "env \<Rightarrow> reading \<Rightarrow> reading \<times> int \<Rightarrow> reading \<times> int" where
  "consider_reading u r acc = (case acc of (best, second) \<Rightarrow>
     if rd_score r \<le> 0 \<or> IsJunkValue u (rd_title r) \<or> IsCredit u (rd_title r) then (best, second)
     else if rd_score best < rd_score r then (r, rd_score best)
     else if second < rd_score r then (best, rd_score r)
     else (best, second))"

definition opt_list :: "'a option \<Rightarrow> 'a list" where
  "opt_list m = (case m of None \<Rightarrow> [] | Some x \<Rightarrow> [x])"

definition page_readings :: "env \<Rightarrow> string list \<Rightarrow> reading list" where
  "page_readings u c =
     concat (map (\<lambda>line. concat (map (\<lambda>p. opt_list (orientPair u (fst p) (snd p))) (splitPairLine line))) (take 2 c))
     @ (if 2 \<le> length c then opt_list (orientPair u (c ! 0) (c ! 1)) else [])
     @ (if 3 \<le> length c then
          (let joinedAuthor = join '' '' (take 2 c); joinedTitle = join '' '' (take 2 (drop 1 c)) in
           (if IsName u joinedAuthor \<and> IsTitle u (c ! 2) then [pair_reading u joinedAuthor (c ! 2)] else [])
           @ (if IsName u (c ! 0) \<and> IsTitle u joinedTitle then [pair_reading u (c ! 0) joinedTitle] else []))
        else [])"

definition choose_reading :: "env \<Rightarrow> reading list \<Rightarrow> (string \<times> string list) option" where
  "choose_reading u rs = (case fold (consider_reading u) rs (\<lparr>rd_title = [], rd_authors = [], rd_score = - 1\<rparr>, - 1) of (best, second) \<Rightarrow>
     if rd_score best < pairScoreThreshold then None
     else if 0 \<le> second \<and> rd_score best - second < 2 then None
     else Some (rd_title best, rd_authors best))"

definition titlePagePair :: "env \<Rightarrow> string list \<Rightarrow> (string \<times> string list) option" where
  "titlePagePair u lines = (let c = titlePageCandidates u lines in
     if c = [] then None else choose_reading u (page_readings u c))"

section \<open>The specification of the choice\<close>

text \<open>The readings that count, and the reading that stands out among them.\<close>

definition counted :: "env \<Rightarrow> reading list \<Rightarrow> reading list" where
  "counted u rs = filter (\<lambda>r. 0 < rd_score r \<and> \<not> IsJunkValue u (rd_title r) \<and> \<not> IsCredit u (rd_title r)) rs"

definition stands_out :: "reading multiset \<Rightarrow> reading \<Rightarrow> bool" where
  "stands_out M r \<longleftrightarrow> r \<in># M \<and> pairScoreThreshold \<le> rd_score r \<and> (\<forall>q \<in># M - {#r#}. rd_score q \<le> rd_score r - 2)"

definition consider_score :: "reading \<Rightarrow> reading \<times> int \<Rightarrow> reading \<times> int" where
  "consider_score r acc = (case acc of (best, second) \<Rightarrow>
     if rd_score best < rd_score r then (r, rd_score best)
     else if second < rd_score r then (best, rd_score r) else (best, second))"

lemma fold_consider: "fold (consider_reading u) rs acc = fold consider_score (counted u rs) acc"
  by (induction rs arbitrary: acc) (auto simp: counted_def consider_reading_def consider_score_def split: prod.split)

definition no_reading :: reading where
  "no_reading = \<lparr>rd_title = [], rd_authors = [], rd_score = - 1\<rparr>"

text \<open>After the readings \<open>M\<close>: the best of them, and the best score of the others.\<close>

definition leads :: "reading multiset \<Rightarrow> reading \<times> int \<Rightarrow> bool" where
  "leads M acc \<longleftrightarrow> (case acc of (best, second) \<Rightarrow>
     if M = {#} then best = no_reading \<and> second = - 1
     else best \<in># M \<and> second \<le> rd_score best \<and> (\<forall>q \<in># M - {#best#}. rd_score q \<le> second)
       \<and> (if M = {#best#} then second = - 1 else \<exists>q \<in># M - {#best#}. rd_score q = second))"

lemma leads_step:
  assumes "leads M (b, s)" "0 < rd_score r"
  shows "leads (add_mset r M) (consider_score r (b, s))"
proof (cases "M = {#}")
  case True
  then show ?thesis using assms by (simp add: leads_def consider_score_def no_reading_def)
next
  case False
  then have b: "b \<in># M" "s \<le> rd_score b" "\<And>q. q \<in># M - {#b#} \<Longrightarrow> rd_score q \<le> s"
      "M = {#b#} \<Longrightarrow> s = - 1" "M \<noteq> {#b#} \<Longrightarrow> \<exists>q \<in># M - {#b#}. rd_score q = s"
    using assms(1) by (auto simp: leads_def)
  obtain N where N: "M = add_mset b N" using b(1) by (metis mset_add)
  consider (best) "rd_score b < rd_score r" | (second) "rd_score r \<le> rd_score b" "s < rd_score r" | (rest) "rd_score r \<le> s" by linarith
  then show ?thesis
  proof cases
    case best
    moreover have "rd_score q \<le> rd_score b" if "q \<in># M" for q using that b(2,3) unfolding N by fastforce
    ultimately show ?thesis using False b(1) by (auto simp: leads_def consider_score_def)
  next
    case second
    then show ?thesis using b unfolding N by (fastforce simp: leads_def consider_score_def add_mset_commute)
  next
    case rest
    then have "M \<noteq> {#b#}" using b(4) assms(2) by auto
    then show ?thesis using b rest unfolding N by (fastforce simp: leads_def consider_score_def add_mset_commute)
  qed
qed

lemma leads_fold:
  assumes "leads M acc" "\<forall>r \<in> set rs. 0 < rd_score r"
  shows "leads (mset rs + M) (fold consider_score rs acc)"
  using assms
proof (induction rs arbitrary: M acc)
  case (Cons r rs)
  then show ?case using leads_step [of M "fst acc" "snd acc" r] Cons.IH [of "add_mset r M"] by simp
qed simp

text \<open>The loop returns the reading that stands out, whatever the order of the readings.\<close>

lemma choose_reading_iff:
  "choose_reading u rs = Some (t, a) \<longleftrightarrow> (\<exists>r. stands_out (mset (counted u rs)) r \<and> t = rd_title r \<and> a = rd_authors r)"
proof -
  let ?M = "mset (counted u rs)"
  obtain b s where acc: "fold (consider_reading u) rs (no_reading, - 1) = (b, s)" by force
  have "leads (?M + {#}) (fold consider_score (counted u rs) (no_reading, - 1))"
    by (rule leads_fold) (auto simp: leads_def counted_def)
  then have lead: "leads ?M (b, s)" using acc by (simp add: fold_consider)
  have out: "stands_out ?M r \<longleftrightarrow> r = b \<and> pairScoreThreshold \<le> rd_score b \<and> (s < 0 \<or> 2 \<le> rd_score b - s)" for r
  proof (cases "?M = {#}")
    case True
    then show ?thesis using lead by (auto simp: leads_def stands_out_def no_reading_def pairScoreThreshold_def)
  next
    case False
    then have b: "b \<in># ?M" "s \<le> rd_score b" "\<And>q. q \<in># ?M - {#b#} \<Longrightarrow> rd_score q \<le> s"
        "?M = {#b#} \<Longrightarrow> s = - 1" "?M \<noteq> {#b#} \<Longrightarrow> \<exists>q \<in># ?M - {#b#}. rd_score q = s"
      using lead by (auto simp: leads_def)
    have pos: "0 < rd_score q" if "q \<in># ?M" for q using that by (auto simp: counted_def)
    have same: "r = b" if "stands_out ?M r"
    proof (rule ccontr)
      assume "r \<noteq> b"
      then have "b \<in># ?M - {#r#}" "r \<in># ?M - {#b#}" using b(1) that by (auto simp: stands_out_def in_diff_count count_greater_zero_iff)
      then have "rd_score b \<le> rd_score r - 2" "rd_score r \<le> s" using that b(3) by (auto simp: stands_out_def)
      then show False using b(2) by linarith
    qed
    have "(\<forall>q \<in># ?M - {#b#}. rd_score q \<le> rd_score b - 2) \<longleftrightarrow> s < 0 \<or> 2 \<le> rd_score b - s"
    proof (cases "?M = {#b#}")
      case True
      then show ?thesis using b(4) by simp
    next
      case False
      then obtain q where q: "q \<in># ?M - {#b#}" "rd_score q = s" using b(5) by blast
      then have "0 < s" using pos [of q] by (auto dest: in_diffD)
      then show ?thesis using q b(3) by force
    qed
    then show ?thesis using same b(1) by (auto simp: stands_out_def)
  qed
  show ?thesis unfolding out using acc by (auto simp: choose_reading_def no_reading_def)
qed

text \<open>Which of two lines comes first does not matter.\<close>

lemma lead_once:
  "(y :: int) + 2 \<le> x \<Longrightarrow> (x + 2 \<le> y) = False"
  by simp

lemma orientPair_commute: "orientPair u a b = orientPair u b a"
  by (cases "IsName u a \<and> IsTitle u b"; cases "IsName u b \<and> IsTitle u a"; cases "ScoreName u b + ScoreTitle u a + 2 \<le> ScoreName u a + ScoreTitle u b")
    (simp_all only: orientPair_def Let_def if_True if_False simp_thms lead_once)

lemma two_line_readings: "mset (page_readings u [a, b]) = mset (page_readings u [b, a])"
  by (simp add: page_readings_def orientPair_commute [of u a b])

lemma option_same: "(\<And>p. m = Some p \<longleftrightarrow> n = Some p) \<Longrightarrow> m = n"
  by (cases m; cases n) auto

lemma choose_reading_cong:
  assumes "mset rs = mset rs'"
  shows "choose_reading u rs = choose_reading u rs'"
proof -
  have same: "mset (counted u rs) = mset (counted u rs')" using assms by (simp add: counted_def)
  have "choose_reading u rs = Some p \<longleftrightarrow> choose_reading u rs' = Some p" for p
    using choose_reading_iff [of u rs "fst p" "snd p"] choose_reading_iff [of u rs' "fst p" "snd p"] unfolding same by simp
  then show ?thesis by (rule option_same)
qed

section \<open>The readings of a page\<close>

text \<open>
  Which readings a page has, stated apart from the code: the \<open>k\<close>-th occurrence of a separator in one of the first two
  lines, the first two lines, or a name or a title wrapped over two lines. A reading is told from the others by its place.
\<close>

datatype place = OnLine nat string nat | TwoLines | WrappedName | WrappedTitle

primrec occurrence :: "string \<Rightarrow> string \<Rightarrow> nat \<Rightarrow> nat option" where
  "occurrence sep line 0 = index_of line sep"
| "occurrence sep line (Suc k) = (case occurrence sep line k of None \<Rightarrow> None
     | Some i \<Rightarrow> map_option (\<lambda>j. i + length sep + j) (index_of (drop (i + length sep) line) sep))"

definition fits :: "env \<Rightarrow> string \<Rightarrow> string \<Rightarrow> bool" where
  "fits u name title \<longleftrightarrow> IsName u name \<and> IsTitle u title"

definition points :: "env \<Rightarrow> string \<Rightarrow> string \<Rightarrow> int" where
  "points u name title = ScoreName u name + ScoreTitle u title"

text \<open>One of two texts is the name and the other the title; when both ways fit, one has to be better by two points.\<close>

inductive reads_pair :: "env \<Rightarrow> string \<Rightarrow> string \<Rightarrow> reading \<Rightarrow> bool" for u a b where
  "name = a \<and> title = b \<or> name = b \<and> title = a \<Longrightarrow> fits u name title \<Longrightarrow>
   \<not> fits u title name \<or> points u title name + 2 \<le> points u name title \<Longrightarrow>
   reads_pair u a b \<lparr>rd_title = title, rd_authors = [name], rd_score = points u name title\<rparr>"

inductive reads_at :: "env \<Rightarrow> string list \<Rightarrow> place \<Rightarrow> reading \<Rightarrow> bool" for u c where
  "n < 2 \<Longrightarrow> n < length c \<Longrightarrow> sep \<in> {'': '', '' - '', '' '' @ encode_rune 8211 @ '' '', '' '' @ encode_rune 8212 @ '' ''} \<Longrightarrow>
   k < (if sep = '': '' then 1 else 3) \<Longrightarrow> occurrence sep (c ! n) k = Some i \<Longrightarrow>
   left = trim_space (take i (c ! n)) \<Longrightarrow> right = trim_space (drop (i + length sep) (c ! n)) \<Longrightarrow> left \<noteq> [] \<Longrightarrow> right \<noteq> [] \<Longrightarrow>
   reads_pair u left right r \<Longrightarrow> reads_at u c (OnLine n sep k) r"
| "2 \<le> length c \<Longrightarrow> reads_pair u (c ! 0) (c ! 1) r \<Longrightarrow> reads_at u c TwoLines r"
| "3 \<le> length c \<Longrightarrow> name = c ! 0 @ '' '' @ c ! 1 \<Longrightarrow> title = c ! 2 \<Longrightarrow> fits u name title \<Longrightarrow>
   reads_at u c WrappedName \<lparr>rd_title = title, rd_authors = [name], rd_score = points u name title\<rparr>"
| "3 \<le> length c \<Longrightarrow> name = c ! 0 \<Longrightarrow> title = c ! 1 @ '' '' @ c ! 2 \<Longrightarrow> fits u name title \<Longrightarrow>
   reads_at u c WrappedTitle \<lparr>rd_title = title, rd_authors = [name], rd_score = points u name title\<rparr>"

inductive_simps reads_at_simps:
  "reads_at u c (OnLine n sep k) r" "reads_at u c TwoLines r" "reads_at u c WrappedName r" "reads_at u c WrappedTitle r"

definition counts_for :: "env \<Rightarrow> reading \<Rightarrow> bool" where
  "counts_for u r \<longleftrightarrow> 0 < rd_score r \<and> \<not> IsJunkValue u (rd_title r) \<and> \<not> IsCredit u (rd_title r)"

text \<open>The reading at a place has at least six points and beats the readings at all other places by two.\<close>

definition clear_reading :: "env \<Rightarrow> string list \<Rightarrow> place \<Rightarrow> reading \<Rightarrow> bool" where
  "clear_reading u c p r \<longleftrightarrow> reads_at u c p r \<and> counts_for u r \<and> 6 \<le> rd_score r
     \<and> (\<forall>q r'. reads_at u c q r' \<and> counts_for u r' \<and> q \<noteq> p \<longrightarrow> rd_score r' + 2 \<le> rd_score r)"

section \<open>The code finds all readings, each once\<close>

lemma orientPair_fits: "orientPair u a b = (
     if fits u a b \<and> \<not> fits u b a then Some \<lparr>rd_title = b, rd_authors = [a], rd_score = points u a b\<rparr>
     else if fits u b a \<and> \<not> fits u a b then Some \<lparr>rd_title = a, rd_authors = [b], rd_score = points u b a\<rparr>
     else if fits u a b \<and> points u b a + 2 \<le> points u a b then Some \<lparr>rd_title = b, rd_authors = [a], rd_score = points u a b\<rparr>
     else if fits u a b \<and> points u a b + 2 \<le> points u b a then Some \<lparr>rd_title = a, rd_authors = [b], rd_score = points u b a\<rparr> else None)"
  unfolding orientPair_def Let_def pair_reading_def fits_def [symmetric] points_def [symmetric] by simp

lemma reads_pair_iff: "reads_pair u a b r \<longleftrightarrow>
     r = \<lparr>rd_title = b, rd_authors = [a], rd_score = points u a b\<rparr> \<and> fits u a b \<and> (\<not> fits u b a \<or> points u b a + 2 \<le> points u a b)
   \<or> r = \<lparr>rd_title = a, rd_authors = [b], rd_score = points u b a\<rparr> \<and> fits u b a \<and> (\<not> fits u a b \<or> points u a b + 2 \<le> points u b a)"
proof
  assume "reads_pair u a b r"
  then show "r = \<lparr>rd_title = b, rd_authors = [a], rd_score = points u a b\<rparr> \<and> fits u a b \<and> (\<not> fits u b a \<or> points u b a + 2 \<le> points u a b)
   \<or> r = \<lparr>rd_title = a, rd_authors = [b], rd_score = points u b a\<rparr> \<and> fits u b a \<and> (\<not> fits u a b \<or> points u a b + 2 \<le> points u b a)"
    by cases (elim disjE conjE; hypsubst; blast)
qed (elim disjE conjE; hypsubst; rule reads_pair.intros; blast)

lemma one_way:
  assumes "\<not> (P \<and> Q)"
  shows "r \<in> set (opt_list (if A \<and> \<not> B then Some x else if B \<and> \<not> A then Some y else if A \<and> P then Some x else if A \<and> Q then Some y else None))
    \<longleftrightarrow> r = x \<and> A \<and> (\<not> B \<or> P) \<or> r = y \<and> B \<and> (\<not> A \<or> Q)"
  using assms by (cases A; cases B; cases P; cases Q) (simp_all add: opt_list_def)

lemma orientPair_iff: "r \<in> set (opt_list (orientPair u a b)) \<longleftrightarrow> reads_pair u a b r"
  unfolding orientPair_fits reads_pair_iff by (rule one_way) linarith

lemma orientPair_once: "length (opt_list m) \<le> 1"
  by (cases m) (simp_all add: opt_list_def)

text \<open>The offsets at which a line is cut, and the pair at one of them.\<close>

fun occurrences :: "nat \<Rightarrow> string \<Rightarrow> string \<Rightarrow> nat \<Rightarrow> nat list" where
  "occurrences 0 sep line idx = []"
| "occurrences (Suc n) sep line idx = (case index_of (drop idx line) sep of
       None \<Rightarrow> [] | Some j \<Rightarrow> (idx + j) # occurrences n sep line (idx + j + length sep))"

definition cut_at :: "string \<Rightarrow> string \<Rightarrow> nat \<Rightarrow> (string \<times> string) list" where
  "cut_at sep line i = (let left = trim_space (take i line); right = trim_space (drop (i + length sep) line) in
     if left \<noteq> [] \<and> right \<noteq> [] then [(left, right)] else [])"

lemma pair_splits_cut: "pair_splits n sep line idx = concat (map (cut_at sep line) (occurrences n sep line idx))"
  by (induction n arbitrary: idx) (simp_all add: cut_at_def Let_def split: option.split)

definition nth_opt :: "'a list \<Rightarrow> nat \<Rightarrow> 'a option" where
  "nth_opt xs m = (if m < length xs then Some (xs ! m) else None)"

lemma nth_opt_simps [simp]: "nth_opt [] m = None" "nth_opt (x # xs) 0 = Some x" "nth_opt (x # xs) (Suc m) = nth_opt xs m"
  by (simp_all add: nth_opt_def)

lemma occurrence_ends: "occurrence sep line k = None \<Longrightarrow> occurrence sep line (k + m) = None"
  by (induction m) simp_all

lemma occurrences_later:
  "occurrence sep line k = Some i \<Longrightarrow>
     nth_opt (occurrences n sep line (i + length sep)) m = (if m < n then occurrence sep line (Suc k + m) else None)"
proof (induction n arbitrary: k i m)
  case (Suc n)
  show ?case
  proof (cases "index_of (drop (i + length sep) line) sep")
    case None
    then have "occurrence sep line (Suc k) = None" using Suc.prems by simp
    from occurrence_ends [OF this, of m] show ?thesis using None by simp
  next
    case (Some j)
    then have here: "occurrence sep line (Suc k) = Some (i + length sep + j)" using Suc.prems by simp
    show ?thesis
    proof (cases m)
      case 0
      then show ?thesis using Some here by simp
    next
      case (Suc m')
      then show ?thesis using Suc.IH [OF here, of m'] Some by (simp del: occurrence.simps)
    qed
  qed
qed simp

lemma occurrences_nth:
  "(q, x) \<in> set (enumerate 0 (occurrences n sep line 0)) \<longleftrightarrow> q < n \<and> occurrence sep line q = Some x"
proof -
  have "nth_opt (occurrences n sep line 0) q = (if q < n then occurrence sep line q else None)"
  proof (cases n)
    case (Suc m)
    show ?thesis
    proof (cases "index_of line sep")
      case None
      then show ?thesis using occurrence_ends [of sep line 0 q] by (simp add: Suc)
    next
      case (Some i)
      then show ?thesis using occurrences_later [of sep line 0 i m "q - 1"] by (cases q) (simp_all add: Suc del: occurrence.simps(2))
    qed
  qed simp
  then show ?thesis by (auto simp: in_set_enumerate_eq nth_opt_def split: if_splits)
qed

text \<open>The readings of the code with their places.\<close>

definition line_places :: "env \<Rightarrow> nat \<Rightarrow> string \<Rightarrow> string \<Rightarrow> (place \<times> reading) list" where
  "line_places u n line sep = concat (map (\<lambda>(k, i). concat (map (\<lambda>p. map (Pair (OnLine n sep k)) (opt_list (orientPair u (fst p) (snd p)))) (cut_at sep line i)))
     (enumerate 0 (occurrences (if sep = '': '' then 1 else 3) sep line 0)))"

definition page_places :: "env \<Rightarrow> string list \<Rightarrow> (place \<times> reading) list" where
  "page_places u c =
     concat (map (\<lambda>(n, line). concat (map (line_places u n line) pairSeparators)) (enumerate 0 (take 2 c)))
     @ (if 2 \<le> length c then map (Pair TwoLines) (opt_list (orientPair u (c ! 0) (c ! 1))) else [])
     @ (if 3 \<le> length c then
          (let joinedAuthor = join '' '' (take 2 c); joinedTitle = join '' '' (take 2 (drop 1 c)) in
           (if IsName u joinedAuthor \<and> IsTitle u (c ! 2) then [(WrappedName, pair_reading u joinedAuthor (c ! 2))] else [])
           @ (if IsName u (c ! 0) \<and> IsTitle u joinedTitle then [(WrappedTitle, pair_reading u (c ! 0) joinedTitle)] else []))
        else [])"

lemma concat_map_enumerate: "concat (map (\<lambda>(n, x). f x) (enumerate m xs)) = concat (map f xs)"
  by (induction xs arbitrary: m) simp_all

lemma concat_concat_map: "concat (map f (concat xss)) = concat (map (\<lambda>xs. concat (map f xs)) xss)"
  by (induction xss) simp_all

lemma line_places_snd: "map snd (line_places u n line sep)
    = concat (map (\<lambda>p. opt_list (orientPair u (fst p) (snd p))) (pair_splits (if sep = '': '' then 1 else 3) sep line 0))"
proof -
  have "map snd (line_places u n line sep) = concat (map (\<lambda>(k, i). concat (map (\<lambda>p. opt_list (orientPair u (fst p) (snd p))) (cut_at sep line i)))
      (enumerate 0 (occurrences (if sep = '': '' then 1 else 3) sep line 0)))"
    by (simp add: line_places_def map_concat comp_def case_prod_unfold)
  then show ?thesis unfolding pair_splits_cut concat_concat_map map_map comp_def concat_map_enumerate .
qed

lemma page_places_snd: "map snd (page_places u c) = page_readings u c"
proof -
  have "map snd (concat (map (line_places u n line) pairSeparators))
    = concat (map (\<lambda>p. opt_list (orientPair u (fst p) (snd p))) (splitPairLine line))" for n line
  proof -
    have "map snd (concat (map (line_places u n line) pairSeparators)) = concat (map (\<lambda>sep. map snd (line_places u n line sep)) pairSeparators)"
      by (simp add: map_concat comp_def)
    then show ?thesis unfolding splitPairLine_def concat_concat_map map_map comp_def line_places_snd .
  qed
  then have "map snd (concat (map (\<lambda>(n, line). concat (map (line_places u n line) pairSeparators)) (enumerate 0 (take 2 c))))
    = concat (map (\<lambda>line. concat (map (\<lambda>p. opt_list (orientPair u (fst p) (snd p))) (splitPairLine line))) (take 2 c))"
    using concat_map_enumerate [of "\<lambda>line. concat (map (\<lambda>p. opt_list (orientPair u (fst p) (snd p))) (splitPairLine line))" 0 "take 2 c"]
    by (simp add: map_concat comp_def case_prod_unfold)
  then show ?thesis by (simp add: page_places_def page_readings_def Let_def comp_def)
qed

lemma distinct_concat_keys:
  assumes "distinct (map k xs)" "\<And>x. x \<in> set xs \<Longrightarrow> distinct (f x) \<and> (\<forall>p \<in> set (f x). K p = k x)"
  shows "distinct (concat (map f xs))"
  using assms
proof (induction xs)
  case (Cons x xs)
  have "K p \<noteq> k x" if p: "p \<in> set (concat (map f xs))" for p
  proof -
    obtain y where y: "y \<in> set xs" "p \<in> set (f y)" using p by auto
    then have "K p = k y" using Cons.prems(2) [of y] by simp
    moreover have "k y \<noteq> k x" using Cons.prems(1) y(1) by (auto simp: image_iff)
    ultimately show ?thesis by simp
  qed
  moreover have fx: "distinct (f x)" "\<forall>p \<in> set (f x). K p = k x" using Cons.prems(2) [of x] by simp_all
  ultimately have "set (f x) \<inter> set (concat (map f xs)) = {}" by blast
  moreover have "distinct (concat (map f xs))"
  proof (rule Cons.IH)
    show "distinct (map k xs)" using Cons.prems(1) by simp
    show "distinct (f y) \<and> (\<forall>p \<in> set (f y). K p = k y)" if "y \<in> set xs" for y using Cons.prems(2) [of y] that by simp
  qed
  ultimately show ?case using fx(1) by simp
qed simp

lemma separators_distinct: "distinct pairSeparators"
  by (simp add: pairSeparators_def encode_rune_def chr_numeral)

lemma line_places_distinct:
  "distinct (map fst (line_places u n line sep)) \<and> (\<forall>p \<in> set (map fst (line_places u n line sep)). \<exists>k. p = OnLine n sep k)"
proof -
  let ?f = "\<lambda>x :: nat \<times> nat. map fst (concat (map (\<lambda>p. map (Pair (OnLine n sep (fst x))) (opt_list (orientPair u (fst p) (snd p)))) (cut_at sep line (snd x))))"
  have f: "distinct (?f x) \<and> (\<forall>p \<in> set (?f x). p = OnLine n sep (fst x))" for x
    by (auto simp: cut_at_def Let_def opt_list_def split: option.split)
  have eq: "map fst (line_places u n line sep) = concat (map ?f (enumerate 0 (occurrences (if sep = '': '' then 1 else 3) sep line 0)))"
    unfolding line_places_def by (simp add: map_concat comp_def case_prod_unfold)
  have "distinct (concat (map ?f (enumerate 0 (occurrences (if sep = '': '' then 1 else 3) sep line 0))))"
    by (rule distinct_concat_keys [where k = fst and K = "\<lambda>p. case p of OnLine n sep k \<Rightarrow> k | _ \<Rightarrow> 0"]) (use f in auto)
  then show ?thesis unfolding eq using f by auto
qed

lemma page_places_distinct: "distinct (map fst (page_places u c))"
proof -
  let ?g = "\<lambda>n line. map fst (concat (map (line_places u n line) pairSeparators))"
  have g: "distinct (?g n line) \<and> (\<forall>p \<in> set (?g n line). \<exists>sep k. p = OnLine n sep k)" for n line
  proof -
    have "distinct (concat (map (\<lambda>sep. map fst (line_places u n line sep)) pairSeparators))"
      by (rule distinct_concat_keys [where k = "\<lambda>s. s" and K = "\<lambda>p. case p of OnLine n sep k \<Rightarrow> sep | _ \<Rightarrow> []"])
        (use line_places_distinct [of u n line] in \<open>simp add: separators_distinct, fastforce\<close>)
    then show ?thesis using line_places_distinct [of u n line] by (fastforce simp: map_concat comp_def)
  qed
  define L where "L = concat (map (\<lambda>x. ?g (fst x) (snd x)) (enumerate 0 (take 2 c)))"
  have "distinct L" unfolding L_def
    by (rule distinct_concat_keys [where k = fst and K = "\<lambda>p. case p of OnLine n sep k \<Rightarrow> n | _ \<Rightarrow> 0"]) (use g in fastforce)+
  moreover have "\<forall>p \<in> set L. \<exists>n sep k. p = OnLine n sep k" unfolding L_def using g by fastforce
  then have "TwoLines \<notin> set L" "WrappedName \<notin> set L" "WrappedTitle \<notin> set L" by blast+
  moreover have "map fst (concat (map (\<lambda>(n, line). concat (map (line_places u n line) pairSeparators)) (enumerate 0 (take 2 c)))) = L"
    by (simp add: L_def map_concat comp_def case_prod_unfold)
  ultimately show ?thesis
    unfolding page_places_def map_append by (auto simp: Let_def opt_list_def split: option.split)
qed

text \<open>They are just the readings of the specification.\<close>

definition line_reading :: "env \<Rightarrow> string \<Rightarrow> string \<Rightarrow> nat \<Rightarrow> reading \<Rightarrow> bool" where
  "line_reading u line sep k r \<longleftrightarrow> k < (if sep = '': '' then 1 else 3) \<and> (\<exists>i left right. occurrence sep line k = Some i
     \<and> left = trim_space (take i line) \<and> right = trim_space (drop (i + length sep) line) \<and> left \<noteq> [] \<and> right \<noteq> [] \<and> reads_pair u left right r)"

lemma cut_at_iff: "(\<exists>q \<in> set (cut_at sep line i). P (fst q) (snd q))
    \<longleftrightarrow> (\<exists>left right. left = trim_space (take i line) \<and> right = trim_space (drop (i + length sep) line) \<and> left \<noteq> [] \<and> right \<noteq> [] \<and> P left right)"
  by (simp add: cut_at_def Let_def)

lemma in_pair_lists:
  "(p, r) \<in> set (concat (map (\<lambda>(k, i). concat (map (\<lambda>q. map (Pair (f k)) (g q)) (h i))) E))
     \<longleftrightarrow> (\<exists>k i. (k, i) \<in> set E \<and> p = f k \<and> (\<exists>q \<in> set (h i). r \<in> set (g q)))"
  by fastforce

lemma in_line_lists:
  "x \<in> set (concat (map (\<lambda>(n, l). concat (map (f n l) ss)) E)) \<longleftrightarrow> (\<exists>n l s. (n, l) \<in> set E \<and> s \<in> set ss \<and> x \<in> set (f n l s))"
  by fastforce

lemma line_places_iff: "(p, r) \<in> set (line_places u n line sep) \<longleftrightarrow> (\<exists>k. p = OnLine n sep k \<and> line_reading u line sep k r)"
proof -
  have "(p, r) \<in> set (line_places u n line sep) \<longleftrightarrow> (\<exists>k i. (k, i) \<in> set (enumerate 0 (occurrences (if sep = '': '' then 1 else 3) sep line 0))
     \<and> p = OnLine n sep k \<and> (\<exists>q \<in> set (cut_at sep line i). r \<in> set (opt_list (orientPair u (fst q) (snd q)))))"
    unfolding line_places_def by (rule in_pair_lists)
  also have "\<dots> \<longleftrightarrow> (\<exists>k. p = OnLine n sep k \<and> line_reading u line sep k r)"
    unfolding occurrences_nth orientPair_iff cut_at_iff [where P = "\<lambda>x y. reads_pair u x y r"] line_reading_def by (simp, blast)
  finally show ?thesis .
qed

lemma on_line_iff: "reads_at u c (OnLine n sep k) r \<longleftrightarrow> n < 2 \<and> n < length c
    \<and> sep \<in> {'': '', '' - '', '' '' @ encode_rune 8211 @ '' '', '' '' @ encode_rune 8212 @ '' ''} \<and> line_reading u (c ! n) sep k r"
  by (simp add: reads_at_simps line_reading_def)

lemma page_lines_iff:
  "(p, r) \<in> set (concat (map (\<lambda>(n, line). concat (map (line_places u n line) pairSeparators)) (enumerate 0 (take 2 c))))
     \<longleftrightarrow> (\<exists>n sep k. p = OnLine n sep k \<and> reads_at u c p r)"
proof -
  have seps: "set pairSeparators = {'': '', '' - '', '' '' @ encode_rune 8211 @ '' '', '' '' @ encode_rune 8212 @ '' ''}"
    unfolding pairSeparators_def by simp
  have lines: "(n, line) \<in> set (enumerate 0 (take 2 c)) \<longleftrightarrow> n < 2 \<and> n < length c \<and> line = c ! n" for n line
    by (auto simp: in_set_enumerate_eq)
  have "(p, r) \<in> set (concat (map (\<lambda>(n, line). concat (map (line_places u n line) pairSeparators)) (enumerate 0 (take 2 c))))
     \<longleftrightarrow> (\<exists>n line sep. (n, line) \<in> set (enumerate 0 (take 2 c)) \<and> sep \<in> set pairSeparators \<and> (p, r) \<in> set (line_places u n line sep))"
    by (rule in_line_lists)
  also have "\<dots> \<longleftrightarrow> (\<exists>n sep k. p = OnLine n sep k \<and> reads_at u c (OnLine n sep k) r)"
    unfolding line_places_iff on_line_iff seps lines by blast
  finally show ?thesis by blast
qed

lemma page_places_iff: "(p, r) \<in> set (page_places u c) \<longleftrightarrow> reads_at u c p r"
proof -
  have "join '' '' (take 2 c) = c ! 0 @ '' '' @ c ! 1" "join '' '' (take 2 (drop 1 c)) = c ! 1 @ '' '' @ c ! 2" if c: "3 \<le> length c"
  proof -
    obtain x y z zs where "c = x # y # z # zs" using c by (metis Suc_le_length_iff numeral_3_eq_3)
    then show "join '' '' (take 2 c) = c ! 0 @ '' '' @ c ! 1" "join '' '' (take 2 (drop 1 c)) = c ! 1 @ '' '' @ c ! 2" by simp_all
  qed
  then show ?thesis
    unfolding page_places_def set_append Un_iff page_lines_iff
    by (cases p) (auto simp: Let_def reads_at_simps orientPair_iff fits_def points_def pair_reading_def)
qed

lemma clear_among:
  assumes "distinct (map fst ps)"
  shows "stands_out (mset (counted u (map snd ps))) r \<longleftrightarrow> (\<exists>p. (p, r) \<in> set ps \<and> counts_for u r \<and> pairScoreThreshold \<le> rd_score r
     \<and> (\<forall>q r'. (q, r') \<in> set ps \<and> counts_for u r' \<and> q \<noteq> p \<longrightarrow> rd_score r' + 2 \<le> rd_score r))"
proof -
  define qs where "qs = filter (\<lambda>x. counts_for u (snd x)) ps"
  have counted: "counted u (map snd ps) = map snd qs" by (simp add: counted_def qs_def filter_map comp_def counts_for_def)
  have qs: "distinct (map fst qs)" using assms by (simp add: qs_def distinct_map_filter)
  have others: "(\<forall>q \<in># mset (map snd qs) - {#r#}. rd_score q \<le> rd_score r - 2)
    \<longleftrightarrow> (\<forall>q r'. (q, r') \<in> set qs \<and> q \<noteq> p \<longrightarrow> rd_score r' + 2 \<le> rd_score r)" if p: "(p, r) \<in> set qs" for p
  proof -
    obtain xs ys where split: "qs = xs @ (p, r) # ys" using p by (auto simp: in_set_conv_decomp)
    have rest: "set (xs @ ys) = {x \<in> set qs. fst x \<noteq> p}" using qs unfolding split by force
    have "mset (map snd qs) - {#r#} = mset (map snd (xs @ ys))" by (simp add: split)
    then have "(\<forall>q \<in># mset (map snd qs) - {#r#}. rd_score q \<le> rd_score r - 2) \<longleftrightarrow> (\<forall>x \<in> set (xs @ ys). rd_score (snd x) \<le> rd_score r - 2)"
      by (simp only: set_mset_mset set_map ball_simps)
    then show ?thesis unfolding rest by force
  qed
  have "stands_out (mset (counted u (map snd ps))) r \<longleftrightarrow> (\<exists>p. (p, r) \<in> set qs) \<and> pairScoreThreshold \<le> rd_score r
     \<and> (\<forall>q \<in># mset (map snd qs) - {#r#}. rd_score q \<le> rd_score r - 2)"
    unfolding counted stands_out_def by force
  also have "\<dots> \<longleftrightarrow> (\<exists>p. (p, r) \<in> set qs \<and> pairScoreThreshold \<le> rd_score r
     \<and> (\<forall>q r'. (q, r') \<in> set qs \<and> q \<noteq> p \<longrightarrow> rd_score r' + 2 \<le> rd_score r))"
    using others by blast
  finally show ?thesis unfolding qs_def by auto
qed

lemma clear_reading_iff:
  "stands_out (mset (counted u (page_readings u c))) r \<longleftrightarrow> (\<exists>p. clear_reading u c p r)"
  unfolding page_places_snd [symmetric] clear_among [OF page_places_distinct] page_places_iff clear_reading_def pairScoreThreshold_def ..

section \<open>Properties\<close>

text \<open>
  C36: The title page is read when one reading stands out. The readings of the leading lines are: every pair that a
  separator makes of one of the first two lines (a colon once, a dash of any kind up to three times), the first two lines
  as name and title in either order, a name wrapped over two lines before the title, and a name before a title wrapped
  over two lines; where both orders of a pair fit, one must be better by two points. The result is the reading that has
  at least six points and beats the readings at all other places by two; without such a reading there is none. On a page
  with just two leading lines it does not matter which of them is the author and which the title.
\<close>

theorem title_page_reading_stands_out:
  "(titlePagePair u lines = Some (t, a) \<longleftrightarrow>
      (\<exists>p r. clear_reading u (titlePageCandidates u lines) p r \<and> t = rd_title r \<and> a = rd_authors r))
   \<and> choose_reading u (page_readings u [x, y]) = choose_reading u (page_readings u [y, x])"
proof (rule conjI)
  let ?c = "titlePageCandidates u lines"
  have "titlePagePair u lines = choose_reading u (page_readings u ?c)"
  proof (cases "?c = []")
    case True
    have "choose_reading u (page_readings u []) = None"
      by (simp add: page_readings_def choose_reading_def pairScoreThreshold_def)
    then show ?thesis by (simp add: titlePagePair_def Let_def True)
  qed (simp add: titlePagePair_def Let_def)
  then show "titlePagePair u lines = Some (t, a) \<longleftrightarrow> (\<exists>p r. clear_reading u ?c p r \<and> t = rd_title r \<and> a = rd_authors r)"
    using choose_reading_iff [of u "page_readings u ?c" t a] unfolding clear_reading_iff by metis
  show "choose_reading u (page_readings u [x, y]) = choose_reading u (page_readings u [y, x])"
    by (rule choose_reading_cong [OF two_line_readings])
qed

end
