(* ===== verification/TextMetadata.thy ===== *)
theory TextMetadata
  imports TitlePage Ingest
begin

text \<open>
  Model of \<open>ExtractMetadata\<close> (\<open>internal/parser/textdoc/metadata.go\<close>) and of \<open>identifiers.go\<close>: the sources
  of a title and authors in the head of a plain text, and how they are combined.
\<close>

section \<open>The Project Gutenberg marker\<close>

definition ci_text :: "string \<Rightarrow> (rune \<Rightarrow> bool) list" where
  "ci_text s = map (\<lambda>c r. same_letter r c) s"

definition after_word :: "(rune \<Rightarrow> bool) list \<Rightarrow> (rune \<times> string) list \<Rightarrow> (rune \<times> string) list option" where
  "after_word ps ss = (if match_word ps ss then Some (drop (length ps) ss) else None)"

text \<open>What \<open>\*{0,3}\s*$\<close> accepts.\<close>

definition marker_end :: "(rune \<times> string) list \<Rightarrow> bool" where
  "marker_end ss \<longleftrightarrow> length (takeWhile (\<lambda>x. fst x = 42) ss) \<le> 3 \<and> list_all (re_space \<circ> fst) (dropWhile (\<lambda>x. fst x = 42) ss)"

text \<open>The expression \<open>gutenbergStart\<close> and its group.\<close>

definition gutenbergStart :: "string \<Rightarrow> string option" where
  "gutenbergStart s = Option.bind (after_word [\<lambda>r. r = 42, \<lambda>r. r = 42, \<lambda>r. r = 42] (segs s)) (\<lambda>ss.
     Option.bind (after_word (ci_text ''start of '') (dropWhile (re_space \<circ> fst) ss)) (\<lambda>ss.
     Option.bind (first_some (\<lambda>w. after_word (ci_text w) ss) [''the'', ''this'']) (\<lambda>ss.
     Option.bind (after_word (ci_text '' project gutenberg ebook'') ss) (\<lambda>rest.
       if re_word (fst (ss ! 23)) = (rest \<noteq> [] \<and> re_word (fst (hd rest))) then None
       else map_option (\<lambda>n. bytes_of (take n rest))
         (find (\<lambda>n. marker_end (drop n rest) \<and> list_all (\<lambda>x. fst x \<noteq> 10) (take n rest)) [0..<length rest + 1])))))"

definition startMarkerIndex :: "string list \<Rightarrow> nat option" where
  "startMarkerIndex lines = find (\<lambda>i. gutenbergStart (trim_space (lines ! i)) \<noteq> None) [0..<min (length lines) markerSearchLines]"

definition gutenbergTitle :: "string list \<Rightarrow> string" where
  "gutenbergTitle lines = (case startMarkerIndex lines of
       None \<Rightarrow> []
     | Some i \<Rightarrow> (case gutenbergStart (trim_space (lines ! i)) of
         None \<Rightarrow> []
       | Some m \<Rightarrow> CleanValue (trim_left_func (\<lambda>r. r \<in> set (map byte '' ,;:-'')) (trim_space m))))"

section \<open>Header regions\<close>

definition yaml_end :: "string list \<Rightarrow> nat option" where
  "yaml_end lines = (if lines \<noteq> [] \<and> trim_space (hd lines) = ''---''
     then find (\<lambda>i. trim_space (lines ! i) = ''---'') [1..<min (length lines) (metadataLines + 1)] else None)"

definition hasYAMLFrontMatter :: "string list \<Rightarrow> bool" where
  "hasYAMLFrontMatter lines \<longleftrightarrow> yaml_end lines \<noteq> None"

definition header_line :: "env \<Rightarrow> string \<Rightarrow> bool" where
  "header_line u raw \<longleftrightarrow> (let line = trim_space raw in line = [] \<or> labelLine u line \<noteq> None \<or> gutenbergStart line \<noteq> None)"

definition leadingBlock :: "env \<Rightarrow> string list \<Rightarrow> string list" where
  "leadingBlock u lines = takeWhile (header_line u) (take metadataLines lines)"

definition headerRegions :: "env \<Rightarrow> string list \<Rightarrow> string list list" where
  "headerRegions u lines =
     (case yaml_end lines of None \<Rightarrow> [] | Some i \<Rightarrow> [drop 1 (take i lines)])
     @ (case startMarkerIndex lines of None \<Rightarrow> [] | Some i \<Rightarrow> if 0 < i then [take i lines] else [])
     @ [leadingBlock u lines]"

fun nncl_index :: "nat \<Rightarrow> nat \<Rightarrow> string list \<Rightarrow> nat option" where
  "nncl_index i seen [] = None"
| "nncl_index i seen (raw # ls) = (let line = trim_space raw in
     if line = [] then nncl_index (i + 1) seen ls
     else if 5 < seen + 1 then None
     else if match_all nnclValue (runes line) then Some i
     else nncl_index (i + 1) (seen + 1) ls)"

definition stripNNCLHeader :: "string list \<Rightarrow> string list" where
  "stripNNCLHeader lines = (case nncl_index 0 0 lines of None \<Rightarrow> lines | Some i \<Rightarrow> take i lines @ drop (i + 1) lines)"

section \<open>Calibre's title page\<close>

definition blank :: "string \<Rightarrow> bool" where
  "blank line \<longleftrightarrow> trim_space line = []"

definition calibreTitleAuthor :: "env \<Rightarrow> string list \<Rightarrow> (string \<times> string) option" where
  "calibreTitleAuthor u lines =
     (if length lines < 4 \<or> 1024 < length (join [chr 10] (take 4 lines)) then None
      else if trim_space (lines ! 0) = [] \<or> \<not> blank (lines ! 1) \<or> \<not> blank (lines ! 2) \<or> trim_space (lines ! 3) = [] then None
      else let title = CleanValue (lines ! 0); author = CleanValue (lines ! 3); names = SplitAuthors u author in
        if title = [] \<or> IsPlaceholder u title \<or> IsJunkValue u title then None
        else if author = [] \<or> IsPlaceholder u author \<or> IsCredit u author \<or> IsJunkValue u author then None
        else if names = [] \<or> list_ex (\<lambda>n. \<not> IsName u n) names then None
        else if Fold u author = Fold u title then None
        else Some (title, author))"

section \<open>Agreement of two sources\<close>

definition phraseContains :: "string \<Rightarrow> string \<Rightarrow> bool" where
  "phraseContains haystack needle \<longleftrightarrow> contains ('' '' @ haystack @ '' '') ('' '' @ needle @ '' '')"

definition text_titlesAgree :: "env \<Rightarrow> string \<Rightarrow> string \<Rightarrow> bool" where
  "text_titlesAgree u a b = (let fa = Fold u a; fb = Fold u b in
     if fa = [] \<or> fb = [] then False
     else if fa = fb then True
     else if length (GoStrings.fields fa) < 2 \<or> length (GoStrings.fields fb) < 2 then False
     else phraseContains fa fb \<or> phraseContains fb fa)"

definition authorsAgree :: "env \<Rightarrow> string list \<Rightarrow> string list \<Rightarrow> bool" where
  "authorsAgree u a b \<longleftrightarrow> list_ex (\<lambda>x. list_ex (\<lambda>y. Fold u x = Fold u y) b) a"

definition mergeTitlePageMetadata :: "env \<Rightarrow> metadata \<Rightarrow> string \<Rightarrow> string list \<Rightarrow> metadata" where
  "mergeTitlePageMetadata u md title authors =
     (let md = (if md_title md = [] \<and> title \<noteq> [] \<and> (md_authors md = [] \<or> authors = [] \<or> authorsAgree u (md_authors md) authors)
          then md\<lparr>md_title := title\<rparr> else md) in
      if md_authors md = [] \<and> authors \<noteq> [] \<and> (md_title md = [] \<or> title = [] \<or> text_titlesAgree u (md_title md) title)
      then md\<lparr>md_authors := authors\<rparr> else md)"

section \<open>The metadata of a text\<close>

definition no_metadata :: metadata where
  "no_metadata = \<lparr>md_authors = [], md_title = [], md_description = [], md_subjects = [], md_languages = [], md_idents = [],
     md_publisher = [], md_date = [], md_series = [], md_series_index = [], md_hash = [], md_minhash = []\<rparr>"

definition fill_fields :: "string \<Rightarrow> string list \<Rightarrow> metadata \<Rightarrow> metadata" where
  "fill_fields title authors md = (let md = (if md_title md = [] then md\<lparr>md_title := title\<rparr> else md) in
     if md_authors md = [] then md\<lparr>md_authors := authors\<rparr> else md)"

definition text_lines :: "string \<Rightarrow> string list" where
  "text_lines head = stripNNCLHeader (go_split (replacer newlineReplacer (trim_prefix head (encode_rune 65279))) [chr 10])"

definition collect_metadata :: "env \<Rightarrow> string list \<Rightarrow> metadata" where
  "collect_metadata u lines =
     (let md = fold (\<lambda>region md. case parseLabels u region of (title, authors) \<Rightarrow> fill_fields title authors md) (headerRegions u lines) no_metadata;
          md = (if md_title md = [] then md\<lparr>md_title := gutenbergTitle lines\<rparr> else md);
          md = (case calibreTitleAuthor u lines of Some (title, author) \<Rightarrow> fill_fields title (SplitAuthors u author) md | None \<Rightarrow> md) in
      if \<not> hasYAMLFrontMatter lines \<and> startMarkerIndex lines = None \<and> (md_title md = [] \<or> md_authors md = [])
      then (case titlePagePair u lines of Some (title, authors) \<Rightarrow> mergeTitlePageMetadata u md title authors | None \<Rightarrow> md)
      else md)"

definition ExtractMetadata :: "env \<Rightarrow> string \<Rightarrow> metadata" where
  "ExtractMetadata u head = (let md = collect_metadata u (text_lines head);
       md = md\<lparr>md_title := CleanValue (md_title md)\<rparr>;
       md = (if IsPlaceholder u (md_title md) \<or> IsJunkValue u (md_title md) then md\<lparr>md_title := []\<rparr> else md) in
     md\<lparr>md_authors := FilterMetadataAuthors u (md_authors md) (md_title md)\<rparr>)"

text \<open>\<open>TextIdentifiers\<close>: the library finds the ISBNs of a text; None is one without an ISBN-13 form.\<close>

definition TextIdentifiers :: "(string \<Rightarrow> string option list) \<Rightarrow> string \<Rightarrow> ident list" where
  "TextIdentifiers isbns head = (case first_some (\<lambda>i. i) (isbns head) of
       None \<Rightarrow> []
     | Some isbn13 \<Rightarrow> [\<lparr>id_scheme = ''ISBN'', id_value = isbn13, id_source = SourceText\<rparr>])"

end
