(* ===== verification/TextProps.thy ===== *)
theory TextProps
  imports TextMetadata
begin

text \<open>
  Properties of the text metadata of theory TextMetadata: what the extracted fields satisfy, and that a
  labelled header is read back.
\<close>

section \<open>Clean values\<close>

lemma Normalize_words: "\<exists>ws. Normalize s = join '' '' ws \<and> list_all word_ok ws \<and> (ws = [] \<longleftrightarrow> Normalize s = [])"
proof -
  have "list_all word_ok (GoStrings.fields s)" by (simp add: list_all_iff fields_words)
  then show ?thesis unfolding Normalize_def using join_Nil_iff by blast
qed

lemma CleanValue_normal: "Normalize (CleanValue s) = CleanValue s"
  by (simp add: CleanValue_def)

lemma word_ok_ends: "word_ok w \<Longrightarrow> segs w \<noteq> [] \<and> \<not> is_space (fst (hd (segs w))) \<and> \<not> is_space (fst (last (segs w)))"
  by (auto simp: word_ok_def list_all_iff segs_not_Nil)

lemma join_ends:
  "list_all word_ok ws \<Longrightarrow> ws \<noteq> [] \<Longrightarrow> segs (join '' '' ws) \<noteq> [] \<and> \<not> is_space (fst (hd (segs (join '' '' ws))))
     \<and> \<not> is_space (fst (last (segs (join '' '' ws)))) \<and> list_all (\<lambda>x. fst x = 32 \<or> \<not> is_space (fst x)) (segs (join '' '' ws))"
proof (induction ws)
  case (Cons w ws)
  have w: "word_ok w" using Cons.prems(1) by simp
  have all: "list_all (\<lambda>x. fst x = 32 \<or> \<not> is_space (fst x)) (segs w)" using w by (auto simp: word_ok_def list_all_iff)
  show ?case
  proof (cases "ws = []")
    case True
    then show ?thesis using word_ok_ends [OF w] all by simp
  next
    case False
    have "segs (join '' '' (w # ws)) = segs w @ (32, '' '') # segs (join '' '' ws)"
      using False segs_append_ascii [of "CHR '' ''" w "join '' '' ws"] by (simp add: join_Cons)
    then show ?thesis using Cons False word_ok_ends [OF w] all by simp
  qed
qed simp

lemma ascii_char_seg: "c \<in> set s \<Longrightarrow> byte c < 128 \<Longrightarrow> byte c \<in> fst ` set (segs s)"
proof -
  assume c: "c \<in> set s" "byte c < 128"
  then obtain x y where "s = x @ c # y" using split_list by metis
  then have "set (segs s) = set (segs x) \<union> insert (byte c, [c]) (set (segs y))" using segs_append_ascii [OF c(2), of x y] c(2)
    by (simp add: decode_rune_ascii del: decode_rune.simps)
  then show ?thesis by simp
qed

text \<open>A clean line: what \<open>CleanValue\<close> returns, unless it is empty.\<close>

definition clean_line :: "string \<Rightarrow> bool" where
  "clean_line s \<longleftrightarrow> s \<noteq> [] \<and> Normalize s = s"

lemma clean_line_segs:
  assumes "clean_line s"
  shows "segs s \<noteq> []" "\<not> is_space (fst (hd (segs s)))" "\<not> is_space (fst (last (segs s)))"
    "list_all (\<lambda>x. fst x = 32 \<or> \<not> is_space (fst x)) (segs s)"
proof -
  obtain ws where "s = join '' '' ws" "list_all word_ok ws" "ws \<noteq> []"
    using assms Normalize_words [of s] by (auto simp: clean_line_def)
  then show "segs s \<noteq> []" "\<not> is_space (fst (hd (segs s)))" "\<not> is_space (fst (last (segs s)))"
    "list_all (\<lambda>x. fst x = 32 \<or> \<not> is_space (fst x)) (segs s)" using join_ends by simp_all
qed

lemma clean_line_chars:
  assumes "clean_line s"
  shows "chr 10 \<notin> set s" "chr 13 \<notin> set s"
proof -
  have no: "c \<notin> set s" if "is_space (byte c)" "byte c \<noteq> 32" "byte c < 128" for c
    using ascii_char_seg [of c s] clean_line_segs(4) [OF assms] that by (fastforce simp: list_all_iff)
  show "chr 10 \<notin> set s" "chr 13 \<notin> set s" by (rule no; simp add: is_space_def between_def)+
qed

lemma trim_space_tight:
  assumes "s \<noteq> []" "\<not> is_space (fst (hd (segs s)))" "\<not> is_space (fst (last (segs s)))"
  shows "trim_space s = s"
proof -
  have "dropWhile (is_space \<circ> fst) (segs s) = segs s" using assms(2) by (simp add: dropWhile_eq_self_iff)
  moreover have "dropWhile (is_space \<circ> fst) (rev (segs s)) = rev (segs s)" using assms(3) by (simp add: dropWhile_eq_self_iff hd_rev)
  ultimately show ?thesis by (simp add: trim_space_def trim_func_def segs_concat)
qed

section \<open>The fields of a result\<close>

lemma dedup_all: "list_all P xs \<Longrightarrow> list_all P (dedup_by f S xs)"
  using dedup_by_subset [of f S xs] by (auto simp: list_all_iff)

text \<open>What a reader may take for the name of an author of a book with this title.\<close>

definition credible :: "env \<Rightarrow> string \<Rightarrow> string \<Rightarrow> bool" where
  "credible u title a \<longleftrightarrow> a \<noteq> [] \<and> hasLetter u a \<and> \<not> IsPlaceholder u a \<and> \<not> IsCredit u a \<and> \<not> IsJunkValue u a
     \<and> (title = [] \<or> Fold u a \<noteq> Fold u title)"

lemma plausible_is_credible: "plausible_author u title a = credible u title a"
  by (auto simp: plausible_author_def credible_def)

text \<open>The filter keeps the credible names, one for every spelling that folds the same, in their order.\<close>

lemma FilterMetadataAuthors_exact:
  "list_all (\<lambda>a. Normalize a = a \<and> credible u t a) (FilterMetadataAuthors u as t)"
  "distinct (map (Fold u) (FilterMetadataAuthors u as t))"
  "subseq (FilterMetadataAuthors u as t) (map CleanValue as)"
  "x \<in> set as \<Longrightarrow> credible u t (CleanValue x) \<Longrightarrow> Fold u (CleanValue x) \<in> Fold u ` set (FilterMetadataAuthors u as t)"
proof -
  let ?ok = "filter (plausible_author u t) (map CleanValue as)"
  show "list_all (\<lambda>a. Normalize a = a \<and> credible u t a) (FilterMetadataAuthors u as t)"
    unfolding FilterMetadataAuthors_def by (rule dedup_all) (auto simp: list_all_iff CleanValue_normal plausible_is_credible)
  show "distinct (map (Fold u) (FilterMetadataAuthors u as t))"
    by (simp add: FilterMetadataAuthors_def dedup_by_distinct)
  show "subseq (FilterMetadataAuthors u as t) (map CleanValue as)"
    unfolding FilterMetadataAuthors_def by (rule subseq_order.trans [OF dedup_by_subseq subseq_filter_left])
  show "Fold u (CleanValue x) \<in> Fold u ` set (FilterMetadataAuthors u as t)" if "x \<in> set as" "credible u t (CleanValue x)"
    using that by (simp add: FilterMetadataAuthors_def dedup_by_keys plausible_is_credible)
qed

lemma ExtractMetadata_fields:
  "md_title (ExtractMetadata u head) = (let t = CleanValue (md_title (collect_metadata u (text_lines head))) in
     if IsPlaceholder u t \<or> IsJunkValue u t then [] else t)"
  "md_authors (ExtractMetadata u head)
     = FilterMetadataAuthors u (md_authors (collect_metadata u (text_lines head))) (md_title (ExtractMetadata u head))"
  by (simp_all add: ExtractMetadata_def Let_def)

section \<open>Labelled lines\<close>

definition label_line :: "string \<Rightarrow> string \<Rightarrow> string" where
  "label_line key v = key @ '': '' @ v"

lemma ascii_letters: "65 \<le> r \<and> r \<le> 90 \<or> 97 \<le> r \<and> r \<le> 122 \<Longrightarrow> is_letter u r"
  by (auto simp: is_letter_def latin1_latin_def between_def)

lemma colon_no_label: "\<not> label_rune u 58"
  by (simp add: label_rune_def is_letter_def latin1_latin_def is_number_def between_def)

lemma label_line_segs: "ascii key \<Longrightarrow> segs (label_line key v) = map (\<lambda>c. (byte c, [c])) key @ (58, '':'') # (32, '' '') # segs v"
  using segs_append_ascii [of "CHR '':''" key "CHR '' '' # v"] by (simp add: label_line_def segs_ascii)

definition plain_key :: "string \<Rightarrow> bool" where
  "plain_key key \<longleftrightarrow> key \<noteq> [] \<and> length key \<le> 32 \<and> list_all (\<lambda>c. re_alpha (byte c)) key"

lemma plain_key_laws:
  assumes "plain_key key"
  shows "ascii key" "list_all (\<lambda>c. is_letter u (byte c) \<and> \<not> is_space (byte c)) key"
  using assms ascii_letters [of "byte _" u] by (auto simp: plain_key_def ascii_def list_all_iff re_alpha_def is_space_def between_def)

lemma trim_key: "plain_key key \<Longrightarrow> trim_space key = key"
  using plain_key_laws(1) [of key] plain_key_laws(2) [of key]
  by (intro trim_space_tight) (auto simp: plain_key_def segs_ascii hd_map last_map list_all_iff)

lemma blank_is_space: "blank_rune x \<Longrightarrow> is_space (fst x)"
  by (auto simp: blank_rune_def is_space_def between_def)

lemma newline_is_space: "is_space 10"
  by (simp add: is_space_def between_def)

lemma labelLine_label_line:
  assumes "plain_key key" "clean_line v"
  shows "labelLine u (label_line key v) = Some (key, v)"
proof -
  note key = plain_key_laws [OF assms(1)]
  have ks: "list_all (label_rune u \<circ> fst) (map (\<lambda>c. (byte c, [c])) key)"
    using key(2) [of u] by (auto simp: label_rune_def list_all_iff)
  have tw: "takeWhile (label_rune u \<circ> fst) (segs (label_line key v)) = map (\<lambda>c. (byte c, [c])) key"
    "dropWhile (label_rune u \<circ> fst) (segs (label_line key v)) = (58, '':'') # (32, '' '') # segs v"
    using ks colon_no_label [of u] by (simp_all add: label_line_segs [OF key(1)] takeWhile_append dropWhile_append list_all_iff)
  have v: "blank_rune (32, '' '')" "dropWhile blank_rune (segs v) = segs v" "dropWhile blank_rune (rev (segs v)) = rev (segs v)"
    using clean_line_segs [OF assms(2)] by (auto simp: dropWhile_eq_self_iff hd_rev blank_rune_def [of "(32, _)"] dest: blank_is_space)
  have bytes: "bytes_of (map (\<lambda>c. (byte c, [c])) key) = key" by (induction key) (simp_all add: bytes_of_def)
  have nl: "list_all (\<lambda>x. fst x \<noteq> 10) (segs v)"
    using clean_line_segs(4) [OF assms(2)] newline_is_space by (auto simp: list_all_iff)
  have "is_letter u (fst (hd (map (\<lambda>c. (byte c, [c])) key)))"
    using key(2) [of u] assms(1) by (cases key) (auto simp: plain_key_def)
  then show ?thesis
    unfolding labelLine_def Let_def tw
    using assms(1) clean_line_segs(1) [OF assms(2)] nl by (simp add: plain_key_def bytes segs_concat v)
qed

lemma label_line_trim:
  assumes "plain_key key" "clean_line v"
  shows "trim_space (label_line key v) = label_line key v"
proof (rule trim_space_tight)
  show "label_line key v \<noteq> []" by (simp add: label_line_def)
  show "\<not> is_space (fst (hd (segs (label_line key v))))"
    using plain_key_laws [OF assms(1)] assms(1) by (cases key) (auto simp: label_line_segs plain_key_def)
  show "\<not> is_space (fst (last (segs (label_line key v))))"
    using plain_key_laws [OF assms(1)] clean_line_segs [OF assms(2)] by (simp add: label_line_segs)
qed

lemma parse_label_line:
  assumes "plain_key key" "clean_line v"
  shows "parseLabelLine u (label_line key v) = Some (key, v)"
  by (simp add: parseLabelLine_def label_line_trim [OF assms] labelLine_label_line [OF assms] trim_key [OF assms(1)])

section \<open>A labelled header is read back\<close>

definition header_title :: "env \<Rightarrow> string \<Rightarrow> bool" where
  "header_title u t \<longleftrightarrow> t \<noteq> [] \<and> CleanValue t = t \<and> \<not> IsPlaceholder u t \<and> \<not> IsJunkValue u t"

definition header_author :: "env \<Rightarrow> string \<Rightarrow> string \<Rightarrow> bool" where
  "header_author u t a \<longleftrightarrow> CleanValue a = a \<and> SplitAuthors u a = [a] \<and> plausible_author u t a"

lemma header_clean:
  "header_title u t \<Longrightarrow> clean_line t" "header_author u t a \<Longrightarrow> clean_line a"
  using CleanValue_normal [of t] CleanValue_normal [of a]
  by (auto simp: header_title_def header_author_def clean_line_def plausible_author_def)

lemma header_keys: "plain_key ''Title''" "plain_key ''Author''"
  by (simp_all add: plain_key_def re_alpha_def)

lemma key_kinds: "isTitleKey u ''Title''" "\<not> isTitleKey u ''Author''" "isAuthorKey u ''Author''"
proof -
  have "to_lower u ''Title'' = ''title''" "to_lower u ''Author'' = ''author''"
    by (simp_all add: to_lower_def runes_def segs_ascii ascii_def rune_lower_def between_def utf8_encode_Cons utf8_encode_Nil encode_rune_small chr_numeral)
  moreover have "trim_space ''Title'' = ''Title''" "trim_space ''Author'' = ''Author''" by (simp_all add: trim_key header_keys)
  ultimately show "isTitleKey u ''Title''" "\<not> isTitleKey u ''Author''" "isAuthorKey u ''Author''"
    by (simp_all add: isTitleKey_def isAuthorKey_def titleKeys_def authorKeys_def)
qed

lemma label_keeps:
  "t \<noteq> [] \<Longrightarrow> as \<noteq> [] \<Longrightarrow> fold (label_step u) ls (t, as) = (t, as)"
  by (induction ls) (auto simp: label_step_def split: option.split)

lemma FilterMetadataAuthors_one: "CleanValue a = a \<Longrightarrow> plausible_author u t a \<Longrightarrow> FilterMetadataAuthors u [a] t = [a]"
  by (simp add: FilterMetadataAuthors_def)

lemma plausible_any_title: "plausible_author u t a \<Longrightarrow> plausible_author u [] a"
  by (simp add: plausible_author_def)

lemma parseLabels_header:
  assumes "header_title u t" "header_author u t a"
  shows "parseLabels u (label_line ''Title'' t # label_line ''Author'' a # ls) = (t, [a])"
proof -
  note clean = header_clean(1) [OF assms(1)] header_clean(2) [OF assms(2)]
  have "label_step u (label_line ''Title'' t) ([], []) = (t, [])"
    using assms clean by (simp add: label_step_def parse_label_line header_keys key_kinds header_title_def)
  moreover have "label_step u (label_line ''Author'' a) (t, []) = (t, [a])"
    using assms clean FilterMetadataAuthors_one [of a u "[]"] plausible_any_title [of u t a]
    by (simp add: label_step_def parse_label_line header_keys key_kinds header_author_def)
  ultimately show ?thesis
    using assms label_keeps [of t "[a]" u ls] by (simp add: parseLabels_def header_title_def)
qed

text \<open>The lines of a text that begins with two plain lines.\<close>

lemma replacer_plain: "chr 13 \<notin> set x \<Longrightarrow> replacer newlineReplacer (x @ y) = x @ replacer newlineReplacer y"
  by (induction x) (auto simp: newlineReplacer_def match_pair_def has_prefix_def)

lemma split_line: "chr 10 \<notin> set x \<Longrightarrow> split_acc [chr 10] cur (x @ chr 10 # y) = (cur @ x) # split_acc [chr 10] [] y"
  by (induction x arbitrary: cur) (auto simp: has_prefix_def)

lemma split_two_lines:
  assumes "chr 10 \<notin> set x" "chr 10 \<notin> set y" "chr 13 \<notin> set x" "chr 13 \<notin> set y"
  shows "\<exists>ls. go_split (replacer newlineReplacer (x @ chr 10 # y @ chr 10 # z)) [chr 10] = x # y # ls"
proof -
  have nl: "replacer newlineReplacer (chr 10 # s) = chr 10 # replacer newlineReplacer s" for s
    using replacer_plain [of "[chr 10]" s] by (simp add: chr_def)
  show ?thesis using assms by (simp add: go_split_def replacer_plain nl split_line del: replacer.simps)
qed

lemma nncl_index_ge: "nncl_index i seen ls = Some j \<Longrightarrow> i \<le> j"
  by (induction i seen ls rule: nncl_index.induct) (auto simp: Let_def split: if_splits)

lemma stripNNCL_keeps:
  assumes "trim_space x = x" "x \<noteq> []" "\<not> match_all nnclValue (runes x)" "trim_space y = y" "y \<noteq> []" "\<not> match_all nnclValue (runes y)"
  shows "\<exists>ls'. stripNNCLHeader (x # y # ls) = x # y # ls'"
proof (cases "nncl_index 0 0 (x # y # ls)")
  case (Some i)
  then have "nncl_index 2 2 ls = Some i" using assms by (simp add: numeral_2_eq_2)
  then obtain k where "i = Suc (Suc k)" using nncl_index_ge by (metis add_2_eq_Suc le_Suc_ex)
  then show ?thesis using Some by (simp add: stripNNCLHeader_def)
qed (simp add: stripNNCLHeader_def)

lemma char_is_chr: "c = chr n \<longleftrightarrow> byte c = n mod 256"
  using chr_numeral [of n c] by auto

lemma nncl_starts: "match_all nnclValue (r # rs) \<Longrightarrow> r = 110 \<or> r = 78"
  by (auto simp: match_all_iff nnclValue_def lit_ci_def same_letter_def elim!: accepts_Seq)

lemma marker_starts: "gutenbergStart s \<noteq> None \<Longrightarrow> segs s \<noteq> [] \<and> fst (hd (segs s)) = 42"
  by (cases "segs s") (auto simp: gutenbergStart_def after_word_def match_word_def split: if_splits)

lemma label_line_facts:
  assumes "plain_key key" "clean_line v" "hd key \<noteq> CHR ''N''" "hd key \<noteq> CHR ''n''"
  shows "label_line key v \<noteq> []" "chr 10 \<notin> set (label_line key v)" "chr 13 \<notin> set (label_line key v)"
    "\<not> match_all nnclValue (runes (label_line key v))" "gutenbergStart (label_line key v) = None"
    "label_line key v \<noteq> ''---''" "\<not> has_prefix (label_line key v) (encode_rune 65279)"
proof -
  obtain c cs where key: "key = c # cs" "re_alpha (byte c)" using assms(1) by (cases key) (auto simp: plain_key_def)
  have asc: "list_all (\<lambda>c. re_alpha (byte c)) key" using assms(1) by (simp add: plain_key_def)
  have first: "segs (label_line key v) = (byte c, [c]) # tl (segs (label_line key v))"
    using label_line_segs [OF plain_key_laws(1) [OF assms(1)], of v] key by simp
  show "label_line key v \<noteq> []" by (simp add: label_line_def)
  have "chr 10 \<notin> set key" "chr 13 \<notin> set key" using asc by (auto simp: list_all_iff re_alpha_def)
  then show "chr 10 \<notin> set (label_line key v)" "chr 13 \<notin> set (label_line key v)"
    using clean_line_chars [OF assms(2)] by (auto simp: label_line_def chr_numeral)
  have "runes (label_line key v) = byte c # map fst (tl (segs (label_line key v)))" 
    unfolding runes_def by (subst first) simp
  moreover have "byte c \<noteq> 110" "byte c \<noteq> 78" 
    using assms(3,4) key(1) char_is_chr [of c 110] char_is_chr [of c 78] chr_numeral [of 110 "CHR ''n''"] chr_numeral [of 78 "CHR ''N''"] by auto
  ultimately show "\<not> match_all nnclValue (runes (label_line key v))" using nncl_starts by auto
  show "gutenbergStart (label_line key v) = None"
  proof (rule ccontr)
    assume "gutenbergStart (label_line key v) \<noteq> None"
    then have "fst (hd (segs (label_line key v))) = 42" using marker_starts by blast
    moreover have "fst (hd (segs (label_line key v))) = byte c" by (subst first) simp
    ultimately show False using key(2) by (simp add: re_alpha_def)
  qed
  show "label_line key v \<noteq> ''---''" using key by (auto simp: label_line_def re_alpha_def)
  show "\<not> has_prefix (label_line key v) (encode_rune 65279)" using key by (auto simp: label_line_def has_prefix_def encode_rune_def re_alpha_def)
qed

text \<open>The lines a text begins with, once they are known to be the two labels.\<close>

lemma header_regions:
  assumes "header_title u t" "header_author u t a"
  defines "l1 \<equiv> label_line ''Title'' t" and "l2 \<equiv> label_line ''Author'' a"
  shows "\<exists>r rs. headerRegions u (l1 # l2 # ls) = r # rs \<and> list_all (\<lambda>r. parseLabels u r = (t, [a])) (r # rs)"
proof -
  note clean = header_clean(1) [OF assms(1)] header_clean(2) [OF assms(2)]
  note facts = label_line_facts [OF header_keys(1) clean(1)] label_line_facts [OF header_keys(2) clean(2)]
  have trims: "trim_space l1 = l1" "trim_space l2 = l2" unfolding l1_def l2_def by (simp_all add: label_line_trim header_keys clean)
  have parse: "parseLabels u (l1 # l2 # xs) = (t, [a])" for xs unfolding l1_def l2_def by (rule parseLabels_header [OF assms(1,2)])
  have yaml: "yaml_end (l1 # l2 # ls) = None" using facts(6) trims by (simp add: yaml_end_def l1_def)
  have marker: "\<exists>xs. take i (l1 # l2 # ls) = l1 # l2 # xs" if i: "startMarkerIndex (l1 # l2 # ls) = Some i" for i
  proof -
    have "gutenbergStart (trim_space ((l1 # l2 # ls) ! i)) \<noteq> None"
      using i by (auto simp: startMarkerIndex_def find_Some_iff)
    moreover have "gutenbergStart (trim_space ((l1 # l2 # ls) ! j)) = None" if "j = 0 \<or> j = 1" for j
      using that facts(5,12) trims unfolding l1_def l2_def by (elim disjE) simp_all
    ultimately have "i \<noteq> 0" "i \<noteq> 1" by metis+
    then obtain k where "i = Suc (Suc k)" by (metis One_nat_def not0_implies_Suc)
    then show ?thesis by simp
  qed
  have heads: "header_line u l1" "header_line u l2"
    using trims by (simp_all add: header_line_def l1_def l2_def labelLine_label_line header_keys clean)
  have lead: "\<exists>xs. leadingBlock u (l1 # l2 # ls) = l1 # l2 # xs"
    using heads by (simp add: leadingBlock_def metadataLines_def numeral_eq_Suc)
  show ?thesis
    using yaml marker lead parse by (auto simp: headerRegions_def split: option.split)
qed

lemma fill_keeps: "md_title md \<noteq> [] \<Longrightarrow> md_authors md \<noteq> [] \<Longrightarrow> fill_fields t as md = md"
  by (simp add: fill_fields_def)

lemma fold_fill_keeps:
  "md_title md \<noteq> [] \<Longrightarrow> md_authors md \<noteq> [] \<Longrightarrow>
    fold (\<lambda>region md. case parseLabels u region of (t, as) \<Rightarrow> fill_fields t as md) rs md = md"
  by (induction rs) (simp_all add: fill_keeps split: prod.split)

lemma collect_header:
  assumes "header_title u t" "header_author u t a"
  shows "collect_metadata u (label_line ''Title'' t # label_line ''Author'' a # ls) = no_metadata\<lparr>md_title := t, md_authors := [a]\<rparr>"
proof -
  let ?ls = "label_line ''Title'' t # label_line ''Author'' a # ls" and ?md = "no_metadata\<lparr>md_title := t, md_authors := [a]\<rparr>"
  have t: "t \<noteq> []" using assms(1) by (simp add: header_title_def)
  obtain r rs where regions: "headerRegions u ?ls = r # rs" "parseLabels u r = (t, [a])"
    using header_regions [OF assms, of ls] by auto
  have "fold (\<lambda>region md. case parseLabels u region of (t, as) \<Rightarrow> fill_fields t as md) (headerRegions u ?ls) no_metadata = ?md"
    using regions fold_fill_keeps [of ?md u rs] t by (simp add: fill_fields_def no_metadata_def)
  then show ?thesis using t by (simp add: collect_metadata_def Let_def fill_keeps split: option.split prod.split)
qed

lemma labelled_text_lines:
  assumes "header_title u t" "header_author u t a"
  shows "\<exists>ls. text_lines (label_line ''Title'' t @ chr 10 # label_line ''Author'' a @ chr 10 # body) = label_line ''Title'' t # label_line ''Author'' a # ls"
proof -
  note clean = header_clean(1) [OF assms(1)] header_clean(2) [OF assms(2)]
  note facts = label_line_facts [OF header_keys(1) clean(1)] label_line_facts [OF header_keys(2) clean(2)]
  let ?l1 = "label_line ''Title'' t" and ?l2 = "label_line ''Author'' a"
  have bom: "trim_prefix (?l1 @ chr 10 # ?l2 @ chr 10 # body) (encode_rune 65279) = ?l1 @ chr 10 # ?l2 @ chr 10 # body"
    by (simp add: trim_prefix_def has_prefix_def label_line_def encode_rune_def char_is_chr)
  obtain ls where "go_split (replacer newlineReplacer (?l1 @ chr 10 # ?l2 @ chr 10 # body)) [chr 10] = ?l1 # ?l2 # ls"
    using split_two_lines [of ?l1 ?l2 body] facts by auto
  moreover obtain ls' where "stripNNCLHeader (?l1 # ?l2 # ls) = ?l1 # ?l2 # ls'"
    using stripNNCL_keeps [of ?l1 ?l2 ls] facts label_line_trim [OF header_keys(1) clean(1)] label_line_trim [OF header_keys(2) clean(2)] by auto
  ultimately show ?thesis by (simp add: text_lines_def bom)
qed

lemma ExtractMetadata_header:
  assumes "header_title u t" "header_author u t a"
  shows "ExtractMetadata u (label_line ''Title'' t @ chr 10 # label_line ''Author'' a @ chr 10 # body) = no_metadata\<lparr>md_title := t, md_authors := [a]\<rparr>"
  using labelled_text_lines [OF assms, of body] collect_header [OF assms] FilterMetadataAuthors_one [of a u t] assms
  by (auto simp: ExtractMetadata_def Let_def header_title_def header_author_def)

section \<open>Properties\<close>

lemma CleanValue_unquoted:
  assumes "trim_space s = s" "s = c # cs" "byte c < 128" "c \<noteq> CHR 0x22" "c \<noteq> CHR 0x27"
  shows "CleanValue s = Normalize s"
proof -
  have "strip_quotes q s = s" if "q \<in> set quotePairs" for q
    using that assms by (auto simp: quotePairs_def strip_quotes_def has_prefix_def encode_rune_def char_is_chr)
  then show ?thesis using assms(1) by (simp add: CleanValue_def quotePairs_def)
qed

text \<open>The title of the examples.\<close>

lemma demo_title: "header_title plain_env ''Nemo''"
proof -
  let ?w = "map byte ''Nemo'' :: rune list"
  have n: "Normalize ''Nemo'' = ''Nemo''" "runes ''Nemo'' = ?w" "trim_space ''Nemo'' = ''Nemo''"
    by (simp_all add: word_eval trim_space_def)
  have "\<not> match_all nnclValue ?w"
    by (rule needs_no_match(3) [of "\<lambda>r. same_letter r CHR ''c''"]) (simp_all add: nnclValue_def lit_ci_def same_letter_def)
  moreover have "\<not> match_prefix isbnLabel ?w"
    by (rule needs_no_match(2) [of "\<lambda>r. same_letter r CHR ''i''"]) (simp_all add: isbnLabel_def lit_ci_def same_letter_def)
  moreover have "\<not> search urlValue ?w"
    by (rule needs_no_match(1) [of "\<lambda>r. same_letter r CHR '':'' \<or> same_letter r CHR ''.''"])
      (simp_all add: urlValue_def lit_ci_def opt_def same_letter_def)
  moreover have "\<not> search emailValue ?w"
    by (rule needs_no_match(1) [of "\<lambda>r. r = 64"]) (simp_all add: emailValue_def plus_def lit_def)
  moreover have "\<not> contains ''Nemo'' ''://''" by (simp add: contains_def has_prefix_def)
  moreover have "hasLetter plain_env ''Nemo''"
    by (simp add: hasLetter_def n is_letter_def latin1_latin_def between_def)
  ultimately have "\<not> IsJunkValue plain_env ''Nemo''" by (simp add: IsJunkValue_def Let_def n)
  moreover have "CleanValue ''Nemo'' = ''Nemo''"
    using CleanValue_unquoted [OF n(3) refl] by (simp add: n)
  moreover have "\<not> IsPlaceholder plain_env ''Nemo''"
    by (simp add: IsPlaceholder_def n placeholderValues_def string_eval)
  ultimately show ?thesis by (simp add: header_title_def)
qed

lemma demo_author: "header_author plain_env ''Nemo'' ''Jules Verne''"
proof -
  have t: "trim_space ''Jules Verne'' = ''Jules Verne''" by (simp add: word_eval trim_space_def)
  have clean: "CleanValue ''Jules Verne'' = ''Jules Verne''"
    using CleanValue_unquoted [OF t refl] by (simp add: demo_words)
  have place: "\<not> IsPlaceholder plain_env ''Jules Verne''"
    by (simp add: IsPlaceholder_def t placeholderValues_def string_eval)
  have "authorSplit (segs ''Jules Verne'') = ''Jules Verne''"
    by (simp add: segs_ascii ascii_def author_sep_def re_space_def author_words_def match_word_def same_letter_def)
  moreover have "fields_func (\<lambda>r. r = 38 \<or> r = 59) ''Jules Verne'' = [''Jules Verne'']"
    by (simp add: fields_func_def segs_ascii ascii_def)
  ultimately have split: "SplitAuthors plain_env ''Jules Verne'' = [''Jules Verne'']"
    by (simp add: SplitAuthors_def t has_prefix_def Let_def clean place)
  have "Fold plain_env ''Nemo'' = ''nemo''" by (simp add: word_eval Fold_def is_mn_def)
  then have "plausible_author plain_env ''Nemo'' ''Jules Verne''"
    using demo_not_credit(1) demo_not_junk demo_letters(1) place by (simp add: plausible_author_def demo_fold)
  then show ?thesis using clean split by (simp add: header_author_def)
qed

text \<open>
  C37: What a text yields is presentable, and nothing presentable is thrown away. Whatever the text contains: the title is
  the collected one, cleaned, and it is dropped just when it is a placeholder or junk. Every author is clean, has a
  letter, is no placeholder, credit or junk and does not repeat the title; no two are spellings that fold the same; they
  stand in the order in which they were collected; and every collected name that passes these tests is listed, in the
  first of its spellings or another that folds the same.
\<close>

theorem extracted_metadata_presentable:
  defines "raw \<equiv> \<lambda>u head. collect_metadata u (text_lines head)"
  shows "let t = md_title (ExtractMetadata u head); as = md_authors (ExtractMetadata u head); c = CleanValue (md_title (raw u head)) in
    t = (if IsPlaceholder u c \<or> IsJunkValue u c then [] else c) \<and> Normalize t = t
    \<and> (\<forall>a \<in> set as. Normalize a = a \<and> a \<noteq> [] \<and> hasLetter u a \<and> \<not> IsPlaceholder u a \<and> \<not> IsCredit u a \<and> \<not> IsJunkValue u a
         \<and> (t = [] \<or> Fold u a \<noteq> Fold u t))
    \<and> distinct (map (Fold u) as) \<and> subseq as (map CleanValue (md_authors (raw u head)))
    \<and> (\<forall>x \<in> set (md_authors (raw u head)). credible u t (CleanValue x) \<longrightarrow> Fold u (CleanValue x) \<in> Fold u ` set as)"
proof -
  note authors = FilterMetadataAuthors_exact [where u = u and t = "md_title (ExtractMetadata u head)" 
      and as = "md_authors (collect_metadata u (text_lines head))", folded ExtractMetadata_fields(2)]
  have "Normalize (md_title (ExtractMetadata u head)) = md_title (ExtractMetadata u head)"
    by (simp add: ExtractMetadata_fields(1) Let_def CleanValue_normal) (simp add: Normalize_def GoStrings.fields_def fields_func_def)
  moreover have "\<forall>a \<in> set (md_authors (ExtractMetadata u head)). Normalize a = a \<and> credible u (md_title (ExtractMetadata u head)) a"
    using authors(1) unfolding list_all_iff .
  ultimately show ?thesis
    using authors(2-4) ExtractMetadata_fields(1) [of u head] unfolding Let_def raw_def credible_def by blast
qed

theorem extracted_metadata_presentable_witness:
  "md_authors (ExtractMetadata plain_env (label_line ''Title'' ''Nemo'' @ chr 10 # label_line ''Author'' ''Jules Verne'' @ chr 10 # [])) = [''Jules Verne'']
   \<and> \<not> IsCredit plain_env ''Jules Verne''"
  using extracted_metadata_presentable [of plain_env "label_line ''Title'' ''Nemo'' @ chr 10 # label_line ''Author'' ''Jules Verne'' @ chr 10 # []"]
    ExtractMetadata_header [OF demo_title demo_author, of "[]"] by (simp add: Let_def)

text \<open>
  C25: A labelled header is read back. Take a title \<open>t\<close> and an author \<open>a\<close> that are written clean (no quotes around them
  and single blanks only), are neither placeholders nor junk, where \<open>a\<close> is one name that is not a credit, has a letter and
  is not the title. A text that begins with the lines \<open>Title: t\<close> and \<open>Author: a\<close> then has exactly the title \<open>t\<close> and
  the author \<open>a\<close>, whatever follows: other labels, a Gutenberg marker, a title page or prose never replace or extend them.
\<close>

theorem labelled_header_read_back:
  assumes "header_title u t" "header_author u t a"
  shows "ExtractMetadata u (''Title: '' @ t @ [chr 10] @ ''Author: '' @ a @ [chr 10] @ body) = no_metadata\<lparr>md_title := t, md_authors := [a]\<rparr>"
  using ExtractMetadata_header [OF assms, of body] by (simp add: label_line_def)

theorem labelled_header_read_back_witness:
  "ExtractMetadata plain_env (''Title: '' @ ''Nemo'' @ [chr 10] @ ''Author: '' @ ''Jules Verne'' @ [chr 10] @ ''Title: Other'')
     = no_metadata\<lparr>md_title := ''Nemo'', md_authors := [''Jules Verne'']\<rparr>"
  by (rule labelled_header_read_back [OF demo_title demo_author])

end
