(* ===== verification/Language.thy ===== *)
theory Language
  imports TextMetadata
begin

text \<open>
  Model of \<open>internal/langid/langid.go\<close>, \<open>internal/parser/language.go\<close> and \<open>identifiers.go\<close>: the sample a
  language is detected on, when a detected language replaces a declared one, and how the identifiers
  of a book and of its text are combined. The statistical detector and the table of HTML entities are
  parameters. Confidences are real numbers.
\<close>

section \<open>The sample\<close>

definition MinLetters :: nat where "MinLetters = 40"
definition MaxRunes :: nat where "MaxRunes = 2000"

type_synonym rsegs = "(rune \<times> string) list"

text \<open>\<open><[^>]*>\<close> and \<open>\{[^}]*\}\<close>: from an opening to the first closing rune.\<close>

function cut_segs :: "rune \<Rightarrow> rune \<Rightarrow> rsegs \<Rightarrow> string" where
  "cut_segs op cl [] = []"
| "cut_segs op cl (x # ss) =
     (if fst x = op \<and> list_ex (\<lambda>y. fst y = cl) ss
      then chr 10 # cut_segs op cl (tl (dropWhile (\<lambda>y. fst y \<noteq> cl) ss))
      else snd x @ cut_segs op cl ss)"
  by pat_completeness auto
termination by (relation "measure (\<lambda>(_, _, ss). length ss)") (auto simp: less_Suc_eq_le intro: order_trans [OF diff_le_self length_dropWhile_le])

definition cut_blocks :: "rune \<Rightarrow> rune \<Rightarrow> string \<Rightarrow> string" where
  "cut_blocks op cl s = cut_segs op cl (segs s)"

text \<open>\<open>scriptStyleBlock\<close>: what follows a match that starts here, if one does.\<close>

definition raw_tag :: "rsegs \<Rightarrow> rsegs option" where
  "raw_tag ss = first_some (\<lambda>w. after_word (ci_text w) ss) [''script'', ''style'']"

definition closing_tag :: "rsegs \<Rightarrow> rsegs option" where
  "closing_tag ss = Option.bind (after_word (ci_text ''</'') ss) (\<lambda>ss. Option.bind (raw_tag ss) (\<lambda>ss.
     let r = dropWhile (re_space \<circ> fst) ss in if r \<noteq> [] \<and> fst (hd r) = 62 then Some (tl r) else None))"

fun first_closing :: "rsegs \<Rightarrow> rsegs option" where
  "first_closing [] = None"
| "first_closing (x # ss) = (case closing_tag (x # ss) of Some r \<Rightarrow> Some r | None \<Rightarrow> first_closing ss)"

definition script_block :: "rsegs \<Rightarrow> rsegs option" where
  "script_block ss = Option.bind (after_word (ci_text ''<'') ss) (\<lambda>ss. Option.bind (raw_tag ss) (\<lambda>ss.
     if ss = [] \<or> re_word (fst (hd ss)) then None
     else let r = dropWhile (\<lambda>y. fst y \<noteq> 62) ss in if r = [] then None else first_closing (tl r)))"

lemma after_word_length: "after_word ps ss = Some r \<Longrightarrow> length r \<le> length ss"
  by (auto simp: after_word_def split: if_splits)

lemma raw_tag_length: "raw_tag ss = Some r \<Longrightarrow> length r \<le> length ss"
  by (auto simp: raw_tag_def split: option.splits dest: after_word_length)

lemma closing_tag_length: "closing_tag ss = Some r \<Longrightarrow> length r \<le> length ss"
proof -
  assume "closing_tag ss = Some r"
  then obtain s1 s2 where "after_word (ci_text ''</'') ss = Some s1" "raw_tag s1 = Some s2" "r = tl (dropWhile (re_space \<circ> fst) s2)"
    by (auto simp: closing_tag_def Let_def bind_eq_Some_conv split: if_splits)
  then show ?thesis
    using after_word_length raw_tag_length length_dropWhile_le [of "re_space \<circ> fst" s2] by fastforce
qed

lemma first_closing_length: "first_closing ss = Some r \<Longrightarrow> length r \<le> length ss"
  by (induction ss) (fastforce split: option.splits dest: closing_tag_length)+

lemma script_block_shorter: "script_block (x # ss) = Some r \<Longrightarrow> length r < length (x # ss)"
proof -
  assume "script_block (x # ss) = Some r"
  then obtain s1 s2 where s: "after_word (ci_text ''<'') (x # ss) = Some s1" "raw_tag s1 = Some s2"
      "first_closing (tl (dropWhile (\<lambda>y. fst y \<noteq> 62) s2)) = Some r"
    by (auto simp: script_block_def Let_def bind_eq_Some_conv split: if_splits)
  have "length r \<le> length (tl (dropWhile (\<lambda>y. fst y \<noteq> 62) s2))" using s(3) by (rule first_closing_length)
  also have "\<dots> \<le> length s2" using length_dropWhile_le [of "\<lambda>y. fst y \<noteq> 62" s2] by simp
  also have "\<dots> \<le> length s1" using s(2) by (rule raw_tag_length)
  also have "\<dots> \<le> length ss" using s(1) by (auto simp: after_word_def ci_text_def split: if_splits)
  finally show ?thesis by simp
qed

function cut_scripts :: "rsegs \<Rightarrow> string" where
  "cut_scripts [] = []"
| "cut_scripts (x # ss) = (case script_block (x # ss) of Some r \<Rightarrow> chr 10 # cut_scripts r | None \<Rightarrow> snd x @ cut_scripts ss)"
  by pat_completeness auto
termination by (relation "measure length") (auto dest: script_block_shorter)

definition looksLikeMarkupNoise :: "string \<Rightarrow> bool" where
  "looksLikeMarkupNoise line = (if 80 \<le> rune_len line then False
     else if contains_any line (map byte ''@;{}<>'') then True
     else contains line '':'' \<and> length (GoStrings.fields line) < 4)"

definition code_runes :: "rune list" where
  "code_runes = map byte (''{}[]();=<>@#$%^&*_|~'' @ [CHR 0x5C, CHR 0x60])"

definition looksLikeCode :: "string \<Rightarrow> bool" where
  "looksLikeCode line = (if length line < 8 then False
     else rune_len line < length (filter (\<lambda>r. r \<in> set code_runes) (runes line)) * 10)"

definition prose_line :: "string \<Rightarrow> bool" where
  "prose_line line \<longleftrightarrow> line \<noteq> [] \<and> \<not> looksLikeCode line \<and> \<not> looksLikeMarkupNoise line"

definition proseSample :: "(string \<Rightarrow> string) \<Rightarrow> string \<Rightarrow> string" where
  "proseSample unescape text0 = (let text = cut_scripts (segs text0);
       text = cut_blocks 60 62 text; text = cut_blocks 123 125 text; text = unescape text in
     concat (map (\<lambda>line. line @ [chr 10]) (filter prose_line (map trim_space (go_split text [chr 10])))))"

text \<open>\<open>WriteRune\<close> writes an invalid byte as U+FFFD.\<close>

definition sample :: "string \<Rightarrow> string" where
  "sample text = (if rune_len text \<le> MaxRunes then text else utf8_encode (take MaxRunes (runes text)))"

section \<open>Detection\<close>

record lang_result =
  lr_code :: string
  lr_confidence :: real

text \<open>The detector: the languages of a text, best first, with the lower-cased ISO 639-1 code of each.\<close>

type_synonym detector = "string \<Rightarrow> (string \<times> real) list"

definition Detect :: "env \<Rightarrow> detector \<Rightarrow> string \<Rightarrow> lang_result option" where
  "Detect u det text0 = (let text = sample text0 in
     if countLetters u text < MinLetters then None
     else case det text of
         [] \<Rightarrow> None
       | (code, conf) # _ \<Rightarrow> if code = [] \<or> code = ''und'' \<or> conf \<le> 0 then None else Some \<lparr>lr_code = code, lr_confidence = conf\<rparr>)"

definition DetectProse :: "env \<Rightarrow> detector \<Rightarrow> (string \<Rightarrow> string) \<Rightarrow> string \<Rightarrow> lang_result option" where
  "DetectProse u det unescape text = Detect u det (proseSample unescape text)"

section \<open>Declared and detected languages\<close>

definition minLanguageConfidence :: real where "minLanguageConfidence = 1 / 2"
definition overrideLanguageConfidence :: real where "overrideLanguageConfidence = 3 / 4"

definition baseLanguage :: "env \<Rightarrow> string \<Rightarrow> string" where
  "baseLanguage u tag = takeWhile (\<lambda>c. c \<noteq> CHR ''-'' \<and> c \<noteq> CHR ''_'') (to_lower u (trim_space tag))"

definition languageListMatches :: "env \<Rightarrow> string list \<Rightarrow> string \<Rightarrow> bool" where
  "languageListMatches u languages code = list_ex (\<lambda>tag. baseLanguage u tag = baseLanguage u code) languages"

definition ApplyDetectedLanguage :: "env \<Rightarrow> string list \<Rightarrow> lang_result option \<Rightarrow> string list" where
  "ApplyDetectedLanguage u languages detected = (case detected of
       None \<Rightarrow> languages
     | Some d \<Rightarrow>
         if lr_confidence d < minLanguageConfidence then languages
         else if languages = [] then [lr_code d]
         else if languageListMatches u languages (lr_code d) then languages
         else if overrideLanguageConfidence \<le> lr_confidence d then [lr_code d]
         else languages)"

section \<open>Identifiers of a book\<close>

text \<open>
  \<open>mergeIdentifiers\<close>: one entry per key in first-seen order; the two indexes of the code are the two kinds of key.
  \<open>canon\<close> is the canonical ISBN-13 the library makes of a value.
\<close>

datatype ident_key = IsbnKey string | ExactKey string

definition ident_entry :: "env \<Rightarrow> (string \<Rightarrow> string option) \<Rightarrow> string \<times> string \<Rightarrow> ident_key \<times> ident" where
  "ident_entry u canon item = (case item of (scheme, v) \<Rightarrow>
     (case (if IsISBNScheme u scheme then canon v else None) of
       Some c \<Rightarrow> (IsbnKey c, \<lparr>id_scheme = ''ISBN'', id_value = c, id_source = SourceMetadata\<rparr>)
     | None \<Rightarrow> (ExactKey (scheme @ chr 0 # v), \<lparr>id_scheme = scheme, id_value = v, id_source = SourceMetadata\<rparr>)))"

definition add_source :: "source \<Rightarrow> ident \<Rightarrow> ident" where
  "add_source src i = i\<lparr>id_source := MergeSources (id_source i) src\<rparr>"

definition book_identifiers :: "env \<Rightarrow> (string \<Rightarrow> string option) \<Rightarrow> (string \<times> string) list \<Rightarrow> (ident_key \<times> ident) list" where
  "book_identifiers u canon metadata =
     fold (\<lambda>item acc. case ident_entry u canon item of (k, i) \<Rightarrow> upsert k i (add_source SourceMetadata) acc) metadata []"

definition text_mergeIdentifiers :: "env \<Rightarrow> (string \<Rightarrow> string option) \<Rightarrow> (string \<times> string) list \<Rightarrow> string \<Rightarrow> ident list" where
  "text_mergeIdentifiers u canon metadata textISBN = (let entries = book_identifiers u canon metadata in
     map snd (if textISBN = [] then entries
       else upsert (IsbnKey textISBN) \<lparr>id_scheme = ''ISBN'', id_value = textISBN, id_source = SourceText\<rparr> (add_source SourceText) entries))"

end
