(* ===== verification/TxtEncoding.thy ===== *)
theory TxtEncoding
  imports Language
begin

text \<open>
  Model of \<open>internal/parser/txt/encoding.go\<close>: the text encoding of a file. An encoding is a name; what it
  decodes a sample to, the ranking of the statistical detector and the language detector are parameters.
  The loop drops candidates that cannot win; it is shown to pick what the full comparison picks.
\<close>

definition sampleLimit :: nat where "sampleLimit = 65536"
definition headLimit :: nat where "headLimit = 65536"
definition candidateLimit :: nat where "candidateLimit = 6"
definition minTextQuality :: int where "minTextQuality = - 20"

text \<open>The byte order marks, and the encodings the code names; \<open>Label\<close> is one of the WHATWG index.\<close>

definition utf8_bom :: string where "utf8_bom = [chr 239, chr 187, chr 191]"
definition utf16LEBOM :: string where "utf16LEBOM = [chr 255, chr 254]"
definition utf16BEBOM :: string where "utf16BEBOM = [chr 254, chr 255]"

datatype encoding = UTF8 | UTF16LE | UTF16BE | Windows1252 | ISO8859_8 | Label string

record detected_encoding =
  de_enc :: encoding
  de_bom :: nat

section \<open>The quality of a decoding\<close>

text \<open>The categories Co, Cs and Cn above U+00FF are a table; below it none occurs.\<close>

definition rune_mark :: "env \<Rightarrow> (rune \<Rightarrow> bool) \<Rightarrow> rune \<Rightarrow> nat \<times> nat" where
  "rune_mark u unassigned r =
     (if r = RuneError then (0, 5)
      else if is_letter u r \<or> is_digit u r \<or> is_space r \<or> is_punct u r then (1, 0)
      else if is_control r then (0, 5)
      else if 256 \<le> r \<and> unassigned r then (0, 5)
      else (0, 1))"

definition textQuality :: "env \<Rightarrow> (rune \<Rightarrow> bool) \<Rightarrow> string \<Rightarrow> int" where
  "textQuality u unassigned s = (let rs = runes s; total = length rs;
       good = sum_list (map (fst \<circ> rune_mark u unassigned) rs); bad = sum_list (map (snd \<circ> rune_mark u unassigned) rs) in
     if total = 0 \<or> \<not> list_ex (is_letter u) rs then - 1000
     else int (good * 100 div total) - int (bad * 200 div total))"

definition looksBinary :: "string \<Rightarrow> bool" where
  "looksBinary head = (let rs = take 4096 (runes head);
       suspicious = length (filter (\<lambda>r. r = 0 \<or> r = RuneError \<or> r = 127 \<or> (r < 32 \<and> r \<noteq> 9 \<and> r \<noteq> 10 \<and> r \<noteq> 13 \<and> r \<noteq> 12)) rs) in
     0 < length rs \<and> length rs < suspicious * 100)"

definition validTruncatedUTF8 :: "string \<Rightarrow> nat \<Rightarrow> bool" where
  "validTruncatedUTF8 smp sz = (if sz \<le> length smp then False
     else list_ex (\<lambda>i. i < length smp \<and> utf8_valid (take (length smp - i) smp)) [1..<4])"

section \<open>Candidates\<close>

record candidate =
  ca_enc :: encoding
  ca_confidence :: int
  ca_quality :: int
  ca_lang :: "lang_result option"

text \<open>What the libraries answer: \<open>htmlindex.Get\<close>, the decoders (None is an error), the rankings.\<close>

record tables =
  tb_env :: env
  tb_unassigned :: "rune \<Rightarrow> bool"
  tb_index :: "string \<Rightarrow> bool"
  tb_decode :: "encoding \<Rightarrow> string \<Rightarrow> string option"
  tb_chardet :: "string \<Rightarrow> (string \<times> int) list option"
  tb_detector :: detector

definition encodingForLabel :: "tables \<Rightarrow> string \<Rightarrow> encoding option" where
  "encodingForLabel tb label =
     (if tb_index tb label then Some (Label label)
      else if to_lower (tb_env tb) (trim_space label) = ''iso-8859-8-i'' then Some ISO8859_8 else None)"

definition decodeSample :: "tables \<Rightarrow> string \<Rightarrow> encoding \<Rightarrow> string option" where
  "decodeSample tb smp enc = first_some (\<lambda>cut. if cut \<le> length smp then tb_decode tb enc (take (length smp - cut) smp) else None) [0..<5]"

definition decodeCandidate :: "tables \<Rightarrow> string \<Rightarrow> encoding \<Rightarrow> int \<Rightarrow> (candidate \<times> string) option" where
  "decodeCandidate tb smp enc confidence = Option.bind (decodeSample tb smp enc) (\<lambda>text.
     let quality = textQuality (tb_env tb) (tb_unassigned tb) text in
     if quality < minTextQuality then None
     else Some (\<lparr>ca_enc = enc, ca_confidence = confidence, ca_quality = quality, ca_lang = None\<rparr>, text))"

definition scoreLanguage :: "tables \<Rightarrow> string \<Rightarrow> candidate \<Rightarrow> candidate" where
  "scoreLanguage tb text c = (case Detect (tb_env tb) (tb_detector tb) text of Some r \<Rightarrow> c\<lparr>ca_lang := Some r\<rparr> | None \<Rightarrow> c)"

definition betterCandidate :: "candidate \<Rightarrow> candidate \<Rightarrow> bool" where
  "betterCandidate a b =
     (case (ca_lang a, ca_lang b) of
       (Some _, None) \<Rightarrow> True
     | (None, Some _) \<Rightarrow> False
     | (la, lb) \<Rightarrow>
         (let diff = (case (la, lb) of (Some x, Some y) \<Rightarrow> lr_confidence x - lr_confidence y | _ \<Rightarrow> 0) in
          if 1 / 20 < diff then True
          else if diff < - 1 / 20 then False
          else if ca_quality a \<noteq> ca_quality b then ca_quality b < ca_quality a
          else ca_confidence b < ca_confidence a))"

definition dominated :: "candidate \<Rightarrow> candidate option \<Rightarrow> bool" where
  "dominated c leader = (case leader of
       None \<Rightarrow> False
     | Some l \<Rightarrow> (case ca_lang l of Some r \<Rightarrow> lr_confidence r = 1 \<and> ca_quality c \<le> ca_quality l | None \<Rightarrow> False))"

fun pickCandidate :: "candidate list \<Rightarrow> candidate option" where
  "pickCandidate [] = None"
| "pickCandidate (c # cs) = Some (fold (\<lambda>c best. if betterCandidate c best then c else best) cs c)"

text \<open>The state of the loop of \<open>detectLegacy\<close>.\<close>

record legacy =
  le_seen :: "string list"
  le_candidates :: "candidate list"
  le_leader :: "candidate option"
  le_accepted :: nat

definition lead :: "candidate \<Rightarrow> candidate option \<Rightarrow> candidate option" where
  "lead c leader = (case leader of None \<Rightarrow> Some c | Some l \<Rightarrow> if betterCandidate c l then Some c else Some l)"

definition accept :: "tables \<Rightarrow> (candidate \<Rightarrow> candidate option \<Rightarrow> bool) \<Rightarrow> candidate \<times> string \<Rightarrow> legacy \<Rightarrow> legacy" where
  "accept tb drops ct s = (case ct of (c, text) \<Rightarrow>
     let s = s\<lparr>le_accepted := le_accepted s + 1\<rparr> in
     if drops c (le_leader s) then s
     else let c = scoreLanguage tb text c in s\<lparr>le_candidates := le_candidates s @ [c], le_leader := lead c (le_leader s)\<rparr>)"

fun legacy_loop :: "tables \<Rightarrow> (candidate \<Rightarrow> candidate option \<Rightarrow> bool) \<Rightarrow> string \<Rightarrow> (string \<times> int) list \<Rightarrow> legacy \<Rightarrow> legacy" where
  "legacy_loop tb drops smp [] s = s"
| "legacy_loop tb drops smp (result # results) s =
     (let label = trim_space (fst result); key = to_lower (tb_env tb) label in
      if key \<in> set (le_seen s) \<or> key = [] then legacy_loop tb drops smp results s
      else let s = s\<lparr>le_seen := key # le_seen s\<rparr> in
        case Option.bind (encodingForLabel tb label) (\<lambda>enc. decodeCandidate tb smp enc (snd result)) of
          None \<Rightarrow> legacy_loop tb drops smp results s
        | Some ct \<Rightarrow> (let s = accept tb drops ct s in
            if candidateLimit \<le> le_accepted s then s else legacy_loop tb drops smp results s))"

definition legacy_init :: legacy where
  "legacy_init = \<lparr>le_seen = [], le_candidates = [], le_leader = None, le_accepted = 0\<rparr>"

definition detectLegacy_with :: "(candidate \<Rightarrow> candidate option \<Rightarrow> bool) \<Rightarrow> tables \<Rightarrow> string \<Rightarrow> encoding" where
  "detectLegacy_with drops tb smp = (case tb_chardet tb smp of
       None \<Rightarrow> Windows1252
     | Some results \<Rightarrow> (case pickCandidate (le_candidates (legacy_loop tb drops smp results legacy_init)) of
         None \<Rightarrow> Windows1252
       | Some c \<Rightarrow> ca_enc c))"

definition detectLegacy :: "tables \<Rightarrow> string \<Rightarrow> encoding" where
  "detectLegacy = detectLegacy_with dominated"

text \<open>\<open>smp\<close> is what reading the first \<open>sampleLimit\<close> bytes gives.\<close>

definition detectEncoding :: "tables \<Rightarrow> (string, string) result \<Rightarrow> nat \<Rightarrow> (string, detected_encoding) result" where
  "detectEncoding tb sampled sz = (case sampled of
       Err e \<Rightarrow> Err e
     | Ok smp \<Rightarrow>
         if has_prefix smp utf8_bom then Ok \<lparr>de_enc = UTF8, de_bom = length utf8_bom\<rparr>
         else if has_prefix smp utf16LEBOM then Ok \<lparr>de_enc = UTF16LE, de_bom = length utf16LEBOM\<rparr>
         else if has_prefix smp utf16BEBOM then Ok \<lparr>de_enc = UTF16BE, de_bom = length utf16BEBOM\<rparr>
         else if utf8_valid smp \<or> validTruncatedUTF8 smp sz then Ok \<lparr>de_enc = UTF8, de_bom = 0\<rparr>
         else Ok \<lparr>de_enc = detectLegacy tb smp, de_bom = 0\<rparr>)"

section \<open>Dropping dominated candidates\<close>

text \<open>
  The reference compares every accepted candidate. Both loops are at the same place when they have seen the
  same labels, have the same leader, and that leader is the pick of the candidates of either.
\<close>

definition keep_all :: "candidate \<Rightarrow> candidate option \<Rightarrow> bool" where
  "keep_all c leader = False"

definition same_race :: "legacy \<Rightarrow> legacy \<Rightarrow> bool" where
  "same_race s t \<longleftrightarrow> le_seen s = le_seen t \<and> le_accepted s = le_accepted t \<and> le_leader s = le_leader t
     \<and> pickCandidate (le_candidates s) = le_leader s \<and> pickCandidate (le_candidates t) = le_leader t"

lemma pickCandidate_snoc: "pickCandidate (cs @ [c]) = lead c (pickCandidate cs)"
  by (cases cs) (auto simp: lead_def)

lemma scoreLanguage_fields [simp]:
  "ca_quality (scoreLanguage tb tx c) = ca_quality c" "ca_confidence (scoreLanguage tb tx c) = ca_confidence c"
  by (simp_all add: scoreLanguage_def split: option.split)

lemma scoreLanguage_lang:
  "ca_lang c = None \<Longrightarrow> ca_lang (scoreLanguage tb tx c) = Detect (tb_env tb) (tb_detector tb) tx"
  by (simp add: scoreLanguage_def split: option.split)

text \<open>A detector gives probabilities.\<close>

definition probabilities :: "detector \<Rightarrow> bool" where
  "probabilities det \<longleftrightarrow> (\<forall>tx. list_all (\<lambda>p. snd p \<le> 1) (det tx))"

lemma Detect_at_most_one: "probabilities det \<Longrightarrow> Detect u det tx = Some r \<Longrightarrow> lr_confidence r \<le> 1"
proof -
  assume p: "probabilities det" and d: "Detect u det tx = Some r"
  then obtain code conf rest where "det (sample tx) = (code, conf) # rest" "lr_confidence r = conf"
    by (auto simp: Detect_def Let_def split: if_splits list.splits prod.splits)
  then show ?thesis using p by (auto simp: probabilities_def dest: spec [of _ "sample tx"])
qed

lemma dominated_loses:
  assumes "probabilities (tb_detector tb)" "dominated c (Some l)" "ca_lang c = None" "ca_confidence c \<le> ca_confidence l"
  shows "\<not> betterCandidate (scoreLanguage tb tx c) l"
proof -
  obtain r where r: "ca_lang l = Some r" "lr_confidence r = 1" "ca_quality c \<le> ca_quality l"
    using assms(2) by (auto simp: dominated_def split: option.splits)
  show ?thesis
  proof (cases "Detect (tb_env tb) (tb_detector tb) tx")
    case None
    then show ?thesis using r scoreLanguage_lang [OF assms(3)] by (simp add: betterCandidate_def)
  next
    case (Some x)
    then have "lr_confidence x \<le> 1" using Detect_at_most_one [OF assms(1)] by blast
    then show ?thesis using r Some scoreLanguage_lang [OF assms(3)] assms(4) by (simp add: betterCandidate_def)
  qed
qed

lemma decodeCandidate_fields:
  "decodeCandidate tb smp enc k = Some (c, tx) \<Longrightarrow> ca_lang c = None \<and> ca_confidence c = k"
  by (auto simp: decodeCandidate_def Let_def bind_eq_Some_conv split: if_splits)

lemma accept_same_race:
  assumes "same_race s t" "probabilities (tb_detector tb)" "ca_lang c = None"
    and "\<And>l. le_leader s = Some l \<Longrightarrow> ca_confidence c \<le> ca_confidence l"
  shows "same_race (accept tb dominated (c, tx) s) (accept tb keep_all (c, tx) t)"
proof (cases "dominated c (le_leader s)")
  case True
  then obtain l where l: "le_leader s = Some l" by (auto simp: dominated_def split: option.splits)
  then have "\<not> betterCandidate (scoreLanguage tb tx c) l" using dominated_loses [OF assms(2)] True assms(3,4) by metis
  moreover have "le_leader t = Some l" using assms(1) l by (simp add: same_race_def)
  ultimately show ?thesis using assms(1) True l
    by (simp add: same_race_def accept_def keep_all_def Let_def pickCandidate_snoc lead_def)
next
  case False
  then show ?thesis using assms(1)
    by (simp add: same_race_def accept_def keep_all_def Let_def pickCandidate_snoc)
qed

text \<open>Later results never have a higher confidence, so every leader is at least as confident as what follows.\<close>

lemma accept_leader:
  assumes "le_leader (accept tb drops (c, tx) s) = Some l" "\<And>l. le_leader s = Some l \<Longrightarrow> k \<le> ca_confidence l" "k \<le> ca_confidence c"
  shows "k \<le> ca_confidence l"
  using assms by (auto simp: accept_def Let_def lead_def split: if_splits option.splits)

lemma legacy_loop_same_race:
  assumes "same_race s t" "probabilities (tb_detector tb)" "sorted_wrt (\<ge>) (map snd results)"
    and "\<And>l r. le_leader s = Some l \<Longrightarrow> r \<in> set results \<Longrightarrow> snd r \<le> ca_confidence l"
  shows "same_race (legacy_loop tb dominated smp results s) (legacy_loop tb keep_all smp results t)"
  using assms
proof (induction results arbitrary: s t)
  case (Cons result results)
  let ?key = "to_lower (tb_env tb) (trim_space (fst result))"
  let ?s = "s\<lparr>le_seen := ?key # le_seen s\<rparr>" and ?t = "t\<lparr>le_seen := ?key # le_seen t\<rparr>"
  have seen: "le_seen s = le_seen t" using Cons.prems(1) by (simp add: same_race_def)
  have sorted: "sorted_wrt (\<ge>) (map snd results)" "\<And>r. r \<in> set results \<Longrightarrow> snd r \<le> snd result" using Cons.prems(3) by auto
  have same_next: "same_race ?s ?t" using Cons.prems(1) by (simp add: same_race_def)
  show ?case
  proof (cases "?key \<in> set (le_seen t) \<or> ?key = []")
    case True
    have "same_race (legacy_loop tb dominated smp results s) (legacy_loop tb keep_all smp results t)"
      by (rule Cons.IH [OF Cons.prems(1,2) sorted(1)]) (use Cons.prems(4) in auto)
    then show ?thesis using True seen by (auto simp: Let_def)
  next
    case False
    show ?thesis
    proof (cases "Option.bind (encodingForLabel tb (trim_space (fst result))) (\<lambda>enc. decodeCandidate tb smp enc (snd result))")
      case None
      have "same_race (legacy_loop tb dominated smp results ?s) (legacy_loop tb keep_all smp results ?t)"
        by (rule Cons.IH [OF same_next Cons.prems(2) sorted(1)]) (use Cons.prems(4) in auto)
      then show ?thesis using False None seen by (simp add: Let_def)
    next
      case (Some ct)
      obtain c tx where ct: "ct = (c, tx)" by force
      have c: "ca_lang c = None" "ca_confidence c = snd result"
        using Some decodeCandidate_fields [of tb smp _ "snd result" c tx] ct by (auto simp: bind_eq_Some_conv)
      have race: "same_race (accept tb dominated ct ?s) (accept tb keep_all ct ?t)"
        unfolding ct by (rule accept_same_race [OF same_next Cons.prems(2) c(1)]) (use Cons.prems(4) c(2) in auto)
      have "same_race (legacy_loop tb dominated smp results (accept tb dominated ct ?s)) (legacy_loop tb keep_all smp results (accept tb keep_all ct ?t))"
      proof (rule Cons.IH [OF race Cons.prems(2) sorted(1)])
        fix l r assume "le_leader (accept tb dominated ct ?s) = Some l" "r \<in> set results"
        then show "snd r \<le> ca_confidence l"
          using accept_leader [of tb dominated c tx ?s l "snd r"] Cons.prems(4) sorted(2) c(2) ct by fastforce
      qed
      moreover have "le_accepted (accept tb dominated ct ?s) = le_accepted (accept tb keep_all ct ?t)"
        using race by (simp add: same_race_def)
      ultimately show ?thesis using False Some seen race by (simp add: Let_def)
    qed
  qed
qed simp

section \<open>Properties\<close>

text \<open>
  C40: Dropping candidates early changes nothing. When the detector ranks its candidates by confidence and
  language confidences are probabilities, \<open>detectLegacy\<close>, which skips the language detection of candidates
  the leader dominates, picks the encoding that comparing all accepted candidates picks.
\<close>

theorem dominated_candidates_never_win:
  assumes "probabilities (tb_detector tb)" "\<And>rs. tb_chardet tb smp = Some rs \<Longrightarrow> sorted_wrt (\<ge>) (map snd rs)"
  shows "detectLegacy tb smp = detectLegacy_with keep_all tb smp"
proof (cases "tb_chardet tb smp")
  case (Some results)
  have "same_race legacy_init legacy_init" by (simp add: same_race_def legacy_init_def)
  then have "same_race (legacy_loop tb dominated smp results legacy_init) (legacy_loop tb keep_all smp results legacy_init)"
    by (rule legacy_loop_same_race [OF _ assms(1) assms(2) [OF Some]]) (simp add: legacy_init_def)
  then show ?thesis using Some by (simp add: detectLegacy_def detectLegacy_with_def same_race_def)
qed (simp add: detectLegacy_def detectLegacy_with_def)

definition demo_tables :: tables where
  "demo_tables = \<lparr>tb_env = plain_env, tb_unassigned = \<lambda>_. False, tb_index = \<lambda>l. l \<noteq> [], tb_decode = \<lambda>_ s. Some (replace_all [chr 233] (encode_rune 233) s),
     tb_chardet = \<lambda>_. Some [(''ISO-8859-1'', 80), (''windows-1250'', 40)], tb_detector = \<lambda>_. [(''en'', 1)]\<rparr>"

theorem dominated_candidates_never_win_witness:
  "detectLegacy demo_tables (''caf'' @ [chr 233]) = detectLegacy_with keep_all demo_tables (''caf'' @ [chr 233])"
  by (rule dominated_candidates_never_win) (auto simp: demo_tables_def probabilities_def)

end
