(* ===== verification/RtfDecode.thy ===== *)
theory RtfDecode
  imports GoStrings
begin

text \<open>
  Model of \<open>internal/parser/rtf/decode.go\<close> and \<open>codepage.go\<close>: the decoder that turns RTF bytes
  into UTF-8 text. The unread input is \<open>d_in\<close>; what \<open>bufio\<close> holds of it at a step is a prefix
  whose length is given by the oracle \<open>vis\<close> (of the number of unread bytes). The stack is
  \<open>d_top\<close> above \<open>d_below\<close>, innermost group first. The tables of \<open>golang.org/x/text\<close> are the
  parameter \<open>cs\<close>: the decoded text and whether the decoder accepted the bytes.
\<close>

section \<open>Code pages\<close>

datatype codec = Windows1252 | CodePage437 | CodePage850 | CodePage852 | CodePage855 | CodePage858 | CodePage860
  | CodePage862 | CodePage863 | CodePage865 | CodePage866 | Windows874 | ShiftJIS | GBK | EUCKR | Big5 | Macintosh
  | Windows1250 | Windows1251 | Windows1253 | Windows1254 | Windows1255 | Windows1256 | Windows1257 | Windows1258 | UTF8

type_synonym codecs = "codec \<Rightarrow> string \<Rightarrow> string \<times> bool"

definition fontCharsetCodePages :: "(int \<times> int) list" where
  "fontCharsetCodePages = [(77, 10000), (128, 932), (129, 949), (134, 936), (136, 950), (161, 1253), (162, 1254), (163, 1258),
     (177, 1255), (178, 1256), (186, 1257), (204, 1251), (222, 874), (238, 1250)]"

definition codePages :: "(int \<times> codec) list" where
  "codePages = [(0, Windows1252), (1252, Windows1252), (437, CodePage437), (850, CodePage850), (852, CodePage852), (855, CodePage855),
     (858, CodePage858), (860, CodePage860), (862, CodePage862), (863, CodePage863), (865, CodePage865), (866, CodePage866),
     (874, Windows874), (932, ShiftJIS), (936, GBK), (949, EUCKR), (950, Big5), (10000, Macintosh), (1250, Windows1250),
     (1251, Windows1251), (1253, Windows1253), (1254, Windows1254), (1255, Windows1255), (1256, Windows1256),
     (1257, Windows1257), (1258, Windows1258), (65001, UTF8)]"

definition encodingForCodePage :: "int \<Rightarrow> codec" where
  "encodingForCodePage n = (case map_of codePages n of Some c \<Rightarrow> c | None \<Rightarrow> Windows1252)"

section \<open>Destinations\<close>

definition destinationSkipped :: "string \<Rightarrow> bool" where
  "destinationSkipped name \<longleftrightarrow> name \<in> set [''annotation'', ''atndate'', ''atnauthor'', ''atnid'', ''atnref'',
     ''bkmkend'', ''bkmkstart'', ''colorschememapping'', ''colortbl'',
     ''datastore'', ''docvar'', ''filetbl'', ''fonttbl'', ''footer'', ''footerf'',
     ''footerl'', ''footerr'', ''fldinst'', ''ftnsep'', ''ftnsepc'', ''aftnsep'',
     ''aftnsepc'', ''generator'', ''header'', ''headerf'', ''headerl'', ''headerr'',
     ''latentstyles'', ''listtable'', ''listoverridetable'', ''listtext'',
     ''mmath'', ''mmathPr'', ''nonshppict'', ''objclass'', ''objdata'', ''objname'',
     ''object'', ''pict'', ''pn'', ''pnseclvl'', ''pntext'', ''propname'', ''rsidtbl'',
     ''shp'', ''shpinst'', ''shprslt'', ''staticval'', ''stylesheet'',
     ''themedata'', ''tc'', ''tcn'', ''template'', ''userprops'', ''xmlclose'',
     ''xmlnstbl'', ''xmlopen'', ''xe'']"

definition infoField :: "string \<Rightarrow> bool" where
  "infoField name \<longleftrightarrow> name \<in> set [''author'', ''category'', ''comment'', ''company'', ''doccomm'', ''keywords'',
     ''manager'', ''operator'', ''subject'', ''title'']"

section \<open>The state of the decoder\<close>

record group =
  g_uc :: int
  g_font :: int
  g_skip :: bool
  g_hidden :: bool
  g_dest :: string
  g_field :: string

text \<open>\<open>infoStarted\<close> holds the keys of \<open>info\<close>, so it is the domain of \<open>d_info\<close> here.\<close>

record dec =
  d_in :: string
  d_enc :: codec
  d_defaultFont :: int
  d_fonts :: "int \<Rightarrow> codec option"
  d_pending :: string
  d_out :: string
  d_top :: group
  d_below :: "group list"
  d_skipChars :: int
  d_highRune :: nat
  d_info :: "string \<Rightarrow> string option"
  d_bomChecked :: bool
  d_done :: bool

definition newTextDecoder :: "string \<Rightarrow> dec" where
  "newTextDecoder bs = \<lparr>d_in = bs, d_enc = Windows1252, d_defaultFont = 0, d_fonts = (\<lambda>_. None), d_pending = [], d_out = [],
     d_top = \<lparr>g_uc = 1, g_font = 0, g_skip = False, g_hidden = False, g_dest = [], g_field = []\<rparr>, d_below = [],
     d_skipChars = 0, d_highRune = 0, d_info = (\<lambda>_. None), d_bomChecked = False, d_done = False\<rparr>"

section \<open>Emitting text\<close>

fun first_dest :: "group list \<Rightarrow> string" where
  "first_dest [] = []"
| "first_dest (g # gs) = (if g_dest g = [] then first_dest gs else g_dest g)"

definition inInfo :: "dec \<Rightarrow> bool" where
  "inInfo d \<longleftrightarrow> first_dest (d_top d # d_below d) = ''info''"

definition infoBuilder :: "dec \<Rightarrow> string option" where
  "infoBuilder d = (let f = g_field (d_top d) in if f = [] \<or> \<not> inInfo d \<or> d_info d f = None then None else Some f)"

definition silent :: "dec \<Rightarrow> bool" where
  "silent d \<longleftrightarrow> g_skip (d_top d) \<or> g_hidden (d_top d)"

definition writeString :: "string \<Rightarrow> dec \<Rightarrow> dec" where
  "writeString s d = (if s = [] then d else
     let d = (case infoBuilder d of Some f \<Rightarrow> d\<lparr>d_info := (d_info d)(f \<mapsto> the (d_info d f) @ s)\<rparr> | None \<Rightarrow> d) in
     if silent d then d else d\<lparr>d_out := d_out d @ s\<rparr>)"

definition decodePending :: "codecs \<Rightarrow> dec \<Rightarrow> string" where
  "decodePending cs d = (let raw = d_pending d;
       enc = (case d_fonts d (g_font (d_top d)) of Some f \<Rightarrow> f | None \<Rightarrow> d_enc d) in
     case cs enc raw of (decoded, accepted) \<Rightarrow> if accepted then decoded else fst (cs Windows1252 raw))"

definition flushPending :: "codecs \<Rightarrow> dec \<Rightarrow> dec" where
  "flushPending cs d = (if d_pending d = [] then d else writeString (decodePending cs d) (d\<lparr>d_pending := []\<rparr>))"

definition flushHighRune :: "dec \<Rightarrow> dec" where
  "flushHighRune d = (if d_highRune d = 0 then d else writeString (encode_rune RuneError) (d\<lparr>d_highRune := 0\<rparr>))"

definition emitString :: "codecs \<Rightarrow> string \<Rightarrow> dec \<Rightarrow> dec" where
  "emitString cs s d = writeString s (flushHighRune (flushPending cs d))"

definition finish :: "codecs \<Rightarrow> dec \<Rightarrow> dec" where
  "finish cs d = flushHighRune (flushPending cs d)"

section \<open>Groups\<close>

definition push :: "dec \<Rightarrow> dec" where
  "push d = d\<lparr>d_below := d_top d # d_below d, d_skipChars := 0\<rparr>"

definition pop :: "codecs \<Rightarrow> dec \<Rightarrow> dec" where
  "pop cs d = (case d_below d of
       [] \<Rightarrow> d
     | g # gs \<Rightarrow> (flushPending cs d)\<lparr>d_top := g, d_below := gs, d_skipChars := 0\<rparr>)"

definition set_top :: "(group \<Rightarrow> group) \<Rightarrow> dec \<Rightarrow> dec" where
  "set_top f d = d\<lparr>d_top := f (d_top d)\<rparr>"

definition startInfoField :: "string \<Rightarrow> dec \<Rightarrow> dec" where
  "startInfoField name d = (if d_info d name \<noteq> None then set_top (g_field_update (\<lambda>_. [])) d
     else set_top (g_field_update (\<lambda>_. name)) (d\<lparr>d_info := (d_info d)(name \<mapsto> [])\<rparr>))"

section \<open>Control words\<close>

definition isASCIILetter :: "char \<Rightarrow> bool" where
  "isASCIILetter b \<longleftrightarrow> 97 \<le> byte b \<and> byte b \<le> 122 \<or> 65 \<le> byte b \<and> byte b \<le> 90"

definition isASCIIDigit :: "char \<Rightarrow> bool" where
  "isASCIIDigit b \<longleftrightarrow> 48 \<le> byte b \<and> byte b \<le> 57"

definition hexDigit :: "char \<Rightarrow> nat option" where
  "hexDigit b = (if 48 \<le> byte b \<and> byte b \<le> 57 then Some (byte b - 48)
     else if 97 \<le> byte b \<and> byte b \<le> 102 then Some (byte b - 97 + 10)
     else if 65 \<le> byte b \<and> byte b \<le> 70 then Some (byte b - 65 + 10) else None)"

definition hexValue :: "char \<Rightarrow> char \<Rightarrow> nat option" where
  "hexValue hi lo = (case (hexDigit hi, hexDigit lo) of (Some h, Some l) \<Rightarrow> Some (h * 16 + l) | _ \<Rightarrow> None)"

text \<open>\<open>utf16.DecodeRune\<close> on a pair of surrogates.\<close>

definition DecodeRune :: "nat \<Rightarrow> nat \<Rightarrow> rune" where
  "DecodeRune r1 r2 = (if 55296 \<le> r1 \<and> r1 < 56320 \<and> 56320 \<le> r2 \<and> r2 < 57344
     then (r1 - 55296) * 1024 + (r2 - 56320) + 65536 else RuneError)"

text \<open>\<open>string(r)\<close> of a possibly negative rune.\<close>

definition string_of_rune :: "int \<Rightarrow> string" where
  "string_of_rune r = (if r < 0 then encode_rune RuneError else encode_rune (nat r))"

definition unicode :: "codecs \<Rightarrow> int \<Rightarrow> dec \<Rightarrow> dec" where
  "unicode cs v d = (let d = flushPending cs d; r0 = wrap32 v; r = (if r0 < 0 then r0 + 65536 else r0);
       d = (if 55296 \<le> r \<and> r \<le> 56319 then (flushHighRune d)\<lparr>d_highRune := nat r\<rparr>
         else if 56320 \<le> r \<and> r \<le> 57343 \<and> d_highRune d \<noteq> 0
           then writeString (encode_rune (DecodeRune (d_highRune d) (nat r))) (d\<lparr>d_highRune := 0\<rparr>)
         else writeString (string_of_rune r) (flushHighRune d)) in
     d\<lparr>d_skipChars := g_uc (d_top d)\<rparr>)"

text \<open>The text of the control words that stand for characters.\<close>

definition wordText :: "(string \<times> string) list" where
  "wordText = [(''par'', [chr 10]), (''line'', [chr 10]), (''sect'', [chr 10]), (''page'', [chr 10]), (''softpage'', [chr 10]),
     (''softline'', [chr 10]), (''tab'', [chr 9]), (''cell'', [chr 9]), (''row'', [chr 10]),
     (''emdash'', encode_rune 8212), (''endash'', encode_rune 8211), (''bullet'', encode_rune 8226), (''lquote'', encode_rune 8216),
     (''rquote'', encode_rune 8217), (''ldblquote'', encode_rune 8220), (''rdblquote'', encode_rune 8221),
     (''emspace'', '' ''), (''enspace'', '' ''), (''qmspace'', '' '')]"

text \<open>The result of a step says whether the reader ended (with EOF or the error \<open>e\<close>).\<close>

definition bin :: "string option \<Rightarrow> int \<Rightarrow> dec \<Rightarrow> bool \<times> dec" where
  "bin e n d = (let d = (if 0 < d_skipChars d then d\<lparr>d_skipChars := d_skipChars d - 1\<rparr> else d); k = nat n in
     (length (d_in d) < k \<and> e \<noteq> None, d\<lparr>d_in := drop k (d_in d)\<rparr>))"

definition destinationWord :: "codecs \<Rightarrow> string \<Rightarrow> dec \<Rightarrow> dec" where
  "destinationWord cs name d =
     (if inInfo d \<and> infoField name then startInfoField name d
      else if destinationSkipped name \<and> d_below d \<noteq> [] then
        set_top (\<lambda>g. g\<lparr>g_skip := True, g_dest := name, g_font := (if name = ''fonttbl'' then - 1 else g_font g)\<rparr>) (flushPending cs d)
      else if name = ''info'' \<and> d_below d \<noteq> [] then
        set_top (\<lambda>g. g\<lparr>g_skip := True, g_dest := ''info''\<rparr>) (flushPending cs d)
      else d)"

definition controlWord :: "codecs \<Rightarrow> string option \<Rightarrow> string \<Rightarrow> int \<Rightarrow> bool \<Rightarrow> dec \<Rightarrow> bool \<times> dec" where
  "controlWord cs e name param hasParam d =
     (if name = ''ansicpg'' then (False, if hasParam then (flushPending cs d)\<lparr>d_enc := encodingForCodePage param\<rparr> else d)
      else if name = ''deff'' then (False, if hasParam
        then set_top (g_font_update (\<lambda>_. param)) ((flushPending cs d)\<lparr>d_defaultFont := param\<rparr>) else d)
      else if name = ''f'' then (False, if hasParam \<and> g_font (d_top d) \<noteq> param
        then set_top (g_font_update (\<lambda>_. param)) (flushPending cs d) else d)
      else if name = ''fcharset'' then (False, if hasParam \<and> g_dest (d_top d) = ''fonttbl'' \<and> 0 \<le> g_font (d_top d)
        then (case map_of fontCharsetCodePages param of
            Some codePage \<Rightarrow> d\<lparr>d_fonts := (d_fonts d)(g_font (d_top d) \<mapsto> encodingForCodePage codePage)\<rparr>
          | None \<Rightarrow> d) else d)
      else if name = ''plain'' then (False, if g_font (d_top d) \<noteq> d_defaultFont d
        then set_top (g_font_update (\<lambda>_. d_defaultFont d)) (flushPending cs d) else d)
      else if name = ''uc'' then (False, if hasParam then set_top (g_uc_update (\<lambda>_. param)) (d\<lparr>d_skipChars := 0\<rparr>) else d)
      else if name = ''u'' then (False, if hasParam then unicode cs param d else d)
      else if name = ''bin'' then (if hasParam \<and> 0 < param then bin e param d else (False, d))
      else if name = ''v'' then (False, set_top (g_hidden_update (\<lambda>_. \<not> hasParam \<or> param \<noteq> 0)) (flushPending cs d))
      else (False, case map_of wordText name of Some s \<Rightarrow> emitString cs s d | None \<Rightarrow> destinationWord cs name d))"

definition controlSymbol :: "codecs \<Rightarrow> char \<Rightarrow> dec \<Rightarrow> dec" where
  "controlSymbol cs b d =
     (if 0 < d_skipChars d \<and> (b \<in> set [chr 92, chr 123, chr 125, chr 126, chr 95, chr 45, chr 13, chr 10])
        then d\<lparr>d_skipChars := d_skipChars d - 1\<rparr>
      else if b = chr 92 \<or> b = chr 123 \<or> b = chr 125 then emitString cs [b] d
      else if b = chr 126 then emitString cs (encode_rune 160) d
      else if b = chr 95 then emitString cs [chr 45] d
      else if b = chr 13 \<or> b = chr 10 then emitString cs [chr 10] d
      else if b = chr 42 then (let d = flushPending cs d in
        if d_below d \<noteq> [] then set_top (\<lambda>g. g\<lparr>g_skip := True, g_dest := [chr 42]\<rparr>) d else d)
      else d)"

definition hexEscape :: "dec \<Rightarrow> bool \<times> dec" where
  "hexEscape d = (case d_in d of
       hi # lo # rest \<Rightarrow> (False, let d = d\<lparr>d_in := rest\<rparr> in
         case hexValue hi lo of
           None \<Rightarrow> d
         | Some v \<Rightarrow> if 0 < d_skipChars d then d\<lparr>d_skipChars := d_skipChars d - 1\<rparr> else d\<lparr>d_pending := d_pending d @ [chr v]\<rparr>)
     | _ \<Rightarrow> (True, d\<lparr>d_in := []\<rparr>))"

definition digits_value :: "string \<Rightarrow> int" where
  "digits_value ds = fold (\<lambda>c p. wrap64 (p * 10 + int (byte c - 48))) ds 0"

text \<open>A control word after its backslash: name, parameter, and at most one delimiting space.\<close>

definition control :: "codecs \<Rightarrow> string option \<Rightarrow> dec \<Rightarrow> bool \<times> dec" where
  "control cs e d = (case d_in d of
       [] \<Rightarrow> (True, d)
     | b # rest \<Rightarrow>
         if b = chr 39 then hexEscape (d\<lparr>d_in := rest\<rparr>)
         else if \<not> isASCIILetter b then (False, controlSymbol cs b (d\<lparr>d_in := rest\<rparr>))
         else let name = takeWhile isASCIILetter (b # rest); rest = dropWhile isASCIILetter (b # rest);
                  negative = (rest \<noteq> [] \<and> hd rest = chr 45); rest = (if negative then tl rest else rest);
                  ds = takeWhile isASCIIDigit rest; param = digits_value ds; rest = dropWhile isASCIIDigit rest;
                  rest = (if rest \<noteq> [] \<and> hd rest = chr 32 then tl rest else rest) in
              controlWord cs e name (wrap64 ((if negative then - 1 else 1) * param)) (ds \<noteq> []) (d\<lparr>d_in := rest\<rparr>))"

section \<open>Steps\<close>

definition utf8BOM :: string where "utf8BOM = [chr 239, chr 187, chr 191]"

definition plain_byte :: "char \<Rightarrow> bool" where
  "plain_byte c \<longleftrightarrow> 32 \<le> byte c \<and> byte c < 128 \<and> c \<noteq> chr 92 \<and> c \<noteq> chr 123 \<and> c \<noteq> chr 125"

definition high_byte :: "char \<Rightarrow> bool" where
  "high_byte c \<longleftrightarrow> 128 \<le> byte c"

definition discard :: "nat \<Rightarrow> dec \<Rightarrow> dec" where
  "discard n d = d\<lparr>d_in := drop n (d_in d)\<rparr>"

definition plainRun :: "codecs \<Rightarrow> string \<Rightarrow> dec \<Rightarrow> dec" where
  "plainRun cs buf d = (let run = takeWhile plain_byte buf in
     discard (length run) (writeString run (flushHighRune (flushPending cs d))))"

definition highRun :: "string \<Rightarrow> dec \<Rightarrow> dec" where
  "highRun buf d = (let run = takeWhile high_byte buf; n = length run; k = min (d_skipChars d) (int n);
       d = (if 0 < k then d\<lparr>d_skipChars := d_skipChars d - k\<rparr> else d); run = drop (nat k) run;
       d = (if run \<noteq> [] \<and> (infoBuilder d \<noteq> None \<or> \<not> silent d) then d\<lparr>d_pending := d_pending d @ run\<rparr> else d) in
     discard n d)"

definition dispatch :: "codecs \<Rightarrow> string option \<Rightarrow> string \<Rightarrow> dec \<Rightarrow> bool \<times> dec" where
  "dispatch cs e buf d = (let b = hd buf in
     if b = chr 123 then (False, push (flushPending cs (discard 1 d)))
     else if b = chr 125 then (False, pop cs (flushPending cs (discard 1 d)))
     else if b = chr 92 then control cs e (discard 1 d)
     else if byte b < 32 then (False, discard (length (takeWhile (\<lambda>c. byte c < 32) buf)) d)
     else if 128 \<le> byte b then (False, highRun buf d)
     else if 0 < d_skipChars d then (False, (discard 1 d)\<lparr>d_skipChars := d_skipChars d - 1\<rparr>)
     else (False, plainRun cs buf d))"

definition step :: "codecs \<Rightarrow> string option \<Rightarrow> (nat \<Rightarrow> nat) \<Rightarrow> dec \<Rightarrow> bool \<times> dec" where
  "step cs e vis d = (if d_in d = [] then (True, d)
     else let buf = take (max 1 (vis (length (d_in d)))) (d_in d) in
       if \<not> d_bomChecked d \<and> prefix utf8BOM buf then (False, (discard 3 d)\<lparr>d_bomChecked := True\<rparr>)
       else dispatch cs e buf (if 32 \<le> byte (hd buf) then d\<lparr>d_bomChecked := True\<rparr> else d))"

section \<open>Every step consumes input\<close>

lemma writeString_frame [simp]:
  "d_in (writeString s d) = d_in d" "d_enc (writeString s d) = d_enc d" "d_fonts (writeString s d) = d_fonts d"
  "d_pending (writeString s d) = d_pending d" "d_top (writeString s d) = d_top d" "d_below (writeString s d) = d_below d"
  "d_skipChars (writeString s d) = d_skipChars d" "d_highRune (writeString s d) = d_highRune d" "d_done (writeString s d) = d_done d"
  "d_bomChecked (writeString s d) = d_bomChecked d" "d_defaultFont (writeString s d) = d_defaultFont d"
  by (simp_all add: writeString_def Let_def split: option.split)

lemma flushPending_frame [simp]:
  "d_in (flushPending cs d) = d_in d" "d_enc (flushPending cs d) = d_enc d" "d_fonts (flushPending cs d) = d_fonts d"
  "d_pending (flushPending cs d) = []" "d_top (flushPending cs d) = d_top d" "d_below (flushPending cs d) = d_below d"
  "d_skipChars (flushPending cs d) = d_skipChars d" "d_highRune (flushPending cs d) = d_highRune d" "d_done (flushPending cs d) = d_done d"
  "d_bomChecked (flushPending cs d) = d_bomChecked d" "d_defaultFont (flushPending cs d) = d_defaultFont d"
  by (simp_all add: flushPending_def)

lemma flushHighRune_frame [simp]:
  "d_in (flushHighRune d) = d_in d" "d_enc (flushHighRune d) = d_enc d" "d_fonts (flushHighRune d) = d_fonts d"
  "d_pending (flushHighRune d) = d_pending d" "d_top (flushHighRune d) = d_top d" "d_below (flushHighRune d) = d_below d"
  "d_skipChars (flushHighRune d) = d_skipChars d" "d_highRune (flushHighRune d) = 0" "d_done (flushHighRune d) = d_done d"
  "d_bomChecked (flushHighRune d) = d_bomChecked d" "d_defaultFont (flushHighRune d) = d_defaultFont d"
  by (simp_all add: flushHighRune_def)

lemma flushPending_twice [simp]: "flushPending cs (flushPending cs d) = flushPending cs d"
  by (simp add: flushPending_def [of cs "flushPending cs d"])

lemma flushHighRune_twice [simp]: "flushHighRune (flushHighRune d) = flushHighRune d"
  by (simp add: flushHighRune_def [of "flushHighRune d"])

lemma set_top_frame [simp]:
  "d_in (set_top f d) = d_in d" "d_below (set_top f d) = d_below d" "d_out (set_top f d) = d_out d" "d_done (set_top f d) = d_done d"
  "d_bomChecked (set_top f d) = d_bomChecked d" "d_top (set_top f d) = f (d_top d)"
  by (simp_all add: set_top_def)

lemma emitString_frame [simp]:
  "d_in (emitString cs s d) = d_in d" "d_top (emitString cs s d) = d_top d" "d_below (emitString cs s d) = d_below d"
  "d_done (emitString cs s d) = d_done d" "d_bomChecked (emitString cs s d) = d_bomChecked d"
  by (simp_all add: emitString_def)

lemma unicode_frame [simp]:
  "d_in (unicode cs v d) = d_in d" "d_top (unicode cs v d) = d_top d" "d_below (unicode cs v d) = d_below d"
  "d_done (unicode cs v d) = d_done d" "d_bomChecked (unicode cs v d) = d_bomChecked d"
  by (simp_all add: unicode_def Let_def)

lemma startInfoField_frame [simp]:
  "d_in (startInfoField name d) = d_in d" "d_below (startInfoField name d) = d_below d" "d_done (startInfoField name d) = d_done d"
  "d_bomChecked (startInfoField name d) = d_bomChecked d" "g_skip (d_top (startInfoField name d)) = g_skip (d_top d)"
  "d_out (startInfoField name d) = d_out d"
  by (simp_all add: startInfoField_def)

lemma destinationWord_frame [simp]:
  "d_in (destinationWord cs name d) = d_in d" "d_below (destinationWord cs name d) = d_below d" "d_done (destinationWord cs name d) = d_done d"
  "d_bomChecked (destinationWord cs name d) = d_bomChecked d"
  by (simp_all add: destinationWord_def)

lemma controlSymbol_frame [simp]:
  "d_in (controlSymbol cs b d) = d_in d" "d_below (controlSymbol cs b d) = d_below d" "d_done (controlSymbol cs b d) = d_done d"
  "d_bomChecked (controlSymbol cs b d) = d_bomChecked d"
  by (simp_all add: controlSymbol_def Let_def)

lemma controlWord_frame:
  assumes "controlWord cs e name param has d = (stop, d')"
  shows "length (d_in d') \<le> length (d_in d)" "d_below d' = d_below d" "d_done d' = d_done d" "d_bomChecked d' = d_bomChecked d"
  using assms by (auto simp: controlWord_def bin_def Let_def split: if_splits option.splits)

lemma length_dropWhile_tl: "length (if c then tl (dropWhile P xs) else dropWhile P xs) \<le> length xs"
  using length_dropWhile_le [of P xs] by (simp, linarith)

lemma hexEscape_frame:
  assumes "hexEscape d = (stop, d')"
  shows "length (d_in d') \<le> length (d_in d)" "d_below d' = d_below d" "d_done d' = d_done d" "d_bomChecked d' = d_bomChecked d" "d_top d' = d_top d"
  using assms by (auto simp: hexEscape_def Let_def split: list.splits option.splits if_splits)

lemma control_frame:
  assumes "control cs e d = (stop, d')"
  shows "length (d_in d') \<le> length (d_in d) \<and> d_below d' = d_below d \<and> d_done d' = d_done d \<and> d_bomChecked d' = d_bomChecked d"
proof (cases "d_in d")
  case (Cons b rest)
  consider "b = chr 39" | "b \<noteq> chr 39" "\<not> isASCIILetter b" | "b \<noteq> chr 39" "isASCIILetter b" by blast
  then show ?thesis
  proof cases
    case 1
    then show ?thesis using assms Cons hexEscape_frame [of "d\<lparr>d_in := rest\<rparr>" stop d'] by (simp add: control_def)
  next
    case 2
    then show ?thesis using assms Cons by (auto simp: control_def)
  next
    case 3
    let ?r1 = "dropWhile isASCIILetter (b # rest)"
    let ?r2 = "if ?r1 \<noteq> [] \<and> hd ?r1 = chr 45 then tl ?r1 else ?r1"
    let ?r3 = "dropWhile isASCIIDigit ?r2"
    let ?r4 = "if ?r3 \<noteq> [] \<and> hd ?r3 = chr 32 then tl ?r3 else ?r3"
    have "length ?r4 \<le> length ?r2" by (rule length_dropWhile_tl)
    also have "\<dots> \<le> length (b # rest)" by (rule length_dropWhile_tl)
    finally have len: "length ?r4 \<le> length (d_in d)" by (simp only: Cons)
    obtain name param has where "controlWord cs e name param has (d\<lparr>d_in := ?r4\<rparr>) = (stop, d')"
      using assms 3 unfolding control_def Cons Let_def by simp
    from controlWord_frame [OF this] show ?thesis using len by (simp del: dropWhile.simps)
  qed
qed (use assms in \<open>simp add: control_def\<close>)

lemma discard_frame [simp]:
  "d_in (discard n d) = drop n (d_in d)" "d_out (discard n d) = d_out d" "d_pending (discard n d) = d_pending d"
  "d_top (discard n d) = d_top d" "d_below (discard n d) = d_below d" "d_skipChars (discard n d) = d_skipChars d"
  "d_highRune (discard n d) = d_highRune d" "d_info (discard n d) = d_info d" "d_bomChecked (discard n d) = d_bomChecked d"
  "d_done (discard n d) = d_done d"
  by (simp_all add: discard_def)

lemma plainRun_frame [simp]:
  "d_in (plainRun cs buf d) = drop (length (takeWhile plain_byte buf)) (d_in d)" "d_below (plainRun cs buf d) = d_below d"
  "d_top (plainRun cs buf d) = d_top d" "d_bomChecked (plainRun cs buf d) = d_bomChecked d" "d_done (plainRun cs buf d) = d_done d"
  by (simp_all add: plainRun_def Let_def)

lemma highRun_frame [simp]:
  "d_in (highRun buf d) = drop (length (takeWhile high_byte buf)) (d_in d)" "d_below (highRun buf d) = d_below d"
  "d_top (highRun buf d) = d_top d" "d_bomChecked (highRun buf d) = d_bomChecked d" "d_done (highRun buf d) = d_done d"
  "d_out (highRun buf d) = d_out d"
  by (simp_all add: highRun_def Let_def)

lemma pop_frame [simp]:
  "d_in (pop cs d) = d_in d" "d_bomChecked (pop cs d) = d_bomChecked d" "d_done (pop cs d) = d_done d"
  by (simp_all add: pop_def split: list.split)

lemma push_frame [simp]:
  "d_in (push d) = d_in d" "d_bomChecked (push d) = d_bomChecked d" "d_done (push d) = d_done d" "d_out (push d) = d_out d"
  by (simp_all add: push_def)

lemma run_length: "buf \<noteq> [] \<Longrightarrow> P (hd buf) \<Longrightarrow> 0 < length (takeWhile P buf)"
  by (cases buf) auto

lemma dispatch_frame:
  assumes "dispatch cs e buf d = (stop, d')" "d_in d \<noteq> []" "buf \<noteq> []"
  shows "length (d_in d') < length (d_in d) \<and> d_done d' = d_done d \<and> d_bomChecked d' = d_bomChecked d"
proof -
  let ?b = "hd buf"
  have less: "n > 0 \<Longrightarrow> length (drop n (d_in d)) < length (d_in d)" for n using assms(2) by simp
  have runs: "byte ?b < 32 \<Longrightarrow> 0 < length (takeWhile (\<lambda>c. byte c < 32) buf)" "128 \<le> byte ?b \<Longrightarrow> 0 < length (takeWhile high_byte buf)"
    "plain_byte ?b \<Longrightarrow> 0 < length (takeWhile plain_byte buf)"
    using run_length [OF assms(3)] by (auto simp: high_byte_def)
  have ctl: "control cs e (discard 1 d) = (stop, d') \<Longrightarrow> length (d_in d') < length (d_in d) \<and> d_done d' = d_done d \<and> d_bomChecked d' = d_bomChecked d"
    using control_frame [of cs e "discard 1 d" stop d'] less [of 1] by (simp del: length_drop)
  show ?thesis
    using assms(1) less [of 1] less [OF runs(1)] less [OF runs(2)] less [OF runs(3)] ctl
    unfolding dispatch_def Let_def by (auto simp: plain_byte_def split: if_splits simp del: length_drop)
qed

lemma step_frame:
  assumes "step cs e vis d = (stop, d')" "d_in d \<noteq> []"
  shows "length (d_in d') < length (d_in d) \<and> d_done d' = d_done d \<and> (d_bomChecked d \<longrightarrow> d_bomChecked d')"
proof -
  let ?buf = "take (max 1 (vis (length (d_in d)))) (d_in d)"
  have buf: "?buf \<noteq> []" using assms(2) by simp
  show ?thesis
  proof (cases "\<not> d_bomChecked d \<and> prefix utf8BOM ?buf")
    case False
    let ?d = "if 32 \<le> byte (hd ?buf) then d\<lparr>d_bomChecked := True\<rparr> else d"
    have "dispatch cs e ?buf ?d = (stop, d')" using assms(1) unfolding step_def Let_def if_not_P [OF assms(2)] if_not_P [OF False] .
    from dispatch_frame [OF this _ buf] show ?thesis using assms(2) by (cases "32 \<le> byte (hd ?buf)") simp_all
  qed (use assms in \<open>auto simp: step_def\<close>)
qed

section \<open>Decoding to the end\<close>

function decode_all :: "codecs \<Rightarrow> string option \<Rightarrow> (nat \<Rightarrow> nat) \<Rightarrow> dec \<Rightarrow> dec" where
  "decode_all cs e vis d = (case step cs e vis d of
       (True, d) \<Rightarrow> if e = None then finish cs d else d
     | (False, d) \<Rightarrow> decode_all cs e vis d)"
  by pat_completeness auto
termination
proof (relation "measure (\<lambda>(_, _, _, d). length (d_in d))", goal_cases)
  case (2 cs e vis d stop d')
  then have "d_in d \<noteq> []" by (auto simp: step_def)
  then show ?case using step_frame [of cs e vis d stop d'] 2 by simp
qed simp

declare decode_all.simps [simp del]

lemma decode_all_go: "step cs e vis d = (False, d') \<Longrightarrow> decode_all cs e vis d = decode_all cs e vis d'"
  by (simp add: decode_all.simps [of cs e vis d])

lemma decode_all_stop: "step cs e vis d = (True, d') \<Longrightarrow> decode_all cs e vis d = (if e = None then finish cs d' else d')"
  by (simp add: decode_all.simps [of cs e vis d])

section \<open>The reader's blocks do not matter\<close>

lemma writeString_Nil [simp]: "writeString [] d = d"
  by (simp add: writeString_def)

lemma infoBuilder_started: "infoBuilder d = Some f \<Longrightarrow> d_info d f \<noteq> None"
  by (auto simp: infoBuilder_def Let_def split: if_splits)

lemma writeString_eq:
  "writeString s d = d\<lparr>d_info := (case infoBuilder d of Some f \<Rightarrow> (d_info d)(f \<mapsto> the (d_info d f) @ s) | None \<Rightarrow> d_info d),
     d_out := (if silent d then d_out d else d_out d @ s)\<rparr>"
proof (cases "s = []")
  case True
  have "(d_info d)(f \<mapsto> the (d_info d f) @ []) = d_info d" if "infoBuilder d = Some f" for f
    using infoBuilder_started [OF that] by (auto simp: fun_eq_iff)
  then have "(case infoBuilder d of Some f \<Rightarrow> (d_info d)(f \<mapsto> the (d_info d f) @ []) | None \<Rightarrow> d_info d) = d_info d" by (simp split: option.split)
  then show ?thesis using True by (simp only: writeString_Nil append_Nil2 if_cancel) simp
qed (simp add: writeString_def Let_def silent_def split: option.split)

lemma infoBuilder_writeString [simp]: "infoBuilder (writeString s d) = infoBuilder d"
  by (simp add: writeString_eq infoBuilder_def inInfo_def Let_def split: option.split)

lemma silent_writeString [simp]: "silent (writeString s d) = silent d"
  by (simp add: writeString_eq silent_def)

lemma writeString_append: "writeString b (writeString a d) = writeString (a @ b) d"
  unfolding writeString_eq [of b] infoBuilder_writeString silent_writeString unfolding writeString_eq
  by (simp add: silent_def split: option.split)

lemma discard_discard: "discard m (discard n d) = discard (n + m) d"
  by (simp add: discard_def add.commute)

lemma writeString_discard: "writeString s (discard n d) = discard n (writeString s d)"
  by (simp add: writeString_def discard_def Let_def silent_def infoBuilder_def inInfo_def split: option.split)

text \<open>The reference: one byte at a time.\<close>

abbreviation bytewise :: "nat \<Rightarrow> nat" where
  "bytewise \<equiv> \<lambda>_. 1"

lemma bomChecked_same: "d_bomChecked d \<Longrightarrow> d\<lparr>d_bomChecked := True\<rparr> = d"
  by (cases d) simp

lemma step_bytewise: "d_bomChecked d \<Longrightarrow> d_in d = c # rest \<Longrightarrow> step cs e bytewise d = dispatch cs e [c] d"
  by (simp add: step_def Let_def bomChecked_same)

lemma step_checked:
  "d_bomChecked d \<Longrightarrow> d_in d \<noteq> [] \<Longrightarrow> step cs e vis d = dispatch cs e (take (max 1 (vis (length (d_in d)))) (d_in d)) d"
  by (simp add: step_def Let_def bomChecked_same)

lemma discard_none [simp]: "discard 0 d = d"
  by (simp add: discard_def)

lemma no_pending [simp]: "d_pending d = [] \<Longrightarrow> flushPending cs d = d"
  by (simp add: flushPending_def)

lemma no_highRune [simp]: "d_highRune d = 0 \<Longrightarrow> flushHighRune d = d"
  by (simp add: flushHighRune_def)

lemma skip_bytewise:
  assumes "\<forall>c \<in> set run. byte c < 32" "d_bomChecked d" "d_in d = run @ rest"
  shows "decode_all cs e bytewise d = decode_all cs e bytewise (discard (length run) d)"
  using assms
proof (induction run arbitrary: d)
  case (Cons c run)
  have "byte c < 32" using Cons.prems(1) by simp
  then have "c \<noteq> chr 123" "c \<noteq> chr 125" "c \<noteq> chr 92" by auto
  then have "step cs e bytewise d = (False, discard 1 d)"
    using step_bytewise [OF Cons.prems(2)] Cons.prems(3) \<open>byte c < 32\<close> by (simp add: dispatch_def Let_def)
  then have "decode_all cs e bytewise d = decode_all cs e bytewise (discard 1 d)" by (rule decode_all_go)
  also have "\<dots> = decode_all cs e bytewise (discard (length run) (discard 1 d))"
    using Cons.prems by (intro Cons.IH) simp_all
  finally show ?case by (simp add: discard_discard)
qed simp

lemma plain_bytewise:
  assumes "list_all plain_byte run" "run \<noteq> []" "d_bomChecked d" "d_in d = run @ rest" "\<not> 0 < d_skipChars d"
  shows "decode_all cs e bytewise d
    = decode_all cs e bytewise (discard (length run) (writeString run (flushHighRune (flushPending cs d))))"
  using assms
proof (induction run arbitrary: d)
  case (Cons c run)
  have c: "plain_byte c" using Cons.prems(1) by simp
  let ?d = "discard 1 (writeString [c] (flushHighRune (flushPending cs d)))"
  have "step cs e bytewise d = (False, plainRun cs [c] d)"
    using step_bytewise [OF Cons.prems(3)] Cons.prems(4,5) c by (simp add: dispatch_def Let_def plain_byte_def)
  moreover have "plainRun cs [c] d = ?d" using c by (simp add: plainRun_def)
  ultimately have go: "decode_all cs e bytewise d = decode_all cs e bytewise ?d" using decode_all_go by metis
  show ?case
  proof (cases "run = []")
    case True
    then show ?thesis using go by simp
  next
    case False
    have same: "flushHighRune (flushPending cs ?d) = ?d" by simp
    have "decode_all cs e bytewise ?d = decode_all cs e bytewise (discard (length run) (writeString run ?d))"
      using Cons.IH [OF _ False, of ?d] Cons.prems by (simp only: same) simp
    then show ?thesis using go by (simp add: writeString_discard writeString_append discard_discard)
  qed
qed simp

definition pend :: "string \<Rightarrow> dec \<Rightarrow> dec" where
  "pend run d = (if run \<noteq> [] \<and> (infoBuilder d \<noteq> None \<or> \<not> silent d) then d\<lparr>d_pending := d_pending d @ run\<rparr> else d)"

lemma infoBuilder_frame:
  "infoBuilder (d\<lparr>d_pending := p\<rparr>) = infoBuilder d" "silent (d\<lparr>d_pending := p\<rparr>) = silent d"
  "infoBuilder (d\<lparr>d_in := x\<rparr>) = infoBuilder d" "silent (d\<lparr>d_in := x\<rparr>) = silent d"
  "infoBuilder (d\<lparr>d_skipChars := k\<rparr>) = infoBuilder d" "silent (d\<lparr>d_skipChars := k\<rparr>) = silent d"
  by (simp_all add: infoBuilder_def inInfo_def silent_def Let_def)

lemma pend_laws:
  "pend [] d = d" "pend run (discard n d) = discard n (pend run d)" "pend run (d\<lparr>d_skipChars := k\<rparr>) = (pend run d)\<lparr>d_skipChars := k\<rparr>"
  "pend b (pend a d) = pend (a @ b) d" "d_skipChars (pend run d) = d_skipChars d"
  by (auto simp: pend_def discard_def infoBuilder_frame)

lemma skip_same: "d_skipChars d = k \<Longrightarrow> d\<lparr>d_skipChars := k\<rparr> = d"
  by auto

lemma highRun_all:
  assumes "list_all high_byte run"
  shows "highRun run d = discard (length run) (pend (drop (nat (min (d_skipChars d) (int (length run)))) run)
     (d\<lparr>d_skipChars := d_skipChars d - max 0 (min (d_skipChars d) (int (length run)))\<rparr>))"
proof -
  have run: "takeWhile high_byte run = run" using assms by (simp add: list_all_iff)
  have "(if 0 < k then d\<lparr>d_skipChars := d_skipChars d - k\<rparr> else d) = d\<lparr>d_skipChars := d_skipChars d - max 0 k\<rparr>" for k
    by (cases "0 < k") simp_all
  then show ?thesis unfolding highRun_def run Let_def pend_def by (simp only:)
qed

lemma highRun_Cons:
  assumes "list_all high_byte (c # run)"
  shows "highRun (c # run) d = highRun run (highRun [c] d)"
proof -
  have all: "list_all high_byte [c]" "list_all high_byte run" using assms by simp_all
  define n where "n = int (length run)"
  have n: "0 \<le> n" "int (length (c # run)) = n + 1" by (simp_all add: n_def)
  consider "d_skipChars d \<le> 0" | "0 < d_skipChars d" by linarith
  then show ?thesis
  proof cases
    case 1
    have same: "d\<lparr>d_skipChars := d_skipChars d - 0\<rparr> = d" by simp
    have zero: "max 0 (min (d_skipChars d) m) = 0 \<and> nat (min (d_skipChars d) m) = 0" for m using 1 by simp
    have "highRun [c] d = discard 1 (pend [c] d)" unfolding highRun_all [OF all(1)] using zero same by simp
    moreover have "highRun run (discard 1 (pend [c] d)) = discard (length run) (pend run (discard 1 (pend [c] d)))"
      unfolding highRun_all [OF all(2)] using zero by (simp add: pend_laws skip_same)
    moreover have "highRun (c # run) d = discard (length (c # run)) (pend (c # run) d)"
      unfolding highRun_all [OF assms] using zero same by simp
    ultimately show ?thesis by (simp add: pend_laws discard_discard)
  next
    case 2
    have k: "min (d_skipChars d) (n + 1) = min (d_skipChars d - 1) n + 1" by linarith
    have "nat (min (d_skipChars d - 1) n + 1) = Suc (nat (min (d_skipChars d - 1) n))" using 2 n(1) by auto
    then have left: "highRun (c # run) d = discard (Suc (length run)) (pend (drop (nat (min (d_skipChars d - 1) n)) run)
        (d\<lparr>d_skipChars := d_skipChars d - (min (d_skipChars d - 1) n + 1)\<rparr>))"
      unfolding highRun_all [OF assms] n(2) k using 2 n(1) by simp
    have "min (d_skipChars d) 1 = 1" using 2 by simp
    then have "highRun [c] d = discard 1 (d\<lparr>d_skipChars := d_skipChars d - 1\<rparr>)"
      unfolding highRun_all [OF all(1)] by (simp add: pend_laws)
    then show ?thesis using 2 n(1) unfolding left highRun_all [OF all(2)]
      by (simp add: pend_laws discard_discard flip: n_def) (simp add: discard_def)
  qed
qed

lemma high_bytewise:
  assumes "list_all high_byte run" "d_bomChecked d" "d_in d = run @ rest"
  shows "decode_all cs e bytewise d = decode_all cs e bytewise (highRun run d)"
  using assms
proof (induction run arbitrary: d)
  case Nil
  then show ?case by (simp add: highRun_def Let_def)
next
  case (Cons c run)
  have c: "128 \<le> byte c" "c \<noteq> chr 123" "c \<noteq> chr 125" "c \<noteq> chr 92" using Cons.prems(1) by (auto simp: high_byte_def)
  then have "step cs e bytewise d = (False, highRun [c] d)"
    using step_bytewise [OF Cons.prems(2)] Cons.prems(3) by (simp add: dispatch_def Let_def)
  then have "decode_all cs e bytewise d = decode_all cs e bytewise (highRun [c] d)" by (rule decode_all_go)
  also have "\<dots> = decode_all cs e bytewise (highRun run (highRun [c] d))"
    using Cons.prems c(1) by (intro Cons.IH) (simp_all add: high_byte_def)
  finally show ?case by (simp only: highRun_Cons [OF Cons.prems(1)])
qed

lemma step_any_blocks:
  assumes "d_bomChecked d" "step cs e vis d = (False, d')"
  shows "decode_all cs e bytewise d = decode_all cs e bytewise d'"
proof -
  let ?n = "max 1 (vis (length (d_in d)))"
  let ?buf = "take ?n (d_in d)"
  have ne: "d_in d \<noteq> []" using assms(2) by (auto simp: step_def)
  then obtain c rest where c: "d_in d = c # rest" by (cases "d_in d") auto
  then obtain buf where buf: "?buf = c # buf" by (cases ?n) auto
  have disp: "dispatch cs e (c # buf) d = (False, d')"
    using assms(2) unfolding step_checked [OF assms(1) ne] buf .
  have one: "step cs e bytewise d = dispatch cs e [c] d" by (rule step_bytewise [OF assms(1) c])
  have split: "d_in d = takeWhile P (c # buf) @ drop (length (takeWhile P (c # buf))) (d_in d)" for P
  proof -
    have "take (length (takeWhile P (c # buf))) (d_in d) = takeWhile P (c # buf)"
      by (metis buf length_takeWhile_le min.absorb2 take_take takeWhile_eq_take length_take min.bounded_iff)
    then show ?thesis by (metis append_take_drop_id)
  qed
  consider (special) "c = chr 123 \<or> c = chr 125 \<or> c = chr 92" | (low) "byte c < 32" "c \<noteq> chr 123" "c \<noteq> chr 125" "c \<noteq> chr 92"
    | (high) "128 \<le> byte c" "c \<noteq> chr 123" "c \<noteq> chr 125" "c \<noteq> chr 92" | (skipped) "plain_byte c" "0 < d_skipChars d"
    | (plain) "plain_byte c" "\<not> 0 < d_skipChars d" unfolding plain_byte_def using not_less by blast
  then show ?thesis
  proof cases
    case special
    then have "dispatch cs e [c] d = dispatch cs e (c # buf) d" by (auto simp: dispatch_def Let_def)
    then show ?thesis using decode_all_go one disp by metis
  next
    case low
    then have "d' = discard (length (takeWhile (\<lambda>c. byte c < 32) (c # buf))) d" using disp by (simp add: dispatch_def Let_def)
    then show ?thesis using skip_bytewise [OF _ assms(1) split] set_takeWhileD by metis
  next
    case high
    then have "d' = highRun (c # buf) d" using disp by (simp add: dispatch_def Let_def)
    also have "\<dots> = highRun (takeWhile high_byte (c # buf)) d" by (simp add: highRun_def)
    finally show ?thesis using high_bytewise [OF _ assms(1) split] by (metis list_all_iff set_takeWhileD)
  next
    case skipped
    then have "dispatch cs e [c] d = dispatch cs e (c # buf) d" by (auto simp: dispatch_def Let_def plain_byte_def)
    then show ?thesis using decode_all_go one disp by metis
  next
    case plain
    then have "d' = plainRun cs (c # buf) d" using disp by (simp add: dispatch_def Let_def plain_byte_def)
    moreover have "takeWhile plain_byte (c # buf) \<noteq> []" using plain by simp
    ultimately show ?thesis using plain_bytewise [OF _ _ assms(1) split plain(2)] unfolding plainRun_def Let_def
      by (metis list_all_iff set_takeWhileD)
  qed
qed

lemma dispatch_stop: "dispatch cs e (c # buf) d = (True, d') \<Longrightarrow> dispatch cs e [c] d = (True, d')"
  by (auto simp: dispatch_def Let_def split: if_splits)

lemma decode_any_blocks:
  assumes "d_bomChecked d"
  shows "decode_all cs e vis d = decode_all cs e bytewise d"
  using assms
proof (induction "length (d_in d)" arbitrary: d rule: less_induct)
  case less
  obtain stop d' where st: "step cs e vis d = (stop, d')" by force
  show ?case
  proof (cases "d_in d = []")
    case True
    then show ?thesis by (simp add: decode_all.simps [of cs e _ d] step_def)
  next
    case False
    show ?thesis
    proof (cases stop)
      case True
      obtain c rest where c: "d_in d = c # rest" using False by (cases "d_in d") auto
      then obtain buf where buf: "take (max 1 (vis (length (d_in d)))) (d_in d) = c # buf" by (cases "max 1 (vis (length (d_in d)))") auto
      have "dispatch cs e (c # buf) d = (True, d')" using st True unfolding step_checked [OF less(2) False] buf by simp
      then have "step cs e bytewise d = (True, d')" unfolding step_bytewise [OF less(2) c] by (rule dispatch_stop)
      then show ?thesis using st True by (simp add: decode_all_stop)
    next
      case go: False
      then have "decode_all cs e vis d = decode_all cs e vis d'" using st decode_all_go by simp
      also have "\<dots> = decode_all cs e bytewise d'" using less(1) step_frame [OF st False] less(2) by simp
      also have "\<dots> = decode_all cs e bytewise d" using step_any_blocks [OF less(2)] st go by simp
      finally show ?thesis .
    qed
  qed
qed

end
