(* ===== verification/RtfProps.thy ===== *)
theory RtfProps
  imports RtfDecode GoPaths
begin

text \<open>
  Properties of the RTF decoder of theory RtfDecode: its \<open>Read\<close>, skipped groups, and the
  reading of documents written by the rules of RTF.
\<close>

section \<open>Reading\<close>

datatype read_error = EOF | ReadFailed string

function fill :: "codecs \<Rightarrow> string option \<Rightarrow> (nat \<Rightarrow> nat) \<Rightarrow> dec \<Rightarrow> read_error option \<times> dec" where
  "fill cs e vis d = (if d_out d \<noteq> [] then (None, d) else if d_done d then (Some EOF, d)
     else case step cs e vis d of
       (False, d) \<Rightarrow> fill cs e vis d
     | (True, d) \<Rightarrow> (case e of
         Some err \<Rightarrow> (Some (ReadFailed err), d)
       | None \<Rightarrow> let d = finish cs (d\<lparr>d_done := True\<rparr>) in if d_out d = [] then (Some EOF, d) else (None, d)))"
  by pat_completeness auto
termination
proof (relation "measure (\<lambda>(_, _, _, d). length (d_in d))", goal_cases)
  case (2 cs e vis d stop d')
  then have "d_in d \<noteq> []" by (auto simp: step_def)
  then show ?case using step_frame [of cs e vis d stop d'] 2 by simp
qed simp

declare fill.simps [simp del]

definition decoder_Read :: "codecs \<Rightarrow> string option \<Rightarrow> (nat \<Rightarrow> nat) \<Rightarrow> nat \<Rightarrow> dec \<Rightarrow> string \<times> read_error option \<times> dec" where
  "decoder_Read cs e vis n d = (if n = 0 then ([], None, d) else case fill cs e vis d of
       (Some err, d) \<Rightarrow> ([], Some err, d)
     | (None, d) \<Rightarrow> (take n (d_out d), None, d\<lparr>d_out := drop n (d_out d)\<rparr>))"

text \<open>Text already produced does not influence the decoder: it can be taken away.\<close>

definition before :: "string \<Rightarrow> dec \<Rightarrow> dec" where
  "before p d = d\<lparr>d_out := p @ d_out d\<rparr>"

lemma before_fields [simp]:
  "d_in (before p d) = d_in d" "d_enc (before p d) = d_enc d" "d_fonts (before p d) = d_fonts d" "d_pending (before p d) = d_pending d"
  "d_top (before p d) = d_top d" "d_below (before p d) = d_below d" "d_skipChars (before p d) = d_skipChars d" "d_highRune (before p d) = d_highRune d"
  "d_done (before p d) = d_done d" "d_bomChecked (before p d) = d_bomChecked d" "d_defaultFont (before p d) = d_defaultFont d"
  "d_info (before p d) = d_info d" "d_out (before p d) = p @ d_out d" "infoBuilder (before p d) = infoBuilder d" "silent (before p d) = silent d"
  "inInfo (before p d) = inInfo d"
  by (simp_all add: before_def infoBuilder_def inInfo_def silent_def Let_def)

lemma before_updates [simp]:
  "(before p d)\<lparr>d_in := x\<rparr> = before p (d\<lparr>d_in := x\<rparr>)" "(before p d)\<lparr>d_enc := c\<rparr> = before p (d\<lparr>d_enc := c\<rparr>)"
  "(before p d)\<lparr>d_fonts := fs\<rparr> = before p (d\<lparr>d_fonts := fs\<rparr>)" "(before p d)\<lparr>d_pending := x\<rparr> = before p (d\<lparr>d_pending := x\<rparr>)"
  "(before p d)\<lparr>d_top := g\<rparr> = before p (d\<lparr>d_top := g\<rparr>)" "(before p d)\<lparr>d_below := gs\<rparr> = before p (d\<lparr>d_below := gs\<rparr>)"
  "(before p d)\<lparr>d_skipChars := k\<rparr> = before p (d\<lparr>d_skipChars := k\<rparr>)" "(before p d)\<lparr>d_highRune := n\<rparr> = before p (d\<lparr>d_highRune := n\<rparr>)"
  "(before p d)\<lparr>d_bomChecked := b\<rparr> = before p (d\<lparr>d_bomChecked := b\<rparr>)" "(before p d)\<lparr>d_defaultFont := k\<rparr> = before p (d\<lparr>d_defaultFont := k\<rparr>)"
  "(before p d)\<lparr>d_info := i\<rparr> = before p (d\<lparr>d_info := i\<rparr>)" "(before p d)\<lparr>d_done := b\<rparr> = before p (d\<lparr>d_done := b\<rparr>)"
  by (simp_all add: before_def)

lemma before_write [simp]: "writeString s (before p d) = before p (writeString s d)"
  by (simp add: writeString_eq cong: option.case_cong)

lemma before_flush [simp]:
  "flushPending cs (before p d) = before p (flushPending cs d)" "flushHighRune (before p d) = before p (flushHighRune d)"
  by (simp_all add: flushPending_def flushHighRune_def decodePending_def Let_def cong: option.case_cong)

lemma before_ops [simp]:
  "emitString cs s (before p d) = before p (emitString cs s d)" "finish cs (before p d) = before p (finish cs d)"
  "push (before p d) = before p (push d)" "set_top f (before p d) = before p (set_top f d)" "discard n (before p d) = before p (discard n d)"
  by (simp_all add: emitString_def finish_def push_def set_top_def discard_def)

lemma before_pop [simp]: "pop cs (before p d) = before p (pop cs d)"
  by (simp add: pop_def split: list.split)

lemma before_unicode [simp]: "unicode cs v (before p d) = before p (unicode cs v d)"
  by (simp add: unicode_def Let_def)

lemma before_words [simp]:
  "startInfoField name (before p d) = before p (startInfoField name d)" "controlSymbol cs b (before p d) = before p (controlSymbol cs b d)"
  by (simp_all add: startInfoField_def controlSymbol_def Let_def)

lemma before_destinationWord [simp]: "destinationWord cs name (before p d) = before p (destinationWord cs name d)"
  by (auto simp: destinationWord_def)

lemma before_bin [simp]: "bin e n (before p d) = map_prod id (before p) (bin e n d)"
  by (simp add: bin_def Let_def)

lemma before_controlWord [simp]: "controlWord cs e name param has (before p d) = map_prod id (before p) (controlWord cs e name param has d)"
  by (simp add: controlWord_def split: option.split)

lemma before_hexEscape [simp]: "hexEscape (before p d) = map_prod id (before p) (hexEscape d)"
  by (simp add: hexEscape_def Let_def split: list.split option.split)

lemma before_control [simp]: "control cs e (before p d) = map_prod id (before p) (control cs e d)"
  by (simp add: control_def Let_def split: list.split)

lemma before_runs [simp]: "plainRun cs buf (before p d) = before p (plainRun cs buf d)" "highRun buf (before p d) = before p (highRun buf d)"
  by (simp_all add: plainRun_def highRun_def Let_def)

lemma before_step: "step cs e vis (before p d) = map_prod id (before p) (step cs e vis d)"
  by (simp add: step_def dispatch_def Let_def)

lemma decode_before: "decode_all cs e vis (before p d) = before p (decode_all cs e vis d)"
proof (induction cs e vis d rule: decode_all.induct)
  case (1 cs e vis d)
  obtain stop d' where st: "step cs e vis d = (stop, d')" by force
  then have st2: "step cs e vis (before p d) = (stop, before p d')" by (simp add: before_step)
  show ?case
  proof (cases stop)
    case True
    then show ?thesis using st st2 by (simp add: decode_all_stop)
  next
    case False
    then show ?thesis using 1 [OF st [symmetric]] st st2 decode_all_go by simp
  qed
qed

text \<open>The text a reader still has to deliver.\<close>

definition to_deliver :: "codecs \<Rightarrow> (nat \<Rightarrow> nat) \<Rightarrow> dec \<Rightarrow> string" where
  "to_deliver cs vis d = (if d_done d then d_out d else d_out (decode_all cs None vis d))"

lemma to_deliver_before: "to_deliver cs vis (before p d) = p @ to_deliver cs vis d"
  by (simp add: to_deliver_def decode_before)

lemma finish_done: "finish cs (d\<lparr>d_done := b\<rparr>) = (finish cs d)\<lparr>d_done := b\<rparr>"
proof -
  have ib: "infoBuilder (d\<lparr>d_done := b\<rparr>) = infoBuilder d" "silent (d\<lparr>d_done := b\<rparr>) = silent d" for d
    by (simp_all add: infoBuilder_def inInfo_def silent_def Let_def)
  have w: "writeString s (d\<lparr>d_done := b\<rparr>) = (writeString s d)\<lparr>d_done := b\<rparr>" for s d
    by (simp add: writeString_eq ib cong: option.case_cong)
  have swap: "d\<lparr>d_done := b, d_pending := x\<rparr> = d\<lparr>d_pending := x\<rparr>\<lparr>d_done := b\<rparr>" "d\<lparr>d_done := b, d_highRune := n\<rparr> = d\<lparr>d_highRune := n\<rparr>\<lparr>d_done := b\<rparr>" for d x n
    by simp_all
  have "decodePending cs (d\<lparr>d_done := b\<rparr>) = decodePending cs d" for d
    by (simp add: decodePending_def Let_def cong: option.case_cong)
  then have "flushPending cs (d\<lparr>d_done := b\<rparr>) = (flushPending cs d)\<lparr>d_done := b\<rparr>" for d
    unfolding flushPending_def swap w by simp
  moreover have "flushHighRune (d\<lparr>d_done := b\<rparr>) = (flushHighRune d)\<lparr>d_done := b\<rparr>" for d
    unfolding flushHighRune_def swap w by simp
  ultimately show ?thesis by (simp add: finish_def)
qed

lemma fill_delivers:
  "fill cs None vis d = (err, d') \<Longrightarrow> to_deliver cs vis d' = to_deliver cs vis d \<and> (err = None \<longrightarrow> d_out d' \<noteq> [])
     \<and> (err \<noteq> None \<longrightarrow> err = Some EOF \<and> to_deliver cs vis d = [])"
proof (induction cs "None :: string option" vis d rule: fill.induct)
  case (1 cs vis d)
  obtain stop d1 where st: "step cs None vis d = (stop, d1)" by force
  show ?case
  proof (cases "d_out d \<noteq> [] \<or> d_done d")
    case True
    then show ?thesis using 1(2) by (auto simp: fill.simps [of cs None vis d] to_deliver_def split: if_splits)
  next
    case False
    show ?thesis
    proof (cases stop)
      case True
      have "to_deliver cs vis d = d_out (finish cs d1)" using False st True by (simp add: to_deliver_def decode_all_stop)
      then show ?thesis using 1(2) False st True
        by (auto simp: fill.simps [of cs None vis d] finish_done to_deliver_def Let_def split: if_splits)
    next
      case go: False
      then have "fill cs None vis d1 = (err, d')" using 1(2) False st by (simp add: fill.simps [of cs None vis d])
      moreover have "to_deliver cs vis d1 = to_deliver cs vis d"
      proof -
        have ne: "d_in d \<noteq> []" using st go by (auto simp: step_def)
        then show ?thesis using step_frame [OF st ne] False st go decode_all_go by (simp add: to_deliver_def)
      qed
      ultimately show ?thesis using 1(1) False st go by simp
    qed
  qed
qed

section \<open>Skipped groups\<close>

text \<open>All groups from depth \<open>k\<close> inwards are skipped.\<close>

definition skipping :: "nat \<Rightarrow> dec \<Rightarrow> bool" where
  "skipping k d \<longleftrightarrow> k \<le> length (d_below d) \<and> (\<forall>g \<in> set (take (Suc (length (d_below d)) - k) (d_top d # d_below d)). g_skip g)"

inductive inside :: "codecs \<Rightarrow> string option \<Rightarrow> (nat \<Rightarrow> nat) \<Rightarrow> nat \<Rightarrow> dec \<Rightarrow> dec \<Rightarrow> bool" for cs e vis k where
  start: "inside cs e vis k d d"
| step: "inside cs e vis k d d1 \<Longrightarrow> k \<le> length (d_below d1) \<Longrightarrow> step cs e vis d1 = (stop, d2) \<Longrightarrow> inside cs e vis k d d2"

definition same_group :: "dec \<Rightarrow> dec \<Rightarrow> bool" where
  "same_group d d' \<longleftrightarrow> d_out d' = d_out d \<and> d_below d' = d_below d \<and> (g_skip (d_top d) \<longrightarrow> g_skip (d_top d'))"

lemma silent_write: "g_skip (d_top d) \<Longrightarrow> d_out (writeString s d) = d_out d"
  by (simp add: writeString_eq silent_def)

lemma silent_flush: "g_skip (d_top d) \<Longrightarrow> d_out (flushPending cs d) = d_out d" "g_skip (d_top d) \<Longrightarrow> d_out (flushHighRune d) = d_out d"
  "g_skip (d_top d) \<Longrightarrow> d_out (emitString cs s d) = d_out d" "g_skip (d_top d) \<Longrightarrow> d_out (unicode cs v d) = d_out d"
  by (simp_all add: flushPending_def flushHighRune_def emitString_def unicode_def Let_def silent_write)

lemma silent_words:
  assumes "g_skip (d_top d)"
  shows "d_out (destinationWord cs name d) = d_out d \<and> g_skip (d_top (destinationWord cs name d))"
    "d_out (controlSymbol cs b d) = d_out d \<and> g_skip (d_top (controlSymbol cs b d))"
  using assms by (auto simp: destinationWord_def controlSymbol_def Let_def silent_flush)

lemma silent_controlWord:
  assumes "controlWord cs e name param has d = (stop, d')" "g_skip (d_top d)"
  shows "same_group d d'"
proof -
  have "d_below d' = d_below d" using controlWord_frame(2) [OF assms(1)] .
  moreover have "d_out d' = d_out d \<and> g_skip (d_top d')"
    using assms silent_words(1) [of d cs name]
    by (auto simp: controlWord_def bin_def Let_def silent_flush split: if_splits option.splits)
  ultimately show ?thesis by (simp add: same_group_def)
qed

lemma silent_control:
  assumes "control cs e d = (stop, d')" "g_skip (d_top d)"
  shows "same_group d d'"
proof -
  have "same_group (d\<lparr>d_in := x\<rparr>) d' \<longleftrightarrow> same_group d d'" for x by (simp add: same_group_def)
  note input = this
  show ?thesis
  proof (cases "d_in d")
    case Nil
    then show ?thesis using assms by (simp add: control_def same_group_def)
  next
    case (Cons b rest)
    consider "b = chr 39" | "b \<noteq> chr 39" "\<not> isASCIILetter b" | "b \<noteq> chr 39" "isASCIILetter b" by blast
    then show ?thesis
    proof cases
      case 1
      then have h: "hexEscape (d\<lparr>d_in := rest\<rparr>) = (stop, d')" using assms Cons by (simp add: control_def)
      then have "d_out d' = d_out d" by (auto simp: hexEscape_def Let_def split: list.splits option.splits if_splits)
      then show ?thesis using hexEscape_frame(2,5) [OF h] by (simp add: same_group_def)
    next
      case 2
      then show ?thesis using assms Cons silent_words(2) [of "d\<lparr>d_in := rest\<rparr>" cs b] by (auto simp: control_def same_group_def)
    next
      case 3
      then obtain name param has x where "controlWord cs e name param has (d\<lparr>d_in := x\<rparr>) = (stop, d')"
        using assms Cons unfolding control_def Let_def by simp
      then show ?thesis using silent_controlWord assms(2) input by fastforce
    qed
  qed
qed

lemma silent_dispatch:
  assumes "dispatch cs e buf d = (stop, d')" "g_skip (d_top d)"
  shows "same_group d d' \<or> d_out d' = d_out d \<and> (d_below d' = d_top d # d_below d \<and> d_top d' = d_top d \<or> d_below d = d_top d' # d_below d')"
proof -
  have ctl: "control cs e (discard 1 d) = (stop, d') \<Longrightarrow> same_group d d'"
    using silent_control [of cs e "discard 1 d" stop d'] assms(2) by (simp add: same_group_def)
  have pops: "same_group d (pop cs (flushPending cs (discard 1 d))) \<or> d_out (pop cs (flushPending cs (discard 1 d))) = d_out d \<and>
      d_below d = d_top (pop cs (flushPending cs (discard 1 d))) # d_below (pop cs (flushPending cs (discard 1 d)))"
    using assms(2) silent_flush(1) [of "discard 1 d" cs] by (cases "d_below d") (simp_all add: pop_def same_group_def)
  have pushes: "d_out (push (flushPending cs (discard 1 d))) = d_out d"
    "d_below (push (flushPending cs (discard 1 d))) = d_top d # d_below d" "d_top (push (flushPending cs (discard 1 d))) = d_top d"
    using assms(2) silent_flush(1) [of "discard 1 d" cs] by (simp_all add: push_def)
  have plain: "same_group d (plainRun cs buf d)"
    using assms(2) by (simp add: same_group_def plainRun_def Let_def silent_write silent_flush)
  show ?thesis using assms(1) ctl pops pushes plain unfolding dispatch_def Let_def
    by (auto simp: same_group_def split: if_splits)
qed

lemma skipping_top: "skipping k d \<Longrightarrow> g_skip (d_top d)"
  by (simp add: skipping_def Suc_diff_le)

lemma silent_step:
  assumes "step cs e vis d = (stop, d')" "skipping k d"
  shows "d_out d' = d_out d \<and> (k \<le> length (d_below d') \<longrightarrow> skipping k d')"
proof -
  have top: "g_skip (d_top d)" by (rule skipping_top [OF assms(2)])
  have cases: "same_group d d' \<or> d_out d' = d_out d \<and> (d_below d' = d_top d # d_below d \<and> d_top d' = d_top d \<or> d_below d = d_top d' # d_below d')"
  proof (cases "d_in d = []")
    case True
    then show ?thesis using assms(1) by (simp add: step_def same_group_def)
  next
    case False
    let ?buf = "take (max 1 (vis (length (d_in d)))) (d_in d)"
    show ?thesis
    proof (cases "\<not> d_bomChecked d \<and> prefix utf8BOM ?buf")
      case True
      then show ?thesis using assms(1) False by (auto simp: step_def Let_def same_group_def)
    next
      case no: False
      let ?d = "if 32 \<le> byte (hd ?buf) then d\<lparr>d_bomChecked := True\<rparr> else d"
      have "dispatch cs e ?buf ?d = (stop, d')" using assms(1) unfolding step_def Let_def if_not_P [OF False] if_not_P [OF no] .
      then show ?thesis using silent_dispatch [of cs e ?buf ?d stop d'] top
        by (cases "32 \<le> byte (hd ?buf)") (simp_all add: same_group_def)
    qed
  qed
  have k: "k \<le> length (d_below d)" using assms(2) by (simp add: skipping_def)
  show ?thesis using cases
  proof (elim disjE)
    assume "same_group d d'"
    then show ?thesis using assms(2) k top by (auto simp: same_group_def skipping_def Suc_diff_le)
  next
    assume "d_out d' = d_out d \<and> (d_below d' = d_top d # d_below d \<and> d_top d' = d_top d \<or> d_below d = d_top d' # d_below d')"
    then show ?thesis using assms(2) k by (auto simp: skipping_def Suc_diff_le)
  qed
qed

lemma inside_silent: "inside cs e vis k d d' \<Longrightarrow> skipping k d \<Longrightarrow> d_out d' = d_out d \<and> (k \<le> length (d_below d') \<longrightarrow> skipping k d')"
proof (induction rule: inside.induct)
  case (step d d1 stop d2)
  then show ?case using silent_step by metis
qed simp

end
