(* ===== verification/RtfText.thy ===== *)
theory RtfText
  imports RtfProps
begin

text \<open>
  The decoder of theory RtfDecode on whole documents: text written by the rules of RTF is read
  back, whatever blocks the reader delivers; and the properties of the decoder.
\<close>

section \<open>Writing RTF\<close>

text \<open>The decimal digits of a number.\<close>

fun decimal :: "nat \<Rightarrow> string" where
  "decimal n = (if n < 10 then [chr (48 + n)] else decimal (n div 10) @ [chr (48 + n mod 10)])"

declare decimal.simps [simp del]

text \<open>A UTF-16 unit as a signed \<open>\u\<close> word with the fallback character \<open>?\<close>.\<close>

definition rtf_unit :: "nat \<Rightarrow> string" where
  "rtf_unit u = chr 92 # ''u'' @ (if u < 32768 then decimal u else chr 45 # decimal (65536 - u)) @ ''?''"

definition rtf_char :: "rune \<Rightarrow> string" where
  "rtf_char r = (if r = 92 \<or> r = 123 \<or> r = 125 then [chr 92, chr r]
     else if r = 10 then chr 92 # ''par ''
     else if r = 9 then chr 92 # ''tab ''
     else if r < 128 then [chr r]
     else if r < 65536 then rtf_unit r
     else rtf_unit (55296 + (r - 65536) div 1024) @ rtf_unit (56320 + (r - 65536) mod 1024))"

definition rtf_document :: "rune list \<Rightarrow> string" where
  "rtf_document rs = chr 123 # chr 92 # ''rtf1 '' @ concat (map rtf_char rs) @ [chr 125]"

definition rtf_text :: "rune \<Rightarrow> bool" where
  "rtf_text r \<longleftrightarrow> scalar r \<and> (r = 9 \<or> r = 10 \<or> 32 \<le> r)"

section \<open>Reading numbers back\<close>

lemma chr_equal: "c = chr n \<longleftrightarrow> n mod 256 = byte c"
  using chr_numeral [of n c] by auto

lemma decimal_of_digits: "list_all isASCIIDigit (decimal n)" "decimal n \<noteq> []"
proof (induction n rule: decimal.induct)
  case (1 n)
  have d: "isASCIIDigit (chr (48 + m))" if "m < 10" for m using that by (simp add: isASCIIDigit_def)
  { case 1 then show ?case using \<open>\<not> n < 10 \<Longrightarrow> list_all isASCIIDigit (decimal (n div 10))\<close> d by (subst decimal.simps) simp }
  { case 2 then show ?case by (subst decimal.simps) simp }
qed

lemma digits_value_snoc: "digits_value (ds @ [c]) = wrap64 (digits_value ds * 10 + int (byte c - 48))"
  by (simp add: digits_value_def)

lemma digits_value_decimal: "n < 100000000 \<Longrightarrow> digits_value (decimal n) = int n"
proof (induction n rule: decimal.induct)
  case (1 n)
  show ?case
  proof (cases "n < 10")
    case True
    then have "digits_value [chr (48 + n)] = wrap64 (int n)" by (simp add: digits_value_def)
    then show ?thesis using True by (subst decimal.simps) (simp add: wrap64_id)
  next
    case False
    have "digits_value (decimal n) = wrap64 (int (n div 10) * 10 + int (n mod 10))"
      using 1 False by (subst decimal.simps) (simp add: digits_value_snoc)
    also have "int (n div 10) * 10 + int (n mod 10) = int n" proof -
      have "int (n div 10 * 10 + n mod 10) = int n" by (simp only: div_mult_mod_eq)
      then show ?thesis by (simp only: of_nat_add of_nat_mult of_nat_numeral)
    qed
    finally show ?thesis using 1(2) by (simp add: wrap64_id)
  qed
qed

lemma takeWhile_run: "list_all P xs \<Longrightarrow> \<not> P y \<Longrightarrow> takeWhile P (xs @ y # ys) = xs \<and> dropWhile P (xs @ y # ys) = y # ys"
  by (induction xs) auto

section \<open>Reading text back\<close>

definition ready :: "dec \<Rightarrow> bool" where
  "ready d \<longleftrightarrow> d_bomChecked d \<and> d_pending d = [] \<and> d_highRune d = 0 \<and> d_skipChars d = 0 \<and> g_uc (d_top d) = 1
     \<and> \<not> silent d \<and> g_field (d_top d) = []"

lemma ready_write: "ready d \<Longrightarrow> writeString s d = d\<lparr>d_out := d_out d @ s\<rparr>"
  by (simp add: writeString_eq ready_def infoBuilder_def)

lemma ready_same: "ready d \<Longrightarrow> flushPending cs d = d" "ready d \<Longrightarrow> flushHighRune d = d" "ready d \<Longrightarrow> ready (d\<lparr>d_in := x\<rparr>)"
  "ready d \<Longrightarrow> ready (d\<lparr>d_out := x\<rparr>)" "ready d \<Longrightarrow> ready (d\<lparr>d_in := x, d_out := y\<rparr>)"
  by (simp_all add: ready_def silent_def)

lemma wrap32_small: "- 32768 \<le> n \<Longrightarrow> n < 32768 \<Longrightarrow> wrap32 n = n" and wrap64_small: "- 100000000 \<le> n \<Longrightarrow> n < 100000000 \<Longrightarrow> wrap64 n = n"
  by (simp_all add: wrap32_id wrap64_id)

text \<open>One \<open>\u\<close> word and its fallback.\<close>

lemma control_unit:
  assumes "u < 65536" "d_in d = tl (rtf_unit u) @ rest"
  shows "control cs e d = (False, unicode cs (if u < 32768 then int u else int u - 65536) (d\<lparr>d_in := CHR ''?'' # rest\<rparr>))"
proof -
  define m where "m = (if u < 32768 then u else 65536 - u)"
  let ?neg = "\<not> u < 32768"
  have m: "m < 100000" "digits_value (decimal m) = int m" using assms(1) digits_value_decimal [of m] by (auto simp: m_def)
  have input: "d_in d = CHR ''u'' # (if ?neg then chr 45 # decimal m @ CHR ''?'' # rest else decimal m @ CHR ''?'' # rest)"
    using assms(2) by (simp add: rtf_unit_def m_def)
  obtain c ds where c: "decimal m = c # ds" "isASCIIDigit c" using decimal_of_digits [of m] by (cases "decimal m") auto
  have q: "\<not> isASCIIDigit CHR ''?''" by (simp add: isASCIIDigit_def)
  have digits: "takeWhile isASCIIDigit (decimal m @ CHR ''?'' # rest) = decimal m" "dropWhile isASCIIDigit (decimal m @ CHR ''?'' # rest) = CHR ''?'' # rest"
    using takeWhile_run [OF decimal_of_digits(1) q] by auto
  have letter: "isASCIILetter CHR ''u''" "\<not> isASCIILetter (chr 45)" "\<not> isASCIILetter c" "CHR ''u'' \<noteq> chr 39" "c \<noteq> chr 45"
    using c(2) by (auto simp: isASCIILetter_def isASCIIDigit_def chr_equal)
  have sp: "CHR ''?'' \<noteq> chr 32" by (simp add: chr_equal)
  have "wrap64 ((if ?neg then - 1 else 1) * int m) = (if u < 32768 then int u else int u - 65536)"
    using assms(1) by (auto simp: m_def wrap64_small)
  note val = this
  have word: "controlWord cs e ''u'' v True d' = (False, unicode cs v d')" for v d' by (simp add: controlWord_def)
  show ?thesis
  proof (cases "u < 32768")
    case True
    have "takeWhile isASCIILetter (CHR ''u'' # decimal m @ CHR ''?'' # rest) = ''u''" "dropWhile isASCIILetter (CHR ''u'' # decimal m @ CHR ''?'' # rest) = decimal m @ CHR ''?'' # rest"
      using letter c(1) by simp_all
    moreover have "hd (decimal m @ CHR ''?'' # rest) \<noteq> chr 45" using c(1) letter(5) by simp
    ultimately show ?thesis unfolding control_def input Let_def
      using True letter sp digits m(2) val word decimal_of_digits(2) by simp
  next
    case False
    have "takeWhile isASCIILetter (CHR ''u'' # chr 45 # decimal m @ CHR ''?'' # rest) = ''u''"
      "dropWhile isASCIILetter (CHR ''u'' # chr 45 # decimal m @ CHR ''?'' # rest) = chr 45 # decimal m @ CHR ''?'' # rest"
      using letter by simp_all
    then show ?thesis unfolding control_def input Let_def
      using False letter sp digits m(2) val word decimal_of_digits(2) by simp
  qed
qed

lemma backslash_step:
  assumes "d_bomChecked d" "d_in d = chr 92 # rest" "control cs e (d\<lparr>d_in := rest\<rparr>) = (False, d')"
  shows "decode_all cs e bytewise d = decode_all cs e bytewise d'"
proof -
  have "chr 92 \<noteq> chr 123" "chr 92 \<noteq> chr 125" by (simp_all add: chr_equal)
  then have "dispatch cs e [chr 92] d = (False, d')" using assms(2,3) by (simp add: dispatch_def Let_def discard_def)
  then show ?thesis using step_bytewise [of d "chr 92" rest cs e] assms(1,2) by (simp add: decode_all_go)
qed

lemma fallback_step:
  assumes "d_bomChecked d" "d_skipChars d = 1" "d_in d = CHR ''?'' # rest"
  shows "decode_all cs e bytewise d = decode_all cs e bytewise (d\<lparr>d_in := rest, d_skipChars := 0\<rparr>)"
proof -
  have "CHR ''?'' \<noteq> chr 123" "CHR ''?'' \<noteq> chr 125" "CHR ''?'' \<noteq> chr 92" by (simp_all add: chr_equal)
  then have "dispatch cs e [CHR ''?''] d = (False, d\<lparr>d_in := rest, d_skipChars := 0\<rparr>)"
    using assms(2,3) by (simp add: dispatch_def Let_def discard_def)
  then show ?thesis using step_bytewise [OF assms(1,3), of cs e] by (simp add: decode_all_go)
qed

lemma unit_steps:
  assumes "d_bomChecked d" "g_uc (d_top d) = 1" "u < 65536" "d_in d = rtf_unit u @ rest"
  shows "decode_all cs e bytewise d = decode_all cs e bytewise
     ((unicode cs (if u < 32768 then int u else int u - 65536) (d\<lparr>d_in := CHR ''?'' # rest\<rparr>))\<lparr>d_in := rest, d_skipChars := 0\<rparr>)"
proof -
  let ?v = "if u < 32768 then int u else int u - 65536"
  let ?d = "d\<lparr>d_in := tl (rtf_unit u) @ rest\<rparr>"
  have "rtf_unit u = chr 92 # tl (rtf_unit u)" by (simp add: rtf_unit_def)
  then have i: "d_in d = chr 92 # tl (rtf_unit u) @ rest" using assms(4) by (metis append_Cons)
  have "control cs e ?d = (False, unicode cs ?v (?d\<lparr>d_in := CHR ''?'' # rest\<rparr>))" by (rule control_unit [OF assms(3)]) simp
  then have c: "control cs e ?d = (False, unicode cs ?v (d\<lparr>d_in := CHR ''?'' # rest\<rparr>))" by simp
  have "d_skipChars (unicode cs ?v (d\<lparr>d_in := CHR ''?'' # rest\<rparr>)) = 1" "d_bomChecked (unicode cs ?v (d\<lparr>d_in := CHR ''?'' # rest\<rparr>))"
    using assms(1,2) by (simp_all add: unicode_def Let_def)
  from backslash_step [OF assms(1) i c] fallback_step [OF this(2,1)] show ?thesis by simp
qed

definition written :: "dec \<Rightarrow> string \<Rightarrow> string \<Rightarrow> dec" where
  "written d rest s = d\<lparr>d_in := rest, d_out := d_out d @ s\<rparr>"

lemma written_ready: "ready d \<Longrightarrow> ready (written d rest s)"
  by (simp add: written_def ready_same)

lemma unicode_scalar:
  assumes "flushPending cs d = d" "flushHighRune d = d" "(if wrap32 v < 0 then wrap32 v + 65536 else wrap32 v) = r"
    "\<not> (55296 \<le> r \<and> r \<le> 57343)"
  shows "unicode cs v d = (writeString (string_of_rune r) d)\<lparr>d_skipChars := g_uc (d_top d)\<rparr>"
proof -
  have c: "\<not> (55296 \<le> r \<and> r \<le> 56319)" "\<not> (56320 \<le> r \<and> r \<le> 57343 \<and> d_highRune d \<noteq> 0)" using assms(4) by auto
  show ?thesis unfolding unicode_def Let_def assms(1-3) if_not_P [OF c(1)] if_not_P [OF c(2)] by simp
qed

lemma decode_bmp:
  assumes "ready d" "u < 65536" "\<not> (55296 \<le> u \<and> u \<le> 57343)" "d_in d = rtf_unit u @ rest"
  shows "decode_all cs e bytewise d = decode_all cs e bytewise (written d rest (encode_rune u))"
proof -
  let ?v = "if u < 32768 then int u else int u - 65536"
  let ?d = "d\<lparr>d_in := CHR ''?'' # rest\<rparr>"
  have r: "(if wrap32 ?v < 0 then wrap32 ?v + 65536 else wrap32 ?v) = int u" using assms(2) wrap32_small [of ?v] by (auto split: if_splits)
  have rd: "ready ?d" using assms(1) by (rule ready_same(3))
  have "unicode cs ?v ?d = (writeString (string_of_rune (int u)) ?d)\<lparr>d_skipChars := g_uc (d_top ?d)\<rparr>"
    by (rule unicode_scalar [OF ready_same(1) [OF rd] ready_same(2) [OF rd] r]) (use assms(3) in simp)
  also have "\<dots> = (writeString (encode_rune u) ?d)\<lparr>d_skipChars := 1\<rparr>" using assms(1) by (simp add: string_of_rune_def ready_def)
  also have "\<dots> = (?d\<lparr>d_out := d_out ?d @ encode_rune u\<rparr>)\<lparr>d_skipChars := 1\<rparr>" by (simp only: ready_write [OF rd])
  finally have "(unicode cs ?v ?d)\<lparr>d_in := rest, d_skipChars := 0\<rparr> = written d rest (encode_rune u)"
    using assms(1) by (simp add: written_def ready_def)
  then show ?thesis using unit_steps [OF _ _ assms(2,4), of cs e] assms(1) by (simp add: ready_def)
qed

lemma decode_astral:
  assumes "ready d" "65536 \<le> r" "r \<le> 1114111" "d_in d = rtf_char r @ rest"
  shows "decode_all cs e bytewise d = decode_all cs e bytewise (written d rest (encode_rune r))"
proof -
  define hi where "hi = 55296 + (r - 65536) div 1024"
  define lo where "lo = 56320 + (r - 65536) mod 1024"
  have "(r - 65536) div 1024 < 1024" using assms(3) by (simp add: div_less_iff_less_mult)
  then have hl: "55296 \<le> hi" "hi < 56320" "56320 \<le> lo" "lo < 57344" by (auto simp: hi_def lo_def)
  have rune: "DecodeRune hi lo = r"
  proof -
    have "(hi - 55296) * 1024 + (lo - 56320) = r - 65536" unfolding hi_def lo_def by (simp only: diff_add_inverse div_mult_mod_eq)
    then show ?thesis using hl assms(2) by (simp add: DecodeRune_def)
  qed
  have i: "d_in d = rtf_unit hi @ rtf_unit lo @ rest" using assms(2,4) by (simp add: rtf_char_def hi_def lo_def)
  let ?d = "d\<lparr>d_in := CHR ''?'' # rtf_unit lo @ rest\<rparr>"
  let ?d1 = "d\<lparr>d_in := rtf_unit lo @ rest, d_highRune := hi\<rparr>"
  let ?d2 = "?d1\<lparr>d_in := CHR ''?'' # rest\<rparr>"
  let ?v = "\<lambda>u. if u < 32768 then int u else int u - 65536"
  have w: "wrap32 (?v u) = ?v u" "(if ?v u < 0 then ?v u + 65536 else ?v u) = int u" if "u < 65536" for u
    using that by (auto intro: wrap32_small)
  have rd: "ready ?d" using assms(1) by (rule ready_same(3))
  have "unicode cs (?v hi) ?d = ?d\<lparr>d_highRune := hi, d_skipChars := 1\<rparr>"
    unfolding unicode_def Let_def using w [of hi] hl ready_same(1,2) [OF rd] assms(1) by (auto simp: ready_def)
  then have "(unicode cs (?v hi) ?d)\<lparr>d_in := rtf_unit lo @ rest, d_skipChars := 0\<rparr> = ?d1" using assms(1) by (simp add: ready_def)
  then have 1: "decode_all cs e bytewise d = decode_all cs e bytewise ?d1"
    using unit_steps [OF _ _ _ i, of cs e] hl assms(1) by (simp add: ready_def)
  have p: "flushPending cs ?d2 = ?d2" using assms(1) by (simp add: ready_def)
  have wr: "writeString s (?d2\<lparr>d_highRune := 0\<rparr>) = ?d2\<lparr>d_highRune := 0, d_out := d_out d @ s\<rparr>" for s
    using ready_write [of "?d2\<lparr>d_highRune := 0\<rparr>" s] assms(1) by (simp add: ready_def silent_def)
  have "unicode cs (?v lo) ?d2 = ?d2\<lparr>d_highRune := 0, d_out := d_out d @ encode_rune r, d_skipChars := 1\<rparr>"
    unfolding unicode_def Let_def p using w [of lo] hl wr [of "encode_rune r"] rune assms(1) by (simp add: ready_def)
  then have done2: "(unicode cs (?v lo) ?d2)\<lparr>d_in := rest, d_skipChars := 0\<rparr> = written d rest (encode_rune r)"
    using assms(1) by (simp add: written_def ready_def)
  have "?d1\<lparr>d_in := CHR ''?'' # rest\<rparr> = ?d2" by simp
  then have "decode_all cs e bytewise ?d1 = decode_all cs e bytewise (written d rest (encode_rune r))"
    using unit_steps [of ?d1 lo rest cs e] hl assms(1) done2 by (simp add: ready_def)
  then show ?thesis using 1 by simp
qed

lemma decode_escape:
  assumes "ready d" "r = 92 \<or> r = 123 \<or> r = 125" "d_in d = chr 92 # chr r # rest"
  shows "decode_all cs e bytewise d = decode_all cs e bytewise (written d rest [chr r])"
proof -
  let ?d = "d\<lparr>d_in := rest\<rparr>"
  have rd: "ready ?d" using assms(1) by (rule ready_same(3))
  have r: "chr r \<noteq> chr 39" "\<not> isASCIILetter (chr r)" "chr r = chr 92 \<or> chr r = chr 123 \<or> chr r = chr 125"
    using assms(2) by (auto simp: chr_equal isASCIILetter_def)
  have "controlSymbol cs (chr r) ?d = emitString cs [chr r] ?d" using r(3) assms(1) by (simp add: controlSymbol_def ready_def)
  also have "\<dots> = ?d\<lparr>d_out := d_out ?d @ [chr r]\<rparr>" by (simp only: emitString_def ready_same(1,2) [OF rd] ready_write [OF rd])
  finally have "control cs e (d\<lparr>d_in := chr r # rest\<rparr>) = (False, written d rest [chr r])" using r(1,2) by (simp add: control_def written_def)
  then show ?thesis using backslash_step [OF _ assms(3)] assms(1) by (simp add: ready_def)
qed

lemma control_named:
  assumes "list_all isASCIILetter name" "name \<noteq> []" "d_in d = name @ CHR '' '' # rest"
  shows "control cs e d = controlWord cs e name 0 False (d\<lparr>d_in := rest\<rparr>)"
proof -
  have sp: "\<not> isASCIILetter CHR '' ''" "\<not> isASCIIDigit CHR '' ''" "CHR '' '' \<noteq> chr 45" "CHR '' '' = chr 32"
    by (simp_all add: isASCIILetter_def isASCIIDigit_def chr_equal)
  obtain b bs where b: "name = b # bs" "isASCIILetter b" using assms(1,2) by (cases name) auto
  then have "b \<noteq> chr 39" by (auto simp: isASCIILetter_def)
  moreover have "takeWhile isASCIILetter (b # bs @ CHR '' '' # rest) = name" "dropWhile isASCIILetter (b # bs @ CHR '' '' # rest) = CHR '' '' # rest"
    using takeWhile_run [OF assms(1) sp(1)] b(1) by auto
  ultimately show ?thesis unfolding control_def assms(3) Let_def b(1)
    using b(2) sp wrap64_small [of 0] by (simp add: digits_value_def del: takeWhile.simps dropWhile.simps) (simp add: b(1))
qed

lemma decode_named:
  assumes "ready d" "list_all isASCIILetter name" "name \<noteq> []" "d_in d = chr 92 # name @ CHR '' '' # rest"
    "\<And>d. controlWord cs e name 0 False d = (False, emitString cs s d)"
  shows "decode_all cs e bytewise d = decode_all cs e bytewise (written d rest s)"
proof -
  let ?d = "d\<lparr>d_in := rest\<rparr>"
  have rd: "ready ?d" using assms(1) by (rule ready_same(3))
  have "control cs e (d\<lparr>d_in := name @ CHR '' '' # rest\<rparr>) = (False, emitString cs s ?d)"
    using control_named [OF assms(2,3), of "d\<lparr>d_in := name @ CHR '' '' # rest\<rparr>" rest cs e] assms(5) by simp
  also have "emitString cs s ?d = written d rest s" by (simp add: emitString_def ready_same(1,2) [OF rd] ready_write [OF rd] written_def)
  finally show ?thesis using backslash_step [OF _ assms(4)] assms(1) by (simp add: ready_def)
qed

lemma decode_char:
  assumes "ready d" "rtf_text r" "d_in d = rtf_char r @ rest"
  shows "decode_all cs e bytewise d = decode_all cs e bytewise (written d rest (encode_rune r))"
proof -
  consider "r = 92 \<or> r = 123 \<or> r = 125" | "r = 10" | "r = 9" | "32 \<le> r" "r < 128" "r \<noteq> 92" "r \<noteq> 123" "r \<noteq> 125"
    | "128 \<le> r" "r < 65536" | "65536 \<le> r" using assms(2) unfolding rtf_text_def by linarith
  then show ?thesis
  proof cases
    case 1
    then have "d_in d = chr 92 # chr r # rest" using assms(3) by (simp add: rtf_char_def)
    moreover have "encode_rune r = [chr r]" using 1 by (auto simp: encode_rune_small)
    ultimately show ?thesis using decode_escape [OF assms(1) 1] by simp
  next
    case 2
    have "list_all isASCIILetter ''par''" by (simp add: isASCIILetter_def)
    moreover have "controlWord cs e ''par'' 0 False d = (False, emitString cs [chr 10] d)" for d by (simp add: controlWord_def wordText_def)
    ultimately show ?thesis using decode_named [OF assms(1), of "''par''" rest cs e "[chr 10]"] assms(3) 2
      by (simp add: rtf_char_def encode_rune_small)
  next
    case 3
    have "list_all isASCIILetter ''tab''" by (simp add: isASCIILetter_def)
    moreover have "controlWord cs e ''tab'' 0 False d = (False, emitString cs [chr 9] d)" for d by (simp add: controlWord_def wordText_def)
    ultimately show ?thesis using decode_named [OF assms(1), of "''tab''" rest cs e "[chr 9]"] assms(3) 3
      by (simp add: rtf_char_def encode_rune_small)
  next
    case 4
    have p: "list_all plain_byte [chr r]" using 4 by (auto simp: plain_byte_def chr_equal)
    have i: "d_in d = [chr r] @ rest" using 4 assms(3) by (auto simp: rtf_char_def)
    have "decode_all cs e bytewise d = decode_all cs e bytewise (discard 1 (writeString [chr r] (flushHighRune (flushPending cs d))))"
      using plain_bytewise [OF p _ _ i] assms(1) by (simp add: ready_def)
    also have "discard 1 (writeString [chr r] (flushHighRune (flushPending cs d))) = written d rest (encode_rune r)"
      using 4 i by (simp add: ready_same(1,2) [OF assms(1)] ready_write [OF assms(1)] written_def discard_def encode_rune_small)
    finally show ?thesis .
  next
    case 5
    then have "rtf_char r = rtf_unit r" by (simp add: rtf_char_def)
    then show ?thesis using decode_bmp [OF assms(1) 5(2)] assms(2,3) by (simp add: rtf_text_def scalar_def)
  next
    case 6
    then show ?thesis using decode_astral [OF assms(1) 6 _ assms(3)] assms(2) by (simp add: rtf_text_def scalar_def)
  qed
qed

lemma decode_chars:
  "ready d \<Longrightarrow> list_all rtf_text rs \<Longrightarrow> d_in d = concat (map rtf_char rs) @ rest \<Longrightarrow>
     decode_all cs e bytewise d = decode_all cs e bytewise (written d rest (utf8_encode rs))"
proof (induction rs arbitrary: d)
  case Nil
  have "written d (d_in d) [] = d" by (simp add: written_def)
  then show ?case using Nil by (simp add: utf8_encode_Nil)
next
  case (Cons r rs)
  let ?d = "written d (concat (map rtf_char rs) @ rest) (encode_rune r)"
  have "decode_all cs e bytewise d = decode_all cs e bytewise ?d" using decode_char [OF Cons.prems(1)] Cons.prems(2,3) by simp
  also have "\<dots> = decode_all cs e bytewise (written ?d rest (utf8_encode rs))"
    using Cons.prems written_ready by (intro Cons.IH) (auto simp: written_def)
  also have "written ?d rest (utf8_encode rs) = written d rest (utf8_encode (r # rs))" by (simp add: written_def utf8_encode_Cons)
  finally show ?case .
qed

section \<open>Whole documents\<close>

lemma open_group:
  assumes "d_in d = chr 123 # rest" "d_pending d = []"
  shows "decode_all cs e vis d = decode_all cs e vis (push (d\<lparr>d_in := rest, d_bomChecked := True\<rparr>))"
proof -
  let ?buf = "take (max 1 (vis (length (d_in d)))) (d_in d)"
  have b: "?buf = chr 123 # take (max 1 (vis (length (d_in d))) - 1) rest" using assms(1) by (cases "max 1 (vis (length (d_in d)))") auto
  have "chr 123 \<noteq> chr 239" by (simp add: chr_equal)
  then have nb: "\<not> (\<not> d_bomChecked d \<and> prefix utf8BOM ?buf)" unfolding b by (simp add: utf8BOM_def)
  have ne: "d_in d \<noteq> []" using assms(1) by simp
  have "step cs e vis d = (False, push (flushPending cs (discard 1 (d\<lparr>d_bomChecked := True\<rparr>))))"
    unfolding step_def Let_def if_not_P [OF ne] if_not_P [OF nb] unfolding b by (simp add: dispatch_def Let_def)
  also have "flushPending cs (discard 1 (d\<lparr>d_bomChecked := True\<rparr>)) = d\<lparr>d_in := rest, d_bomChecked := True\<rparr>"
    using assms by (simp add: discard_def)
  finally show ?thesis by (rule decode_all_go)
qed

lemma close_document:
  assumes "ready d" "d_in d = [chr 125]" "d_below d = [g]"
  shows "decode_all cs None bytewise d = d\<lparr>d_in := [], d_top := g, d_below := [], d_skipChars := 0\<rparr>"
proof -
  let ?d = "d\<lparr>d_in := [], d_top := g, d_below := [], d_skipChars := 0\<rparr>"
  have "chr 125 \<noteq> chr 123" by (simp add: chr_equal)
  then have "dispatch cs None [chr 125] d = (False, ?d)"
    using assms by (simp add: dispatch_def Let_def pop_def discard_def ready_def)
  then have "decode_all cs None bytewise d = decode_all cs None bytewise ?d"
    using step_bytewise [of d "chr 125" "[]" cs None] assms(1,2) by (simp add: ready_def decode_all_go)
  also have "\<dots> = finish cs ?d" by (simp add: decode_all.simps [of cs None _ ?d] step_def)
  also have "finish cs ?d = ?d" using assms(1) by (simp add: finish_def ready_def)
  finally show ?thesis by simp
qed

lemma rtf_header:
  assumes "d_in d = ''rtf1 '' @ rest"
  shows "control cs e d = (False, d\<lparr>d_in := rest\<rparr>)"
proof -
  have l: "isASCIILetter CHR ''r''" "isASCIILetter CHR ''t''" "isASCIILetter CHR ''f''" "\<not> isASCIILetter CHR ''1''" "isASCIIDigit CHR ''1''"
    "\<not> isASCIIDigit CHR '' ''" "CHR ''r'' \<noteq> chr 39" "CHR ''1'' \<noteq> chr 45" "CHR '' '' = chr 32"
    by (simp_all add: isASCIILetter_def isASCIIDigit_def chr_equal)
  have "controlWord cs e ''rtf'' v True d' = (False, d')" for v d'
    by (simp add: controlWord_def wordText_def destinationWord_def infoField_def destinationSkipped_def)
  then show ?thesis using l assms by (simp add: control_def Let_def)
qed

lemma rtf_document_text:
  assumes "list_all rtf_text rs"
  shows "d_out (decode_all cs None vis (newTextDecoder (rtf_document rs))) = utf8_encode rs"
    "d_info (decode_all cs None vis (newTextDecoder (rtf_document rs))) = (\<lambda>_. None)"
proof -
  let ?body = "concat (map rtf_char rs) @ [chr 125]"
  let ?d0 = "newTextDecoder (rtf_document rs)"
  define d1 where "d1 = push (?d0\<lparr>d_in := chr 92 # ''rtf1 '' @ ?body, d_bomChecked := True\<rparr>)"
  have "decode_all cs None vis ?d0 = decode_all cs None vis d1"
    unfolding d1_def by (rule open_group) (simp_all add: newTextDecoder_def rtf_document_def)
  also have "\<dots> = decode_all cs None bytewise d1" by (rule decode_any_blocks) (simp add: d1_def)
  also have "\<dots> = decode_all cs None bytewise (d1\<lparr>d_in := ?body\<rparr>)"
  proof (rule backslash_step)
    show "d_bomChecked d1" by (simp add: d1_def)
    show "d_in d1 = chr 92 # ''rtf1 '' @ ?body" by (simp add: d1_def)
    show "control cs None (d1\<lparr>d_in := ''rtf1 '' @ ?body\<rparr>) = (False, d1\<lparr>d_in := ?body\<rparr>)"
      using rtf_header [of "d1\<lparr>d_in := ''rtf1 '' @ ?body\<rparr>" ?body] by simp
  qed
  also have "\<dots> = decode_all cs None bytewise (written (d1\<lparr>d_in := ?body\<rparr>) [chr 125] (utf8_encode rs))"
    by (rule decode_chars [OF _ assms]) (simp_all add: d1_def ready_def push_def newTextDecoder_def silent_def)
  also have "\<dots> = (written (d1\<lparr>d_in := ?body\<rparr>) [chr 125] (utf8_encode rs))\<lparr>d_in := [], d_top := d_top ?d0, d_below := [], d_skipChars := 0\<rparr>"
    by (rule close_document) (simp_all add: written_def d1_def ready_def push_def newTextDecoder_def silent_def)
  finally show "d_out (decode_all cs None vis ?d0) = utf8_encode rs" "d_info (decode_all cs None vis ?d0) = (\<lambda>_. None)"
    by (simp_all add: written_def d1_def push_def newTextDecoder_def)
qed

section \<open>Two misreadings\<close>

text \<open>
  A lone high surrogate is held back until the next flush, but the bytes of a code page are
  flushed first: the replacement character comes after the text that follows it.
\<close>

lemma lone_surrogate_is_late:
  assumes "ready d" "d_in d = rtf_unit 55357 @ chr 92 # chr 39 # ''e9a'' @ rest" "decodePending cs (d\<lparr>d_pending := [chr 233]\<rparr>) = s"
  shows "decode_all cs e bytewise d = decode_all cs e bytewise (written d rest (s @ encode_rune RuneError @ ''a''))"
proof -
  let ?in = "chr 92 # chr 39 # ''e9a'' @ rest"
  let ?d1 = "d\<lparr>d_in := ?in, d_highRune := 55357\<rparr>"
  let ?d2 = "d\<lparr>d_in := ''a'' @ rest, d_highRune := 55357, d_pending := [chr 233]\<rparr>"
  let ?d = "d\<lparr>d_in := CHR ''?'' # ?in\<rparr>"
  have rd: "ready ?d" using assms(1) by (rule ready_same(3))
  have "unicode cs (- 10179) ?d = ?d\<lparr>d_highRune := 55357, d_skipChars := 1\<rparr>"
    using wrap32_small [of "- 10179"] ready_same(1,2) [OF rd] assms(1) by (simp add: unicode_def Let_def ready_def)
  then have "(unicode cs (- 10179) ?d)\<lparr>d_in := ?in, d_skipChars := 0\<rparr> = ?d1" using assms(1) by (simp add: ready_def)
  then have 1: "decode_all cs e bytewise d = decode_all cs e bytewise ?d1"
    using unit_steps [OF _ _ _ assms(2), of cs e] assms(1) by (simp add: ready_def)
  have hex: "hexValue CHR ''e'' CHR ''9'' = Some 233" by (simp add: hexValue_def hexDigit_def)
  have "control cs e (?d1\<lparr>d_in := chr 39 # ''e9a'' @ rest\<rparr>) = (False, ?d2)"
    using hex assms(1) by (simp add: control_def hexEscape_def Let_def ready_def)
  then have 2: "decode_all cs e bytewise ?d1 = decode_all cs e bytewise ?d2"
    using backslash_step [of ?d1 "chr 39 # ''e9a'' @ rest" cs e ?d2] assms(1) by (simp add: ready_def)
  have p: "list_all plain_byte ''a''" by (simp add: plain_byte_def chr_equal)
  have "decode_all cs e bytewise ?d2 = decode_all cs e bytewise (discard 1 (writeString ''a'' (flushHighRune (flushPending cs ?d2))))"
    using plain_bytewise [OF p, of ?d2 rest cs e] assms(1) by (simp add: ready_def)
  also have "discard 1 (writeString ''a'' (flushHighRune (flushPending cs ?d2))) = written d rest (s @ encode_rune RuneError @ ''a'')"
  proof -
    have vis: "\<not> silent d" "g_field (d_top d) = []" using assms(1) by (simp_all add: ready_def)
    have w: "writeString x (d\<lparr>d_in := i, d_highRune := h, d_pending := p, d_out := ou\<rparr>) = d\<lparr>d_in := i, d_highRune := h, d_pending := p, d_out := ou @ x\<rparr>"
      for x i h p ou using vis by (simp add: writeString_eq infoBuilder_def silent_def)
    have dp: "decodePending cs ?d2 = s" using assms(3) by (simp add: decodePending_def Let_def cong: option.case_cong)
    have "flushPending cs ?d2 = writeString s (d\<lparr>d_in := ''a'' @ rest, d_highRune := 55357, d_pending := [], d_out := d_out d\<rparr>)"
      using dp by (simp add: flushPending_def)
    also have "\<dots> = d\<lparr>d_in := ''a'' @ rest, d_highRune := 55357, d_pending := [], d_out := d_out d @ s\<rparr>" by (rule w)
    finally have fp: "flushPending cs ?d2 = d\<lparr>d_in := ''a'' @ rest, d_highRune := 55357, d_pending := [], d_out := d_out d @ s\<rparr>" .
    have "flushHighRune (flushPending cs ?d2) = writeString (encode_rune RuneError) (d\<lparr>d_in := ''a'' @ rest, d_highRune := 0, d_pending := [], d_out := d_out d @ s\<rparr>)"
      unfolding fp flushHighRune_def by (simp, rule arg_cong [where f = "writeString (encode_rune RuneError)"], rule dec.equality, simp_all)
    then have "flushHighRune (flushPending cs ?d2) = d\<lparr>d_in := ''a'' @ rest, d_highRune := 0, d_pending := [], d_out := (d_out d @ s) @ encode_rune RuneError\<rparr>"
      by (simp only: w)
    then have "writeString ''a'' (flushHighRune (flushPending cs ?d2))
        = d\<lparr>d_in := ''a'' @ rest, d_highRune := 0, d_pending := [], d_out := ((d_out d @ s) @ encode_rune RuneError) @ ''a''\<rparr>" by (simp only: w)
    then show ?thesis using assms(1) by (simp add: discard_def written_def ready_def)
  qed
  finally show ?thesis using 1 2 by simp
qed

text \<open>
  A control word is a legal fallback of a \<open>\u\<close> word and counts as one character. Here it does not
  count: its text is emitted too and the next character of the document is dropped instead.
\<close>

lemma fallback_word_is_not_skipped:
  assumes "ready d" "d_in d = chr 92 # ''u8220'' @ chr 92 # ''ldblquote x'' @ rest"
  shows "decode_all cs e bytewise d = decode_all cs e bytewise (written d rest (encode_rune 8220 @ encode_rune 8220))"
proof -
  let ?in = "chr 92 # ''ldblquote x'' @ rest"
  let ?d = "d\<lparr>d_in := ?in\<rparr>"
  have rd: "ready ?d" using assms(1) by (rule ready_same(3))
  have vis: "\<not> silent d" "g_field (d_top d) = []" using assms(1) by (simp_all add: ready_def)
  have l: "isASCIILetter CHR ''u''" "\<not> isASCIILetter CHR ''8''" "isASCIIDigit CHR ''8''" "isASCIIDigit CHR ''2''" "isASCIIDigit CHR ''0''"
    "\<not> isASCIIDigit (chr 92)" "CHR ''u'' \<noteq> chr 39" "CHR ''8'' \<noteq> chr 45" "chr 92 \<noteq> chr 32" "wrap64 8220 = 8220"
    by (simp_all add: isASCIILetter_def isASCIIDigit_def chr_equal wrap64_small)
  have n: "digits_value ''8220'' = 8220" by (simp add: digits_value_def wrap64_small)
  have word: "controlWord cs e ''u'' v True d' = (False, unicode cs v d')" for v d' by (simp add: controlWord_def)
  have "control cs e (d\<lparr>d_in := ''u8220'' @ ?in\<rparr>) = (False, unicode cs 8220 ?d)"
    using l n word by (simp add: control_def Let_def)
  then have 1: "decode_all cs e bytewise d = decode_all cs e bytewise (unicode cs 8220 ?d)"
    using backslash_step [OF _ assms(2)] assms(1) by (simp add: ready_def)
  have "unicode cs 8220 ?d = (writeString (string_of_rune 8220) ?d)\<lparr>d_skipChars := g_uc (d_top ?d)\<rparr>"
    by (rule unicode_scalar [OF ready_same(1) [OF rd] ready_same(2) [OF rd]]) (simp_all add: wrap32_small)
  also have "\<dots> = d\<lparr>d_in := ?in, d_out := d_out d @ encode_rune 8220, d_skipChars := 1\<rparr>"
    using ready_write [OF rd] assms(1) by (simp add: string_of_rune_def ready_def)
  finally have u: "unicode cs 8220 ?d = d\<lparr>d_in := ?in, d_out := d_out d @ encode_rune 8220, d_skipChars := 1\<rparr>" .
  let ?d1 = "d\<lparr>d_in := ?in, d_out := d_out d @ encode_rune 8220, d_skipChars := 1\<rparr>"
  let ?d2 = "d\<lparr>d_in := ''x'' @ rest, d_out := d_out d @ encode_rune 8220 @ encode_rune 8220, d_skipChars := 1\<rparr>"
  have "list_all isASCIILetter ''ldblquote''" by (simp add: isASCIILetter_def)
  then have "control cs e (?d1\<lparr>d_in := ''ldblquote x'' @ rest\<rparr>) = controlWord cs e ''ldblquote'' 0 False (?d1\<lparr>d_in := ''x'' @ rest\<rparr>)"
    using control_named [of "''ldblquote''" "?d1\<lparr>d_in := ''ldblquote x'' @ rest\<rparr>" "''x'' @ rest" cs e] by simp
  also have "\<dots> = (False, emitString cs (encode_rune 8220) (?d1\<lparr>d_in := ''x'' @ rest\<rparr>))" by (simp add: controlWord_def wordText_def)
  also have "emitString cs (encode_rune 8220) (?d1\<lparr>d_in := ''x'' @ rest\<rparr>) = ?d2"
    using assms(1) vis by (simp add: emitString_def ready_def writeString_eq infoBuilder_def silent_def)
  finally have 2: "decode_all cs e bytewise ?d1 = decode_all cs e bytewise ?d2"
    using backslash_step [of ?d1 "''ldblquote x'' @ rest" cs e ?d2] assms(1) by (simp add: ready_def)
  have "CHR ''x'' \<noteq> chr 123" "CHR ''x'' \<noteq> chr 125" "CHR ''x'' \<noteq> chr 92" by (simp_all add: chr_equal)
  then have "step cs e bytewise ?d2 = (False, discard 1 ?d2\<lparr>d_skipChars := 0\<rparr>)"
    using step_bytewise [of ?d2 "CHR ''x''" rest cs e] assms(1) by (simp add: ready_def dispatch_def Let_def)
  then have "decode_all cs e bytewise ?d2 = decode_all cs e bytewise (discard 1 ?d2\<lparr>d_skipChars := 0\<rparr>)" by (rule decode_all_go)
  also have "discard 1 ?d2\<lparr>d_skipChars := 0\<rparr> = written d rest (encode_rune 8220 @ encode_rune 8220)"
    using assms(1) by (simp add: discard_def written_def ready_def)
  finally show ?thesis using 1 2 u by simp
qed

section \<open>Properties\<close>

text \<open>
  The decoder does not depend on how its input arrives. Once the byte order mark is looked for,
  decoding in whatever blocks the buffered reader holds gives the state of decoding one byte
  at a time: the same text, the same \<open>\info\<close> fields, the same error.
\<close>

theorem blocks_do_not_matter:
  assumes "d_bomChecked d"
  shows "decode_all cs e vis d = decode_all cs e (\<lambda>_. 1) d"
  using decode_any_blocks [OF assms] .

theorem blocks_do_not_matter_witness:
  "decode_all (\<lambda>_ s. (s, True)) None (\<lambda>n. n) (push (newTextDecoder ''ab'')\<lparr>d_bomChecked := True\<rparr>)
     = decode_all (\<lambda>_ s. (s, True)) None (\<lambda>_. 1) (push (newTextDecoder ''ab'')\<lparr>d_bomChecked := True\<rparr>)"
  by (rule blocks_do_not_matter) simp

text \<open>
  C18: Text survives RTF. A document that writes any Unicode text by the rules of RTF (escaped braces and
  backslashes, paragraph and tab words, \<open>\u\<close> words with their fallback, surrogate pairs beyond
  the basic plane) is decoded to exactly the UTF-8 encoding of that text, with every code page
  table and however the input is split into blocks.
\<close>

theorem rtf_text_roundtrip:
  assumes "list_all rtf_text rs"
  shows "d_out (decode_all cs None vis (newTextDecoder (rtf_document rs))) = utf8_encode rs"
  using rtf_document_text(1) [OF assms] .

theorem rtf_text_roundtrip_witness:
  "d_out (decode_all (\<lambda>_ s. (s, True)) None (\<lambda>n. n) (newTextDecoder (rtf_document [72, 123, 10, 8364, 128512])))
     = utf8_encode [72, 123, 10, 8364, 128512]"
  by (rule rtf_text_roundtrip) (simp add: rtf_text_def scalar_def)

text \<open>
  A skipped group emits nothing. From the moment a group is marked as skipped (a destination that
  is not book text, \<open>\*\<close>, or \<open>\info\<close>) until it is closed, whatever it contains and however it nests, no
  step adds to the decoded text, the step that closes the group included.
\<close>

theorem skipped_group_emits_nothing:
  assumes "g_skip (d_top d)" "inside cs e vis (length (d_below d)) d d'"
  shows "d_out d' = d_out d"
  using inside_silent [OF assms(2)] assms(1) by (simp add: skipping_def)

theorem skipped_group_emits_nothing_witness:
  "\<exists>d'. snd (step (\<lambda>_ s. (s, True)) None (\<lambda>n. n) (set_top (g_skip_update (\<lambda>_. True)) (newTextDecoder ''secret''))) = d' \<and> d_out d' = []"
proof -
  let ?d = "set_top (g_skip_update (\<lambda>_. True)) (newTextDecoder ''secret'')"
  obtain stop d' where st: "step (\<lambda>_ s. (s, True)) None (\<lambda>n. n) ?d = (stop, d')" by force
  have "inside (\<lambda>_ s. (s, True)) None (\<lambda>n. n) (length (d_below ?d)) ?d d'" by (rule inside.step [OF inside.start _ st]) simp
  from skipped_group_emits_nothing [OF _ this] have "d_out d' = []" by (simp add: newTextDecoder_def set_top_def)
  then show ?thesis using st by simp
qed

text \<open>
  C19: \<open>Read\<close> delivers the decoded text. Every call returns at most the requested number of bytes and
  leaves exactly the rest to be delivered; it reports the end of the stream when, and only
  when, nothing is left.
\<close>

theorem Read_delivers_text:
  assumes "decoder_Read cs None vis n d = (bytes, err, d')" "0 < n"
  shows "to_deliver cs vis d = bytes @ to_deliver cs vis d' \<and> length bytes \<le> n
    \<and> (if err = None then bytes \<noteq> [] else err = Some EOF \<and> to_deliver cs vis d = [])"
proof -
  obtain err0 d0 where f: "fill cs None vis d = (err0, d0)" by force
  note deliver = fill_delivers [OF f]
  show ?thesis
  proof (cases err0)
    case None
    then have r: "bytes = take n (d_out d0)" "err = None" "d' = d0\<lparr>d_out := drop n (d_out d0)\<rparr>" using assms f by (auto simp: decoder_Read_def)
    have "d0 = before bytes d'" using r by (simp add: before_def)
    then have "to_deliver cs vis d0 = bytes @ to_deliver cs vis d'" by (simp only: to_deliver_before)
    then show ?thesis using deliver None r assms(2) by simp
  next
    case (Some x)
    then show ?thesis using assms f deliver by (auto simp: decoder_Read_def)
  qed
qed

theorem Read_delivers_text_witness:
  "\<exists>bytes d'. decoder_Read (\<lambda>_ s. (s, True)) None (\<lambda>n. n) 3 (newTextDecoder (rtf_document [72, 105])) = (bytes, None, d')
     \<and> utf8_encode [72, 105] = bytes @ to_deliver (\<lambda>_ s. (s, True)) (\<lambda>n. n) d'"
proof -
  let ?d = "newTextDecoder (rtf_document [72, 105])"
  obtain bytes err d' where r: "decoder_Read (\<lambda>_ s. (s, True)) None (\<lambda>n. n) 3 ?d = (bytes, err, d')" by (metis prod_cases3)
  have t: "to_deliver (\<lambda>_ s. (s, True)) (\<lambda>n. n) ?d = utf8_encode [72, 105]"
    using rtf_document_text(1) [of "[72, 105]"] by (simp add: to_deliver_def newTextDecoder_def rtf_text_def scalar_def)
  then have "to_deliver (\<lambda>_ s. (s, True)) (\<lambda>n. n) ?d \<noteq> []" by (simp add: string_eval)
  then show ?thesis using Read_delivers_text [OF r] r t by (auto split: if_splits)
qed

end
