(* ===== verification/Documents.thy ===== *)
theory Documents
  imports TxtEncoding RtfText Processor
begin

text \<open>
  Model of \<open>internal/parser/txt/txt.go\<close>, \<open>internal/parser/rtf/rtf.go\<close> and \<open>internal/parser/context.go\<close>: how the
  document parsers turn a content into metadata. Outside are the libraries (hash, fingerprint, language detector,
  ISBN scanner, decoders) and the context: \<open>ctx i\<close> is what \<open>ctx.Err()\<close> returns at the \<open>i\<close>-th place of a parser
  that asks for it.
\<close>

section \<open>Contents and contexts\<close>

datatype io_error = Eof | IoError string

text \<open>A blob: its size, what \<open>ReadAt\<close> returns, and what reading it from the start to the end gives.\<close>

record blob_data =
  bd_size :: "(string, int) result"
  bd_readAt :: "nat \<Rightarrow> nat \<Rightarrow> string \<times> io_error option"
  bd_stream :: "string \<times> string option"

datatype doc_error = NilBlob | Cancelled string | Failed string string | InvalidSize int
  | DocNotABook | ErrEmptyText | ErrBinaryText | ErrNotRTF | ErrNotPDF | ErrEncrypted | ErrNoText | ErrToolsUnavailable

definition ContextError :: "string option \<Rightarrow> doc_error \<Rightarrow> doc_error" where
  "ContextError ctx err = (case ctx of Some e \<Rightarrow> Cancelled e | None \<Rightarrow> err)"

text \<open>\<open>contextBlob\<close>: the context is asked before an access and, for reads, after it.\<close>

definition contextSize :: "string option \<Rightarrow> blob_data \<Rightarrow> (string, int) result" where
  "contextSize ctx b = (case ctx of Some e \<Rightarrow> Err e | None \<Rightarrow> bd_size b)"

definition contextReadAt :: "string option \<Rightarrow> string option \<Rightarrow> blob_data \<Rightarrow> nat \<Rightarrow> nat \<Rightarrow> string \<times> io_error option" where
  "contextReadAt pre post b off n = (case pre of
       Some e \<Rightarrow> ([], Some (IoError e))
     | None \<Rightarrow> (case bd_readAt b off n of (bytes, err) \<Rightarrow>
         (case post of Some e \<Rightarrow> (bytes, Some (IoError e)) | None \<Rightarrow> (bytes, err))))"

text \<open>What a document parser checks first. \<open>none\<close> is its error for an empty content.\<close>

definition open_document :: "int \<Rightarrow> doc_error \<Rightarrow> (nat \<Rightarrow> string option) \<Rightarrow> blob_data option \<Rightarrow> (doc_error, blob_data \<times> nat) result" where
  "open_document minSize none ctx data = (case data of
       None \<Rightarrow> Err NilBlob
     | Some b \<Rightarrow> (case ctx 0 of
         Some e \<Rightarrow> Err (Cancelled e)
       | None \<Rightarrow> (case contextSize (ctx 1) b of
           Err e \<Rightarrow> Err (ContextError (ctx 2) (Failed ''file size'' e))
         | Ok n \<Rightarrow>
             if n < 0 then Err (InvalidSize n)
             else if 0 < ResolveMinSize minSize \<and> n < ResolveMinSize minSize then Err DocNotABook
             else if n = 0 then Err none
             else Ok (b, nat n))))"

section \<open>The text of a document\<close>

text \<open>Libraries: \<open>lb_cut\<close> is how the fingerprint reader's blocks arrive, \<open>lb_fingerprint\<close> the MinHash of the text it read.\<close>

record library =
  lb_tables :: tables
  lb_codecs :: codecs
  lb_visible :: "nat \<Rightarrow> nat"
  lb_cut :: "string \<Rightarrow> string list"
  lb_transform :: "encoding \<Rightarrow> string \<Rightarrow> string \<times> string option"
  lb_fingerprint :: "string \<Rightarrow> (string, u64 list) result"
  lb_sha256 :: "string \<Rightarrow> string"
  lb_unescape :: "string \<Rightarrow> string"
  lb_isbns :: "string \<Rightarrow> string option list"

definition lb_env :: "library \<Rightarrow> env" where
  "lb_env lb = tb_env (lb_tables lb)"

text \<open>The fingerprint of a stream through the gate: the gate's error, or the reader's, ends it.\<close>

fun gate_writes :: "string list \<Rightarrow> 'e gate \<Rightarrow> 'e option \<times> 'e gate" where
  "gate_writes [] g = (None, g)"
| "gate_writes (p # ps) g = (case gate_Write p g of ((_, Some e), g) \<Rightarrow> (Some e, g) | ((_, None), g) \<Rightarrow> gate_writes ps g)"

text \<open>The outcome of reading a text through the gate: stopped by the gate, failed, or the head and the fingerprint.\<close>

datatype scanned = Stopped doc_error | ReadError string | Scanned string "u64 list"

definition scan_text :: "library \<Rightarrow> (string \<Rightarrow> int \<Rightarrow> doc_error option) \<Rightarrow> nat \<Rightarrow> string \<times> string option \<Rightarrow> scanned" where
  "scan_text lb check sz stream = (case stream of (txt, ended) \<Rightarrow>
     (case gate_writes (lb_cut lb txt) (NewHeadGate headLimit (int sz) (Some check)) of
       (Some e, _) \<Rightarrow> Stopped e
     | (None, g) \<Rightarrow> (case ended of
         Some e \<Rightarrow> ReadError e
       | None \<Rightarrow> (case lb_fingerprint lb txt of
           Err e \<Rightarrow> ReadError e
         | Ok minhash \<Rightarrow> (case gate_Finish g of (Some e, _) \<Rightarrow> Stopped e | (None, g) \<Rightarrow> Scanned (Head g) minhash)))))"

text \<open>The metadata both parsers read off the head.\<close>

definition head_metadata :: "library \<Rightarrow> (metadata \<Rightarrow> metadata) \<Rightarrow> string \<Rightarrow> u64 list \<Rightarrow> string \<Rightarrow> metadata" where
  "head_metadata lb overlay head minhash hash = (let md = overlay (ExtractMetadata (lb_env lb) head);
       detected = DetectProse (lb_env lb) (tb_detector (lb_tables lb)) (lb_unescape lb) head in
     md\<lparr>md_languages := ApplyDetectedLanguage (lb_env lb) (md_languages md) detected, md_hash := hash,
        md_minhash := minhash, md_idents := TextIdentifiers (lb_isbns lb) head\<rparr>)"

section \<open>Plain text\<close>

definition txt_check :: "env \<Rightarrow> string \<Rightarrow> int \<Rightarrow> doc_error option" where
  "txt_check u head sz = (if trim_space head = [] then Some ErrEmptyText
     else if looksBinary head then Some ErrBinaryText
     else if IsJunkContent u head sz then Some DocNotABook else None)"

text \<open>Reading exactly the sample: a short read is an error.\<close>

definition read_sample :: "string option \<Rightarrow> string option \<Rightarrow> blob_data \<Rightarrow> nat \<Rightarrow> (string, string) result" where
  "read_sample pre post b sz = (let n = min sz sampleLimit in
     case contextReadAt pre post b 0 n of (bytes, err) \<Rightarrow>
       if n \<le> length bytes then Ok (take n bytes)
       else (case err of Some (IoError e) \<Rightarrow> Err e | _ \<Rightarrow> Err ''unexpected EOF''))"

definition TxtParse :: "library \<Rightarrow> int \<Rightarrow> (nat \<Rightarrow> string option) \<Rightarrow> blob_data option \<Rightarrow> (doc_error, metadata) result" where
  "TxtParse lb minSize ctx data = (case open_document minSize ErrEmptyText ctx data of
       Err e \<Rightarrow> Err e
     | Ok (b, sz) \<Rightarrow> (case detectEncoding (lb_tables lb) (read_sample (ctx 3) (ctx 4) b sz) sz of
         Err e \<Rightarrow> Err (ContextError (ctx 5) (Failed ''detect encoding'' e))
       | Ok enc \<Rightarrow> (case bd_stream b of (raw, ended) \<Rightarrow>
           if length raw < de_bom enc then Err (ContextError (ctx 5) (Failed ''skip BOM'' (case ended of Some e \<Rightarrow> e | None \<Rightarrow> ''EOF'')))
           else (case lb_transform lb (de_enc enc) (drop (de_bom enc) raw) of (txt, bad) \<Rightarrow>
             (case scan_text lb (txt_check (lb_env lb)) sz (txt, case bad of Some e \<Rightarrow> Some e | None \<Rightarrow> ended) of
               Stopped e \<Rightarrow> Err e
             | ReadError e \<Rightarrow> Err (ContextError (ctx 5) (Failed ''read text'' e))
             | Scanned head minhash \<Rightarrow> (case ctx 6 of
                 Some e \<Rightarrow> Err (Cancelled e)
               | None \<Rightarrow> Ok (head_metadata lb id head minhash (lb_sha256 lb raw))))))))"

section \<open>RTF\<close>

definition signatureWindow :: nat where "signatureWindow = 32"

definition trim_left_bytes :: "string \<Rightarrow> string" where
  "trim_left_bytes = dropWhile (\<lambda>c. c \<in> {chr 32, chr 9, chr 13, chr 10})"

definition hasRTFHeader :: "string option \<Rightarrow> string option \<Rightarrow> blob_data \<Rightarrow> nat \<Rightarrow> (string, bool) result" where
  "hasRTFHeader pre post b sz = (let n = min sz signatureWindow in
     case contextReadAt pre post b 0 n of
       (_, Some (IoError e)) \<Rightarrow> Err e
     | (bytes, _) \<Rightarrow> (let buf = take n bytes @ replicate (n - length bytes) (chr 0);
           buf = trim_left_bytes (trim_prefix (trim_left_bytes buf) utf8BOM) in
         Ok (has_prefix buf (chr 123 # chr 92 # ''rtf''))))"

definition infoValues :: "(string \<Rightarrow> string option) \<Rightarrow> string \<Rightarrow> string" where
  "infoValues info name = (case info name of Some v \<Rightarrow> CleanValue v | None \<Rightarrow> [])"

definition infoValue :: "env \<Rightarrow> string \<Rightarrow> string" where
  "infoValue u raw = (let v = CleanValue raw in if v = [] \<or> IsPlaceholder u v \<or> IsJunkValue u v then [] else v)"

definition infoAuthors :: "env \<Rightarrow> string \<Rightarrow> string list" where
  "infoAuthors u raw0 = (let raw = trim_space raw0 in
     if raw = [] then [] else FilterMetadataAuthors u (concat (map (SplitAuthors u) (go_split raw '',''))) [])"

definition infoSubjects :: "env \<Rightarrow> string \<Rightarrow> string \<Rightarrow> string list" where
  "infoSubjects u category keywords =
     dedup_by (Fold u) {} (filter (\<lambda>v. v \<noteq> []) (map (infoValue u)
       (concat (map (fields_func (\<lambda>r. r = 44 \<or> r = 59)) [category, keywords]))))"

definition first_nonempty :: "string list \<Rightarrow> string" where
  "first_nonempty xs = (case filter (\<lambda>x. x \<noteq> []) xs of [] \<Rightarrow> [] | x # _ \<Rightarrow> x)"

definition applyInfo :: "env \<Rightarrow> (string \<Rightarrow> string) \<Rightarrow> metadata \<Rightarrow> metadata" where
  "applyInfo u info md =
     (let title = infoValue u (info ''title''); authors = infoAuthors u (info ''author'');
          description = first_nonempty [infoValue u (info ''subject''), infoValue u (info ''doccomm''), infoValue u (info ''comment'')];
          subjects = infoSubjects u (info ''category'') (info ''keywords'');
          publisher = first_nonempty [infoValue u (info ''manager''), infoValue u (info ''company'')];
          md = (if title \<noteq> [] then md\<lparr>md_title := title\<rparr> else md);
          md = (if authors \<noteq> [] then md\<lparr>md_authors := authors\<rparr> else md);
          md = (if description \<noteq> [] then md\<lparr>md_description := description\<rparr> else md);
          md = (if subjects \<noteq> [] then md\<lparr>md_subjects := subjects\<rparr> else md) in
      if publisher \<noteq> [] then md\<lparr>md_publisher := publisher\<rparr> else md)"

definition rtf_check :: "env \<Rightarrow> string \<Rightarrow> int \<Rightarrow> doc_error option" where
  "rtf_check u head sz = (if trim_space head = [] \<or> IsJunkContent u head sz then Some DocNotABook else None)"

definition RtfParse :: "library \<Rightarrow> int \<Rightarrow> (nat \<Rightarrow> string option) \<Rightarrow> blob_data option \<Rightarrow> (doc_error, metadata) result" where
  "RtfParse lb minSize ctx data = (case open_document minSize ErrNotRTF ctx data of
       Err e \<Rightarrow> Err e
     | Ok (b, sz) \<Rightarrow> (case hasRTFHeader (ctx 3) (ctx 4) b sz of
         Err e \<Rightarrow> Err (ContextError (ctx 5) (Failed ''read header'' e))
       | Ok False \<Rightarrow> Err ErrNotRTF
       | Ok True \<Rightarrow> (case bd_stream b of (raw, ended) \<Rightarrow>
           (let d = decode_all (lb_codecs lb) ended (lb_visible lb) (newTextDecoder raw) in
            case scan_text lb (rtf_check (lb_env lb)) sz (d_out d, ended) of
              Stopped e \<Rightarrow> Err e
            | ReadError e \<Rightarrow> Err (ContextError (ctx 5) (Failed ''read text'' e))
            | Scanned head minhash \<Rightarrow> (case ctx 6 of
                Some e \<Rightarrow> Err (Cancelled e)
              | None \<Rightarrow> Ok (head_metadata lb (applyInfo (lb_env lb) (infoValues (d_info d))) head minhash (lb_sha256 lb raw)))))))"

section \<open>Ebooks\<close>

text \<open>What the ebook library answers: the metadata of a book, the hash of its content, and one reading of its text.\<close>

record book_answers =
  ba_read :: "(string, metadata \<times> (string \<times> string) list) result"
  ba_hash :: "(string, string) result"
  ba_scan :: "(string, u64 list \<times> string option list \<times> string) result"

definition EbookParse :: "library \<Rightarrow> (string \<Rightarrow> string option) \<Rightarrow> (nat \<Rightarrow> string option) \<Rightarrow> book_answers \<Rightarrow> (doc_error, metadata) result" where
  "EbookParse lb canon ctx ba = (case ba_read ba of
       Err e \<Rightarrow> Err (ContextError (ctx 0) (Failed ''read'' e))
     | Ok (md, idents) \<Rightarrow> (case ba_hash ba of
         Err e \<Rightarrow> Err (ContextError (ctx 1) (Failed ''hash'' e))
       | Ok hash \<Rightarrow> (case ba_scan ba of
           Err e \<Rightarrow> Err (ContextError (ctx 2) (Failed ''scan'' e))
         | Ok (minhash, isbns, head) \<Rightarrow>
             (let textISBN = (case isbns of Some isbn13 # _ \<Rightarrow> isbn13 | _ \<Rightarrow> []);
                  detected = DetectProse (lb_env lb) (tb_detector (lb_tables lb)) (lb_unescape lb) head in
              Ok (md\<lparr>md_idents := text_mergeIdentifiers (lb_env lb) canon idents textISBN,
                 md_languages := ApplyDetectedLanguage (lb_env lb) (md_languages md) detected,
                 md_hash := hash, md_minhash := minhash\<rparr>)))))"

end
