(* ===== verification/Votes.thy ===== *)
theory Votes
  imports Prelude "HOL-Library.Product_Lexorder"
begin

text \<open>
  The voting idiom of the report: candidates are tallied under a key in first-seen order, and
  one pass over the tally keeps the best entry. \<open>tally\<close> is the first loop; the preferences
  of the sources are lexicographic comparisons, that is, comparisons of a measure in a linear
  order, and \<open>measured_preference\<close> is the contract they share.
\<close>

definition tally :: "('x \<Rightarrow> 'k) \<Rightarrow> ('x \<Rightarrow> 'v) \<Rightarrow> ('x \<Rightarrow> 'v \<Rightarrow> 'v) \<Rightarrow> 'x list \<Rightarrow> ('k \<times> 'v) list \<Rightarrow> ('k \<times> 'v) list" where
  "tally key fresh cast xs votes = fold (\<lambda>x. upsert (key x) (fresh x) (cast x)) xs votes"

lemma tally_Nil [simp]: "tally key fresh cast [] votes = votes"
  by (simp add: tally_def)

lemma tally_Cons [simp]:
  "tally key fresh cast (x # xs) votes = tally key fresh cast xs (upsert (key x) (fresh x) (cast x) votes)"
  by (simp add: tally_def)

lemma tally_distinct: "distinct (map fst votes) \<Longrightarrow> distinct (map fst (tally key fresh cast xs votes))"
  by (induction xs arbitrary: votes) (simp_all add: upsert_distinct)

lemma tally_keys: "fst ` set (tally key fresh cast xs votes) = fst ` set votes \<union> key ` set xs"
  by (induction xs arbitrary: votes) (auto simp: upsert_key_set)

text \<open>The entry of a key is the fold of the votes cast under it.\<close>

lemma tally_lookup:
  "map_of (tally key fresh cast xs votes) k = (case map_of votes k of
       Some v \<Rightarrow> Some (fold cast (filter (\<lambda>x. key x = k) xs) v)
     | None \<Rightarrow> (case filter (\<lambda>x. key x = k) xs of [] \<Rightarrow> None | x # g \<Rightarrow> Some (fold cast g (cast x (fresh x)))))"
  by (induction xs arbitrary: votes) (auto simp: upsert_lookup split: option.splits)

lemma tally_entry:
  "(k, v) \<in> set (tally key fresh cast xs []) \<longleftrightarrow>
     (\<exists>x g. filter (\<lambda>x. key x = k) xs = x # g \<and> v = fold cast g (cast x (fresh x)))"
proof -
  have "(k, v) \<in> set (tally key fresh cast xs []) \<longleftrightarrow> map_of (tally key fresh cast xs []) k = Some v"
    using tally_distinct [of "[]" key fresh cast xs] by simp
  then show ?thesis by (auto simp: tally_lookup split: list.split)
qed

lemma tally_entry_of: "x \<in> set xs \<Longrightarrow> \<exists>v. (key x, v) \<in> set (tally key fresh cast xs [])"
  using tally_keys [of key fresh cast xs "[]"] by force

lemma tally_Nil_iff: "tally key fresh cast xs [] = [] \<longleftrightarrow> xs = []"
  using tally_keys [of key fresh cast xs "[]"] by auto

text \<open>Counting: when every vote adds one, an entry counts the candidates of its key.\<close>

lemma fold_count:
  assumes "\<And>x v. cnt (cast x v) = cnt v + (1 :: nat)"
  shows "cnt (fold cast g v) = cnt v + length g"
  using assms by (induction g arbitrary: v) simp_all

locale measured_preference =
  fixes better :: "'v \<Rightarrow> 'v \<Rightarrow> bool" and weight :: "'v \<Rightarrow> 'm :: linorder"
  assumes better_iff: "better v b \<longleftrightarrow> weight b < weight v"
begin

text \<open>The pass over the tally ends with an entry of greatest weight.\<close>

lemma winner_max: "x \<in> insert b (set xs) \<Longrightarrow> weight x \<le> weight (pick_best better b xs)"
proof (induction xs arbitrary: x b)
  case (Cons y ys)
  let ?c = "if better y b then y else b"
  have c: "weight b \<le> weight ?c" "weight y \<le> weight ?c" by (auto simp: better_iff)
  consider "x = b" | "x = y" | "x \<in> set ys" using Cons.prems by auto
  then have "weight x \<le> weight (pick_best better ?c ys)"
  proof cases
    case 1
    show ?thesis unfolding 1 by (rule order_trans [OF c(1) Cons.IH [OF insertI1]])
  next
    case 2
    show ?thesis unfolding 2 by (rule order_trans [OF c(2) Cons.IH [OF insertI1]])
  next
    case 3
    then show ?thesis using Cons.IH [of x ?c] by simp
  qed
  then show ?case by simp
qed simp

lemma winner_in: "xs \<noteq> [] \<Longrightarrow> \<forall>x \<in> set xs. weight b < weight x \<Longrightarrow> pick_best better b xs \<in> set xs"
  using winner_max [of "hd xs" b xs] pick_best_in [of better b xs] by (metis insertE insertI2 leD list.set_sel(1))

text \<open>The winner of a tally whose entries all outweigh the start value is one of the entries.\<close>

lemma tally_winner:
  assumes "V \<noteq> []" "\<And>k v. (k, v) \<in> set V \<Longrightarrow> weight b < weight v"
  obtains k where "(k, pick_best better b (map snd V)) \<in> set V"
    "\<And>k' v. (k', v) \<in> set V \<Longrightarrow> weight v \<le> weight (pick_best better b (map snd V))"
proof -
  have "pick_best better b (map snd V) \<in> set (map snd V)" using assms by (intro winner_in) auto
  then obtain k where "(k, pick_best better b (map snd V)) \<in> set V" by auto
  then show thesis by (rule that) (auto intro!: winner_max rev_image_eqI)
qed

end

sublocale measured_preference \<subseteq> strict_preference better
  by unfold_locales (auto simp: better_iff)

end
