(* ===== verification/BookMeta.thy ===== *)
theory BookMeta
  imports Metaheur Votes
begin

text \<open>
  Model of \<open>internal/report/bookmeta.go\<close>: comparison keys of names and titles, the recovery of
  titles and authors from display paths, the removal of credit affixes, and the votes that
  pick one title and one author list for a book.
\<close>

section \<open>Keys and placeholders\<close>

definition authorSeparator :: string where "authorSeparator = [chr 31]"

definition normalizeMeta :: "string \<Rightarrow> string" where
  "normalizeMeta s = join '' '' (fields s)"

definition metaKey :: "env \<Rightarrow> string \<Rightarrow> string" where
  "metaKey u s = to_lower u (normalizeMeta s)"

definition leftoverReplacer :: "(string \<times> string) list" where
  "leftoverReplacer = [(utf8_encode [248], ''o''), (utf8_encode [223], ''ss''), (utf8_encode [230], ''ae''),
     (utf8_encode [339], ''oe''), (utf8_encode [322], ''l''), (utf8_encode [273], ''d''),
     (utf8_encode [254], ''th''), (utf8_encode [305], ''i'')]"

text \<open>Nonspacing marks are dropped after a Latin base character only.\<close>

fun strip_marks :: "env \<Rightarrow> bool \<Rightarrow> rune list \<Rightarrow> rune list" where
  "strip_marks u prevLatin [] = []"
| "strip_marks u prevLatin (r # rs) =
     (if is_mn u r \<and> prevLatin then strip_marks u prevLatin rs
      else r # strip_marks u (is_latin u r) rs)"

definition foldDiacritics :: "env \<Rightarrow> string \<Rightarrow> string" where
  "foldDiacritics u s = replacer leftoverReplacer
     (nfc u (utf8_encode (strip_marks u False (runes (nfd u s)))))"

definition foldName :: "env \<Rightarrow> string \<Rightarrow> string" where
  "foldName u s = foldDiacritics u (metaKey u s)"

definition placeholderAuthors :: "string list" where
  "placeholderAuthors = [
     ''ismeretlen'', ''szerzo ismeretlen'', ''nevtelen'', ''unknown'', ''unknown author'', ''author unknown'',
     ''no author'', ''untitled'', ''anonymous'', ''none'', ''n/a'', ''n.n.'', ''inconnu'', ''inconnue'',
     ''auteur inconnu'', ''anonyme'', ''unbekannt'', ''anonym'', ''desconocido'', ''desconocida'',
     ''desconhecido'', ''desconhecida'', ''sconosciuto'', ''sconosciuta'', ''autore sconosciuto'', ''anonimo'',
     ''onbekend'', ''onbekende auteur'', ''necunoscut'', ''autor necunoscut'', ''anonim'', ''neznamy'',
     ''neznama'', ''neznamy autor'', ''nieznany'', ''nieznana'', ''autor nieznany'', ''okand'', ''okant'',
     ''okand forfattare'', ''bilinmiyor'', ''bilinmeyen yazar'',
     utf8_encode [1085, 1077, 1080, 1079, 1074, 1077, 1089, 1090, 1085, 1099, 1081],
     utf8_encode [1085, 1077, 1080, 1079, 1074, 1077, 1089, 1090, 1085, 1099, 1081, 32, 1072, 1074, 1090, 1086, 1088],
     utf8_encode [1085, 1077, 1080, 1079, 1074, 1077, 1089, 1090, 1085, 1086],
     utf8_encode [1605, 1580, 1607, 1608, 1604],
     utf8_encode [1605, 1572, 1604, 1601, 32, 1605, 1580, 1607, 1608, 1604],
     utf8_encode [1606, 1575, 1605, 1593, 1604, 1608, 1605], utf8_encode [2309, 2332, 2381, 2334, 2366, 2340],
     utf8_encode [26410, 30693], utf8_encode [26410, 30693, 20316, 32773], utf8_encode [20314, 21517],
     utf8_encode [19981, 26126], utf8_encode [20316, 32773, 19981, 26126], utf8_encode [48120, 49345],
     utf8_encode [51089, 51088, 32, 48120, 49345], ''user'', ''-'', ''?'', []]"

definition placeholderTitles :: "string list" where
  "placeholderTitles = [
     ''untitled'', ''sans titre'', ''ohne titel'', ''unbenannt'', ''sin titulo'', ''senza titolo'',
     ''sem titulo'', ''zonder titel'', ''naamloos'', ''bez tytulu'', ''bez nazvu'', ''utan titel'',
     ''basliksiz'', ''adsiz'',
     utf8_encode [1073, 1077, 1079, 32, 1085, 1072, 1079, 1074, 1072, 1085, 1080, 1103],
     utf8_encode [1576, 1583, 1608, 1606, 32, 1593, 1606, 1608, 1575, 1606], utf8_encode [26080, 26631, 39064],
     utf8_encode [28961, 38988], utf8_encode [51228, 47785, 32, 50630, 51020], ''nevtelen'', ''cim nelkul'', []]"

definition isPlaceholderTitle :: "env \<Rightarrow> string \<Rightarrow> bool" where
  "isPlaceholderTitle u s = (foldName u s \<in> set placeholderTitles)"

definition isPlaceholderAuthor :: "env \<Rightarrow> string \<Rightarrow> bool" where
  "isPlaceholderAuthor u s = (foldName u s \<in> set placeholderAuthors)"

definition isTitleEcho :: "env \<Rightarrow> string \<Rightarrow> string \<Rightarrow> bool" where
  "isTitleEcho u name0 title0 = (let name = normalizeMeta name0; title = normalizeMeta title0 in
     name \<noteq> [] \<and> title \<noteq> [] \<and> foldName u name = foldName u title)"

definition usableName :: "env \<Rightarrow> string \<Rightarrow> bool" where
  "usableName u name \<longleftrightarrow> name \<noteq> [] \<and> \<not> isPlaceholderAuthor u name"

definition splitAuthors :: "env \<Rightarrow> string \<Rightarrow> string list" where
  "splitAuthors u aggregate = (if aggregate = [] then []
     else filter (usableName u) (map normalizeMeta (go_split aggregate authorSeparator)))"

section \<open>Display paths\<close>

definition ebookExtensions :: "string list" where
  "ebookExtensions = [
     ''.epub'', ''.mobi'', ''.azw'', ''.azw3'', ''.prc'', ''.pdf'', ''.fb2'', ''.djvu'', ''.txt'', ''.text'',
     ''.rtf'']"

definition report_archiveExtensions :: "string list" where
  "report_archiveExtensions = [
     ''.zip'', ''.rar'', ''.7z'', ''.tar'', ''.gz'', ''.bz2'', ''.tgz'', ''.tbz2'']"

definition isArchiveBoundary :: "env \<Rightarrow> string \<Rightarrow> nat \<Rightarrow> bool" where
  "isArchiveBoundary u path i = (to_lower u (Ext (take i path)) \<in> set report_archiveExtensions)"

definition bangs :: "string \<Rightarrow> nat list" where
  "bangs path = filter (\<lambda>i. path ! i = CHR ''!'') [0..<length path]"

definition archiveBoundary :: "env \<Rightarrow> string \<Rightarrow> nat option" where
  "archiveBoundary u path = find (isArchiveBoundary u path) (rev (bangs path))"

fun cut_at :: "string \<Rightarrow> nat \<Rightarrow> nat list \<Rightarrow> string list" where
  "cut_at path start [] = [drop start path]"
| "cut_at path start (i # cuts) = drop start (take i path) # cut_at path (i + 1) cuts"

definition archiveSegments :: "env \<Rightarrow> string \<Rightarrow> string list" where
  "archiveSegments u path = cut_at path 0 (filter (isArchiveBoundary u path) (bangs path))"

definition cleanStem :: "env \<Rightarrow> string \<Rightarrow> string" where
  "cleanStem u path0 = (let path = (case archiveBoundary u path0 of Some i \<Rightarrow> drop (i + 1) path0 | None \<Rightarrow> path0);
     name = Base path; ext = Ext name;
     stem = (if ext \<noteq> [] \<and> to_lower u ext \<in> set ebookExtensions then take (length name - length ext) name else name)
     in replace_all ''_'' '' '' stem)"

definition titleFromPath :: "env \<Rightarrow> string \<Rightarrow> string" where
  "titleFromPath u path = normalizeMeta (cleanStem u path)"

definition calibreSeparators :: "string list" where
  "calibreSeparators = ['' - '', '' '' @ utf8_encode [8211] @ '' '', '' '' @ utf8_encode [8212] @ '' '']"

definition calibreAuthorShape :: "env \<Rightarrow> string \<Rightarrow> bool" where
  "calibreAuthorShape u s = (if \<not> contains s '','' then False else
     let parts = fields_func (\<lambda>r. r = 44 \<or> is_space r) s in
     if length parts < 2 \<or> 4 < length parts then False else list_all (\<lambda>p. 2 \<le> rune_len p) parts)"

definition normalizeTitleArticle :: "env \<Rightarrow> string \<Rightarrow> string" where
  "normalizeTitleArticle u title0 = (let title = normalizeMeta title0 in
     case first_some (\<lambda>article. let suffix = '', '' @ article in
         if length suffix < length title \<and> has_suffix (to_lower u title) (to_lower u suffix) then
           let rest = normalizeMeta (take (length title - length suffix) title) in
           if rest \<noteq> [] then Some (article @ '' '' @ rest) else None
         else None) [''The'', ''An'', ''A'', ''Az'', ''Egy'']
     of Some t \<Rightarrow> t | None \<Rightarrow> title)"

definition better_sep :: "string \<Rightarrow> string \<Rightarrow> (nat \<times> string) option \<Rightarrow> (nat \<times> string) option" where
  "better_sep stem s best = (case last_index_of stem s of
       None \<Rightarrow> best
     | Some i \<Rightarrow> (case best of Some (j, _) \<Rightarrow> if j < i then Some (i, s) else best | None \<Rightarrow> Some (i, s)))"

definition parseCalibre :: "env \<Rightarrow> string \<Rightarrow> bool \<Rightarrow> (string \<times> string) option" where
  "parseCalibre u path strict = (let stem = normalizeMeta (cleanStem u path) in
     case fold (better_sep stem) calibreSeparators None of
       None \<Rightarrow> None
     | Some (i, sep) \<Rightarrow> (let title = normalizeMeta (take i stem); author = normalizeMeta (drop (i + length sep) stem) in
         if title = [] \<or> isPlaceholderTitle u title then None
         else if strict then
           if calibreAuthorShape u author \<and> IsName u author then Some (normalizeTitleArticle u title, author)
           else if calibreAuthorShape u title \<and> IsName u title \<and> IsTitle u author
             then Some (normalizeTitleArticle u author, title)
           else None
         else (let parts = fields author in
           if length parts \<noteq> 2 then None
           else if list_ex (\<lambda>p. rune_len p < 2) parts then None
           else if \<not> IsName u author then None
           else Some (normalizeTitleArticle u title, author))))"

definition parseCalibreFilename :: "env \<Rightarrow> string \<Rightarrow> (string \<times> string) option" where
  "parseCalibreFilename u path = parseCalibre u path True"

definition parseCalibreAuthorOnly :: "env \<Rightarrow> string \<Rightarrow> string option" where
  "parseCalibreAuthorOnly u path = map_option snd (parseCalibre u path False)"

definition splits_at :: "string \<Rightarrow> string \<Rightarrow> (string \<times> string) list" where
  "splits_at stem sep = (case index_of stem sep of None \<Rightarrow> [] | Some i \<Rightarrow> [(take i stem, drop (i + length sep) stem)])
     @ (case last_index_of stem sep of None \<Rightarrow> [] | Some i \<Rightarrow> [(take i stem, drop (i + length sep) stem)])"

definition splitFilenamePairs :: "string \<Rightarrow> (string \<times> string) list" where
  "splitFilenamePairs stem = dedup_by id {} (filter (\<lambda>p. fst p \<noteq> [] \<and> snd p \<noteq> [])
     (map (map_prod normalizeMeta normalizeMeta) (concat (map (splits_at stem) calibreSeparators))))"

definition genericPathWords :: "string list" where
  "genericPathWords = [
     ''author'', ''authors'', ''writer'', ''writers'', ''book'', ''books'', ''ebook'', ''ebooks'', ''library'',
     ''series'', ''collection'', ''collections'', ''fiction'', ''nonfiction'', ''novel'', ''novels'',
     ''story'', ''stories'', ''poetry'', ''drama'', ''history'', ''biography'', ''children'', ''young'',
     ''adult'', ''comics'', ''magazine'', ''magazines'', ''misc'', ''other'', ''various'', ''download'',
     ''downloads'', ''incoming'', ''temp'', ''tmp'', ''archive'', ''archives'', ''backup'', ''old'', ''new'',
     ''test'', ''tests'', ''source'', ''sources'', ''docs'', ''documents'', ''data'', ''files'', ''resources'',
     ''media'', ''video'', ''music'', ''scanned'', ''digital'', ''unknown'', ''publisher'', ''publishers'',
     ''press'', ''star'', ''wars'', ''trek'', ''harry'', ''potter'', ''pokemon'', ''disney'', ''marvel'',
     ''anime'', ''manga'', ''chronicles'', ''saga'', ''trilogy'', ''tetralogy'', ''cycle'', ''omnibus'',
     ''anthology'', ''box'', ''boxed'', ''set'', ''complete'', ''collected'', ''selected'', ''works'',
     ''regeny'', ''regenyek'', ''irodalom'', ''konyv'', ''konyvek'', ''sorozat'', ''novella'', ''novellak'',
     ''vers'', ''versek'', ''tortenelem'', ''eletrajz'', ''gyerek'', ''gyerekek'', ''ifjusagi'', ''krimi'',
     ''scifi'', ''fantasy'', ''magazin'', ''ujsag'', ''cikk'', ''cikkek'', ''tanulmany'', ''tanulmanyok'',
     ''gyujtemeny'', ''gyujtemenyek'', ''egyeb'', ''vegyes'', ''angol'', ''nemet'', ''francia'', ''olasz'',
     ''orosz'', ''spanyol'', ''magyar'', ''nyelv'', ''nyelvu'', ''forditas'', ''nyers'', ''forras'',
     ''letoltes'', ''letoltott'', ''archivum'', ''mentes'', ''uj'', ''regi'', ''teszt'', ''kezirat'',
     ''kiadas'', ''kiado'']"

definition containsGenericPathWord :: "env \<Rightarrow> string \<Rightarrow> bool" where
  "containsGenericPathWord u s = list_ex (\<lambda>w. w \<in> set genericPathWords)
     (fields_func (\<lambda>r. \<not> is_letter u r \<and> \<not> is_digit u r) (foldName u s))"

definition natural_pair :: "env \<Rightarrow> string \<times> string \<Rightarrow> (string \<times> string) option" where
  "natural_pair u pair = (let left = fst pair; right = snd pair in
     if isPlaceholderTitle u left \<or> isPlaceholderTitle u right then None
     else let authorLeft = (IsName u left \<and> IsTitle u right); authorRight = (IsName u right \<and> IsTitle u left) in
       if authorLeft \<and> \<not> authorRight \<and> \<not> containsGenericPathWord u left
         then Some (normalizeTitleArticle u right, left)
       else if authorRight \<and> \<not> authorLeft \<and> \<not> containsGenericPathWord u right
         then Some (normalizeTitleArticle u left, right)
       else None)"

definition parseNaturalFilename :: "env \<Rightarrow> string \<Rightarrow> (string \<times> string) option" where
  "parseNaturalFilename u path =
     first_some (natural_pair u) (splitFilenamePairs (normalizeMeta (cleanStem u path)))"

section \<open>Token matching\<close>

definition matchSeparators :: "(string \<times> string) list" where
  "matchSeparators = map (\<lambda>s. (s, '' ''))
     ['','', ''.'', '';'', '':'', ''!'', ''?'', ''('', '')'', ''['', '']'', [CHR 0x22], [CHR 0x27], ''/'', ''-'', ''_'',
      utf8_encode [8211], utf8_encode [8212]]"

definition nameParticles :: "string list" where
  "nameParticles = [
     ''van'', ''von'', ''del'', ''dos'', ''das'', ''der'', ''den'', ''ter'', ''ten'']"

definition matchTokens :: "env \<Rightarrow> string \<Rightarrow> string list" where
  "matchTokens u s = dedup_by id {} (filter (\<lambda>tok. 2 < rune_len tok \<and> tok \<notin> set nameParticles)
     (fields (replacer matchSeparators (foldDiacritics u (metaKey u s)))))"

definition titleMentionsAuthor :: "env \<Rightarrow> string \<Rightarrow> string list list \<Rightarrow> bool" where
  "titleMentionsAuthor u title tokenSets = (let titleSet = set (matchTokens u title) in
     list_ex (\<lambda>tokens. tokens \<noteq> [] \<and> list_all (\<lambda>tok. tok \<in> titleSet) tokens) tokenSets)"

definition titlesAgree :: "env \<Rightarrow> string \<Rightarrow> string \<Rightarrow> bool" where
  "titlesAgree u a b = (let fa = foldName u a; fb = foldName u b in
     if fa = [] \<or> fb = [] then False
     else if fa = fb then True
     else if length (fields fa) < 2 \<or> length (fields fb) < 2 then False
     else contains ('' '' @ fa @ '' '') ('' '' @ fb @ '' '') \<or> contains ('' '' @ fb @ '' '') ('' '' @ fa @ '' ''))"

section \<open>Authors from directories and archive names\<close>

definition path_segments :: "string \<Rightarrow> string list" where
  "path_segments part = fields_func (\<lambda>r. r = 47 \<or> r = 92) part"

definition pathComponentsNearestFirst :: "env \<Rightarrow> string \<Rightarrow> string list" where
  "pathComponentsNearestFirst u path = (let parts = archiveSegments u path in
     rev (butlast (path_segments (last parts))) @ concat (map (rev \<circ> path_segments) (rev (butlast parts))))"

definition editionSuffixes :: "string list" where
  "editionSuffixes = [
     ''angolul'', ''magyarul'', ''nemetul'', ''franciaul'', ''olaszul'', ''oroszul'', ''spanyolul'',
     ''latinul'', ''english'', ''hungarian'', ''german'', ''french'', ''italian'', ''russian'', ''spanish'',
     ''translated'', ''forditas'', ''forditva'', ''kiadas'', ''edition'']"

definition stripEditionSuffix :: "env \<Rightarrow> string \<Rightarrow> string" where
  "stripEditionSuffix u s =
     join '' '' (rev (dropWhile (\<lambda>w. foldName u w \<in> set editionSuffixes) (rev (fields s))))"

definition pathAuthorCandidates :: "env \<Rightarrow> string \<Rightarrow> string list" where
  "pathAuthorCandidates u component0 = (let component = normalizeMeta component0 in
     if component = [] then []
     else let ext = to_lower u (Ext component);
       base = (if ext \<noteq> [] \<and> ext \<in> set report_archiveExtensions
               then normalizeMeta (take (length component - length ext) component) else component) in
     if base = [] then []
     else let stripped = stripEditionSuffix u base in
       if stripped \<noteq> [] \<and> stripped \<noteq> base then [base, stripped] else [base])"

definition filenamePairAuthor :: "env \<Rightarrow> string \<Rightarrow> string option" where
  "filenamePairAuthor u component = (case parseCalibreFilename u component of
       Some (_, author) \<Rightarrow> Some author
     | None \<Rightarrow> map_option snd (parseNaturalFilename u component))"

definition pathNameShapeOK :: "string \<Rightarrow> bool" where
  "pathNameShapeOK s = (if contains s '','' then True else
     let words = fields s in
     if length words \<le> 2 then True else list_all (\<lambda>w. rune_len (trimWord w) \<le> 3) (drop 2 words))"

definition pathCandidateInTitle :: "env \<Rightarrow> string \<Rightarrow> string \<Rightarrow> bool" where
  "pathCandidateInTitle u candidate title = (let tokens = matchTokens u candidate in
     if tokens = [] then False else list_all (\<lambda>t. t \<in> set (matchTokens u title)) tokens)"

definition usablePathAuthor :: "env \<Rightarrow> string \<Rightarrow> string \<Rightarrow> bool" where
  "usablePathAuthor u candidate0 title = (let candidate = normalizeMeta candidate0 in
     if candidate = [] \<or> \<not> IsName u candidate \<or> isPlaceholderAuthor u candidate \<or> \<not> pathNameShapeOK candidate
        \<or> containsGenericPathWord u candidate then False
     else if list_ex (\<lambda>r. r = RuneError \<or> is_control r) (runes candidate) then False
     else title = [] \<or> \<not> pathCandidateInTitle u candidate title)"

definition candidate_author :: "env \<Rightarrow> string \<Rightarrow> string \<Rightarrow> string option" where
  "candidate_author u title candidate =
     (case (case filenamePairAuthor u candidate of
             Some name \<Rightarrow> if usablePathAuthor u name title then Some name else None
           | None \<Rightarrow> None) of
        Some name \<Rightarrow> Some name
      | None \<Rightarrow> if usablePathAuthor u candidate title then Some candidate else None)"

definition authorFromPath :: "env \<Rightarrow> string \<Rightarrow> string \<Rightarrow> string option" where
  "authorFromPath u path title = first_some (\<lambda>component.
     first_some (candidate_author u title) (pathAuthorCandidates u component)) (pathComponentsNearestFirst u path)"

section \<open>Credit affixes\<close>

definition isStemSep :: "rune \<Rightarrow> bool" where
  "isStemSep r \<longleftrightarrow> r \<in> set (map byte '' ,.;:!?()[]/_-'' @ [9, 34, 39, 8211, 8212])"

type_synonym stem_tok = "string \<times> bool"

fun tok_loop :: "stem_tok option \<Rightarrow> rune list \<Rightarrow> stem_tok list" where
  "tok_loop None [] = []"
| "tok_loop (Some cur) [] = [cur]"
| "tok_loop None (r # rs) = tok_loop (Some (encode_rune r, isStemSep r)) rs"
| "tok_loop (Some (t, sep)) (r # rs) =
     (if isStemSep r \<noteq> sep then (t, sep) # tok_loop (Some (encode_rune r, isStemSep r)) rs
      else tok_loop (Some (t @ encode_rune r, sep)) rs)"

definition tokenizeStem :: "string \<Rightarrow> stem_tok list" where
  "tokenizeStem s = tok_loop None (runes s)"

definition hasDash :: "string \<Rightarrow> bool" where
  "hasDash s = contains_any s [45, 8211, 8212]"

definition wordFold :: "env \<Rightarrow> string \<Rightarrow> string" where
  "wordFold u w = foldDiacritics u (metaKey u w)"

definition setsEqual :: "string list \<Rightarrow> string set \<Rightarrow> bool" where
  "setsEqual words S = (if length words \<noteq> card S then False else list_all (\<lambda>w. w \<in> S) words)"

definition word_positions :: "stem_tok list \<Rightarrow> nat list" where
  "word_positions toks = filter (\<lambda>i. \<not> snd (toks ! i)) [0..<length toks]"

definition folded_words :: "env \<Rightarrow> stem_tok list \<Rightarrow> string list" where
  "folded_words u toks = map (\<lambda>i. wordFold u (fst (toks ! i))) (word_positions toks)"

text \<open>The range of tokens to drop: a leading credit, else a trailing one.\<close>

definition leading_credit :: "stem_tok list \<Rightarrow> nat list \<Rightarrow> string list \<Rightarrow> string list \<Rightarrow> (nat \<times> nat) option" where
  "leading_credit toks words folded auth = (let S = set auth; k = card S in
     if k = 0 then None
     else if k < length words \<and> setsEqual (take k folded) S \<and> hasDash (fst (toks ! (words ! k - 1)))
       then Some (0, words ! k) else None)"

definition trailing_credit :: "env \<Rightarrow> stem_tok list \<Rightarrow> nat list \<Rightarrow> string list \<Rightarrow> string list \<Rightarrow> (nat \<times> nat) option" where
  "trailing_credit u toks words folded auth = (let S = set auth; k = card S in
     if k = 0 \<or> length words < k then None
     else if \<not> setsEqual (drop (length words - k) folded) S then None
     else let start = words ! (length words - k) in
       (case find (\<lambda>j. \<not> snd (toks ! j)) (rev [0..<start]) of
          None \<Rightarrow> None
        | Some j \<Rightarrow>
            if hasDash (fst (toks ! (j + 1))) then Some (start, length toks)
            else if wordFold u (fst (toks ! j)) = ''by'' then Some (j, length toks)
            else None))"

definition affixCutset :: "rune list" where
  "affixCutset = map byte '' -,.;:!?()[]/_'' @ [9, 34, 39, 8211, 8212]"

definition washAuthorAffix :: "env \<Rightarrow> string \<Rightarrow> string list list \<Rightarrow> string" where
  "washAuthorAffix u stem authorSets = (if stem = [] \<or> authorSets = [] then stem
     else let toks = tokenizeStem stem; words = word_positions toks in
     if words = [] then stem
     else let folded = folded_words u toks in
       (case (case first_some (leading_credit toks words folded) authorSets of
                Some r \<Rightarrow> Some r
              | None \<Rightarrow> first_some (trailing_credit u toks words folded) authorSets) of
          None \<Rightarrow> stem
        | Some (dropFrom, dropTo) \<Rightarrow>
           (let kept = map fst (take dropFrom toks) @ map fst (drop dropTo toks);
                out = normalizeMeta (trim_cutset affixCutset (concat kept)) in
            if out = [] \<or> isPlaceholderTitle u out then stem else out)))"

section \<open>The title vote\<close>

record title_vote =
  tv_title :: string
  tv_count :: nat
  tv_first :: nat
  tv_underscores :: nat
  tv_noisy :: bool

definition cast_title :: "env \<Rightarrow> string list list \<Rightarrow> string \<Rightarrow> title_vote \<Rightarrow> title_vote" where
  "cast_title u tokenSets c v0 = (let v = v0\<lparr>tv_count := tv_count v0 + 1\<rparr> in
     if rune_len (tv_title v) < rune_len c
     then v\<lparr>tv_title := c, tv_underscores := count_sub c ''_'', tv_noisy := titleMentionsAuthor u c tokenSets\<rparr>
     else v)"

definition title_candidates :: "env \<Rightarrow> string list \<Rightarrow> (nat \<times> string) list" where
  "title_candidates u cands =
     filter (\<lambda>(i, c). c \<noteq> [] \<and> \<not> isPlaceholderTitle u c) (enumerate 0 (map normalizeMeta cands))"

definition title_votes :: "env \<Rightarrow> string list list \<Rightarrow> string list \<Rightarrow> (string \<times> title_vote) list" where
  "title_votes u tokenSets cands = tally (\<lambda>(i, c). metaKey u c)
     (\<lambda>(i, c). \<lparr>tv_title = [], tv_count = 0, tv_first = i, tv_underscores = 0, tv_noisy = False\<rparr>)
     (\<lambda>(i, c). cast_title u tokenSets c) (title_candidates u cands) []"

definition better_title :: "title_vote \<Rightarrow> title_vote \<Rightarrow> bool" where
  "better_title v b \<longleftrightarrow> tv_count b < tv_count v
     \<or> tv_count v = tv_count b \<and> tv_underscores v < tv_underscores b
     \<or> tv_count v = tv_count b \<and> tv_underscores v = tv_underscores b \<and> \<not> tv_noisy v \<and> tv_noisy b
     \<or> tv_count v = tv_count b \<and> tv_underscores v = tv_underscores b \<and> tv_noisy v = tv_noisy b
         \<and> rune_len (tv_title b) < rune_len (tv_title v)
     \<or> tv_count v = tv_count b \<and> tv_underscores v = tv_underscores b \<and> tv_noisy v = tv_noisy b
         \<and> rune_len (tv_title v) = rune_len (tv_title b) \<and> tv_first v < tv_first b"

definition no_title :: title_vote where
  "no_title = \<lparr>tv_title = [], tv_count = 0, tv_first = 0, tv_underscores = 0, tv_noisy = False\<rparr>"

definition pickTitle :: "env \<Rightarrow> string list \<Rightarrow> string list \<Rightarrow> string" where
  "pickTitle u candidates authors =
     tv_title (pick_best better_title no_title (map snd (title_votes u (map (matchTokens u) authors) candidates)))"

section \<open>The author vote\<close>

definition hasSpace :: "string \<Rightarrow> bool" where
  "hasSpace s = (CHR '' '' \<in> set s)"

definition spacedCount :: "string list \<Rightarrow> nat" where
  "spacedCount names = length (filter hasSpace names)"

definition canonicalAuthorName :: "string \<Rightarrow> string" where
  "canonicalAuthorName name = (case index_of name '','' of
       None \<Rightarrow> name
     | Some i \<Rightarrow> (let flipped = normalizeMeta (drop (i + 1) name @ '' '' @ take i name) in
         if flipped \<noteq> [] then flipped else name))"

text \<open>The insertion sort: \<open>sink j\<close> is the inner loop that moves element \<open>j\<close> to its place.\<close>

fun sink :: "nat \<Rightarrow> string list \<Rightarrow> string list" where
  "sink 0 s = s"
| "sink (Suc j) s = (if s ! Suc j < s ! j then sink j (s[Suc j := s ! j, j := s ! Suc j]) else s)"

definition sortStrings :: "string list \<Rightarrow> string list" where
  "sortStrings s = fold sink [1..<length s] s"

record author_vote =
  av_list :: "string list"
  av_count :: nat
  av_first :: nat

definition author_key :: "string list \<Rightarrow> string" where
  "author_key kept = join authorSeparator (sortStrings (map canonicalAuthorName kept))"

definition author_candidates :: "env \<Rightarrow> string list list \<Rightarrow> (nat \<times> string list) list" where
  "author_candidates u cands = filter (\<lambda>(i, kept). kept \<noteq> [])
     (enumerate 0 (map (\<lambda>c. filter (usableName u) (map normalizeMeta c)) cands))"

definition author_votes :: "env \<Rightarrow> string list list \<Rightarrow> (string \<times> author_vote) list" where
  "author_votes u cands = tally (\<lambda>(i, kept). author_key kept)
     (\<lambda>(i, kept). \<lparr>av_list = kept, av_count = 0, av_first = i\<rparr>)
     (\<lambda>_ v. v\<lparr>av_count := av_count v + 1\<rparr>) (author_candidates u cands) []"

definition av_runes :: "author_vote \<Rightarrow> nat" where
  "av_runes v = sum_list (map rune_len (av_list v))"

definition better_authors :: "author_vote \<Rightarrow> author_vote \<Rightarrow> bool" where
  "better_authors v b \<longleftrightarrow> av_count b < av_count v
     \<or> av_count v = av_count b \<and> length (av_list b) < length (av_list v)
     \<or> av_count v = av_count b \<and> length (av_list v) = length (av_list b) \<and> av_runes b < av_runes v
     \<or> av_count v = av_count b \<and> length (av_list v) = length (av_list b) \<and> av_runes v = av_runes b
         \<and> spacedCount (av_list b) < spacedCount (av_list v)
     \<or> av_count v = av_count b \<and> length (av_list v) = length (av_list b) \<and> av_runes v = av_runes b
         \<and> spacedCount (av_list v) = spacedCount (av_list b) \<and> av_first v < av_first b"

definition no_authors :: author_vote where
  "no_authors = \<lparr>av_list = [], av_count = 0, av_first = 0\<rparr>"

definition pickAuthors :: "env \<Rightarrow> string list list \<Rightarrow> string list" where
  "pickAuthors u candidates =
     av_list (pick_best better_authors no_authors (map snd (author_votes u candidates)))"


section \<open>Laws of the keys\<close>

lemma normalizeMeta_collapse: "normalizeMeta s = collapse s"
  by (simp add: normalizeMeta_def collapse_def)

lemma normalizeMeta_idem [simp]: "normalizeMeta (normalizeMeta s) = normalizeMeta s"
  by (simp add: normalizeMeta_collapse)

lemma metaKey_normalize [simp]: "metaKey u (normalizeMeta s) = metaKey u s"
  by (simp add: metaKey_def)

lemma foldName_normalize [simp]: "foldName u (normalizeMeta s) = foldName u s"
  by (simp add: foldName_def)

lemma rune_len_pos: "s \<noteq> [] \<Longrightarrow> 0 < rune_len s"
  by (simp add: rune_len_def segs_not_Nil)

section \<open>The insertion sort\<close>

lemma sink_length [simp]: "length (sink j s) = length s"
  by (induction j s rule: sink.induct) auto

lemma sink_mset: "j < length s \<Longrightarrow> mset (sink j s) = mset s"
proof (induction j s rule: sink.induct)
  case (2 j s)
  then show ?case by (simp add: mset_swap)
qed simp

lemma sink_beyond: "j < k \<Longrightarrow> sink j s ! k = s ! k"
  by (induction j s rule: sink.induct) auto

lemma sorted_equals: "sorted xs \<Longrightarrow> sorted ys \<Longrightarrow> mset xs = mset ys \<Longrightarrow> xs = ys"
  using properties_for_sort [of ys xs] properties_for_sort [of xs xs] by simp

lemma sink_drop: "drop (Suc j) (sink j s) = drop (Suc j) s"
  by (rule nth_equalityI) (simp_all add: sink_beyond)

lemma insort_snoc: "sorted (ys @ [y]) \<Longrightarrow> insort x (ys @ [y]) = (if x < y then insort x ys @ [y] else ys @ [y, x])"
proof (rule sorted_equals)
  assume s: "sorted (ys @ [y])"
  then show "sorted (insort x (ys @ [y]))" by (rule sorted_insort [THEN iffD2])
  show "sorted (if x < y then insort x ys @ [y] else ys @ [y, x])"
    using s by (auto simp: sorted_append sorted_insort set_insort_key)
  show "mset (insort x (ys @ [y])) = mset (if x < y then insort x ys @ [y] else ys @ [y, x])"
    by simp
qed

text \<open>Sinking element \<open>j\<close> inserts it into the sorted part before it.\<close>

lemma sink_insort:
  "j < length s \<Longrightarrow> sorted (take j s) \<Longrightarrow> take (Suc j) (sink j s) = insort (s ! j) (take j s)"
proof (induction j s rule: sink.induct)
  case (1 s)
  then show ?case by (cases s) auto
next
  case (2 j s)
  have take: "take (Suc j) s = take j s @ [s ! j]" using 2 by (simp add: take_Suc_conv_app_nth)
  show ?case
  proof (cases "s ! Suc j < s ! j")
    case True
    let ?t = "s[Suc j := s ! j, j := s ! Suc j]"
    have t: "take j ?t = take j s" "?t ! j = s ! Suc j" "?t ! Suc j = s ! j" using 2 by (simp_all add: nth_list_update)
    have "take (Suc j) (sink j ?t) = insort (s ! Suc j) (take j s)"
      using 2(1) [OF True] 2(2,3) t take by (simp add: sorted_append)
    moreover have "take (Suc (Suc j)) (sink j ?t) = take (Suc j) (sink j ?t) @ [s ! j]"
      using 2 t(3) by (simp add: take_Suc_conv_app_nth [of "Suc j"] sink_beyond)
    ultimately show ?thesis
      using True insort_snoc [of "take j s" "s ! j" "s ! Suc j"] 2(3) take by simp
  next
    case False
    then show ?thesis
      using insort_snoc [of "take j s" "s ! j" "s ! Suc j"] 2(2,3) take
      by (simp add: take_Suc_conv_app_nth [of "Suc j"])
  qed
qed

lemma sortStrings_prefix:
  "k \<le> length s \<Longrightarrow> length (fold sink [1..<k] s) = length s \<and> take k (fold sink [1..<k] s) = sort (take k s)
     \<and> drop k (fold sink [1..<k] s) = drop k s"
proof (induction k)
  case (Suc k)
  let ?r = "fold sink [1..<k] s"
  from Suc have r: "length ?r = length s" "take k ?r = sort (take k s)" "drop k ?r = drop k s" by simp_all
  have step: "fold sink [1..<Suc k] s = (if k = 0 then s else sink k ?r)" by simp
  have k: "?r ! k = s ! k" using r(3) Suc.prems by (metis Suc_le_lessD drop_eq_Nil hd_drop_conv_nth leD r(1))
  show ?case
  proof (cases "k = 0")
    case True
    then show ?thesis by (cases s) auto
  next
    case False
    have "take (Suc k) (sink k ?r) = insort (s ! k) (sort (take k s))"
      using sink_insort [of k ?r] r k Suc.prems by simp
    also have "\<dots> = sort (take (Suc k) s)"
      using Suc.prems by (intro sorted_equals) (simp_all add: sorted_insort take_Suc_conv_app_nth)
    finally show ?thesis using False r sink_drop [of k ?r] Suc.prems
      by (simp add: step) (metis drop_Suc drop_drop add.commute plus_1_eq_Suc tl_drop)
  qed
qed simp


section \<open>The preferences of the votes\<close>

definition title_weight :: "title_vote \<Rightarrow> nat \<times> int \<times> bool \<times> nat \<times> int" where
  "title_weight v = (tv_count v, - int (tv_underscores v), \<not> tv_noisy v, rune_len (tv_title v), - int (tv_first v))"

definition author_weight :: "author_vote \<Rightarrow> nat \<times> nat \<times> nat \<times> nat \<times> int" where
  "author_weight v = (av_count v, length (av_list v), av_runes v, spacedCount (av_list v), - int (av_first v))"

interpretation title_pref: measured_preference better_title title_weight
  by unfold_locales (auto simp: better_title_def title_weight_def)

interpretation author_pref: measured_preference better_authors author_weight
  by unfold_locales (auto simp: better_authors_def author_weight_def)

text \<open>A title entry holds the longest spelling seen, with its own underscores and noise.\<close>

definition own_marks :: "env \<Rightarrow> string list list \<Rightarrow> title_vote \<Rightarrow> bool" where
  "own_marks u ts v \<longleftrightarrow> tv_underscores v = count_sub (tv_title v) ''_'' \<and> tv_noisy v = titleMentionsAuthor u (tv_title v) ts"

lemma cast_title_count: "tv_count (cast_title u ts c v) = tv_count v + 1"
  by (simp add: cast_title_def Let_def)

lemma cast_title_longest: "rune_len c \<le> rune_len (tv_title (cast_title u ts c v))
    \<and> rune_len (tv_title v) \<le> rune_len (tv_title (cast_title u ts c v))
    \<and> tv_title (cast_title u ts c v) \<in> {c, tv_title v} \<and> (own_marks u ts v \<longrightarrow> own_marks u ts (cast_title u ts c v))"
  by (auto simp: cast_title_def Let_def own_marks_def)

lemma cast_titles:
  assumes "own_marks u ts v"
  shows "let r = fold (\<lambda>(i, c). cast_title u ts c) g v in
    own_marks u ts r \<and> tv_count r = tv_count v + length g \<and> tv_title r \<in> insert (tv_title v) (snd ` set g)
    \<and> rune_len (tv_title v) \<le> rune_len (tv_title r) \<and> (\<forall>c \<in> snd ` set g. rune_len c \<le> rune_len (tv_title r))"
  using assms
proof (induction g arbitrary: v)
  case (Cons x g)
  obtain i c where x: "x = (i, c)" by force
  let ?w = "cast_title u ts c v"
  have w: "own_marks u ts ?w" using cast_title_longest Cons.prems by blast
  show ?case using Cons.IH [OF w] cast_title_longest [of c u ts v] cast_title_count [of u ts c v]
    unfolding x Let_def by (simp, elim conjE disjE) (auto intro: order_trans)
qed (simp add: Let_def)

text \<open>What the tally says about one title: how many candidates spell it, and its longest spelling.\<close>

definition usable_titles :: "env \<Rightarrow> string list \<Rightarrow> string list" where
  "usable_titles u cands = filter (\<lambda>c. c \<noteq> [] \<and> \<not> isPlaceholderTitle u c) (map normalizeMeta cands)"

definition title_group :: "env \<Rightarrow> string list \<Rightarrow> string \<Rightarrow> string list" where
  "title_group u cands c = filter (\<lambda>d. metaKey u d = metaKey u c) (usable_titles u cands)"

lemma filter_enumerate_snd: "map snd (filter (\<lambda>x. P (snd x)) (enumerate n xs)) = filter P xs"
  by (induction xs arbitrary: n) simp_all

lemma title_candidates_snd: "map snd (title_candidates u cands) = usable_titles u cands"
  using filter_enumerate_snd [of "\<lambda>c. c \<noteq> [] \<and> \<not> isPlaceholderTitle u c" 0 "map normalizeMeta cands"]
  by (simp add: title_candidates_def usable_titles_def case_prod_unfold)

lemma title_entry:
  assumes "(k, v) \<in> set (title_votes u ts cands)"
  shows "own_marks u ts v \<and> tv_title v \<in> set (usable_titles u cands) \<and> metaKey u (tv_title v) = k
    \<and> tv_count v = length (title_group u cands (tv_title v))
    \<and> (\<forall>d \<in> set (title_group u cands (tv_title v)). rune_len d \<le> rune_len (tv_title v))"
proof -
  let ?C = "title_candidates u cands"
  obtain x g where g: "filter (\<lambda>x. (case x of (i, c) \<Rightarrow> metaKey u c) = k) ?C = x # g"
    and v: "v = fold (\<lambda>(i, c). cast_title u ts c) g ((case x of (i, c) \<Rightarrow> cast_title u ts c)
        (case x of (i, c) \<Rightarrow> \<lparr>tv_title = [], tv_count = 0, tv_first = i, tv_underscores = 0, tv_noisy = False\<rparr>))"
    using assms by (auto simp: title_votes_def tally_entry)
  obtain i c where x: "x = (i, c)" by force
  define w where "w = cast_title u ts c \<lparr>tv_title = [], tv_count = 0, tv_first = i, tv_underscores = 0, tv_noisy = False\<rparr>"
  have in_group: "set (x # g) \<subseteq> set ?C" "\<forall>y \<in> set (x # g). metaKey u (snd y) = k"
    unfolding g [symmetric] by auto
  have "c \<in> set (usable_titles u cands)" using in_group(1) x by (auto simp flip: title_candidates_snd intro: rev_image_eqI)
  then have "c \<noteq> []" by (simp add: usable_titles_def)
  then have w: "own_marks u ts w" "tv_title w = c" "tv_count w = 1"
    using rune_len_pos [of c] by (simp_all add: w_def cast_title_def Let_def own_marks_def) (simp_all add: rune_len_def)
  have v': "v = fold (\<lambda>(i, c). cast_title u ts c) g w" using v by (simp add: x w_def)
  note r = cast_titles [OF w(1), of g, unfolded Let_def, folded v']
  have title: "tv_title v \<in> snd ` set (x # g)" using r w(2) x by auto
  then have key: "metaKey u (tv_title v) = k" using in_group(2) by auto
  have "map snd (x # g) = filter (\<lambda>d. metaKey u d = k) (map snd ?C)"
    unfolding g [symmetric] filter_map comp_def by (simp add: case_prod_unfold)
  then have group: "title_group u cands (tv_title v) = map snd (x # g)"
    by (simp add: title_group_def title_candidates_snd key)
  have "tv_title v \<in> set (usable_titles u cands)"
    using title in_group(1) unfolding title_candidates_snd [symmetric] by auto
  then show ?thesis using r w x key group by auto
qed

lemma title_entry_of:
  assumes "c \<in> set (usable_titles u cands)"
  obtains v where "(metaKey u c, v) \<in> set (title_votes u ts cands)"
proof -
  from assms obtain i where "(i, c) \<in> set (title_candidates u cands)"
    unfolding title_candidates_snd [symmetric] by auto
  then have "\<exists>v. ((\<lambda>(i, c). metaKey u c) (i, c), v) \<in> set (title_votes u ts cands)"
    unfolding title_votes_def by (rule tally_entry_of)
  then show ?thesis using that by auto
qed

text \<open>The winner is an entry of the tally, and none weighs more.\<close>

lemma title_winner:
  assumes "usable_titles u cands \<noteq> []"
  obtains k w where "pickTitle u cands authors = tv_title w" "(k, w) \<in> set (title_votes u (map (matchTokens u) authors) cands)"
    "\<And>k' v. (k', v) \<in> set (title_votes u (map (matchTokens u) authors) cands) \<Longrightarrow> title_weight v \<le> title_weight w"
proof -
  let ?V = "title_votes u (map (matchTokens u) authors) cands"
  have V: "?V \<noteq> []" using assms by (auto simp: title_votes_def tally_Nil_iff simp flip: title_candidates_snd)
  have "0 < tv_count v" if kv: "(k, v) \<in> set ?V" for k v
  proof -
    have "tv_title v \<in> set (title_group u cands (tv_title v))" using title_entry [OF kv] by (simp add: title_group_def)
    then show ?thesis using title_entry [OF kv] by (metis length_pos_if_in_set)
  qed
  then have outweighs: "title_weight no_title < title_weight v" if "(k, v) \<in> set ?V" for k v
    using that by (simp add: title_weight_def no_title_def)
  show thesis by (rule title_pref.tally_winner [OF V outweighs]) (assumption, rule that, simp_all add: pickTitle_def)
qed

text \<open>The entry of a title has its group, and a title longer than the rest of its group leads it.\<close>

lemma title_entry_leads:
  assumes "(metaKey u c, v) \<in> set (title_votes u ts cands)" "c \<in> set (usable_titles u cands)"
  shows "title_group u cands (tv_title v) = title_group u cands c"
    "\<forall>d \<in> set (title_group u cands c). d = c \<or> rune_len d < rune_len c \<Longrightarrow> tv_title v = c"
proof -
  note f = title_entry [OF assms(1)]
  show same: "title_group u cands (tv_title v) = title_group u cands c" using f by (simp add: title_group_def)
  have "c \<in> set (title_group u cands c)" "tv_title v \<in> set (title_group u cands c)"
    using assms(2) f by (simp_all add: title_group_def)
  then show "tv_title v = c" if "\<forall>d \<in> set (title_group u cands c). d = c \<or> rune_len d < rune_len c"
    using that f same by (metis leD)
qed

lemma empty_vote_title: "usable_titles u cands = [] \<Longrightarrow> pickTitle u cands authors = []"
  by (simp add: pickTitle_def title_votes_def tally_Nil_iff no_title_def flip: title_candidates_snd)

text \<open>
  C33: The chosen title wins the vote. Blank and placeholder titles are dropped; if nothing is
  left there is no title. Otherwise the result is one of the usable titles; no title (spellings
  that differ only in case and spacing count together) was given by more files; it is the
  longest spelling of its group; and against the longest spelling of any group with as many
  votes it has no more underscores, then, if it mentions an author so does the other, and
  then it is at least as long.
\<close>

theorem pickTitle_wins_vote:
  defines "votes \<equiv> \<lambda>cands u c. length (title_group u cands c)"
    and "noisy \<equiv> \<lambda>u authors c. titleMentionsAuthor u c (map (matchTokens u) authors)"
  shows "let t = pickTitle u cands authors; U = set (usable_titles u cands) in
    if U = {} then t = []
    else t \<in> U \<and> (\<forall>c \<in> U. votes cands u c \<le> votes cands u t \<and> (metaKey u c = metaKey u t \<longrightarrow> rune_len c \<le> rune_len t)
      \<and> (votes cands u c = votes cands u t \<and> (\<forall>d \<in> set (title_group u cands c). d = c \<or> rune_len d < rune_len c) \<longrightarrow>
           (count_sub t ''_'', noisy u authors t) < (count_sub c ''_'', noisy u authors c)
           \<or> (count_sub t ''_'', noisy u authors t) = (count_sub c ''_'', noisy u authors c) \<and> rune_len c \<le> rune_len t))"
proof (cases "usable_titles u cands = []")
  case True
  then show ?thesis by (simp add: empty_vote_title)
next
  case False
  let ?ts = "map (matchTokens u) authors" and ?t = "pickTitle u cands authors"
  obtain k w where t: "?t = tv_title w" and w: "(k, w) \<in> set (title_votes u ?ts cands)"
    and max: "\<And>k' v. (k', v) \<in> set (title_votes u ?ts cands) \<Longrightarrow> title_weight v \<le> title_weight w"
    by (rule title_winner [OF False, of authors]) (rule that)
  note e = title_entry [OF w]
  have "votes cands u c \<le> votes cands u ?t \<and> (metaKey u c = metaKey u ?t \<longrightarrow> rune_len c \<le> rune_len ?t)
    \<and> (votes cands u c = votes cands u ?t \<and> (\<forall>d \<in> set (title_group u cands c). d = c \<or> rune_len d < rune_len c) \<longrightarrow>
         (count_sub ?t ''_'', noisy u authors ?t) < (count_sub c ''_'', noisy u authors c)
         \<or> (count_sub ?t ''_'', noisy u authors ?t) = (count_sub c ''_'', noisy u authors c) \<and> rune_len c \<le> rune_len ?t)"
    if c: "c \<in> set (usable_titles u cands)" for c
  proof -
    obtain v where v: "(metaKey u c, v) \<in> set (title_votes u ?ts cands)" using title_entry_of [OF c] by blast
    note f = title_entry [OF v] and le = max [OF v, unfolded title_weight_def] and lead = title_entry_leads [OF v c]
    have "metaKey u c = metaKey u ?t \<longrightarrow> rune_len c \<le> rune_len ?t" using e c t by (simp add: title_group_def)
    moreover have "votes cands u c \<le> votes cands u ?t" using le e f lead(1) by (auto simp: votes_def t)
    moreover have "(count_sub ?t ''_'', noisy u authors ?t) < (count_sub c ''_'', noisy u authors c)
         \<or> (count_sub ?t ''_'', noisy u authors ?t) = (count_sub c ''_'', noisy u authors c) \<and> rune_len c \<le> rune_len ?t"
      if "votes cands u c = votes cands u ?t" "tv_title v = c"
      using le e f that by (auto simp: votes_def noisy_def t own_marks_def)
    ultimately show ?thesis using lead(2) by blast
  qed
  then show ?thesis using False e t by (simp add: Let_def)
qed


lemma demo_normal: "normalizeMeta ''Dune'' = ''Dune''" "normalizeMeta ''dune'' = ''dune''" "normalizeMeta ''Emma'' = ''Emma''"
  by (simp_all add: normalizeMeta_def GoStrings.fields_def fields_func_def is_space_def between_def string_eval)

lemma demo_keys: "metaKey plain_env ''Dune'' = ''dune''" "metaKey plain_env ''dune'' = ''dune''" "metaKey plain_env ''Emma'' = ''emma''"
  by (simp_all add: metaKey_def demo_normal string_eval)

lemma ascii_not_folded:
  assumes "ascii s"
  shows "foldDiacritics plain_env s = s"
proof -
  have marks: "strip_marks plain_env b rs = rs" for b rs
    by (induction rs arbitrary: b) (simp_all add: is_mn_def)
  have enc: "utf8_encode (map byte t) = t" if "ascii t" for t
    using that by (induction t) (simp_all add: utf8_encode_def ascii_def encode_rune_small chr_def)
  have "match_pair leftoverReplacer t = None" if "ascii t" for t
    using that by (cases t) (auto simp: match_pair_def leftoverReplacer_def has_prefix_def ascii_def
        utf8_encode_def encode_rune_def Let_def find_None_iff chr_numeral)
  then have "replacer leftoverReplacer t = t" if "ascii t" for t
    using that by (induction t) (simp_all add: ascii_def)
  then show ?thesis using assms by (simp add: foldDiacritics_def marks runes_def segs_ascii comp_def enc)
qed

lemma demo_titles: "usable_titles plain_env [''Dune'', ''dune'', ''Emma''] = [''Dune'', ''dune'', ''Emma'']"
proof -
  have "foldName plain_env ''Dune'' = ''dune''" "foldName plain_env ''dune'' = ''dune''" "foldName plain_env ''Emma'' = ''emma''"
    by (simp_all add: foldName_def demo_keys ascii_not_folded ascii_def)
  moreover have "''dune'' \<notin> set placeholderTitles \<and> ''emma'' \<notin> set placeholderTitles"
    by (simp add: placeholderTitles_def utf8_encode_def encode_rune_def Let_def chr_numeral)
  ultimately show ?thesis by (simp add: usable_titles_def demo_normal isPlaceholderTitle_def)
qed

theorem pickTitle_wins_vote_witness:
  "pickTitle plain_env [''Dune'', ''dune'', ''Emma''] [] \<in> {''Dune'', ''dune''}"
proof -
  let ?c = "[''Dune'', ''dune'', ''Emma'']" let ?t = "pickTitle plain_env ?c []"
  have g: "length (title_group plain_env ?c ''Dune'') = 2" "length (title_group plain_env ?c ''Emma'') = 1"
    by (simp_all add: title_group_def demo_titles demo_keys)
  have "?t \<in> {''Dune'', ''dune'', ''Emma''} \<and> length (title_group plain_env ?c ''Dune'') \<le> length (title_group plain_env ?c ?t)"
    using pickTitle_wins_vote [of plain_env ?c "[]"] by (simp add: demo_titles Let_def)
  then show ?thesis using g by auto
qed

section \<open>Joining and splitting at a separator\<close>

lemma fields_segs_chars: "w \<in> set (fields_segs p cur ss) \<Longrightarrow> set w \<subseteq> set cur \<union> set (bytes_of ss)"
proof (induction p cur ss rule: fields_segs.induct)
  case (2 p cur r bs ss)
  then show ?case by (fastforce simp: bytes_of_def split: if_splits)
qed (auto simp: bytes_of_def split: if_splits)

lemma fields_func_chars: "w \<in> set (fields_func p s) \<Longrightarrow> set w \<subseteq> set s"
  using fields_segs_chars [of w p "[]" "segs s"] by (simp add: fields_func_def segs_concat)

lemma join_chars: "set (join sep xs) \<subseteq> set sep \<union> (\<Union>x \<in> set xs. set x)"
  by (induction sep xs rule: join.induct) auto

lemma normalizeMeta_chars: "set (normalizeMeta s) \<subseteq> insert (CHR '' '') (set s)"
proof -
  have "w \<in> set (GoStrings.fields s) \<Longrightarrow> set w \<subseteq> set s" for w
    using fields_func_chars [of w is_space s] by (simp add: GoStrings.fields_def)
  then show ?thesis using join_chars [of "'' ''" "GoStrings.fields s"] by (auto simp: normalizeMeta_def)
qed

lemma append_sep_cancel:
  "c \<notin> set x \<Longrightarrow> c \<notin> set y \<Longrightarrow> x @ c # xs = y @ c # ys \<longleftrightarrow> x = y \<and> xs = ys"
proof (induction x arbitrary: y)
  case Nil
  then show ?case by (cases y) auto
next
  case (Cons a x)
  then show ?case by (cases y) auto
qed

lemma join_inj:
  assumes "join [c] xs = join [c] ys" "xs \<noteq> []" "ys \<noteq> []" "\<forall>x \<in> set xs \<union> set ys. c \<notin> set x"
  shows "xs = ys"
  using assms
proof (induction xs arbitrary: ys)
  case (Cons x xs)
  obtain y ys' where ys: "ys = y # ys'" using Cons.prems(3) by (cases ys) auto
  show ?case
  proof (cases "xs = [] \<or> ys' = []")
    case True
    then show ?thesis using Cons.prems by (cases xs; cases ys') (auto simp: ys join_Cons)
  next
    case False
    then have "x = y \<and> join [c] xs = join [c] ys'"
      using Cons.prems append_sep_cancel [of c x y "join [c] xs" "join [c] ys'"] by (simp add: ys join_Cons)
    then show ?thesis using Cons.IH [of ys'] Cons.prems False ys by auto
  qed
qed simp

lemma canonicalAuthorName_chars:
  assumes "c \<notin> set name" "c \<noteq> CHR '' ''"
  shows "c \<notin> set (canonicalAuthorName name)"
proof -
  have "c \<notin> set (drop i name)" "c \<notin> set (take i name)" for i
    using assms(1) by (meson in_set_dropD in_set_takeD)+
  then have "c \<notin> set (normalizeMeta (drop (i + 1) name @ '' '' @ take i name))" for i
    using assms(2) normalizeMeta_chars [of "drop (i + 1) name @ '' '' @ take i name"] by auto
  then show ?thesis using assms(1) by (simp add: canonicalAuthorName_def Let_def split: option.split)
qed

section \<open>The author vote\<close>

lemma sortStrings_sort: "sortStrings s = sort s"
  using sortStrings_prefix [of "length s" s] unfolding sortStrings_def by (metis order.refl take_all_iff)

definition same_authors :: "string list \<Rightarrow> string list \<Rightarrow> bool" where
  "same_authors a b \<longleftrightarrow> mset (map canonicalAuthorName a) = mset (map canonicalAuthorName b)"

definition no_separator :: "string list \<Rightarrow> bool" where
  "no_separator names = list_all (\<lambda>n. chr 31 \<notin> set n) names"

lemma author_key_eq:
  assumes "a \<noteq> []" "b \<noteq> []" "no_separator a" "no_separator b"
  shows "author_key a = author_key b \<longleftrightarrow> same_authors a b"
proof
  assume k: "author_key a = author_key b"
  have sep: "chr 31 \<noteq> CHR '' ''" by (simp add: chr_numeral)
  have "\<forall>n \<in> set (sort (map canonicalAuthorName a)) \<union> set (sort (map canonicalAuthorName b)). chr 31 \<notin> set n"
    using assms(3,4) canonicalAuthorName_chars [OF _ sep] by (auto simp: no_separator_def list_all_iff)
  then have "sort (map canonicalAuthorName a) = sort (map canonicalAuthorName b)"
    using k assms(1,2) join_inj [of "chr 31" "sort (map canonicalAuthorName a)" "sort (map canonicalAuthorName b)"]
    by (simp add: author_key_def sortStrings_sort authorSeparator_def) (metis length_0_conv length_map length_sort)
  then show "same_authors a b" unfolding same_authors_def by (metis mset_sort)
next
  assume "same_authors a b"
  then have "sort (map canonicalAuthorName a) = sort (map canonicalAuthorName b)"
    unfolding same_authors_def by (intro properties_for_sort) simp_all
  then show "author_key a = author_key b" by (simp add: author_key_def sortStrings_sort)
qed

text \<open>The author lists of the files, cleaned, without the empty ones.\<close>

definition usable_lists :: "env \<Rightarrow> string list list \<Rightarrow> string list list" where
  "usable_lists u cands = filter (\<lambda>l. l \<noteq> []) (map (\<lambda>c. filter (usableName u) (map normalizeMeta c)) cands)"

definition author_group :: "env \<Rightarrow> string list list \<Rightarrow> string list \<Rightarrow> string list list" where
  "author_group u cands l = filter (same_authors l) (usable_lists u cands)"

lemma author_candidates_snd: "map snd (author_candidates u cands) = usable_lists u cands"
  using filter_enumerate_snd [of "\<lambda>l. l \<noteq> []" 0 "map (\<lambda>c. filter (usableName u) (map normalizeMeta c)) cands"]
  by (simp add: author_candidates_def usable_lists_def case_prod_unfold)

lemma usable_lists_plain:
  assumes "\<forall>c \<in> set cands. no_separator c" "l \<in> set (usable_lists u cands)"
  shows "l \<noteq> [] \<and> no_separator l"
proof -
  obtain c where c: "c \<in> set cands" "l = filter (usableName u) (map normalizeMeta c)" "l \<noteq> []"
    using assms(2) by (auto simp: usable_lists_def)
  have "chr 31 \<notin> set (normalizeMeta n)" if "n \<in> set c" for n
    using assms(1) c(1) that normalizeMeta_chars [of n] by (force simp: no_separator_def list_all_iff chr_numeral)
  then show ?thesis using c by (auto simp: no_separator_def list_all_iff)
qed

lemma fold_av: "av_list (fold (\<lambda>_ v. v\<lparr>av_count := av_count v + 1\<rparr>) g v) = av_list v"
  "av_count (fold (\<lambda>_ v. v\<lparr>av_count := av_count v + 1\<rparr>) g v) = av_count v + length g"
  by (induction g arbitrary: v) simp_all

lemma author_entry:
  assumes "\<forall>c \<in> set cands. no_separator c" "(k, v) \<in> set (author_votes u cands)"
  shows "\<exists>rest. author_group u cands (av_list v) = av_list v # rest \<and> av_list v \<in> set (usable_lists u cands)
    \<and> author_key (av_list v) = k \<and> av_count v = length (author_group u cands (av_list v))"
proof -
  let ?C = "author_candidates u cands"
  obtain x g where g: "filter (\<lambda>x. (case x of (i, l) \<Rightarrow> author_key l) = k) ?C = x # g"
    and v: "v = fold (\<lambda>_ v. v\<lparr>av_count := av_count v + 1\<rparr>) g
        ((case x of (i, l) \<Rightarrow> \<lparr>av_list = l, av_count = 0, av_first = i\<rparr>)\<lparr>av_count := 1\<rparr>)"
    using assms(2) by (auto simp: author_votes_def tally_entry split: prod.splits)
  obtain i l where x: "x = (i, l)" by force
  have l: "av_list v = l" "av_count v = Suc (length g)" using v by (simp_all add: x fold_av [simplified])
  have keys: "\<forall>y \<in> set (x # g). author_key (snd y) = k \<and> y \<in> set ?C" unfolding g [symmetric] by auto
  then have in_l: "l \<in> set (usable_lists u cands)" "author_key l = k"
    unfolding author_candidates_snd [symmetric] x by force+
  have "author_group u cands l = filter (\<lambda>m. author_key m = k) (usable_lists u cands)"
    unfolding author_group_def
  proof (rule filter_cong [OF HOL.refl])
    fix m assume "m \<in> set (usable_lists u cands)"
    then show "same_authors l m = (author_key m = k)"
      using usable_lists_plain [OF assms(1)] in_l author_key_eq [of l m] by auto
  qed
  also have "\<dots> = map snd (x # g)"
    unfolding g [symmetric] author_candidates_snd [symmetric] filter_map comp_def by (simp add: case_prod_unfold)
  finally show ?thesis using l in_l by (simp add: x)
qed

lemma author_winner:
  assumes "\<forall>c \<in> set cands. no_separator c" "usable_lists u cands \<noteq> []"
  obtains k w where "pickAuthors u cands = av_list w" "(k, w) \<in> set (author_votes u cands)"
    "\<And>k' v. (k', v) \<in> set (author_votes u cands) \<Longrightarrow> author_weight v \<le> author_weight w"
proof -
  have V: "author_votes u cands \<noteq> []"
    using assms(2) by (auto simp: author_votes_def tally_Nil_iff simp flip: author_candidates_snd)
  have outweighs: "author_weight no_authors < author_weight v" if "(k, v) \<in> set (author_votes u cands)" for k v
    using author_entry [OF assms(1) that] by (auto simp: author_weight_def no_authors_def)
  show thesis by (rule author_pref.tally_winner [OF V outweighs]) (assumption, rule that, simp_all add: pickAuthors_def)
qed

text \<open>The entry of a list is led by the first list that names the same people.\<close>

lemma author_entry_of:
  assumes "\<forall>c \<in> set cands. no_separator c" "l \<in> set (usable_lists u cands)"
  obtains k v where "(k, v) \<in> set (author_votes u cands)" "author_group u cands (av_list v) = author_group u cands l"
proof -
  obtain i where "(i, l) \<in> set (author_candidates u cands)" using assms(2) unfolding author_candidates_snd [symmetric] by auto
  then have "\<exists>v. ((\<lambda>(i, l). author_key l) (i, l), v) \<in> set (author_votes u cands)"
    unfolding author_votes_def by (rule tally_entry_of)
  then obtain v where v: "(author_key l, v) \<in> set (author_votes u cands)" by auto
  then have "same_authors l (av_list v)"
    using author_entry [OF assms(1) v] assms(2) usable_lists_plain [OF assms(1)] author_key_eq [of l "av_list v"] by auto
  then have "author_group u cands (av_list v) = author_group u cands l"
    by (simp add: author_group_def same_authors_def fun_eq_iff cong: filter_cong)
  then show thesis by (rule that [OF v])
qed

lemma empty_vote_authors: "usable_lists u cands = [] \<Longrightarrow> pickAuthors u cands = []"
  by (simp add: pickAuthors_def author_votes_def tally_Nil_iff no_authors_def flip: author_candidates_snd)

text \<open>
  C34: The chosen author list wins the vote. Each file votes with its names, cleaned of blanks
  and placeholders; two lists vote together exactly when they name the same people, in any
  order and with "Last, First" read as "First Last". If no list is left there are no authors.
  Otherwise the result is the first list of its group, no group has more votes, and among
  groups with as many votes its first list is greatest by number of authors, then characters,
  then names that contain a space.
\<close>

theorem pickAuthors_wins_vote:
  assumes "\<forall>c \<in> set cands. no_separator c"
  defines "strength \<equiv> \<lambda>l. (length l, sum_list (map rune_len l), spacedCount l)"
  shows "let A = pickAuthors u cands; U = set (usable_lists u cands) in
    if U = {} then A = []
    else A \<in> U \<and> hd (author_group u cands A) = A
      \<and> (\<forall>l \<in> U. length (author_group u cands l) \<le> length (author_group u cands A)
           \<and> (length (author_group u cands l) = length (author_group u cands A) \<longrightarrow>
                strength (hd (author_group u cands l)) \<le> strength A))"
proof (cases "usable_lists u cands = []")
  case True
  then show ?thesis by (simp add: empty_vote_authors)
next
  case False
  let ?A = "pickAuthors u cands"
  obtain k w where A: "?A = av_list w" and w: "(k, w) \<in> set (author_votes u cands)"
    and max: "\<And>k' v. (k', v) \<in> set (author_votes u cands) \<Longrightarrow> author_weight v \<le> author_weight w"
    by (rule author_winner [OF assms(1) False]) (rule that)
  note entry = author_entry [OF assms(1)]
  have "length (author_group u cands l) \<le> length (author_group u cands ?A)
      \<and> (length (author_group u cands l) = length (author_group u cands ?A) \<longrightarrow>
           strength (hd (author_group u cands l)) \<le> strength ?A)" if l: "l \<in> set (usable_lists u cands)" for l
  proof -
    obtain k' v where v: "(k', v) \<in> set (author_votes u cands)" and same: "author_group u cands (av_list v) = author_group u cands l"
      by (rule author_entry_of [OF assms(1) l])
    show ?thesis using max [OF v] entry [OF v] entry [OF w] unfolding same [symmetric] A strength_def av_runes_def author_weight_def
      by (auto simp del: length_append)
  qed
  then show ?thesis using False entry [OF w] A by (auto simp: Let_def)
qed


lemma demo_authors: "usable_lists plain_env [[''Ann''], [''Bob''], [''Bob'']] = [[''Ann''], [''Bob''], [''Bob'']]"
proof -
  have n: "normalizeMeta ''Ann'' = ''Ann''" "normalizeMeta ''Bob'' = ''Bob''"
    by (simp_all add: normalizeMeta_def GoStrings.fields_def fields_func_def is_space_def between_def string_eval)
  have "foldName plain_env ''Ann'' = ''ann''" "foldName plain_env ''Bob'' = ''bob''"
    by (simp_all add: foldName_def metaKey_def n string_eval ascii_not_folded)
  moreover have "''ann'' \<notin> set placeholderAuthors \<and> ''bob'' \<notin> set placeholderAuthors"
    by (simp add: placeholderAuthors_def utf8_encode_def encode_rune_def Let_def chr_numeral)
  ultimately show ?thesis by (simp add: usable_lists_def n usableName_def isPlaceholderAuthor_def)
qed

theorem pickAuthors_wins_vote_witness: "pickAuthors plain_env [[''Ann''], [''Bob''], [''Bob'']] = [''Bob'']"
proof -
  let ?c = "[[''Ann''], [''Bob''], [''Bob'']]" let ?A = "pickAuthors plain_env ?c"
  have sep: "\<forall>c \<in> set ?c. no_separator c" by (simp add: no_separator_def chr_numeral)
  have "canonicalAuthorName ''Ann'' = ''Ann''" "canonicalAuthorName ''Bob'' = ''Bob''"
    by (simp_all add: canonicalAuthorName_def has_prefix_def)
  then have "author_group plain_env ?c [''Ann''] = [[''Ann'']]" "length (author_group plain_env ?c [''Bob'']) = 2"
    by (simp_all add: author_group_def demo_authors same_authors_def)
  moreover have "?A \<in> {[''Ann''], [''Bob'']} \<and> length (author_group plain_env ?c [''Bob'']) \<le> length (author_group plain_env ?c ?A)"
    using pickAuthors_wins_vote [OF sep, of plain_env] by (simp add: demo_authors Let_def)
  ultimately show ?thesis by auto
qed

section \<open>Archive boundaries\<close>

lemma cut_at_not_Nil [simp]: "cut_at path start cuts \<noteq> []"
  by (cases cuts) auto

lemma join_cut_at:
  assumes "sorted_wrt (<) cuts" "\<forall>i \<in> set cuts. start \<le> i \<and> i < length path \<and> path ! i = CHR ''!''"
  shows "join ''!'' (cut_at path start cuts) = drop start path"
  using assms
proof (induction cuts arbitrary: start)
  case (Cons i cuts)
  then have "join ''!'' (cut_at path (i + 1) cuts) = drop (i + 1) path" by (auto intro!: Cons.IH)
  moreover have "drop start path = drop start (take i path) @ CHR ''!'' # drop (i + 1) path"
    using Cons.prems id_take_nth_drop [of i path]
    by (metis (no_types, lifting) Suc_eq_plus1 append_take_drop_id drop_append diff_is_0_eq drop0 length_take less_imp_le list.set_intros(1) min.absorb2)
  ultimately show ?case by (simp add: join_Cons)
qed simp

lemma length_cut_at: "length (cut_at path start cuts) = Suc (length cuts)"
  by (induction cuts arbitrary: start) simp_all

lemma last_cut_at: "last (cut_at path start cuts) = drop (if cuts = [] then start else last cuts + 1) path"
  by (induction cuts arbitrary: start) simp_all

lemma find_rev: "find P (rev xs) = (if filter P xs = [] then None else Some (last (filter P xs)))"
  by (induction xs rule: rev_induct) simp_all

lemma bangs_sorted: "sorted_wrt (<) (filter P (bangs path))"
  by (simp add: bangs_def sorted_wrt_filter)

text \<open>
  Splitting a display path at its archive boundaries loses nothing: joining the segments
  with "!" gives the path back, there is one segment more than boundaries (an exclamation
  mark that does not follow an archive name is not one), and the last segment is what the
  title and the author are read from.
\<close>

theorem archive_segments_roundtrip:
  "join ''!'' (archiveSegments u path) = path
   \<and> length (archiveSegments u path) = Suc (length (filter (isArchiveBoundary u path) (bangs path)))
   \<and> last (archiveSegments u path) = (case archiveBoundary u path of None \<Rightarrow> path | Some i \<Rightarrow> drop (i + 1) path)"
proof -
  have "join ''!'' (archiveSegments u path) = drop 0 path"
    unfolding archiveSegments_def by (rule join_cut_at [OF bangs_sorted]) (auto simp: bangs_def)
  then show ?thesis
    by (simp add: archiveSegments_def length_cut_at last_cut_at archiveBoundary_def find_rev)
qed

section \<open>What washing removes\<close>

lemma filter_upt_below:
  assumes "i < filter P [0..<n] ! k" "k < length (filter P [0..<n])" "P i"
  shows "\<exists>m < k. filter P [0..<n] ! m = i"
proof -
  let ?w = "filter P [0..<n]"
  have s: "sorted_wrt (<) ?w" by (simp add: sorted_wrt_filter)
  have "?w ! k < n" using nth_mem [OF assms(2)] by simp
  then have "i \<in> set ?w" using assms by simp
  then obtain m where m: "m < length ?w" "?w ! m = i" by (metis in_set_conv_nth)
  have "m < k"
  proof (rule ccontr)
    assume "\<not> m < k"
    then have "k = m \<or> k < m" by auto
    then show False using sorted_wrt_nth_less [OF s, of k m] m assms(1) by auto
  qed
  with m show ?thesis by blast
qed

lemma filter_upt_from:
  assumes "filter P [0..<n] ! k \<le> i" "k < length (filter P [0..<n])" "P i" "i < n"
  shows "\<exists>m \<ge> k. m < length (filter P [0..<n]) \<and> filter P [0..<n] ! m = i"
proof -
  let ?w = "filter P [0..<n]"
  have s: "sorted_wrt (<) ?w" by (simp add: sorted_wrt_filter)
  have "i \<in> set ?w" using assms by simp
  then obtain m where m: "m < length ?w" "?w ! m = i" by (metis in_set_conv_nth)
  have "k \<le> m"
  proof (rule ccontr)
    assume "\<not> k \<le> m"
    then show False using sorted_wrt_nth_less [OF s, of m k] m assms(1,2) by auto
  qed
  with m show ?thesis by blast
qed

lemma sorted_le_last: "sorted xs \<Longrightarrow> x \<in> set xs \<Longrightarrow> x \<le> last xs"
  by (cases xs rule: rev_cases) (auto simp: sorted_append)

text \<open>The words in the dropped range belong to the credited author, or are the word "by".\<close>

definition only_credit :: "env \<Rightarrow> stem_tok list \<Rightarrow> nat \<Rightarrow> nat \<Rightarrow> string list \<Rightarrow> bool" where
  "only_credit u toks a b auth \<longleftrightarrow> a \<le> b \<and> b \<le> length toks \<and> (a = 0 \<or> b = length toks)
     \<and> (\<forall>i. a \<le> i \<and> i < b \<and> \<not> snd (toks ! i) \<longrightarrow> wordFold u (fst (toks ! i)) \<in> insert ''by'' (set auth))"

lemma words_range: "k < length (word_positions toks) \<Longrightarrow> word_positions toks ! k < length toks"
  using nth_mem [of k "word_positions toks"] by (auto simp: word_positions_def)

lemma leading_credit_range:
  assumes "leading_credit toks (word_positions toks) (folded_words u toks) auth = Some (a, b)"
  shows "only_credit u toks a b auth"
proof -
  let ?words = "word_positions toks" and ?folded = "folded_words u toks"
  let ?k = "card (set auth)"
  have k: "?k < length ?words" "setsEqual (take ?k ?folded) (set auth)" "a = 0" "b = ?words ! ?k"
    using assms by (auto simp: leading_credit_def Let_def split: if_splits)
  have "wordFold u (fst (toks ! i)) \<in> set auth" if i: "i < b" "\<not> snd (toks ! i)" for i
  proof -
    obtain m where m: "m < ?k" "?words ! m = i" using filter_upt_below [of i _ _ ?k] i k unfolding word_positions_def by auto
    then have "wordFold u (fst (toks ! i)) \<in> set (take ?k ?folded)"
      using k(1) by (auto simp: folded_words_def in_set_conv_nth intro!: exI [of _ m])
    then show ?thesis using k(2) by (auto simp: setsEqual_def list_all_iff split: if_splits)
  qed
  then show ?thesis using k(3,4) words_range [OF k(1)] by (auto simp: only_credit_def)
qed

lemma trailing_credit_range:
  assumes "trailing_credit u toks (word_positions toks) (folded_words u toks) auth = Some (a, b)"
  shows "only_credit u toks a b auth"
proof -
  let ?words = "word_positions toks" and ?folded = "folded_words u toks"
  let ?k = "card (set auth)" let ?n = "length ?words - ?k" let ?start = "?words ! ?n"
  have "auth \<noteq> []" and k: "?k \<le> length ?words" "setsEqual (drop ?n ?folded) (set auth)"
    using assms by (auto simp: trailing_credit_def Let_def not_less split: if_splits)
  then have "0 < ?k" by (simp add: card_gt_0_iff)
  then have n: "?n < length ?words" using k(1) by simp
  obtain j where j: "find (\<lambda>j. \<not> snd (toks ! j)) (rev [0..<?start]) = Some j"
    and ab: "b = length toks" "a = ?start \<or> a = j \<and> wordFold u (fst (toks ! j)) = ''by''"
    using assms k by (auto simp: trailing_credit_def Let_def split: if_splits option.splits)
  have j': "j < ?start" "\<not> snd (toks ! j)" "\<And>i. j < i \<Longrightarrow> i < ?start \<Longrightarrow> snd (toks ! i)"
  proof -
    from j have f: "filter (\<lambda>j. \<not> snd (toks ! j)) [0..<?start] \<noteq> []" "j = last (filter (\<lambda>j. \<not> snd (toks ! j)) [0..<?start])"
      by (auto simp: find_rev split: if_splits)
    show "j < ?start" "\<not> snd (toks ! j)" using last_in_set [OF f(1)] f(2) by auto
    fix i assume i: "j < i" "i < ?start"
    show "snd (toks ! i)"
    proof (rule ccontr)
      assume "\<not> snd (toks ! i)"
      with i have "i \<in> set (filter (\<lambda>j. \<not> snd (toks ! j)) [0..<?start])" by simp
      moreover have "sorted (filter (\<lambda>j. \<not> snd (toks ! j)) [0..<?start])"
        by (simp add: sorted_filter [of "\<lambda>x. x", simplified])
      ultimately have "i \<le> j" unfolding f(2) by (rule sorted_le_last [rotated])
      with i show False by simp
    qed
  qed
  have "wordFold u (fst (toks ! i)) \<in> insert ''by'' (set auth)" if i: "a \<le> i" "i < length toks" "\<not> snd (toks ! i)" for i
  proof (cases "?start \<le> i")
    case True
    obtain m where m: "?n \<le> m" "m < length ?words" "?words ! m = i"
      using filter_upt_from [of _ _ ?n i] True n i unfolding word_positions_def by auto
    then have "wordFold u (fst (toks ! i)) \<in> set (drop ?n ?folded)"
      by (auto simp: folded_words_def in_set_conv_nth intro!: exI [of _ "m - ?n"])
    then show ?thesis using k(2) by (auto simp: setsEqual_def list_all_iff split: if_splits)
  next
    case False
    then have "a = j" "wordFold u (fst (toks ! j)) = ''by''" using ab i by auto
    moreover have "i = j" using j'(3) [of i] False i \<open>a = j\<close> by (metis le_neq_implies_less not_le)
    ultimately show ?thesis by simp
  qed
  then show ?thesis using ab j' words_range [OF n] by (auto simp: only_credit_def)
qed


text \<open>Word and separator tokens alternate.\<close>

fun alternating :: "stem_tok list \<Rightarrow> bool" where
  "alternating (x # y # ts) = (snd x \<noteq> snd y \<and> alternating (y # ts))"
| "alternating _ = True"

lemma tok_loop_alternating:
  "alternating (tok_loop (Some (t, sep)) rs) \<and> tok_loop (Some (t, sep)) rs \<noteq> [] \<and> snd (hd (tok_loop (Some (t, sep)) rs)) = sep"
proof (induction rs arbitrary: t sep)
  case (Cons r rs)
  show ?case
  proof (cases "isStemSep r = sep")
    case False
    obtain y ts where y: "tok_loop (Some (encode_rune r, isStemSep r)) rs = y # ts"
      using Cons.IH by (cases "tok_loop (Some (encode_rune r, isStemSep r)) rs") auto
    have "alternating (y # ts)" "snd y = isStemSep r" using Cons.IH [of "encode_rune r" "isStemSep r"] y by auto
    then show ?thesis using False y by simp
  qed (use Cons.IH in simp)
qed simp

lemma tokenize_alternating: "alternating (tokenizeStem s)"
  using tok_loop_alternating by (cases "runes s") (auto simp: tokenizeStem_def)

lemma alternating_nth: "alternating ts \<Longrightarrow> Suc i < length ts \<Longrightarrow> snd (ts ! i) \<noteq> snd (ts ! Suc i)"
proof (induction ts arbitrary: i rule: alternating.induct)
  case (1 x y ts)
  then show ?case by (cases i) auto
qed auto

text \<open>
  Washing looks only at tokens that exist. For every filename stem, the positions of the
  words are valid token positions, and every word but the first is directly preceded by a
  separator token, so neither the look at the separator after a leading author nor the one
  before a trailing author can leave the token list.
\<close>

theorem wash_indices_in_range:
  "let toks = tokenizeStem stem; words = word_positions toks in
     \<forall>k < length words. words ! k < length toks \<and> (0 < k \<longrightarrow> 0 < words ! k \<and> snd (toks ! (words ! k - 1)))"
proof -
  let ?toks = "tokenizeStem stem" let ?words = "word_positions ?toks"
  have "0 < ?words ! k \<and> snd (?toks ! (?words ! k - 1))" if k: "k < length ?words" "0 < k" for k
  proof -
    have "sorted_wrt (<) ?words" by (simp add: word_positions_def sorted_wrt_filter)
    then have pos: "0 < ?words ! k" using sorted_wrt_nth_less [of "(<)" ?words "k - 1" k] k by simp
    have "\<not> snd (?toks ! (?words ! k))" using nth_mem [OF k(1)] by (auto simp: word_positions_def)
    then have "snd (?toks ! (?words ! k - 1))"
      using alternating_nth [OF tokenize_alternating, of "?words ! k - 1" stem] words_range [OF k(1)] pos by auto
    with pos show ?thesis by blast
  qed
  then show ?thesis using words_range by (simp add: Let_def)
qed

theorem wash_indices_in_range_witness:
  "0 < word_positions (tokenizeStem ''A - B'') ! 1 \<and> word_positions (tokenizeStem ''A - B'') ! 1 < length (tokenizeStem ''A - B'')"
proof -
  have "tokenizeStem ''A - B'' = [(''A'', False), ('' - '', True), (''B'', False)]"
    by (simp add: tokenizeStem_def isStemSep_def string_eval)
  then have "length (word_positions (tokenizeStem ''A - B'')) = 2" by (simp add: word_positions_def)
  then show ?thesis using wash_indices_in_range [of "''A - B''"] by (simp add: Let_def)
qed

text \<open>
  Washing a title removes credits only. The result is the stem itself, or a non-empty,
  non-placeholder title obtained by dropping one range of tokens at an edge of the stem and
  then trimming separators, and every word in the dropped range belongs to one of the known
  authors, or is the word "by".
\<close>

theorem wash_removes_only_credits:
  "washAuthorAffix u stem authorSets = stem
   \<or> (\<exists>a b auth. auth \<in> set authorSets \<and> only_credit u (tokenizeStem stem) a b auth
        \<and> washAuthorAffix u stem authorSets = normalizeMeta (trim_cutset affixCutset
            (concat (map fst (take a (tokenizeStem stem) @ drop b (tokenizeStem stem)))))
        \<and> washAuthorAffix u stem authorSets \<noteq> [] \<and> \<not> isPlaceholderTitle u (washAuthorAffix u stem authorSets))"
proof -
  let ?toks = "tokenizeStem stem" and ?out = "washAuthorAffix u stem authorSets"
  let ?lead = "leading_credit ?toks (word_positions ?toks) (folded_words u ?toks)"
  let ?trail = "trailing_credit u ?toks (word_positions ?toks) (folded_words u ?toks)"
  let ?range = "case first_some ?lead authorSets of Some r \<Rightarrow> Some r | None \<Rightarrow> first_some ?trail authorSets"
  show ?thesis
  proof (cases "?out = stem")
    case False
    then obtain a b where r: "?range = Some (a, b)"
      by (auto simp: washAuthorAffix_def Let_def split: if_splits option.splits)
    then obtain auth where auth: "auth \<in> set authorSets" "only_credit u ?toks a b auth"
      using leading_credit_range trailing_credit_range
      by (auto split: option.splits dest!: first_some_in)
    have "?out = (let out = normalizeMeta (trim_cutset affixCutset (concat (map fst (take a ?toks @ drop b ?toks)))) in
        if out = [] \<or> isPlaceholderTitle u out then stem else out)"
      using False r by (auto simp: washAuthorAffix_def Let_def split: if_splits)
    then show ?thesis using False auth by (auto simp: Let_def split: if_splits)
  qed simp
qed

text \<open>
  The author names are sorted correctly: the in-place insertion sort used for the voting
  keys is the sort of the names in byte order.
\<close>

theorem insertion_sort_sorts: "sortStrings s = sort s"
  by (rule sortStrings_sort)

section \<open>Recovered authors\<close>

lemma parseCalibre_name: "parseCalibre u path strict = Some (t, a) \<Longrightarrow> IsName u a"
  by (auto simp: parseCalibre_def Let_def split: option.splits if_splits)

lemma parseNatural_name: "parseNaturalFilename u path = Some (t, a) \<Longrightarrow> IsName u a"
  unfolding parseNaturalFilename_def by (drule first_some_in) (auto simp: natural_pair_def Let_def split: if_splits)

lemma parseCalibreAuthorOnly_name: "parseCalibreAuthorOnly u path = Some a \<Longrightarrow> IsName u a"
  using parseCalibre_name by (auto simp: parseCalibreAuthorOnly_def)

lemma authorFromPath_usable: "authorFromPath u path title = Some a \<Longrightarrow> usablePathAuthor u a title"
  unfolding authorFromPath_def
  by (auto dest!: first_some_in simp: candidate_author_def split: option.splits if_splits)

lemma IsName_normalize [simp]: "IsName u (normalizeMeta a) = IsName u a"
  by (simp add: IsName_def ScoreName_def normalizeMeta_def flip: Normalize_def)

lemma usablePathAuthor_name: "usablePathAuthor u a title \<Longrightarrow> IsName u a"
  by (auto simp: usablePathAuthor_def Let_def split: if_splits)

end
