(* ===== verification/BookMetadata.thy ===== *)
theory BookMetadata
  imports BookMeta Identifier
begin

text \<open>
  Model of \<open>internal/report/book_metadata.go\<close> and \<open>plaintext.go\<close>: the merge of the metadata of a
  book's files. The HTML tokenizer, the BCP 47 parser, the ISBN check of the ebook library and
  the current year are parameters; \<open>time.Parse\<close> is written out for the six layouts used.
\<close>

section \<open>Plain text of HTML fragments\<close>

datatype html_token = TextToken string | StartTagToken string | EndTagToken string | SelfClosingTagToken | OtherToken

definition isSkippedHTMLTag :: "string \<Rightarrow> bool" where
  "isSkippedHTMLTag name = (name \<in> {''head'', ''script'', ''style''})"

fun plain_loop :: "nat \<Rightarrow> html_token list \<Rightarrow> string" where
  "plain_loop skipDepth [] = []"
| "plain_loop skipDepth (TextToken t # ts) = (if skipDepth = 0 then t else []) @ plain_loop skipDepth ts"
| "plain_loop skipDepth (StartTagToken name # ts) =
     '' '' @ plain_loop (if isSkippedHTMLTag name then skipDepth + 1 else skipDepth) ts"
| "plain_loop skipDepth (EndTagToken name # ts) =
     '' '' @ plain_loop (if isSkippedHTMLTag name \<and> 0 < skipDepth then skipDepth - 1 else skipDepth) ts"
| "plain_loop skipDepth (SelfClosingTagToken # ts) = '' '' @ plain_loop skipDepth ts"
| "plain_loop skipDepth (OtherToken # ts) = plain_loop skipDepth ts"

definition plainText :: "(string \<Rightarrow> html_token list) \<Rightarrow> string \<Rightarrow> string" where
  "plainText tokenize s = (if s = [] then [] else normalizeMeta (plain_loop 0 (tokenize s)))"

section \<open>Majority values\<close>

record value_vote =
  vv_value :: string
  vv_count :: nat

definition value_votes :: "env \<Rightarrow> string list \<Rightarrow> (string \<times> value_vote) list" where
  "value_votes u cands = tally (foldName u) (\<lambda>c. \<lparr>vv_value = c, vv_count = 0\<rparr>)
     (\<lambda>_ v. v\<lparr>vv_count := vv_count v + 1\<rparr>) (filter (\<lambda>c. c \<noteq> []) (map normalizeMeta cands)) []"

definition better_value :: "(string \<Rightarrow> string \<Rightarrow> bool) option \<Rightarrow> value_vote \<Rightarrow> value_vote \<Rightarrow> bool" where
  "better_value prefer v best \<longleftrightarrow> vv_count best < vv_count v
     \<or> vv_count v = vv_count best \<and> (case prefer of None \<Rightarrow> False | Some p \<Rightarrow> p (vv_value v) (vv_value best))"

definition pickCommonValue :: "env \<Rightarrow> string list \<Rightarrow> (string \<Rightarrow> string \<Rightarrow> bool) option \<Rightarrow> string" where
  "pickCommonValue u cands prefer = (case map snd (value_votes u cands) of
       [] \<Rightarrow> [] | v # vs \<Rightarrow> vv_value (pick_best (better_value prefer) v vs))"

definition preferLonger :: "string \<Rightarrow> string \<Rightarrow> bool" where
  "preferLonger a b \<longleftrightarrow> rune_len b < rune_len a"

record file_metadata =
  fm_description :: string
  fm_publisher :: string
  fm_date :: string
  fm_series :: string
  fm_series_index :: string

definition pickSeriesIndex :: "env \<Rightarrow> file_metadata list \<Rightarrow> string \<Rightarrow> string" where
  "pickSeriesIndex u fms series = (if series = [] then [] else
     pickCommonValue u (filter (\<lambda>i. i \<noteq> []) (map (\<lambda>f. normalizeMeta (fm_series_index f))
       (filter (\<lambda>f. foldName u (normalizeMeta (fm_series f)) = foldName u series) fms))) None)"

section \<open>Publication dates\<close>

definition digit_at :: "string \<Rightarrow> nat \<Rightarrow> bool" where
  "digit_at s i \<longleftrightarrow> i < length s \<and> 48 \<le> byte (s ! i) \<and> byte (s ! i) \<le> 57"

definition dval :: "char \<Rightarrow> nat" where "dval c = byte c - 48"

type_synonym 'a parse = "(nat \<times> 'a) option"

text \<open>\<open>getnum\<close>: two digits, or one when the field is not fixed.\<close>

definition getnum :: "string \<Rightarrow> bool \<Rightarrow> string parse" where
  "getnum s fixed = (if \<not> digit_at s 0 then None
     else if \<not> digit_at s 1 then (if fixed then None else Some (dval (s ! 0), drop 1 s))
     else Some (dval (s ! 0) * 10 + dval (s ! 1), drop 2 s))"

definition getyear :: "string \<Rightarrow> string parse" where
  "getyear s = (if digit_at s 0 \<and> digit_at s 1 \<and> digit_at s 2 \<and> digit_at s 3
     then Some (dval (s ! 0) * 1000 + dval (s ! 1) * 100 + dval (s ! 2) * 10 + dval (s ! 3), drop 4 s) else None)"

definition expect :: "char \<Rightarrow> string \<Rightarrow> string option" where
  "expect c s = (if s \<noteq> [] \<and> hd s = c then Some (tl s) else None)"

text \<open>A blank in a layout matches one or more blanks, or the end of the value.\<close>

definition expect_blank :: "string \<Rightarrow> string option" where
  "expect_blank s = (if s \<noteq> [] \<and> hd s \<noteq> CHR '' '' then None else Some (dropWhile (\<lambda>c. c = CHR '' '') s))"

definition leap :: "nat \<Rightarrow> bool" where
  "leap y \<longleftrightarrow> y mod 4 = 0 \<and> (y mod 100 \<noteq> 0 \<or> y mod 400 = 0)"

definition daysIn :: "nat \<Rightarrow> nat \<Rightarrow> nat" where
  "daysIn m y = (if m = 2 then (if leap y then 29 else 28) else if m \<in> {4, 6, 9, 11} then 30 else 31)"

definition month_ok :: "nat \<Rightarrow> bool" where "month_ok m \<longleftrightarrow> 1 \<le> m \<and> m \<le> 12"

record date =
  d_year :: nat
  d_month :: nat
  d_day :: nat

definition parse_Y :: "string \<Rightarrow> (date \<times> string) option" where
  "parse_Y s = Option.bind (getyear s) (\<lambda>(y, s). Some (\<lparr>d_year = y, d_month = 1, d_day = 1\<rparr>, s))"

definition parse_YM :: "string \<Rightarrow> (date \<times> string) option" where
  "parse_YM s = Option.bind (getyear s) (\<lambda>(y, s). Option.bind (expect CHR ''-'' s) (\<lambda>s.
     Option.bind (getnum s True) (\<lambda>(m, s). if month_ok m then Some (\<lparr>d_year = y, d_month = m, d_day = 1\<rparr>, s) else None)))"

definition parse_YMD :: "string \<Rightarrow> (date \<times> string) option" where
  "parse_YMD s = Option.bind (parse_YM s) (\<lambda>(d, s). Option.bind (expect CHR ''-'' s) (\<lambda>s.
     Option.bind (getnum s True) (\<lambda>(k, s). if 1 \<le> k \<and> k \<le> daysIn (d_month d) (d_year d)
       then Some (d\<lparr>d_day := k\<rparr>, s) else None)))"

text \<open>\<open>15:04:05\<close>, with the fractional seconds that \<open>time.Parse\<close> always accepts after the seconds.\<close>

definition drop_fraction :: "string \<Rightarrow> string" where
  "drop_fraction s = (if 2 \<le> length s \<and> (s ! 0 = CHR ''.'' \<or> s ! 0 = CHR '','') \<and> digit_at s 1
     then dropWhile (\<lambda>c. 48 \<le> byte c \<and> byte c \<le> 57) (tl s) else s)"

definition parse_clock :: "string \<Rightarrow> string option" where
  "parse_clock s = Option.bind (getnum s False) (\<lambda>(h, s). if 24 \<le> h then None else
     Option.bind (expect CHR '':'' s) (\<lambda>s. Option.bind (getnum s True) (\<lambda>(m, s). if 60 \<le> m then None else
     Option.bind (expect CHR '':'' s) (\<lambda>s. Option.bind (getnum s True) (\<lambda>(sec, s). if 60 \<le> sec then None else
       Some (drop_fraction s))))))"

definition parse_zone :: "string \<Rightarrow> string option" where
  "parse_zone s = (if s \<noteq> [] \<and> hd s = CHR ''Z'' then Some (tl s)
     else if length s < 6 then None
     else if s ! 3 \<noteq> CHR '':'' then None
     else case (getnum (take 2 (drop 1 s)) True, getnum (take 2 (drop 4 s)) True) of
         (Some (hr, _), Some (mm, _)) \<Rightarrow>
           if 24 < hr \<or> 60 < mm then None
           else if hd s = CHR ''+'' \<or> hd s = CHR ''-'' then Some (drop 6 s) else None
       | _ \<Rightarrow> None)"

definition complete :: "(date \<times> string) option \<Rightarrow> date option" where
  "complete r = (case r of Some (d, []) \<Rightarrow> Some d | _ \<Rightarrow> None)"

definition parse_time :: "(string \<Rightarrow> string option) \<Rightarrow> (string \<Rightarrow> string option) \<Rightarrow> string \<Rightarrow> (date \<times> string) option" where
  "parse_time sep zone s = Option.bind (parse_YMD s) (\<lambda>(d, s). Option.bind (sep s) (\<lambda>s.
     Option.bind (parse_clock s) (\<lambda>s. Option.bind (zone s) (\<lambda>s. Some (d, s)))))"

definition digits2 :: "nat \<Rightarrow> string" where
  "digits2 n = [chr (48 + n div 10 mod 10), chr (48 + n mod 10)]"

definition digits4 :: "nat \<Rightarrow> string" where
  "digits4 n = [chr (48 + n div 1000 mod 10), chr (48 + n div 100 mod 10), chr (48 + n div 10 mod 10), chr (48 + n mod 10)]"

definition format_Y :: "date \<Rightarrow> string" where "format_Y d = digits4 (d_year d)"
definition format_YM :: "date \<Rightarrow> string" where "format_YM d = format_Y d @ ''-'' @ digits2 (d_month d)"
definition format_YMD :: "date \<Rightarrow> string" where "format_YMD d = format_YM d @ ''-'' @ digits2 (d_day d)"

definition date_layouts :: "((string \<Rightarrow> (date \<times> string) option) \<times> (date \<Rightarrow> string)) list" where
  "date_layouts = [(parse_YMD, format_YMD), (parse_YM, format_YM), (parse_Y, format_Y),
     (parse_time (expect CHR ''T'') parse_zone, format_YMD), (parse_time (expect CHR ''T'') Some, format_YMD),
     (parse_time expect_blank Some, format_YMD)]"

definition validPublicationYear :: "nat \<Rightarrow> nat \<Rightarrow> bool" where
  "validPublicationYear now year \<longleftrightarrow> 1000 \<le> year \<and> year \<le> now + 1"

definition normalizePublicationDate :: "nat \<Rightarrow> string \<Rightarrow> string" where
  "normalizePublicationDate now value0 = (let value = trim_space value0 in
     if value = [] then []
     else case first_some (\<lambda>(parse, fmt). map_option (\<lambda>d. (d, fmt)) (complete (parse value))) date_layouts of
         Some (d, fmt) \<Rightarrow> if validPublicationYear now (d_year d) then fmt d else []
       | None \<Rightarrow> [])"

section \<open>Publications, subjects, languages and identifiers\<close>

record publication =
  pu_publisher :: string
  pu_date :: string

record pub_group =
  pg_publisher :: string
  pg_dates :: "string list"

definition add_date :: "string \<Rightarrow> pub_group \<Rightarrow> pub_group" where
  "add_date date g = (if date = [] \<or> date \<in> set (pg_dates g) then g else g\<lparr>pg_dates := pg_dates g @ [date]\<rparr>)"

definition pub_pairs :: "nat \<Rightarrow> file_metadata list \<Rightarrow> (string \<times> string) list" where
  "pub_pairs now fms = filter (\<lambda>(p, d). p \<noteq> [] \<or> d \<noteq> [])
     (map (\<lambda>f. (normalizeMeta (fm_publisher f), normalizePublicationDate now (fm_date f))) fms)"

definition pub_groups :: "env \<Rightarrow> nat \<Rightarrow> file_metadata list \<Rightarrow> (string \<times> pub_group) list" where
  "pub_groups u now fms = tally (\<lambda>(p, d). foldName u p) (\<lambda>(p, d). \<lparr>pg_publisher = p, pg_dates = []\<rparr>)
     (\<lambda>(p, d). add_date d) (pub_pairs now fms) []"

definition group_publications :: "pub_group \<Rightarrow> publication list" where
  "group_publications g = (if pg_dates g = [] then
       (if pg_publisher g \<noteq> [] then [\<lparr>pu_publisher = pg_publisher g, pu_date = []\<rparr>] else [])
     else map (\<lambda>d. \<lparr>pu_publisher = pg_publisher g, pu_date = d\<rparr>) (pg_dates g))"

definition mergePublications :: "env \<Rightarrow> nat \<Rightarrow> file_metadata list \<Rightarrow> publication list" where
  "mergePublications u now fms = concat (map (group_publications \<circ> snd) (pub_groups u now fms))"

definition mergeSubjects :: "env \<Rightarrow> string list \<Rightarrow> string list" where
  "mergeSubjects u vals = dedup_by (foldName u) {} (filter (\<lambda>v. v \<noteq> []) (map normalizeMeta vals))"

definition normalizeLanguage :: "(string \<Rightarrow> string option) \<Rightarrow> string \<Rightarrow> string option" where
  "normalizeLanguage parse_tag value0 = (let value = trim_space value0 in
     if value = [] then None
     else case parse_tag (replace_all ''_'' ''-'' value) of
         None \<Rightarrow> None
       | Some tag \<Rightarrow> (let base = takeWhile (\<lambda>c. c \<noteq> CHR ''-'') tag in
           if base \<in> {''und'', ''mul'', ''zxx'', ''mis''} then None else Some tag))"

definition mergeLanguages :: "(string \<Rightarrow> string option) \<Rightarrow> string list \<Rightarrow> string list" where
  "mergeLanguages parse_tag vals = dedup_by id {} (List.map_filter (normalizeLanguage parse_tag) vals)"

text \<open>\<open>out\<close> and \<open>index\<close> of the source as one list with at most one entry per value.\<close>

definition merge_isbn :: "env \<Rightarrow> (string \<Rightarrow> string option) \<Rightarrow> ident \<Rightarrow> (string \<times> source) list \<Rightarrow> (string \<times> source) list" where
  "merge_isbn u canonical item out = (if \<not> IsISBNScheme u (id_scheme item) then out
     else case canonical (id_value item) of
         None \<Rightarrow> out
       | Some v \<Rightarrow> upsert v (id_source item) (\<lambda>s. MergeSources s (id_source item)) out)"

definition mergeIdentifiers :: "env \<Rightarrow> (string \<Rightarrow> string option) \<Rightarrow> ident list \<Rightarrow> ident list" where
  "mergeIdentifiers u canonical vals =
     map (\<lambda>(v, s). \<lparr>id_scheme = ''ISBN'', id_value = v, id_source = s\<rparr>) (fold (merge_isbn u canonical) vals [])"

record book_metadata =
  bm_description :: string
  bm_series :: string
  bm_series_index :: string
  bm_subjects :: "string list"
  bm_languages :: "string list"
  bm_identifiers :: "ident list"
  bm_publications :: "publication list"

text \<open>The parameters of the merge.\<close>

record libs =
  l_env :: env
  l_html :: "string \<Rightarrow> html_token list"
  l_lang :: "string \<Rightarrow> string option"
  l_isbn :: "string \<Rightarrow> string option"
  l_year :: nat

definition mergeBookMetadata :: "libs \<Rightarrow> file_metadata list \<Rightarrow> string list \<Rightarrow> string list \<Rightarrow> ident list \<Rightarrow> book_metadata" where
  "mergeBookMetadata l fms subjects languages identifiers = (let u = l_env l;
     descriptions = filter (\<lambda>v. v \<noteq> []) (map (\<lambda>f. plainText (l_html l) (fm_description f)) fms);
     series = filter (\<lambda>v. v \<noteq> []) (map (\<lambda>f. normalizeMeta (fm_series f)) fms);
     chosenSeries = pickCommonValue u series None in
     \<lparr>bm_description = pickCommonValue u descriptions (Some preferLonger), bm_series = chosenSeries,
      bm_series_index = pickSeriesIndex u fms chosenSeries, bm_subjects = mergeSubjects u subjects,
      bm_languages = mergeLanguages (l_lang l) languages, bm_identifiers = mergeIdentifiers u (l_isbn l) identifiers,
      bm_publications = mergePublications u (l_year l) fms\<rparr>)"


section \<open>Publication dates: canonical forms\<close>

lemma digit_cases: "digit_at s i \<Longrightarrow> dval (s ! i) < 10 \<and> chr (48 + dval (s ! i)) = s ! i"
  by (auto simp: digit_at_def dval_def chr_def)

lemma getnum_format: "getnum s True = Some (n, r) \<Longrightarrow> n < 100 \<and> s = digits2 n @ r"
proof -
  assume "getnum s True = Some (n, r)"
  then have d: "digit_at s 0" "digit_at s 1" and n: "n = dval (s ! 0) * 10 + dval (s ! 1)" "r = drop 2 s"
    by (auto simp: getnum_def split: if_splits)
  obtain a b t where s: "s = a # b # t" using d(2) by (cases s; cases "tl s") (auto simp: digit_at_def)
  show ?thesis using digit_cases [OF d(1)] digit_cases [OF d(2)] n by (simp add: s digits2_def)
qed

lemma decimal_places: "(y :: nat) div 100 = y div 10 div 10" "y div 1000 = y div 10 div 10 div 10"
  by (simp_all flip: div_mult2_eq)

lemma last_digit: "e < 10 \<Longrightarrow> (q * 10 + e) div 10 = q \<and> (q * 10 + e) mod 10 = (e :: nat)"
  by simp

lemma decimal_digits:
  assumes "y = a * 1000 + b * 100 + c * 10 + (e :: nat)" "a < 10" "b < 10" "c < 10" "e < 10"
  shows "y div 1000 mod 10 = a \<and> y div 100 mod 10 = b \<and> y div 10 mod 10 = c \<and> y mod 10 = e"
proof -
  have y: "y = ((a * 10 + b) * 10 + c) * 10 + e" using assms(1) by simp
  then have "y div 10 = (a * 10 + b) * 10 + c" "y mod 10 = e" using last_digit [OF assms(5)] by metis+
  moreover from this have "y div 10 div 10 = a * 10 + b" "y div 10 mod 10 = c" using last_digit [OF assms(4)] by metis+
  moreover from this have "y div 10 div 10 div 10 = a" "y div 10 div 10 mod 10 = b" using last_digit [OF assms(3)] by metis+
  ultimately show ?thesis using assms(2) by (simp add: decimal_places)
qed

lemma decimal_value: "(y :: nat) = y div 1000 * 1000 + y div 100 mod 10 * 100 + y div 10 mod 10 * 10 + y mod 10"
proof -
  let ?a = "y div 10" let ?b = "?a div 10" let ?c = "?b div 10"
  have "?a * 10 + y mod 10 = y" "?b * 10 + ?a mod 10 = ?a" "?c * 10 + ?b mod 10 = ?b" by (rule div_mult_mod_eq)+
  then show ?thesis unfolding decimal_places by linarith
qed

lemma getyear_format: "getyear s = Some (y, r) \<Longrightarrow> y < 10000 \<and> s = digits4 y @ r"
proof -
  assume "getyear s = Some (y, r)"
  then have d: "digit_at s 0" "digit_at s 1" "digit_at s 2" "digit_at s 3"
    and y: "y = dval (s ! 0) * 1000 + dval (s ! 1) * 100 + dval (s ! 2) * 10 + dval (s ! 3)" "r = drop 4 s"
    by (auto simp: getyear_def split: if_splits)
  obtain a b c e t where s: "s = a # b # c # e # t"
    using d(4) by (cases s; cases "tl s"; cases "tl (tl s)"; cases "tl (tl (tl s))") (auto simp: digit_at_def)
  have "y div 1000 mod 10 = dval a \<and> y div 100 mod 10 = dval b \<and> y div 10 mod 10 = dval c \<and> y mod 10 = dval e"
    using digit_cases [OF d(1)] digit_cases [OF d(2)] digit_cases [OF d(3)] digit_cases [OF d(4)] y(1)
    by (intro decimal_digits) (simp_all add: s)
  then show ?thesis
    using digit_cases [OF d(1)] digit_cases [OF d(2)] digit_cases [OF d(3)] digit_cases [OF d(4)] y by (simp add: s digits4_def)
qed

lemma digit_chr: "k < 10 \<Longrightarrow> digit_at (chr (48 + k) # t) 0 \<and> dval (chr (48 + k)) = k"
  by (simp add: digit_at_def dval_def)

lemma getnum_digits: "n < 100 \<Longrightarrow> getnum (digits2 n @ r) True = Some (n, r)"
proof -
  assume "n < 100"
  then have "n div 10 < 10" "n mod 10 < 10" "n div 10 mod 10 = n div 10" by auto
  then show ?thesis by (simp add: getnum_def digits2_def digit_at_def dval_def)
qed

lemma getyear_chars:
  assumes "a < 10" "b < 10" "c < 10" "e < 10"
  shows "getyear (chr (48 + a) # chr (48 + b) # chr (48 + c) # chr (48 + e) # r) = Some (a * 1000 + b * 100 + c * 10 + e, r)"
  using assms by (simp add: getyear_def digit_at_def dval_def)

lemma getyear_digits: "y < 10000 \<Longrightarrow> getyear (digits4 y @ r) = Some (y, r)"
proof -
  assume y: "y < 10000"
  have "y div 1000 < 10" "y div 1000 mod 10 = y div 1000" using y by auto
  then have d: "y div 1000 mod 10 < 10" "y div 100 mod 10 < 10" "y div 10 mod 10 < 10" "y mod 10 < 10"
    and v: "y div 1000 mod 10 * 1000 + y div 100 mod 10 * 100 + y div 10 mod 10 * 10 + y mod 10 = y"
    using decimal_value [of y] by simp_all
  show ?thesis using getyear_chars [OF d, of r] unfolding v digits4_def append.simps by simp
qed

definition date_ok :: "date \<Rightarrow> bool" where
  "date_ok d \<longleftrightarrow> d_year d < 10000 \<and> month_ok (d_month d) \<and> 1 \<le> d_day d \<and> d_day d \<le> daysIn (d_month d) (d_year d)"

lemma daysIn_bounds: "28 \<le> daysIn m y \<and> daysIn m y \<le> 31"
  by (simp add: daysIn_def)

lemma parse_Y_format: "parse_Y s = Some (d, r) \<Longrightarrow> s = format_Y d @ r \<and> date_ok d \<and> d_month d = 1 \<and> d_day d = 1"
  using daysIn_bounds [of 1 "d_year d"]
  by (auto simp: parse_Y_def format_Y_def date_ok_def month_ok_def dest!: getyear_format split: bind_splits)

lemma parse_YM_format: "parse_YM s = Some (d, r) \<Longrightarrow> s = format_YM d @ r \<and> date_ok d \<and> d_day d = 1"
  using daysIn_bounds [of "d_month d" "d_year d"]
  by (auto simp: parse_YM_def format_YM_def format_Y_def date_ok_def expect_def dest!: getyear_format getnum_format
      split: bind_splits if_splits) (metis list.collapse)

lemma parse_YMD_format: "parse_YMD s = Some (d, r) \<Longrightarrow> s = format_YMD d @ r \<and> date_ok d"
  by (auto simp: parse_YMD_def format_YMD_def format_YM_def format_Y_def date_ok_def expect_def
      dest!: parse_YM_format getnum_format split: bind_splits if_splits) (metis list.collapse)


lemma complete_Some: "complete r = Some d \<longleftrightarrow> r = Some (d, [])"
  by (auto simp: complete_def split: option.splits list.splits)

lemma parse_time_date: "parse_time sep zone s = Some (d, r) \<Longrightarrow> date_ok d"
  by (auto simp: parse_time_def split: bind_splits dest: parse_YMD_format)

lemma parse_format:
  assumes "d_year d < 10000"
  shows "parse_Y (format_Y d @ r) = Some (d\<lparr>d_month := 1, d_day := 1\<rparr>, r)"
    and "month_ok (d_month d) \<Longrightarrow> parse_YM (format_YM d @ r) = Some (d\<lparr>d_day := 1\<rparr>, r)"
    and "date_ok d \<Longrightarrow> parse_YMD (format_YMD d @ r) = Some (d, r)"
proof -
  have m: "d_month d < 100" if "month_ok (d_month d)" using that by (simp add: month_ok_def)
  show "parse_Y (format_Y d @ r) = Some (d\<lparr>d_month := 1, d_day := 1\<rparr>, r)"
    using assms by (simp add: parse_Y_def format_Y_def getyear_digits)
  show ym: "parse_YM (format_YM d @ r) = Some (d\<lparr>d_day := 1\<rparr>, r)" if "month_ok (d_month d)" for r
    using assms that m by (simp add: parse_YM_def format_YM_def format_Y_def getyear_digits getnum_digits expect_def)
  show "parse_YMD (format_YMD d @ r) = Some (d, r)" if "date_ok d"
    using that ym [of "''-'' @ digits2 (d_day d) @ r"] daysIn_bounds [of "d_month d" "d_year d"]
    by (simp add: parse_YMD_def format_YMD_def date_ok_def expect_def getnum_digits)
qed

text \<open>The text of a date: digits and dashes, so trimming leaves it alone.\<close>

lemma format_plain: "set (format_Y d) \<union> set (format_YM d) \<union> set (format_YMD d) \<subseteq> {c. 45 \<le> byte c \<and> byte c \<le> 57}"
proof -
  have "45 \<le> byte (chr (48 + n mod 10)) \<and> byte (chr (48 + n mod 10)) \<le> 57" for n :: nat
  proof -
    have "n mod 10 < 10" by simp
    then have "48 + n mod 10 < 256" by linarith
    then show ?thesis using \<open>n mod 10 < 10\<close> by simp
  qed
  then show ?thesis by (simp add: format_Y_def format_YM_def format_YMD_def digits4_def digits2_def)
qed

lemma trim_plain: "set s \<subseteq> {c. 45 \<le> byte c \<and> byte c \<le> 57} \<Longrightarrow> trim_space s = s"
proof -
  assume s: "set s \<subseteq> {c. 45 \<le> byte c \<and> byte c \<le> 57}"
  then have a: "ascii s" by (auto simp: ascii_def list_all_iff)
  have none: "\<not> is_space (byte c)" if "c \<in> set s" for c
    using s that by (force simp: is_space_def between_def)
  have "dropWhile (is_space \<circ> fst) (segs s) = segs s" "dropWhile (is_space \<circ> fst) (rev (segs s)) = rev (segs s)"
    using none by (cases "s = []"; simp add: segs_ascii [OF a] dropWhile_eq_self_iff hd_map hd_rev last_map)+
  then show ?thesis by (simp add: trim_space_def trim_func_def segs_concat)
qed

lemmas format_lengths = format_Y_def format_YM_def format_YMD_def digits2_def digits4_def

lemma normalize_canonical:
  assumes "date_ok d" "validPublicationYear now (d_year d)"
  shows "normalizePublicationDate now (format_YMD d) = format_YMD d"
    and "normalizePublicationDate now (format_YM d) = format_YM d"
    and "normalizePublicationDate now (format_Y d) = format_Y d"
proof -
  have y: "d_year d < 10000" "month_ok (d_month d)" using assms(1) by (simp_all add: date_ok_def)
  note p = parse_format(1) [OF y(1), of "[]", simplified] parse_format(2) [OF y(1) y(2), of "[]", simplified]
    parse_format(3) [OF y(1) assms(1), of "[]", simplified]
  have trim: "trim_space (format_YMD d) = format_YMD d" "trim_space (format_YM d) = format_YM d" "trim_space (format_Y d) = format_Y d"
    using format_plain [of d] by (simp_all add: trim_plain)
  have nonempty: "format_YMD d \<noteq> []" by (simp add: format_lengths)
  show "normalizePublicationDate now (format_YMD d) = format_YMD d"
    using assms(2) p(3) nonempty by (simp add: normalizePublicationDate_def trim date_layouts_def complete_def)
  have no: "complete (parse_YMD s) = None" if "length s < 10" for s
  proof (rule ccontr)
    assume "complete (parse_YMD s) \<noteq> None"
    then obtain t where "s = format_YMD t" by (auto simp: complete_Some dest!: parse_YMD_format)
    then show False using that by (simp add: format_lengths)
  qed
  have no': "complete (parse_YM s) = None" if "length s < 7" for s
  proof (rule ccontr)
    assume "complete (parse_YM s) \<noteq> None"
    then obtain t where "s = format_YM t" by (auto simp: complete_Some dest!: parse_YM_format)
    then show False using that by (simp add: format_lengths)
  qed
  have "length (format_YM d) = 7" "length (format_Y d) = 4" by (simp_all add: format_lengths)
  note short = no [of "format_YM d"] no [of "format_Y d"] no' [of "format_Y d"] this
  have ne: "format_YM d \<noteq> []" "format_Y d \<noteq> []" using short by auto
  have upd: "format_YM (d\<lparr>d_day := 1\<rparr>) = format_YM d" "format_Y (d\<lparr>d_month := 1, d_day := 1\<rparr>) = format_Y d"
    by (simp_all add: format_YM_def format_Y_def)
  show "normalizePublicationDate now (format_YM d) = format_YM d"
    using assms(2) p(2) short ne upd
    by (simp add: normalizePublicationDate_def trim date_layouts_def complete_def [of "Some (_, [])"])
  show "normalizePublicationDate now (format_Y d) = format_Y d"
    using assms(2) p(1) short ne upd
    by (simp add: normalizePublicationDate_def trim date_layouts_def complete_def [of "Some (_, [])"])
qed

lemma normalized_form:
  assumes "normalizePublicationDate now s \<noteq> []"
  obtains d where "date_ok d" "validPublicationYear now (d_year d)"
    "normalizePublicationDate now s \<in> {format_YMD d, format_YM d, format_Y d}"
proof -
  obtain d fmt where r: "first_some (\<lambda>(parse, fmt). map_option (\<lambda>d. (d, fmt)) (complete (parse (trim_space s)))) date_layouts = Some (d, fmt)"
    and y: "validPublicationYear now (d_year d)" and out: "normalizePublicationDate now s = fmt d"
    using assms by (auto simp: normalizePublicationDate_def Let_def split: if_splits option.splits)
  obtain p where "(p, fmt) \<in> set date_layouts" and c: "p (trim_space s) = Some (d, [])"
    using first_some_in [OF r] by (auto simp: complete_Some)
  moreover from this have "date_ok d"
    by (auto simp: date_layouts_def dest!: parse_YMD_format parse_YM_format parse_Y_format parse_time_date)
  moreover have "fmt d \<in> {format_YMD d, format_YM d, format_Y d}" using calculation(1) by (auto simp: date_layouts_def)
  ultimately show ?thesis using that y out by simp
qed

text \<open>
  Publication dates are brought into canonical form. The result is empty, or the
  four-digit year, year and month, or full date of a real calendar day whose year lies
  between 1000 and next year; and normalizing a normalized date changes nothing.
\<close>

theorem publication_dates_canonical:
  "let d = normalizePublicationDate now s in
     (d = [] \<or> (\<exists>t. date_ok t \<and> validPublicationYear now (d_year t) \<and> d \<in> {format_YMD t, format_YM t, format_Y t}))
     \<and> normalizePublicationDate now d = d"
proof (cases "normalizePublicationDate now s = []")
  case True
  moreover have "normalizePublicationDate now [] = []"
    by (simp add: normalizePublicationDate_def trim_space_def trim_func_def bytes_of_def)
  ultimately show ?thesis by simp
next
  case False
  then obtain d where "date_ok d" "validPublicationYear now (d_year d)"
    "normalizePublicationDate now s \<in> {format_YMD d, format_YM d, format_Y d}" by (rule normalized_form)
  then show ?thesis using normalize_canonical [of d now] by (auto simp: Let_def)
qed


section \<open>Identifiers by value\<close>

definition isbn_items :: "env \<Rightarrow> (string \<Rightarrow> string option) \<Rightarrow> ident list \<Rightarrow> (string \<times> source) list" where
  "isbn_items u canonical vals = List.map_filter (\<lambda>i. if IsISBNScheme u (id_scheme i)
     then map_option (\<lambda>v. (v, id_source i)) (canonical (id_value i)) else None) vals"

lemma merge_isbn_tally:
  "fold (merge_isbn u canonical) vals out = tally fst snd (\<lambda>x s. MergeSources s (snd x)) (isbn_items u canonical vals) out"
  by (induction vals arbitrary: out)
    (simp_all add: merge_isbn_def isbn_items_def map_filter_simps split: option.split)

lemma merge_sources_fold:
  "valid_source s \<Longrightarrow> valid_source (fold (\<lambda>x s. MergeSources s (snd x)) g s)
     \<and> origins (fold (\<lambda>x s. MergeSources s (snd x)) g s) = origins s \<union> (\<Union>x \<in> set g. origins (snd x))"
  by (induction g arbitrary: s) (auto simp: origins_MergeSources)

text \<open>The inputs that carry an ISBN with a given canonical value.\<close>

definition isbn_inputs :: "env \<Rightarrow> (string \<Rightarrow> string option) \<Rightarrow> ident list \<Rightarrow> string \<Rightarrow> ident set" where
  "isbn_inputs u canonical vals v =
     {i \<in> set vals. IsISBNScheme u (id_scheme i) \<and> canonical (id_value i) = Some v}"

lemma isbn_items_iff: "(v, s) \<in> set (isbn_items u canonical vals) \<longleftrightarrow> (\<exists>i \<in> isbn_inputs u canonical vals v. id_source i = s)"
  by (induction vals) (auto simp: isbn_items_def isbn_inputs_def map_filter_simps split: option.splits if_splits)

lemma isbn_entry:
  assumes "(v, s) \<in> set (fold (merge_isbn u canonical) vals [])"
  shows "isbn_inputs u canonical vals v \<noteq> {} \<and> valid_source s
    \<and> origins s = (\<Union>i \<in> isbn_inputs u canonical vals v. origins (id_source i))"
proof -
  let ?items = "isbn_items u canonical vals"
  obtain x g where g: "filter (\<lambda>x. fst x = v) ?items = x # g"
    and s: "s = fold (\<lambda>x s. MergeSources s (snd x)) g (MergeSources (snd x) (snd x))"
    using assms by (auto simp: merge_isbn_tally tally_entry)
  have "set (x # g) = {y \<in> set ?items. fst y = v}" unfolding g [symmetric] by auto
  also have "\<dots> = (\<lambda>i. (v, id_source i)) ` isbn_inputs u canonical vals v"
    using isbn_items_iff [of _ _ u canonical vals] by force
  finally have items: "set (x # g) = (\<lambda>i. (v, id_source i)) ` isbn_inputs u canonical vals v" .
  have "valid_source s \<and> origins s = (\<Union>y \<in> set (x # g). origins (snd y))"
    using merge_sources_fold [where g = g and s = "MergeSources (snd x) (snd x)"] s by (simp add: origins_MergeSources)
  then show ?thesis unfolding items using items by auto
qed

text \<open>
  Identifiers are merged by value, in any order. The result lists every canonical ISBN-13
  among the inputs exactly once, under the scheme ISBN, and its source says precisely where
  it was seen: in metadata, in text, or in both, over all inputs with that value. The set
  of results depends on the set of inputs only, not on the order of files.
\<close>

theorem mergeIdentifiers_by_value:
  "set (mergeIdentifiers u canonical vals) =
     {\<lparr>id_scheme = ''ISBN'', id_value = v, id_source = s\<rparr> | v s. isbn_inputs u canonical vals v \<noteq> {}
        \<and> valid_source s \<and> origins s = (\<Union>i \<in> isbn_inputs u canonical vals v. origins (id_source i))}
   \<and> distinct (map id_value (mergeIdentifiers u canonical vals))"
proof
  let ?out = "fold (merge_isbn u canonical) vals []"
  have mem: "(v, s) \<in> set ?out" if c: "isbn_inputs u canonical vals v \<noteq> {}" "valid_source s"
    "origins s = (\<Union>i \<in> isbn_inputs u canonical vals v. origins (id_source i))" for v s
  proof -
    obtain i where "i \<in> isbn_inputs u canonical vals v" using c(1) by blast
    then have "(v, id_source i) \<in> set (isbn_items u canonical vals)"
      using isbn_items_iff [of v "id_source i" u canonical vals] by blast
    then have "v \<in> fst ` set ?out"
      using tally_keys [of fst snd "\<lambda>x s. MergeSources s (snd x)" "isbn_items u canonical vals" "[]"]
      by (force simp: merge_isbn_tally)
    then obtain r where r: "(v, r) \<in> set ?out" by auto
    then have "r = s" using isbn_entry [OF r] c origins_inj by simp
    with r show ?thesis by simp
  qed
  have eq: "set (mergeIdentifiers u canonical vals) = (\<lambda>(v, s). \<lparr>id_scheme = ''ISBN'', id_value = v, id_source = s\<rparr>) ` set ?out"
    by (simp add: mergeIdentifiers_def)
  define C where "C v s \<longleftrightarrow> isbn_inputs u canonical vals v \<noteq> {} \<and> valid_source s
      \<and> origins s = (\<Union>i \<in> isbn_inputs u canonical vals v. origins (id_source i))" for v s
  have "C v s \<longleftrightarrow> (v, s) \<in> set ?out" for v s
    using mem [of v s] isbn_entry [of v s u canonical vals] unfolding C_def by argo
  then have "{F v s | v s. C v s} = (\<lambda>(v, s). F v s) ` set ?out" for F :: "string \<Rightarrow> source \<Rightarrow> ident" by force
  then show "set (mergeIdentifiers u canonical vals) =
     {\<lparr>id_scheme = ''ISBN'', id_value = v, id_source = s\<rparr> | v s. isbn_inputs u canonical vals v \<noteq> {}
        \<and> valid_source s \<and> origins s = (\<Union>i \<in> isbn_inputs u canonical vals v. origins (id_source i))}"
    unfolding C_def [symmetric] eq by (rule sym)
  have "map id_value (mergeIdentifiers u canonical vals) = map fst ?out"
    by (simp add: mergeIdentifiers_def case_prod_unfold comp_def)
  then show "distinct (map id_value (mergeIdentifiers u canonical vals))"
    using tally_distinct [of "[]"] by (simp add: merge_isbn_tally)
qed

section \<open>Publications by publisher\<close>

lemma add_dates:
  "pg_publisher (fold (\<lambda>(p, d). add_date d) xs g) = pg_publisher g
   \<and> set (pg_dates (fold (\<lambda>(p, d). add_date d) xs g)) = set (pg_dates g) \<union> {d. d \<noteq> [] \<and> (\<exists>p. (p, d) \<in> set xs)}
   \<and> (distinct (pg_dates g) \<longrightarrow> distinct (pg_dates (fold (\<lambda>(p, d). add_date d) xs g)))"
proof (induction xs arbitrary: g)
  case (Cons x xs)
  obtain p d where x: "x = (p, d)" by force
  have "pg_publisher (add_date d g) = pg_publisher g" "set (pg_dates (add_date d g)) = set (pg_dates g) \<union> {d'. d' = d \<and> d \<noteq> []}"
    "distinct (pg_dates g) \<longrightarrow> distinct (pg_dates (add_date d g))"
    by (auto simp: add_date_def)
  then show ?case using Cons.IH [of "add_date d g"] unfolding x by auto
qed simp

lemma pub_group_entry:
  assumes "(k, g) \<in> set (pub_groups u now fms)"
  shows "\<exists>p0 d0. (p0, d0) \<in> set (pub_pairs now fms) \<and> pg_publisher g = p0 \<and> foldName u p0 = k"
    and "set (pg_dates g) = {d. d \<noteq> [] \<and> (\<exists>p. (p, d) \<in> set (pub_pairs now fms) \<and> foldName u p = k)}"
    and "distinct (pg_dates g)"
proof -
  obtain x xs where f: "filter (\<lambda>x. (case x of (p, d) \<Rightarrow> foldName u p) = k) (pub_pairs now fms) = x # xs"
    and g: "g = fold (\<lambda>(p, d). add_date d) xs ((case x of (p, d) \<Rightarrow> add_date d) (case x of (p, d) \<Rightarrow> \<lparr>pg_publisher = p, pg_dates = []\<rparr>))"
    using assms by (auto simp: pub_groups_def tally_entry)
  obtain p d where x: "x = (p, d)" by force
  have g': "g = fold (\<lambda>(p, d). add_date d) (x # xs) \<lparr>pg_publisher = p, pg_dates = []\<rparr>" using g by (simp add: x)
  note a = add_dates [of "x # xs" "\<lparr>pg_publisher = p, pg_dates = []\<rparr>", folded g']
  have in_xs: "set (x # xs) = {y \<in> set (pub_pairs now fms). foldName u (fst y) = k}"
    unfolding f [symmetric] by (auto simp: case_prod_unfold)
  then have "x \<in> {y \<in> set (pub_pairs now fms). foldName u (fst y) = k}" by (metis list.set_intros(1))
  then have "x \<in> set (pub_pairs now fms)" "foldName u p = k" by (simp_all add: x)
  then show "\<exists>p0 d0. (p0, d0) \<in> set (pub_pairs now fms) \<and> pg_publisher g = p0 \<and> foldName u p0 = k" using a x by auto
  show "set (pg_dates g) = {d. d \<noteq> [] \<and> (\<exists>p. (p, d) \<in> set (pub_pairs now fms) \<and> foldName u p = k)}"
    using a unfolding in_xs by auto
  show "distinct (pg_dates g)" using a by simp
qed

lemma pub_group_of: "(p, d) \<in> set (pub_pairs now fms) \<Longrightarrow> \<exists>g. (foldName u p, g) \<in> set (pub_groups u now fms)"
proof -
  assume "(p, d) \<in> set (pub_pairs now fms)"
  then have "\<exists>g. ((\<lambda>(p, d). foldName u p) (p, d), g) \<in> set (pub_groups u now fms)"
    unfolding pub_groups_def by (rule tally_entry_of)
  then show ?thesis by simp
qed

lemma distinct_groups:
  assumes "distinct (map fst gs)" "\<And>k g. (k, g) \<in> set gs \<Longrightarrow> distinct (F g) \<and> (\<forall>p \<in> set (F g). K p = k)"
  shows "distinct (concat (map (F \<circ> snd) gs))"
  using assms
proof (induction gs)
  case (Cons a gs)
  obtain k g where a: "a = (k, g)" by force
  have "k \<noteq> k'" if "(k', g') \<in> set gs" for k' g' using Cons.prems(1) that unfolding a by force
  moreover have "K q = k'" if "(k', g') \<in> set gs" "q \<in> set (F g')" for k' g' q using Cons.prems(2) [of k' g'] that by simp
  moreover have "K q = k" if "q \<in> set (F g)" for q using Cons.prems(2) [of k g] that unfolding a by simp
  ultimately have "set (F g) \<inter> set (concat (map (F \<circ> snd) gs)) = {}" by fastforce
  moreover have "distinct (concat (map (F \<circ> snd) gs))"
  proof (rule Cons.IH)
    show "distinct (F g') \<and> (\<forall>p \<in> set (F g'). K p = k')" if "(k', g') \<in> set gs" for k' g'
      using Cons.prems(2) [of k' g'] that by simp
  qed (use Cons.prems(1) in simp)
  moreover have "distinct (F g)" using Cons.prems(2) [of k g] by (simp add: a)
  ultimately show ?case by (simp add: a comp_def)
qed simp

text \<open>The publications are those of the groups, and a group lists its publisher with its dates.\<close>

lemma mergePublications_member:
  "x \<in> set (mergePublications u now fms) \<longleftrightarrow> (\<exists>k g. (k, g) \<in> set (pub_groups u now fms) \<and> x \<in> set (group_publications g))"
  by (force simp: mergePublications_def)

lemma group_publications_member:
  "x \<in> set (group_publications g) \<longleftrightarrow> pu_publisher x = pg_publisher g
     \<and> (pu_date x \<in> set (pg_dates g) \<or> pg_dates g = [] \<and> pu_date x = [] \<and> pg_publisher g \<noteq> [])"
  by (cases x) (auto simp: group_publications_def)

lemma group_publications_key:
  "(k, g) \<in> set (pub_groups u now fms) \<Longrightarrow> x \<in> set (group_publications g) \<Longrightarrow> foldName u (pu_publisher x) = k"
  using pub_group_entry(1) group_publications_member by auto

text \<open>A publisher has a date when its group does: the other groups have other names.\<close>

lemma publication_in_group:
  assumes "(k, g) \<in> set (pub_groups u now fms)"
  shows "(\<exists>p \<in> set (mergePublications u now fms). foldName u (pu_publisher p) = k \<and> pu_date p = d)
    \<longleftrightarrow> d \<in> set (pg_dates g) \<or> pg_dates g = [] \<and> d = [] \<and> pg_publisher g \<noteq> []"
proof
  assume "\<exists>p \<in> set (mergePublications u now fms). foldName u (pu_publisher p) = k \<and> pu_date p = d"
  then obtain x k' h where x: "(k', h) \<in> set (pub_groups u now fms)" "x \<in> set (group_publications h)"
      "foldName u (pu_publisher x) = k" "pu_date x = d" by (auto simp: mergePublications_member)
  moreover have "k' = k" using group_publications_key x by blast
  moreover have "distinct (map fst (pub_groups u now fms))" unfolding pub_groups_def by (rule tally_distinct) simp
  ultimately have "h = g" using assms by (metis eq_key_imp_eq_value)
  then show "d \<in> set (pg_dates g) \<or> pg_dates g = [] \<and> d = [] \<and> pg_publisher g \<noteq> []"
    using x(2,4) by (auto simp: group_publications_member)
next
  assume "d \<in> set (pg_dates g) \<or> pg_dates g = [] \<and> d = [] \<and> pg_publisher g \<noteq> []"
  then have x: "\<lparr>pu_publisher = pg_publisher g, pu_date = d\<rparr> \<in> set (group_publications g)" by (auto simp: group_publications_member)
  then have "\<lparr>pu_publisher = pg_publisher g, pu_date = d\<rparr> \<in> set (mergePublications u now fms)"
    using assms mergePublications_member by blast
  then show "\<exists>p \<in> set (mergePublications u now fms). foldName u (pu_publisher p) = k \<and> pu_date p = d"
    using group_publications_key [OF assms x] by (intro bexI) simp_all
qed

lemma publications_dated:
  assumes "d \<noteq> []"
  shows "(\<exists>p \<in> set (mergePublications u now fms). foldName u (pu_publisher p) = k \<and> pu_date p = d)
    \<longleftrightarrow> (\<exists>p. (p, d) \<in> set (pub_pairs now fms) \<and> foldName u p = k)"
proof (cases "k \<in> fst ` set (pub_groups u now fms)")
  case True
  then obtain g where g: "(k, g) \<in> set (pub_groups u now fms)" by auto
  show ?thesis unfolding publication_in_group [OF g] using assms pub_group_entry(2) [OF g] by auto
next
  case False
  have "\<not> (p, d) \<in> set (pub_pairs now fms)" if "foldName u p = k" for p
    using False pub_group_of [of p d now fms u] that by (metis fst_conv image_eqI)
  moreover have "foldName u (pu_publisher x) \<noteq> k" if "x \<in> set (mergePublications u now fms)" for x
    using that False group_publications_key unfolding mergePublications_member by (metis fst_conv image_eqI)
  ultimately show ?thesis by blast
qed

lemma publications_undated:
  "(\<exists>p \<in> set (mergePublications u now fms). foldName u (pu_publisher p) = k \<and> pu_date p = [])
    \<longleftrightarrow> (\<exists>p d. (p, d) \<in> set (pub_pairs now fms) \<and> foldName u p = k \<and> p \<noteq> [])
      \<and> (\<forall>p d. (p, d) \<in> set (pub_pairs now fms) \<and> foldName u p = k \<longrightarrow> d = [])"
proof (cases "k \<in> fst ` set (pub_groups u now fms)")
  case True
  then obtain g where g: "(k, g) \<in> set (pub_groups u now fms)" by auto
  note e = pub_group_entry [OF g]
  have dates: "[] \<notin> set (pg_dates g)" "pg_dates g = [] \<longleftrightarrow> (\<forall>p d. (p, d) \<in> set (pub_pairs now fms) \<and> foldName u p = k \<longrightarrow> d = [])"
    using e(2) by (simp, simp only: set_empty [symmetric] e(2), blast)
  obtain d0 where p0: "(pg_publisher g, d0) \<in> set (pub_pairs now fms)" "foldName u (pg_publisher g) = k" using e(1) by blast
  have "pg_publisher g \<noteq> [] \<or> d0 \<noteq> []" using p0(1) by (auto simp: pub_pairs_def)
  then have publisher: "pg_publisher g \<noteq> []" if "pg_dates g = []" using that p0 dates(2) by blast
  show ?thesis unfolding publication_in_group [OF g] using dates publisher p0 by blast
next
  case False
  have "\<not> (p, d) \<in> set (pub_pairs now fms)" if "foldName u p = k" for p d
    using False pub_group_of [of p d now fms u] that by (metis fst_conv image_eqI)
  moreover have "foldName u (pu_publisher x) \<noteq> k" if "x \<in> set (mergePublications u now fms)" for x
    using that False group_publications_key unfolding mergePublications_member by (metis fst_conv image_eqI)
  ultimately show ?thesis by blast
qed

lemma mergePublications_distinct: "distinct (mergePublications u now fms)"
  unfolding mergePublications_def
proof (rule distinct_groups [where K = "\<lambda>x. foldName u (pu_publisher x)"])
  show "distinct (map fst (pub_groups u now fms))" unfolding pub_groups_def by (rule tally_distinct) simp
  show "distinct (group_publications g) \<and> (\<forall>x \<in> set (group_publications g). foldName u (pu_publisher x) = k)"
    if "(k, g) \<in> set (pub_groups u now fms)" for k g
    using group_publications_key [OF that] pub_group_entry(3) [OF that]
    by (auto simp: group_publications_def distinct_map inj_on_def)
qed

text \<open>
  C35: Publications keep every date and repeat nothing. The list has no repetition and no
  empty entry; for every publisher (names that differ only in case, accents and spacing are
  one) it has exactly the valid dates the files give for that publisher; and a publisher
  stands without a date exactly when no file gives a valid date for it.
\<close>

theorem mergePublications_complete:
  defines "publisher \<equiv> \<lambda>f. normalizeMeta (fm_publisher f)"
    and "date_of \<equiv> \<lambda>now f. normalizePublicationDate now (fm_date f)"
    and "has \<equiv> \<lambda>u P k d. \<exists>p \<in> set P. foldName u (pu_publisher p) = k \<and> pu_date p = d"
  shows "let P = mergePublications u now fms in distinct P
    \<and> \<lparr>pu_publisher = [], pu_date = []\<rparr> \<notin> set P
    \<and> (\<forall>k d. d \<noteq> [] \<longrightarrow> has u P k d = (\<exists>f \<in> set fms. foldName u (publisher f) = k \<and> date_of now f = d))
    \<and> (\<forall>k. has u P k [] = ((\<exists>f \<in> set fms. publisher f \<noteq> [] \<and> foldName u (publisher f) = k)
         \<and> (\<forall>f \<in> set fms. foldName u (publisher f) = k \<longrightarrow> date_of now f = [])))"
proof -
  have pairs: "(p, d) \<in> set (pub_pairs now fms) \<longleftrightarrow> (\<exists>f \<in> set fms. publisher f = p \<and> date_of now f = d) \<and> (p \<noteq> [] \<or> d \<noteq> [])"
    for p d by (auto simp: pub_pairs_def publisher_def date_of_def)
  have "\<lparr>pu_publisher = [], pu_date = []\<rparr> \<notin> set (mergePublications u now fms)"
    by (auto simp: mergePublications_member group_publications_member pub_group_entry(2))
  moreover have "has u (mergePublications u now fms) k d = (\<exists>f \<in> set fms. foldName u (publisher f) = k \<and> date_of now f = d)"
    if "d \<noteq> []" for k d unfolding has_def publications_dated [OF that] using that by (auto simp: pairs)
  moreover have "has u (mergePublications u now fms) k [] = ((\<exists>f \<in> set fms. publisher f \<noteq> [] \<and> foldName u (publisher f) = k)
         \<and> (\<forall>f \<in> set fms. foldName u (publisher f) = k \<longrightarrow> date_of now f = []))" for k
    unfolding has_def publications_undated by (auto simp: pairs)
  ultimately show ?thesis by (simp add: Let_def mergePublications_distinct)
qed


lemma demo_date: "normalizePublicationDate 2024 ''1990'' = ''1990''"
proof -
  have "chr 49 = CHR ''1''" "chr 57 = CHR ''9''" "chr 48 = CHR ''0''" by (simp_all add: chr_numeral)
  then show ?thesis
    using normalize_canonical(3) [of "\<lparr>d_year = 1990, d_month = 1, d_day = 1\<rparr>" 2024]
    by (simp add: date_ok_def validPublicationYear_def month_ok_def daysIn_def format_Y_def digits4_def)
qed

theorem mergePublications_complete_witness:
  "\<exists>p \<in> set (mergePublications plain_env 2024
      [\<lparr>fm_description = [], fm_publisher = ''Ace'', fm_date = ''1990'', fm_series = [], fm_series_index = []\<rparr>]).
     foldName plain_env (pu_publisher p) = ''ace'' \<and> pu_date p = ''1990''"
proof -
  let ?f = "\<lparr>fm_description = [], fm_publisher = ''Ace'', fm_date = ''1990'', fm_series = [], fm_series_index = []\<rparr>"
  have n: "normalizeMeta ''Ace'' = ''Ace''"
    by (simp add: normalizeMeta_def GoStrings.fields_def fields_func_def is_space_def between_def string_eval)
  then have "foldName plain_env ''Ace'' = ''ace''" by (simp add: foldName_def metaKey_def string_eval ascii_not_folded)
  then show ?thesis
    using mergePublications_complete [where fms = "[?f]" and u = plain_env and now = 2024] by (simp add: n demo_date Let_def)
qed

end
