(* ===== verification/PdfMetadata.thy ===== *)
theory PdfMetadata
  imports Documents BookMetadata "HOL-Library.List_Lexorder" "HOL-Library.Char_ord"
begin

text \<open>
  Model of \<open>internal/parser/pdf/metadata.go\<close>: the Info dictionary and the XMP packet of a PDF, their dates,
  identifiers and lists, and which of the two sources wins. The XML decoder is a parameter: it yields tokens
  and the error that ends them.
\<close>

section \<open>Dates\<close>

text \<open>
  A parsed \<open>time.Time\<close>: the calendar date in its own zone, which \<open>Format\<close> prints, and the instant in nanoseconds since
  the zero time. \<open>IsZero\<close> holds for the zero instant.
\<close>

record pdf_time =
  pt_date :: date
  pt_instant :: int

definition zero_time :: pdf_time where
  "zero_time = \<lparr>pt_date = \<lparr>d_year = 1, d_month = 1, d_day = 1\<rparr>, pt_instant = 0\<rparr>"

definition IsZero :: "pdf_time \<Rightarrow> bool" where
  "IsZero t \<longleftrightarrow> pt_instant t = 0"

definition day_number :: "date \<Rightarrow> int" where
  "day_number d = (let y = int (d_year d) - 1 in
     365 * y + y div 4 - y div 100 + y div 400
       + int (sum_list (map (\<lambda>m. daysIn m (d_year d)) [1..<d_month d])) + int (d_day d) - 1)"

definition fraction :: "string \<Rightarrow> nat \<times> string" where
  "fraction s = (if 2 \<le> length s \<and> (s ! 0 = CHR ''.'' \<or> s ! 0 = CHR '','') \<and> digit_at s 1
     then (let ds = takeWhile (\<lambda>c. 48 \<le> byte c \<and> byte c \<le> 57) (tl s); used = take 9 ds in
       (fold (\<lambda>c n. n * 10 + dval c) used 0 * 10 ^ (9 - length used), drop (length ds) (tl s)))
     else (0, s))"

text \<open>\<open>15:04:05\<close> with an optional fraction, in nanoseconds.\<close>

definition clock_time :: "string \<Rightarrow> (nat \<times> string) option" where
  "clock_time s = Option.bind (getnum s False) (\<lambda>(h, s). if 24 \<le> h then None else
     Option.bind (expect CHR '':'' s) (\<lambda>s. Option.bind (getnum s True) (\<lambda>(m, s). if 60 \<le> m then None else
     Option.bind (expect CHR '':'' s) (\<lambda>s. Option.bind (getnum s True) (\<lambda>(sec, s). if 60 \<le> sec then None else
       (case fraction s of (ns, s) \<Rightarrow> Some (((h * 60 + m) * 60 + sec) * 10 ^ 9 + ns, s)))))))"

definition zone_sign :: "string \<Rightarrow> nat \<Rightarrow> int option" where
  "zone_sign s minutes = (if hd s = CHR ''+'' then Some (int minutes) else if hd s = CHR ''-'' then Some (- int minutes) else None)"

text \<open>The zones \<open>Z07:00\<close> and \<open>-07\<close>, in minutes east of UTC.\<close>

definition zone_colon :: "string \<Rightarrow> (int \<times> string) option" where
  "zone_colon s = (if s \<noteq> [] \<and> hd s = CHR ''Z'' then Some (0, tl s)
     else if length s < 6 then None
     else if s ! 3 \<noteq> CHR '':'' then None
     else case (getnum (take 2 (drop 1 s)) True, getnum (take 2 (drop 4 s)) True) of
         (Some (hr, _), Some (mm, _)) \<Rightarrow> if 24 < hr \<or> 60 < mm then None else map_option (\<lambda>z. (z, drop 6 s)) (zone_sign s (hr * 60 + mm))
       | _ \<Rightarrow> None)"

definition zone_hours :: "string \<Rightarrow> (int \<times> string) option" where
  "zone_hours s = (if length s < 3 then None
     else case getnum (take 2 (drop 1 s)) True of
         Some (hr, _) \<Rightarrow> if 24 < hr then None else map_option (\<lambda>z. (z, drop 3 s)) (zone_sign s (hr * 60))
       | None \<Rightarrow> None)"

definition zone_none :: "string \<Rightarrow> (int \<times> string) option" where
  "zone_none s = Some (0, s)"

text \<open>\<open>2006:01:02\<close>.\<close>

definition parse_colon_date :: "string \<Rightarrow> (date \<times> string) option" where
  "parse_colon_date s = Option.bind (getyear s) (\<lambda>(y, s). Option.bind (expect CHR '':'' s) (\<lambda>s.
     Option.bind (getnum s True) (\<lambda>(m, s). if \<not> month_ok m then None else Option.bind (expect CHR '':'' s) (\<lambda>s.
     Option.bind (getnum s True) (\<lambda>(k, s). if 1 \<le> k \<and> k \<le> daysIn m y then Some (\<lparr>d_year = y, d_month = m, d_day = k\<rparr>, s) else None)))))"

definition full_time :: "(string \<Rightarrow> (date \<times> string) option) \<Rightarrow> (string \<Rightarrow> string option) \<Rightarrow> (string \<Rightarrow> (int \<times> string) option)
    \<Rightarrow> string \<Rightarrow> pdf_time option" where
  "full_time day sep zone s = Option.bind (day s) (\<lambda>(d, s). Option.bind (sep s) (\<lambda>s. Option.bind (clock_time s) (\<lambda>(ns, s).
     Option.bind (zone s) (\<lambda>(z, s). if s = [] then Some \<lparr>pt_date = d, pt_instant = (day_number d * 86400 - z * 60) * 10 ^ 9 + int ns\<rparr> else None))))"

definition date_only :: "string \<Rightarrow> pdf_time option" where
  "date_only s = (case parse_YMD s of Some (d, []) \<Rightarrow> Some \<lparr>pt_date = d, pt_instant = day_number d * 86400 * 10 ^ 9\<rparr> | _ \<Rightarrow> None)"

definition pdfDateLayouts :: "(string \<Rightarrow> pdf_time option) list" where
  "pdfDateLayouts = [full_time parse_YMD (expect CHR ''T'') zone_colon, full_time parse_YMD (expect CHR ''T'') zone_colon,
     full_time parse_YMD (expect CHR ''T'') zone_hours, full_time parse_YMD (expect CHR ''T'') zone_none,
     date_only, full_time parse_colon_date expect_blank zone_none]"

definition parsePDFDate :: "string \<Rightarrow> pdf_time" where
  "parsePDFDate value0 = (let v = trim_space value0 in
     if v = [] then zero_time else case first_some (\<lambda>p. p v) pdfDateLayouts of Some t \<Rightarrow> t | None \<Rightarrow> zero_time)"

definition pdf_normalizeDate :: "string \<Rightarrow> string" where
  "pdf_normalizeDate value0 = (let v = CleanValue value0; t = parsePDFDate v in
     if v = [] then [] else if \<not> IsZero t then format_YMD (pt_date t) else v)"

section \<open>Cleaning\<close>

definition cleanOptional :: "env \<Rightarrow> string \<Rightarrow> string" where
  "cleanOptional u value0 = (let v = CleanValue value0 in if v = [] \<or> IsPlaceholder u v \<or> IsJunkValue u v then [] else v)"

definition cleanTitle :: "env \<Rightarrow> string \<Rightarrow> string" where
  "cleanTitle = cleanOptional"

definition cleanAuthors :: "env \<Rightarrow> string list \<Rightarrow> string list" where
  "cleanAuthors u authors = FilterMetadataAuthors u (concat (map (SplitAuthors u) authors)) []"

definition isISBNSubject :: "(string \<Rightarrow> string option list) \<Rightarrow> string \<Rightarrow> bool" where
  "isISBNSubject isbns v \<longleftrightarrow> isbns v \<noteq> []"

definition cleanSubjects :: "env \<Rightarrow> (string \<Rightarrow> string option list) \<Rightarrow> string list \<Rightarrow> string list" where
  "cleanSubjects u isbns subjects = dedup_by (Fold u) {}
     (filter (\<lambda>v. \<not> (v = [] \<or> IsPlaceholder u v \<or> IsJunkValue u v \<or> isISBNSubject isbns v)) (map CleanValue subjects))"

definition splitSubjects :: "env \<Rightarrow> (string \<Rightarrow> string option list) \<Rightarrow> string \<Rightarrow> string list" where
  "splitSubjects u isbns raw = cleanSubjects u isbns (fields_func (\<lambda>r. r = 44 \<or> r = 59) raw)"

definition cleanLanguages :: "env \<Rightarrow> string list \<Rightarrow> string list" where
  "cleanLanguages u languages = dedup_by id {} (filter (\<lambda>v. v \<noteq> []) (map (\<lambda>l. to_lower u (CleanValue l)) languages))"

section \<open>Identifiers\<close>

text \<open>The expression \<open>doiPattern\<close>: the match at a position, with the rune before it.\<close>

definition is_word :: "(rune \<times> string) option \<Rightarrow> bool" where
  "is_word m = (case m of Some x \<Rightarrow> re_word (fst x) | None \<Rightarrow> False)"

definition nth_seg :: "rsegs \<Rightarrow> nat \<Rightarrow> (rune \<times> string) option" where
  "nth_seg ss i = (if i < length ss then Some (ss ! i) else None)"

definition doi_rune :: "rune \<Rightarrow> bool" where
  "doi_rune r \<longleftrightarrow> re_digit r \<or> re_alpha r \<or> r = 383 \<or> r = 8490 \<or> r \<in> set (map byte ''-._;()/:'')"

definition doi_at :: "(rune \<times> string) option \<Rightarrow> rsegs \<Rightarrow> (rsegs \<times> rsegs) option" where
  "doi_at prev ss = Option.bind (after_word (ci_text ''10.'') ss) (\<lambda>r1.
     let ds = takeWhile (re_digit \<circ> fst) r1; r2 = dropWhile (re_digit \<circ> fst) r1; body = takeWhile (doi_rune \<circ> fst) (tl r2);
         start = 3 + length ds + 1 in
     if is_word prev \<or> length ds < 4 \<or> 9 < length ds \<or> r2 = [] \<or> fst (hd r2) \<noteq> 47 then None
     else map_option (\<lambda>k. (take (start + k) ss, drop (start + k) ss))
       (find (\<lambda>k. is_word (nth_seg ss (start + k - 1)) \<noteq> is_word (nth_seg ss (start + k))) (rev [1..<length body + 1])))"

lemma doi_at_shorter: "doi_at prev (x # ss) = Some (m, r) \<Longrightarrow> m \<noteq> [] \<and> length r < length (x # ss)"
  by (auto simp: doi_at_def Let_def bind_eq_Some_conv split: if_splits)

function find_dois :: "(rune \<times> string) option \<Rightarrow> rsegs \<Rightarrow> string list" where
  "find_dois prev [] = []"
| "find_dois prev (x # ss) = (case doi_at prev (x # ss) of
       Some (m, r) \<Rightarrow> bytes_of m # find_dois (Some (last m)) r
     | None \<Rightarrow> find_dois (Some x) ss)"
  by pat_completeness auto
termination by (relation "measure (\<lambda>(_, ss). length ss)") (auto dest: doi_at_shorter)

definition scheme_key :: "env \<Rightarrow> ident \<Rightarrow> string" where
  "scheme_key u i = to_upper u (id_scheme i) @ chr 0 # id_value i"

definition value_identifiers :: "env \<Rightarrow> (string \<Rightarrow> string option list) \<Rightarrow> string \<Rightarrow> ident list" where
  "value_identifiers u isbns v =
     map (\<lambda>c. \<lparr>id_scheme = ''ISBN'', id_value = c, id_source = SourceMetadata\<rparr>) (List.map_filter id (isbns v))
     @ map (\<lambda>d. \<lparr>id_scheme = ''DOI'', id_value = to_lower u d, id_source = SourceMetadata\<rparr>)
         (filter (\<lambda>d. d \<noteq> []) (map (trim_right_func (\<lambda>r. r \<in> set (map byte ''.,;:)]}''))) (find_dois None (segs v))))"

definition identifiersFromTexts :: "env \<Rightarrow> (string \<Rightarrow> string option list) \<Rightarrow> string list \<Rightarrow> ident list" where
  "identifiersFromTexts u isbns values = dedup_by (scheme_key u) {} (concat (map (value_identifiers u isbns) values))"

definition add_ident :: "env \<Rightarrow> ident \<Rightarrow> ident list \<Rightarrow> ident list" where
  "add_ident u item out = (if list_ex (\<lambda>i. scheme_key u i = scheme_key u item) out
     then map (\<lambda>i. if scheme_key u i = scheme_key u item then i\<lparr>id_source := MergeSources (id_source i) (id_source item)\<rparr> else i) out
     else out @ [item])"

definition mergeIdentifierLists :: "env \<Rightarrow> ident list \<Rightarrow> ident list \<Rightarrow> ident list" where
  "mergeIdentifierLists u a b = fold (add_ident u) (a @ b) []"

section \<open>The Info dictionary\<close>

definition parse_info_line :: "string \<Rightarrow> (string \<times> string) option" where
  "parse_info_line line0 = (let line = trim_right_func (\<lambda>r. r = 13) line0 in
     case index_of line '':'' of
       None \<Rightarrow> None
     | Some i \<Rightarrow> (let key = trim_space (take i line) in if key = [] then None else Some (key, trim_space (drop (i + 1) line))))"

text \<open>The map as its entries: the last value of a key wins.\<close>

definition parseInfo :: "string \<Rightarrow> (string \<times> string) list" where
  "parseInfo raw = fold (\<lambda>(k, v) acc. upsert k v (\<lambda>_. v) acc) (List.map_filter parse_info_line (go_split raw [chr 10])) []"

definition info_get :: "(string \<times> string) list \<Rightarrow> string \<Rightarrow> string" where
  "info_get info key = (case map_of info key of Some v \<Rightarrow> trim_space v | None \<Rightarrow> [])"

definition info_values :: "(string \<times> string) list \<Rightarrow> string list" where
  "info_values info = filter (\<lambda>v. v \<noteq> []) (map (trim_space \<circ> snd) (sort_key fst info))"

record pdf_metadata =
  pm_title :: string
  pm_authors :: "string list"
  pm_description :: string
  pm_subjects :: "string list"
  pm_publisher :: string
  pm_date :: string
  pm_series :: string
  pm_series_index :: string
  pm_languages :: "string list"
  pm_idents :: "ident list"
  pm_modDate :: pdf_time
  pm_xmpDate :: pdf_time

definition no_pdf_metadata :: pdf_metadata where
  "no_pdf_metadata = \<lparr>pm_title = [], pm_authors = [], pm_description = [], pm_subjects = [], pm_publisher = [], pm_date = [],
     pm_series = [], pm_series_index = [], pm_languages = [], pm_idents = [], pm_modDate = zero_time, pm_xmpDate = zero_time\<rparr>"

definition metadataFromInfo :: "env \<Rightarrow> (string \<Rightarrow> string option list) \<Rightarrow> (string \<times> string) list \<Rightarrow> pdf_metadata" where
  "metadataFromInfo u isbns info = no_pdf_metadata\<lparr>pm_title := cleanTitle u (info_get info ''Title''),
     pm_authors := cleanAuthors u (SplitAuthors u (info_get info ''Author'')),
     pm_description := cleanOptional u (info_get info ''Subject''),
     pm_subjects := splitSubjects u isbns (info_get info ''Keywords''),
     pm_modDate := parsePDFDate (info_get info ''ModDate''),
     pm_idents := identifiersFromTexts u isbns (info_values info)\<rparr>"

end
