(* ===== verification/PdfXmp.thy ===== *)
theory PdfXmp
  imports PdfMetadata
begin

text \<open>
  Model of the XMP half of \<open>internal/parser/pdf/metadata.go\<close>: the element tree of a packet, built from the
  decoder's tokens with a stack, the values read off it, and the merge with the Info dictionary.
\<close>

section \<open>The element tree\<close>

datatype xml_token = StartElement string "(string \<times> string) list" | CharData string | EndElement | OtherToken

datatype xmpNode = XmpNode (xn_local: string) (xn_attrs: "(string \<times> string) list") (xn_text: string) (xn_children: "xmpNode list")

text \<open>
  The loop of \<open>parseXMPTree\<close>. \<open>xs_stack\<close> holds the open elements, innermost first; \<open>xs_rooted\<close> says that the
  outermost of them is the root, and \<open>xs_root\<close> is the root once it is closed.
\<close>

record xmp_state =
  xs_root :: "xmpNode option"
  xs_stack :: "xmpNode list"
  xs_rooted :: bool

definition xmp_start :: xmp_state where
  "xmp_start = \<lparr>xs_root = None, xs_stack = [], xs_rooted = False\<rparr>"

fun add_child :: "xmpNode \<Rightarrow> xmpNode \<Rightarrow> xmpNode" where
  "add_child c (XmpNode l a t cs) = XmpNode l a t (cs @ [c])"

fun add_text :: "string \<Rightarrow> xmpNode \<Rightarrow> xmpNode" where
  "add_text s (XmpNode l a t cs) = XmpNode l a (t @ s) cs"

definition close_top :: "xmp_state \<Rightarrow> xmp_state" where
  "close_top s = (case xs_stack s of
       [] \<Rightarrow> s
     | [n] \<Rightarrow> s\<lparr>xs_stack := [], xs_root := (if xs_rooted s then Some n else xs_root s), xs_rooted := False\<rparr>
     | n # p # rest \<Rightarrow> s\<lparr>xs_stack := add_child n p # rest\<rparr>)"

fun xmp_token :: "xml_token \<Rightarrow> xmp_state \<Rightarrow> xmp_state" where
  "xmp_token (StartElement l a) s = s\<lparr>xs_stack := XmpNode l a [] [] # xs_stack s,
     xs_rooted := (if xs_stack s = [] then xs_root s = None else xs_rooted s)\<rparr>"
| "xmp_token (CharData t) s = (case xs_stack s of [] \<Rightarrow> s | n # rest \<Rightarrow> s\<lparr>xs_stack := add_text t n # rest\<rparr>)"
| "xmp_token EndElement s = close_top s"
| "xmp_token OtherToken s = s"

text \<open>Elements still open at the end of the input are part of the tree.\<close>

definition close_all :: "xmp_state \<Rightarrow> xmp_state" where
  "close_all s = (close_top ^^ length (xs_stack s)) s"

type_synonym xml_decoder = "string \<Rightarrow> xml_token list \<times> string option"

definition xmp_packet :: "string \<Rightarrow> string" where
  "xmp_packet raw = (let raw = trim_space raw in
     if has_prefix raw ''Metadata:'' then trim_space (drop (length ''Metadata:'') raw) else raw)"

definition parseXMPTree :: "xml_decoder \<Rightarrow> string \<Rightarrow> (string, xmpNode) result" where
  "parseXMPTree dec raw0 = (let raw = xmp_packet raw0 in
     if raw = [] then Err ''pdf: empty XMP packet''
     else case dec raw of
         (_, Some e) \<Rightarrow> Err (''pdf: parse XMP: '' @ e)
       | (tokens, None) \<Rightarrow> (case xs_root (close_all (fold xmp_token tokens xmp_start)) of
           None \<Rightarrow> Err ''pdf: empty XMP packet''
         | Some n \<Rightarrow> Ok n))"

section \<open>Reading the tree\<close>

primrec allNodes :: "xmpNode \<Rightarrow> xmpNode list" where
  "allNodes (XmpNode l a t cs) = XmpNode l a t cs # concat (map allNodes cs)"

primrec content_of :: "xmpNode \<Rightarrow> string" where
  "content_of (XmpNode l a t cs) = t @ concat (map content_of cs)"

definition nodesByLocal :: "xmpNode \<Rightarrow> string \<Rightarrow> xmpNode list" where
  "nodesByLocal n l = filter (\<lambda>m. xn_local m = l) (allNodes n)"

definition attr :: "xmpNode \<Rightarrow> string \<Rightarrow> string" where
  "attr n l = (case find (\<lambda>a. fst a = l) (xn_attrs n) of Some (_, v) \<Rightarrow> v | None \<Rightarrow> [])"

definition listValues :: "xmpNode \<Rightarrow> string list" where
  "listValues n = (let lis = nodesByLocal n ''li'' in
     filter (\<lambda>v. v \<noteq> []) (map (CleanValue \<circ> content_of) (if lis = [] then [n] else lis)))"

definition textValues :: "xmpNode \<Rightarrow> string \<Rightarrow> string list" where
  "textValues n l = concat (map listValues (nodesByLocal n l))"

definition firstAlt :: "xmpNode list \<Rightarrow> string" where
  "firstAlt nodes = (case nodes of
       [] \<Rightarrow> []
     | n # _ \<Rightarrow> (let lis = nodesByLocal n ''li'' in
         case find (\<lambda>li. attr li ''lang'' = ''x-default'') lis of
           Some li \<Rightarrow> CleanValue (content_of li)
         | None \<Rightarrow> CleanValue (content_of (if lis \<noteq> [] then hd lis else n))))"

definition firstValue :: "xmpNode \<Rightarrow> string \<Rightarrow> string" where
  "firstValue rt l = (case nodesByLocal rt l of [] \<Rightarrow> [] | n # _ \<Rightarrow> (case listValues n of [] \<Rightarrow> [] | v # _ \<Rightarrow> v))"

definition firstDescendantText :: "xmpNode \<Rightarrow> string \<Rightarrow> string" where
  "firstDescendantText rt l = (case nodesByLocal rt l of [] \<Rightarrow> [] | n # _ \<Rightarrow> content_of n)"

definition firstResourceValue :: "xmpNode \<Rightarrow> string \<Rightarrow> string" where
  "firstResourceValue rt l = (case filter (\<lambda>v. trim_space v \<noteq> []) (map (\<lambda>n. firstDescendantText n ''value'') (nodesByLocal rt l)) of
       [] \<Rightarrow> [] | v # _ \<Rightarrow> v)"

definition xmpIdentifiers :: "env \<Rightarrow> (string \<Rightarrow> string option list) \<Rightarrow> xmpNode \<Rightarrow> ident list" where
  "xmpIdentifiers u isbns rt = identifiersFromTexts u isbns
     (map content_of (filter (\<lambda>n. to_lower u (xn_local n) \<in> {''identifier'', ''isbn'', ''doi''}) (allNodes rt)))"

definition xmpSubjects :: "env \<Rightarrow> (string \<Rightarrow> string option list) \<Rightarrow> xmpNode \<Rightarrow> string list" where
  "xmpSubjects u isbns rt = (let subjects = cleanSubjects u isbns (textValues rt ''subject'') in
     if subjects \<noteq> [] then subjects else concat (map (splitSubjects u isbns) (textValues rt ''Keywords'')))"

definition parseXMP :: "env \<Rightarrow> (string \<Rightarrow> string option list) \<Rightarrow> xml_decoder \<Rightarrow> string \<Rightarrow> (string, pdf_metadata) result" where
  "parseXMP u isbns dec raw = (case parseXMPTree dec raw of
       Err e \<Rightarrow> Err e
     | Ok rt \<Rightarrow>
         (let published = pdf_normalizeDate (firstValue rt ''date''); modified = parsePDFDate (firstValue rt ''MetadataDate'') in
          Ok (no_pdf_metadata\<lparr>pm_title := cleanTitle u (firstAlt (nodesByLocal rt ''title'')),
            pm_authors := cleanAuthors u (textValues rt ''creator''),
            pm_description := cleanOptional u (firstAlt (nodesByLocal rt ''description'')),
            pm_subjects := xmpSubjects u isbns rt,
            pm_publisher := cleanOptional u (firstValue rt ''publisher''),
            pm_languages := cleanLanguages u (textValues rt ''language''),
            pm_series := cleanOptional u (firstResourceValue rt ''series''),
            pm_series_index := CleanValue (firstDescendantText rt ''series_index''),
            pm_idents := xmpIdentifiers u isbns rt,
            pm_date := (if published = [] then pdf_normalizeDate (firstValue rt ''CreateDate'') else published),
            pm_xmpDate := (if IsZero modified then parsePDFDate (firstValue rt ''ModifyDate'') else modified)\<rparr>)))"

section \<open>Merging\<close>

definition pick_source :: "bool \<Rightarrow> 'a list \<Rightarrow> 'a list \<Rightarrow> 'a list" where
  "pick_source preferInfo i x = (if preferInfo then (if i \<noteq> [] then i else x) else (if x \<noteq> [] then x else i))"

definition mergeMetadata :: "env \<Rightarrow> pdf_metadata \<Rightarrow> pdf_metadata \<Rightarrow> pdf_metadata" where
  "mergeMetadata u i x =
     (let p = pick_source (\<not> IsZero (pm_modDate i) \<and> \<not> IsZero (pm_xmpDate x) \<and> pt_instant (pm_xmpDate x) < pt_instant (pm_modDate i));
          ps = pick_source (\<not> IsZero (pm_modDate i) \<and> \<not> IsZero (pm_xmpDate x) \<and> pt_instant (pm_xmpDate x) < pt_instant (pm_modDate i)) in
      \<lparr>pm_title = p (pm_title i) (pm_title x), pm_authors = ps (pm_authors i) (pm_authors x),
       pm_description = p (pm_description i) (pm_description x), pm_subjects = ps (pm_subjects i) (pm_subjects x),
       pm_publisher = p (pm_publisher i) (pm_publisher x), pm_date = p (pm_date i) (pm_date x),
       pm_series = p (pm_series i) (pm_series x), pm_series_index = p (pm_series_index i) (pm_series_index x),
       pm_languages = ps (pm_languages i) (pm_languages x), pm_idents = mergeIdentifierLists u (pm_idents i) (pm_idents x),
       pm_modDate = pm_modDate i, pm_xmpDate = pm_xmpDate x\<rparr>)"

definition applyMetadata :: "env \<Rightarrow> pdf_metadata \<Rightarrow> metadata \<Rightarrow> metadata" where
  "applyMetadata u meta md =
     (let md = (if pm_title meta \<noteq> [] then md\<lparr>md_title := pm_title meta\<rparr> else md);
          md = (if pm_authors meta \<noteq> [] then md\<lparr>md_authors := FilterMetadataAuthors u (pm_authors meta) (md_title md)\<rparr> else md);
          md = (if pm_description meta \<noteq> [] then md\<lparr>md_description := pm_description meta\<rparr> else md);
          md = (if pm_subjects meta \<noteq> [] then md\<lparr>md_subjects := pm_subjects meta\<rparr> else md);
          md = (if pm_publisher meta \<noteq> [] then md\<lparr>md_publisher := pm_publisher meta\<rparr> else md);
          md = (if pm_date meta \<noteq> [] then md\<lparr>md_date := pm_date meta\<rparr> else md);
          md = (if pm_series meta \<noteq> [] then md\<lparr>md_series := pm_series meta\<rparr> else md);
          md = (if pm_series_index meta \<noteq> [] then md\<lparr>md_series_index := pm_series_index meta\<rparr> else md);
          md = (if pm_languages meta \<noteq> [] then md\<lparr>md_languages := pm_languages meta\<rparr> else md) in
      if pm_idents meta \<noteq> [] then md\<lparr>md_idents := mergeIdentifierLists u (md_idents md) (pm_idents meta)\<rparr> else md)"

definition equal_fold_yes :: "string \<Rightarrow> bool" where
  "equal_fold_yes s \<longleftrightarrow> list_all2 same_letter (runes s) ''yes''"

text \<open>\<open>readMetadata\<close>: what the two runs of pdfinfo print, or the error they end in.\<close>

datatype pdf_error = PdfEncrypted | PdfTool string

definition readMetadata :: "env \<Rightarrow> (string \<Rightarrow> string option list) \<Rightarrow> xml_decoder \<Rightarrow> (string, string) result \<Rightarrow> (string, string) result
    \<Rightarrow> (pdf_error, pdf_metadata) result" where
  "readMetadata u isbns dec infoRun metaRun = (case infoRun of
       Err e \<Rightarrow> Err (PdfTool e)
     | Ok rawInfo \<Rightarrow> (let info = parseInfo rawInfo; md = metadataFromInfo u isbns info in
         if equal_fold_yes (info_get info ''Encrypted'') then Err PdfEncrypted
         else if \<not> equal_fold_yes (info_get info ''Metadata Stream'') then Ok md
         else (case metaRun of
             Err e \<Rightarrow> Ok md
           | Ok rawXMP \<Rightarrow> if trim_space rawXMP = [] then Ok md
               else (case parseXMP u isbns dec rawXMP of Err e \<Rightarrow> Ok md | Ok x \<Rightarrow> Ok (mergeMetadata u md x)))))"

end
