(* ===== verification/PdfParser.thy ===== *)
theory PdfParser
  imports PdfXmp
begin

text \<open>
  Model of \<open>internal/parser/pdf/pdf.go\<close>, \<open>extract.go\<close> and \<open>tools.go\<close>: the two Poppler tools around a PDF. What a tool
  prints, how it ends and how much of its input it reads are parameters.
\<close>

section \<open>Tools\<close>

record tool_paths =
  tp_text :: string
  tp_info :: string

definition Available :: "tool_paths \<Rightarrow> bool" where
  "Available t \<longleftrightarrow> tp_text t \<noteq> [] \<and> tp_info t \<noteq> []"

text \<open>\<open>lookPath\<close> is \<open>exec.LookPath\<close>; \<open>is_file\<close> says that a path exists and is no directory.\<close>

definition findTool :: "(string \<Rightarrow> (string, string) result) \<Rightarrow> (string \<Rightarrow> bool) \<Rightarrow> (string \<Rightarrow> string \<Rightarrow> string) \<Rightarrow> bool \<Rightarrow> string \<Rightarrow> string
    \<Rightarrow> (string, string) result" where
  "findTool lookPath is_file join_path windows dir name =
     (if dir = [] then lookPath name
      else (case find is_file (map (join_path dir) (if windows then [name, name @ ''.exe''] else [name])) of
          Some p \<Rightarrow> Ok p
        | None \<Rightarrow> Err (name @ '' not found in '' @ dir)))"

definition DetectTools :: "(string \<Rightarrow> string \<Rightarrow> (string, string) result) \<Rightarrow> string \<Rightarrow> tool_paths \<times> string option" where
  "DetectTools find_in dir = (case (find_in dir ''pdftotext'', find_in dir ''pdfinfo'') of
       (Ok t, Ok i) \<Rightarrow> (\<lparr>tp_text = t, tp_info = i\<rparr>, None)
     | (t, i) \<Rightarrow>
         (let missing = (case t of Err _ \<Rightarrow> [''pdftotext''] | _ \<Rightarrow> []) @ (case i of Err _ \<Rightarrow> [''pdfinfo''] | _ \<Rightarrow> []) in
          (\<lparr>tp_text = [], tp_info = []\<rparr>, Some (join '' and '' missing @ '' not found in '' @ (if dir \<noteq> [] then dir else ''PATH'')))))"

section \<open>Buffers and readers\<close>

definition infoOutputLimit :: nat where "infoOutputLimit = 8 * 2 ^ 20"
definition stderrLimit :: nat where "stderrLimit = 64 * 2 ^ 10"

text \<open>\<open>limitedBuffer.Write\<close>: the bytes that still fit; the writer always sees all of them accepted.\<close>

definition limited_Write :: "nat \<Rightarrow> string \<Rightarrow> string \<Rightarrow> nat \<times> string" where
  "limited_Write limit0 p buf = (let limit = (if limit0 = 0 then 2 ^ 20 else limit0); remaining = limit - length buf in
     (length p, if 0 < remaining then (if remaining < length p then buf @ take remaining p else buf @ p) else buf))"

definition limited_String :: "nat \<Rightarrow> string list \<Rightarrow> string" where
  "limited_String limit ps = fold (\<lambda>p buf. snd (limited_Write limit p buf)) ps []"

text \<open>A reader as the script of its \<open>Read\<close> results; after them it is at the end.\<close>

type_synonym reads = "(string \<times> io_error option) list"

definition text_byte :: "char \<Rightarrow> bool" where
  "text_byte b \<longleftrightarrow> \<not> (byte b < 32 \<and> b \<noteq> chr 9 \<and> b \<noteq> chr 10 \<and> b \<noteq> chr 13)"

fun clean_Read :: "reads \<Rightarrow> (string \<times> io_error option) \<times> reads" where
  "clean_Read [] = (([], Some Eof), [])"
| "clean_Read ((bytes, err) # rs) = (let kept = filter text_byte bytes in
     if kept \<noteq> [] \<or> err \<noteq> None then ((kept, err), rs) else clean_Read rs)"

fun count_Read :: "reads \<Rightarrow> nat \<Rightarrow> (string \<times> io_error option) \<times> reads \<times> nat" where
  "count_Read rs n = (case clean_Read rs of ((bs, err), rs) \<Rightarrow> ((bs, err), rs, n + length bs))"

text \<open>Reading a script to its end.\<close>

fun drain :: "reads \<Rightarrow> string \<times> io_error" where
  "drain [] = ([], Eof)"
| "drain ((bs, Some err) # rs) = (bs, err)"
| "drain ((bs, None) # rs) = (case drain rs of (later, err) \<Rightarrow> (bs @ later, err))"

lemma clean_Read_shorter: "clean_Read rs = ((bs, None), rs') \<Longrightarrow> length rs' < length rs"
  by (induction rs rule: clean_Read.induct) (auto simp: Let_def split: if_splits)

function drain_counted :: "reads \<Rightarrow> nat \<Rightarrow> string \<times> io_error \<times> nat" where
  "drain_counted rs n = (case count_Read rs n of
       ((bs, Some err), _, n) \<Rightarrow> (bs, err, n)
     | ((bs, None), rs, n) \<Rightarrow> (case drain_counted rs n of (later, err, n) \<Rightarrow> (bs @ later, err, n)))"
  by pat_completeness auto
termination
  by (relation "measure (length \<circ> fst)") (auto split: prod.splits dest: clean_Read_shorter)

declare drain_counted.simps [simp del] count_Read.simps [simp del]

section \<open>Running the tools\<close>

definition toolError :: "string \<Rightarrow> string \<Rightarrow> string \<Rightarrow> string" where
  "toolError name err stderr = (let stderr = trim_space stderr in
     ''pdf: '' @ name @ '': '' @ err @ (if stderr \<noteq> [] then '': '' @ stderr else []))"

text \<open>A finished run: the blocks of stdout and stderr and the error it ended with.\<close>

record tool_run =
  tr_out :: "string list"
  tr_err :: "string list"
  tr_fail :: "string option"

definition runInfo :: "string option \<Rightarrow> tool_run \<Rightarrow> (string, string) result" where
  "runInfo ctx run = (case tr_fail run of
       None \<Rightarrow> Ok (limited_String infoOutputLimit (tr_out run))
     | Some err \<Rightarrow> (case ctx of Some e \<Rightarrow> Err e | None \<Rightarrow> Err (toolError ''pdfinfo'' err (limited_String stderrLimit (tr_err run)))))"

record extraction =
  ex_start :: "string option"
  ex_reads :: reads
  ex_run :: tool_run
  ex_offset :: nat
  ex_rest :: "string option"

definition wait_text :: "string option \<Rightarrow> extraction \<Rightarrow> string option" where
  "wait_text ctx ex = (case tr_fail (ex_run ex) of
       None \<Rightarrow> None
     | Some err \<Rightarrow> (case ctx of Some e \<Rightarrow> Some e
         | None \<Rightarrow> Some (toolError ''pdftotext'' err (limited_String stderrLimit (tr_err (ex_run ex))))))"

text \<open>\<open>finishHash\<close>: the bytes the hash has seen at the end, those the tool read and then the rest of the blob.\<close>

definition finishHash :: "string \<Rightarrow> nat \<Rightarrow> nat \<Rightarrow> string option \<Rightarrow> (string, string) result" where
  "finishHash raw sz offset rest_err = (let read = take offset raw in
     if sz < offset then Err ''pdf: hash offset exceeds size''
     else if offset = sz then Ok read
     else case rest_err of Some e \<Rightarrow> Err e | None \<Rightarrow> Ok (read @ take (sz - offset) (drop offset raw)))"

section \<open>The parser\<close>

definition pdfSignatureWindow :: nat where "pdfSignatureWindow = 1024"

definition hasPDFHeader :: "string option \<Rightarrow> string option \<Rightarrow> blob_data \<Rightarrow> nat \<Rightarrow> (string, bool) result" where
  "hasPDFHeader pre post b sz = (let n = min sz pdfSignatureWindow in
     case contextReadAt pre post b 0 n of
       (_, Some (IoError e)) \<Rightarrow> Err e
     | (bs, _) \<Rightarrow> Ok (contains (take n bs @ replicate (n - length bs) (chr 0)) ''%PDF-''))"

definition pdf_check :: "string \<Rightarrow> int \<Rightarrow> doc_error option" where
  "pdf_check head sz = (if trim_space head = [] then Some ErrNoText else None)"

record pdf_world =
  pw_tools :: tool_paths
  pw_info :: tool_run
  pw_meta :: tool_run
  pw_xml :: xml_decoder
  pw_text :: extraction

text \<open>The Info and XMP metadata; None when a failure of pdfinfo is passed over.\<close>

definition pdf_overlay :: "library \<Rightarrow> (nat \<Rightarrow> string option) \<Rightarrow> pdf_world \<Rightarrow> (doc_error, pdf_metadata) result" where
  "pdf_overlay lb ctx w =
     (case readMetadata (lb_env lb) (lb_isbns lb) (pw_xml w) (runInfo (ctx 6) (pw_info w)) (runInfo (ctx 7) (pw_meta w)) of
       Ok meta \<Rightarrow> Ok meta
     | Err err \<Rightarrow> (case ctx 8 of
         Some e \<Rightarrow> Err (Cancelled e)
       | None \<Rightarrow> (case err of PdfEncrypted \<Rightarrow> Err ErrEncrypted | PdfTool _ \<Rightarrow> Ok no_pdf_metadata)))"

definition pdf_text :: "library \<Rightarrow> int \<Rightarrow> (nat \<Rightarrow> string option) \<Rightarrow> nat \<Rightarrow> extraction \<Rightarrow> (doc_error, string \<times> u64 list) result" where
  "pdf_text lb minSize ctx sz ex = (case drain_counted (ex_reads ex) 0 of (txt, ended, n) \<Rightarrow>
     (let waited = wait_text (ctx 9) ex in
      case scan_text lb pdf_check sz (txt, case ended of Eof \<Rightarrow> None | IoError e \<Rightarrow> Some e) of
        ReadError e \<Rightarrow> (case waited of Some x \<Rightarrow> Err (ContextError (ctx 10) (Failed ''pdftotext'' x))
          | None \<Rightarrow> Err (ContextError (ctx 10) (Failed ''read text'' e)))
      | Stopped _ \<Rightarrow> (case waited of Some x \<Rightarrow> Err (ContextError (ctx 10) (Failed ''pdftotext'' x)) | None \<Rightarrow> Err DocNotABook)
      | Scanned head minhash \<Rightarrow> (case waited of
          Some x \<Rightarrow> Err (ContextError (ctx 10) (Failed ''pdftotext'' x))
        | None \<Rightarrow> (case ctx 11 of
            Some e \<Rightarrow> Err (Cancelled e)
          | None \<Rightarrow> if 0 < ResolveMinSize minSize \<and> int n < ResolveMinSize minSize then Err DocNotABook
              else Ok (head, minhash)))))"

definition pdf_result :: "library \<Rightarrow> pdf_metadata \<Rightarrow> string \<Rightarrow> u64 list \<Rightarrow> string \<Rightarrow> metadata" where
  "pdf_result lb meta head minhash hashed =
     (let md = head_metadata lb (applyMetadata (lb_env lb) meta) head minhash (lb_sha256 lb hashed);
          own = md_idents (applyMetadata (lb_env lb) meta (ExtractMetadata (lb_env lb) head)) in
      md\<lparr>md_idents := mergeIdentifierLists (lb_env lb) own (TextIdentifiers (lb_isbns lb) head)\<rparr>)"

definition PdfParse :: "library \<Rightarrow> int \<Rightarrow> (nat \<Rightarrow> string option) \<Rightarrow> blob_data option \<Rightarrow> pdf_world \<Rightarrow> (doc_error, metadata) result" where
  "PdfParse lb minSize ctx data w = (case open_document minSize ErrNotPDF ctx data of
       Err e \<Rightarrow> Err e
     | Ok (b, sz) \<Rightarrow> (case hasPDFHeader (ctx 3) (ctx 4) b sz of
         Err e \<Rightarrow> Err (ContextError (ctx 5) (Failed ''read header'' e))
       | Ok False \<Rightarrow> Err ErrNotPDF
       | Ok True \<Rightarrow>
           if \<not> Available (pw_tools w) then Err ErrToolsUnavailable
           else (case pdf_overlay lb ctx w of
             Err e \<Rightarrow> Err e
           | Ok meta \<Rightarrow> (case ex_start (pw_text w) of
               Some e \<Rightarrow> Err (ContextError (ctx 9) (Failed ''start pdftotext'' e))
             | None \<Rightarrow> (case pdf_text lb minSize ctx sz (pw_text w) of
                 Err e \<Rightarrow> Err e
               | Ok (head, minhash) \<Rightarrow>
                   (case finishHash (fst (bd_stream b)) sz (ex_offset (pw_text w)) (ex_rest (pw_text w)) of
                     Err e \<Rightarrow> Err (ContextError (ctx 12) (Failed ''hash'' e))
                   | Ok hashed \<Rightarrow>
                       Ok (pdf_result lb meta head minhash hashed)))))))"

end
