(* ===== verification/DocumentProps.thy ===== *)
theory DocumentProps
  imports PdfParser
begin

text \<open>
  What the document parsers deliver: the text a fingerprint run has seen, the RTF parser on written RTF, and what an
  accepted PDF has been checked for.
\<close>

section \<open>The scan of a text\<close>

lemma gate_stream_split:
  "gate_stream ps g = (case gate_writes ps g of (Some e, g) \<Rightarrow> (Some e, g) | (None, g) \<Rightarrow> gate_Finish g)"
  by (induction ps arbitrary: g) (simp_all split: prod.splits option.splits)

lemma scan_text_verdict:
  assumes "concat (lb_cut lb txt) = txt" "lb_fingerprint lb txt = Ok mh"
  shows "scan_text lb check sz (txt, None) =
    (let h = cut_to_valid (take headLimit txt) in case check h (int sz) of Some e \<Rightarrow> Stopped e | None \<Rightarrow> Scanned h mh)"
proof -
  obtain g where "gate_stream (lb_cut lb txt) (NewHeadGate headLimit (int sz) (Some check)) = (check (cut_to_valid (take headLimit txt)) (int sz), g)"
    "Head g = cut_to_valid (take headLimit txt)"
    using gate_stream_head [of "lb_cut lb txt" headLimit "int sz" check] unfolding assms(1) by blast
  then show ?thesis
    using assms(2) by (cases "check (cut_to_valid (take headLimit txt)) (int sz)")
      (auto simp: scan_text_def gate_stream_split Let_def split: prod.splits option.splits)
qed

lemma scan_text_Scanned:
  assumes "scan_text lb check sz (txt, ended) = Scanned h mh" "concat (lb_cut lb txt) = txt"
  shows "ended = None \<and> lb_fingerprint lb txt = Ok mh \<and> longest_text (take headLimit txt) h \<and> check h (int sz) = None"
proof -
  have f: "ended = None \<and> lb_fingerprint lb txt = Ok mh"
    using assms(1) by (auto simp: scan_text_def split: prod.splits option.splits sum.splits)
  then have "Scanned h mh = (let h = cut_to_valid (take headLimit txt) in case check h (int sz) of Some e \<Rightarrow> Stopped e | None \<Rightarrow> Scanned h mh)"
    using scan_text_verdict [OF assms(2), where check = check and sz = sz and mh = mh] assms(1) by simp
  then show ?thesis
    using f cut_to_valid_longest [of "take headLimit txt"] by (auto simp: Let_def longest_text_def split: option.splits)
qed

section \<open>RTF\<close>

text \<open>A content that is read without faults.\<close>

definition content_blob :: "string \<Rightarrow> blob_data" where
  "content_blob raw = \<lparr>bd_size = Ok (int (length raw)),
     bd_readAt = \<lambda>off n. (take n (drop off raw), if length raw < off + n then Some Eof else None), bd_stream = (raw, None)\<rparr>"

lemma no_values: "trim_space [] = []" "go_split [] '','' = [[]]" "fields_func f [] = []" "Normalize [] = []"
  by (simp_all add: trim_space_def trim_func_def bytes_of_def go_split_def fields_func_def Normalize_def GoStrings.fields_def)

lemma strip_nothing: "fold strip_quotes qs [] = []"
  by (induction qs) (simp_all add: strip_quotes_def no_values)

lemma content_blob_stream [simp]: "bd_stream (content_blob raw) = (raw, None)" "bd_size (content_blob raw) = Ok (int (length raw))"
  by (simp_all add: content_blob_def)

lemma blank_value: "CleanValue [] = []"
  by (simp add: CleanValue_def no_values strip_nothing)

lemma applyInfo_none: "applyInfo u (infoValues (\<lambda>_. None)) = id"
  by (rule ext) (simp add: applyInfo_def infoValues_def infoValue_def blank_value infoAuthors_def infoSubjects_def first_nonempty_def no_values)

lemma brace_first:
  "trim_left_bytes (chr 123 # s) = chr 123 # s" "trim_prefix (chr 123 # s) utf8BOM = chr 123 # s"
  by (simp_all add: trim_left_bytes_def trim_prefix_def has_prefix_def utf8BOM_def chr_equal)

lemma written_header: "hasRTFHeader None None (content_blob (rtf_document rs)) (length (rtf_document rs)) = Ok True"
proof -
  define n where "n = min (length (rtf_document rs)) signatureWindow"
  have "take (5 + (n - 5)) (rtf_document rs) = take 5 (rtf_document rs) @ take (n - 5) (drop 5 (rtf_document rs))" by (rule take_add)
  moreover have "5 + (n - 5) = n" by (simp add: n_def rtf_document_def signatureWindow_def)
  moreover have "take 5 (rtf_document rs) = chr 123 # chr 92 # ''rtf''" by (simp add: rtf_document_def)
  ultimately have "take n (rtf_document rs) = chr 123 # chr 92 # ''rtf'' @ take (n - 5) (drop 5 (rtf_document rs))" by simp
  then obtain t where t: "take n (rtf_document rs) = chr 123 # chr 92 # ''rtf'' @ t" by blast
  have "take n (take n (rtf_document rs)) @ replicate (n - length (take n (rtf_document rs))) (chr 0) = take n (rtf_document rs)"
    by (simp add: n_def)
  with t show ?thesis
    by (simp add: hasRTFHeader_def contextReadAt_def content_blob_def Let_def n_def [symmetric] brace_first has_prefix_def split: prod.splits)
qed

section \<open>The tree of an XMP packet\<close>

text \<open>A document as it is written: text, elements, and what is neither (comments, instructions).\<close>

datatype xml_item = Txt string | Misc | Elem string "(string \<times> string) list" "xml_item list"

primrec xml_tokens :: "xml_item \<Rightarrow> xml_token list" where
  "xml_tokens (Txt s) = [CharData s]"
| "xml_tokens Misc = [OtherToken]"
| "xml_tokens (Elem l a is) = StartElement l a # concat (map xml_tokens is) @ [EndElement]"

fun item_text :: "xml_item \<Rightarrow> string" where
  "item_text (Txt s) = s"
| "item_text _ = []"

text \<open>Its tree: an element has the texts directly in it, joined, and its elements as children.\<close>

primrec elements_of :: "xml_item \<Rightarrow> xmpNode list" where
  "elements_of (Txt s) = []"
| "elements_of Misc = []"
| "elements_of (Elem l a is) = [XmpNode l a (concat (map item_text is)) (concat (map elements_of is))]"

definition element_of :: "string \<Rightarrow> (string \<times> string) list \<Rightarrow> xml_item list \<Rightarrow> xmpNode" where
  "element_of l a is = XmpNode l a (concat (map item_text is)) (concat (map elements_of is))"

definition keep_item :: "xml_item \<Rightarrow> bool" where
  "keep_item i \<longleftrightarrow> (\<forall>s l a t cs rest. xs_stack s = XmpNode l a t cs # rest
     \<longrightarrow> fold xmp_token (xml_tokens i) s = s\<lparr>xs_stack := XmpNode l a (t @ item_text i) (cs @ elements_of i) # rest\<rparr>)"

lemma keep_items:
  assumes "\<forall>i\<in>set is. keep_item i" "xs_stack s = XmpNode l a t cs # rest"
  shows "fold xmp_token (concat (map xml_tokens is)) s
    = s\<lparr>xs_stack := XmpNode l a (t @ concat (map item_text is)) (cs @ concat (map elements_of is)) # rest\<rparr>"
  using assms
proof (induction "is" arbitrary: s t cs)
  case (Cons i "is")
  then have "fold xmp_token (xml_tokens i) s = s\<lparr>xs_stack := XmpNode l a (t @ item_text i) (cs @ elements_of i) # rest\<rparr>"
    by (simp add: keep_item_def)
  then show ?case using Cons by simp
qed simp

lemma keep_all: "keep_item i"
proof (induction i)
  case (Elem l a "is")
  have "fold xmp_token (xml_tokens (Elem l a is)) s = s\<lparr>xs_stack := XmpNode l' a' t (cs @ elements_of (Elem l a is)) # rest\<rparr>"
    if "xs_stack s = XmpNode l' a' t cs # rest" for s l' a' t cs rest
    using that Elem by (simp add: keep_items [where t = "[]" and cs = "[]"] close_top_def)
  then show ?case by (simp add: keep_item_def)
qed (simp_all add: keep_item_def)

lemma element_tokens:
  assumes "xs_stack s = []" "\<not> xs_rooted s"
  shows "fold xmp_token (xml_tokens (Elem l a is)) s = s\<lparr>xs_root := (if xs_root s = None then Some (element_of l a is) else xs_root s)\<rparr>"
  using assms by (cases "xs_root s") (simp_all add: keep_items [where t = "[]" and cs = "[]"] keep_all close_top_def element_of_def)

lemma outside_tokens:
  assumes "xs_stack s = []" "\<not> xs_rooted s" "xs_root s = Some n"
  shows "fold xmp_token (concat (map xml_tokens is)) s = s"
proof -
  have "fold xmp_token (xml_tokens i) s = s" for i
    using assms by (cases i; cases s) (simp_all add: element_tokens del: xml_tokens.simps(3))
  then show ?thesis by (induction "is") simp_all
qed

lemma before_root:
  assumes "list_all (\<lambda>i. elements_of i = []) is" "xs_stack s = []"
  shows "fold xmp_token (concat (map xml_tokens is)) s = s"
  using assms(1)
proof (induction "is")
  case (Cons i "is")
  then show ?case using assms(2) by (cases i) simp_all
qed simp

section \<open>Text of a tool\<close>

lemma clean_Read_drain:
  "clean_Read rs = ((bs, err), rs') \<Longrightarrow> (filter text_byte (fst (drain rs)), snd (drain rs))
    = (case err of Some e \<Rightarrow> (bs, e) | None \<Rightarrow> (bs @ filter text_byte (fst (drain rs')), snd (drain rs')))"
proof (induction rs rule: clean_Read.induct)
  case (2 b e rs)
  then show ?case by (cases e) (auto simp: Let_def split: if_splits prod.splits)
qed auto

lemma drain_counted_clean:
  "drain_counted rs n = (filter text_byte (fst (drain rs)), snd (drain rs), n + length (filter text_byte (fst (drain rs))))"
proof (induction rs n rule: drain_counted.induct)
  case (1 rs n)
  obtain bs err rs' where c: "clean_Read rs = ((bs, err), rs')" by (metis prod.exhaust)
  show ?case
    using 1 c clean_Read_drain [OF c]
    by (cases err) (auto simp: drain_counted.simps [of rs n] count_Read.simps split: prod.splits)
qed

lemma take_again: "take n (take n xs @ ys) = take n (xs @ ys)"
  by (cases "length xs \<le> n") simp_all

lemma limited_String_prefix:
  assumes "0 < limit"
  shows "limited_String limit ps = take limit (concat ps)"
proof -
  have "fold (\<lambda>p buf. snd (limited_Write limit p buf)) ps buf = take limit (buf @ concat ps)" if "length buf \<le> limit" for buf
    using that
  proof (induction ps arbitrary: buf)
    case (Cons p ps)
    have "snd (limited_Write limit p buf) = take limit (buf @ p)"
      using Cons.prems assms by (simp add: limited_Write_def Let_def)
    then show ?case using Cons.IH [of "take limit (buf @ p)"] take_again [of limit "buf @ p" "concat ps"]
      by (simp del: take_append)
  qed simp
  then show ?thesis by (simp add: limited_String_def)
qed

section \<open>Accepted PDFs\<close>

lemma finishHash_whole: "finishHash raw sz k e = Ok h \<Longrightarrow> h = take sz raw"
  by (auto simp: finishHash_def Let_def take_add [symmetric] split: if_splits option.splits)

lemma open_document_Ok:
  "open_document minSize none ctx (Some b) = Ok (b', n)
    \<Longrightarrow> b' = b \<and> bd_size b = Ok (int n) \<and> (0 < ResolveMinSize minSize \<longrightarrow> ResolveMinSize minSize \<le> int n)"
  by (auto simp: open_document_def contextSize_def split: option.splits sum.splits if_splits)

lemma wait_text_None: "wait_text c ex = None \<longleftrightarrow> tr_fail (ex_run ex) = None"
  by (simp add: wait_text_def split: option.splits)

lemma pdf_text_Ok:
  assumes "pdf_text lb minSize ctx sz ex = Ok (h, mh)" "txt = filter text_byte (fst (drain (ex_reads ex)))" "concat (lb_cut lb txt) = txt"
  shows "longest_text (take headLimit txt) h \<and> trim_space h \<noteq> [] \<and> lb_fingerprint lb txt = Ok mh \<and> tr_fail (ex_run ex) = None
    \<and> snd (drain (ex_reads ex)) = Eof \<and> (0 < ResolveMinSize minSize \<longrightarrow> ResolveMinSize minSize \<le> int (length txt))"
proof -
  obtain ended where e: "snd (drain (ex_reads ex)) = ended" by blast
  have s: "scan_text lb pdf_check sz (txt, case ended of Eof \<Rightarrow> None | IoError e \<Rightarrow> Some e) = Scanned h mh"
    and r: "tr_fail (ex_run ex) = None" "0 < ResolveMinSize minSize \<longrightarrow> ResolveMinSize minSize \<le> int (length txt)"
    using assms(1) by (auto simp: pdf_text_def drain_counted_clean e assms(2) [symmetric] Let_def wait_text_None
      split: scanned.splits option.splits if_splits)
  show ?thesis
    using scan_text_Scanned [OF s assms(3)] r e by (cases ended) (auto simp: pdf_check_def split: if_splits)
qed

section \<open>Sample inputs\<close>

definition pdf_demo_services :: library where
  "pdf_demo_services = \<lparr>lb_tables = demo_tables, lb_codecs = (\<lambda>_ s. (s, True)), lb_visible = id, lb_cut = (\<lambda>s. [s]), lb_transform = (\<lambda>_ s. (s, None)),
     lb_fingerprint = (\<lambda>_. Ok [7]), lb_sha256 = id, lb_unescape = id, lb_isbns = (\<lambda>_. [])\<rparr>"

definition pdf_demo_world :: pdf_world where
  "pdf_demo_world = \<lparr>pw_tools = \<lparr>tp_text = ''pdftotext'', tp_info = ''pdfinfo''\<rparr>,
     pw_info = \<lparr>tr_out = [], tr_err = [], tr_fail = Some ''exit status 1''\<rparr>, pw_meta = \<lparr>tr_out = [], tr_err = [], tr_fail = None\<rparr>,
     pw_xml = (\<lambda>_. ([], None)),
     pw_text = \<lparr>ex_start = None, ex_reads = [(''Dune'' @ [chr 12], None), ([chr 12], None)],
       ex_run = \<lparr>tr_out = [], tr_err = [], tr_fail = None\<rparr>, ex_offset = 5, ex_rest = None\<rparr>\<rparr>"

lemma pdf_demo_head: "cut_to_valid (take headLimit ''Dune'') = ''Dune'' \<and> trim_space ''Dune'' \<noteq> []"
  by (simp add: string_eval headLimit_def cut_to_valid.simps utf8_valid_def RuneError_def trim_space_def trim_func_def is_space_def between_def bytes_of_def)

lemma pdf_demo_drain: "filter text_byte (fst (drain (ex_reads (pw_text pdf_demo_world)))) = ''Dune''"
  by (simp add: pdf_demo_world_def text_byte_def chr_equal)

lemma pdf_demo_opened:
  "open_document (- 1) ErrNotPDF (\<lambda>_. None) (Some (content_blob ''%PDF-1.4'')) = Ok (content_blob ''%PDF-1.4'', 8)"
  by (simp add: open_document_def contextSize_def ResolveMinSize_def)

lemma pdf_demo_signature: "hasPDFHeader None None (content_blob ''%PDF-1.4'') 8 = Ok True"
  by (simp add: hasPDFHeader_def contextReadAt_def content_blob_def pdfSignatureWindow_def contains_def has_prefix_def Let_def)

lemma pdf_demo_overlay: "pdf_overlay pdf_demo_services (\<lambda>_. None) pdf_demo_world = Ok no_pdf_metadata"
  by (simp add: pdf_overlay_def readMetadata_def runInfo_def pdf_demo_world_def)

lemma pdf_demo_text: "pdf_text pdf_demo_services (- 1) (\<lambda>_. None) 8 (pw_text pdf_demo_world) = Ok (''Dune'', [7])"
proof -
  have "scan_text pdf_demo_services pdf_check 8 (''Dune'', None) = Scanned ''Dune'' [7]"
    using scan_text_verdict [of pdf_demo_services "''Dune''" "[7]" pdf_check 8] pdf_demo_head
    by (simp add: pdf_demo_services_def pdf_check_def Let_def)
  then show ?thesis
    using pdf_demo_drain by (simp add: pdf_text_def drain_counted_clean) (simp add: pdf_demo_world_def wait_text_def ResolveMinSize_def)
qed

lemma pdf_demo_parse:
  "PdfParse pdf_demo_services (- 1) (\<lambda>_. None) (Some (content_blob ''%PDF-1.4'')) pdf_demo_world
    = Ok (pdf_result pdf_demo_services no_pdf_metadata ''Dune'' [7] ''%PDF-1.4'')"
proof -
  have "Available (pw_tools pdf_demo_world)" "ex_start (pw_text pdf_demo_world) = None"
    "finishHash ''%PDF-1.4'' 8 (ex_offset (pw_text pdf_demo_world)) (ex_rest (pw_text pdf_demo_world)) = Ok ''%PDF-1.4''"
    by (simp_all add: pdf_demo_world_def Available_def finishHash_def)
  then show ?thesis
    by (simp add: PdfParse_def pdf_demo_opened pdf_demo_signature pdf_demo_overlay pdf_demo_text)
qed

section \<open>Properties\<close>

text \<open>
  C20: From bytes to a book. Take any text written as RTF, in a content that is read without faults and without
  cancellation, where the fingerprint library reads the decoded text block by block to its end and succeeds. A document
  below the configured minimum size is rejected as not a book. Any other is decoded exactly; the longest valid piece of
  the first 64 KiB of its text is judged, and the document is rejected as not a book just when that piece is blank or
  junk; otherwise the metadata, the language and the identifiers are those of that piece, the fingerprint is that of
  the whole text and the hash is that of all bytes.
\<close>

theorem rtf_document_parsed:
  assumes "list_all rtf_text rs" "ctx = (\<lambda>_. None)" "concat (lb_cut lb (utf8_encode rs)) = utf8_encode rs"
    "lb_fingerprint lb (utf8_encode rs) = Ok mh"
  shows "\<exists>h. longest_text (take headLimit (utf8_encode rs)) h \<and>
    RtfParse lb minSize ctx (Some (content_blob (rtf_document rs)))
    = (if int (length (rtf_document rs)) < ResolveMinSize minSize \<or> trim_space h = [] \<or> IsJunkContent (lb_env lb) h (int (length (rtf_document rs)))
       then Err DocNotABook
       else Ok (head_metadata lb id h mh (lb_sha256 lb (rtf_document rs))))"
proof -
  let ?doc = "rtf_document rs" and ?h = "cut_to_valid (take headLimit (utf8_encode rs))"
  have "RtfParse lb minSize ctx (Some (content_blob ?doc))
    = (if int (length ?doc) < ResolveMinSize minSize \<or> trim_space ?h = [] \<or> IsJunkContent (lb_env lb) ?h (int (length ?doc)) then Err DocNotABook
       else Ok (head_metadata lb id ?h mh (lb_sha256 lb ?doc)))"
  proof (cases "int (length ?doc) < ResolveMinSize minSize")
    case True
    then have "open_document minSize ErrNotRTF (\<lambda>_. None) (Some (content_blob ?doc)) = Err DocNotABook"
      by (simp add: open_document_def contextSize_def)
    then show ?thesis using True by (simp add: RtfParse_def assms(2))
  next
    case False
    then have opened: "open_document minSize ErrNotRTF (\<lambda>_. None) (Some (content_blob ?doc)) = Ok (content_blob ?doc, length ?doc)"
      by (simp add: open_document_def contextSize_def) (simp add: rtf_document_def)
    show ?thesis
      using False written_header [of rs] scan_text_verdict [OF assms(3,4), where check = "rtf_check (lb_env lb)" and sz = "length ?doc"]
      by (simp add: RtfParse_def opened assms(2) rtf_document_text [OF assms(1)] applyInfo_none rtf_check_def Let_def)
  qed
  then show ?thesis
    using cut_to_valid_longest [of "take headLimit (utf8_encode rs)"] unfolding longest_text_def by blast
qed


text \<open>
  C21: An accepted PDF was read whole. However far pdftotext read its input, the recorded hash is that of the
  complete content; the fingerprint is that of all the text the tool printed, without control characters, to the end
  of its output; the tool ended without error; some of the text that heads it is not blank; and both the content and
  the text reach the minimum size of a book.
\<close>

theorem accepted_pdf_is_whole:
  assumes "PdfParse lb minSize ctx (Some b) w = Ok md" "txt = filter text_byte (fst (drain (ex_reads (pw_text w))))"
    "concat (lb_cut lb txt) = txt"
  shows "\<exists>n h. bd_size b = Ok (int n) \<and> md_hash md = lb_sha256 lb (take n (fst (bd_stream b)))
    \<and> lb_fingerprint lb txt = Ok (md_minhash md) \<and> longest_text (take headLimit txt) h \<and> trim_space h \<noteq> []
    \<and> snd (drain (ex_reads (pw_text w))) = Eof \<and> tr_fail (ex_run (pw_text w)) = None
    \<and> max 0 (ResolveMinSize minSize) \<le> int (min n (length txt))"
proof -
  obtain n where o: "open_document minSize ErrNotPDF ctx (Some b) = Ok (b, n)"
    using assms(1) open_document_Ok [of minSize ErrNotPDF ctx b]
    by (cases "open_document minSize ErrNotPDF ctx (Some b)") (auto simp: PdfParse_def)
  obtain meta h mh hashed where t: "pdf_text lb minSize ctx n (pw_text w) = Ok (h, mh)"
    and f: "finishHash (fst (bd_stream b)) n (ex_offset (pw_text w)) (ex_rest (pw_text w)) = Ok hashed"
    and m: "md = pdf_result lb meta h mh hashed"
    using assms(1) unfolding PdfParse_def o by (auto split: sum.splits if_splits option.splits bool.splits)
  have "md_hash md = lb_sha256 lb hashed \<and> md_minhash md = mh" by (simp add: m pdf_result_def head_metadata_def Let_def)
  then show ?thesis
    using open_document_Ok [OF o] pdf_text_Ok [OF t assms(2,3)] finishHash_whole [OF f] 
    by (intro exI [of _ n] exI [of _ h]) (auto simp: max_def)
qed

theorem rtf_document_parsed_witness:
  "\<exists>h. longest_text (take headLimit (utf8_encode [82, 233])) h \<and>
    RtfParse pdf_demo_services (- 1) (\<lambda>_. None) (Some (content_blob (rtf_document [82, 233])))
    = (if trim_space h = [] \<or> IsJunkContent (lb_env pdf_demo_services) h (int (length (rtf_document [82, 233]))) then Err DocNotABook
       else Ok (head_metadata pdf_demo_services id h [7] (lb_sha256 pdf_demo_services (rtf_document [82, 233]))))"
  using rtf_document_parsed [of "[82, 233]" "\<lambda>_. None" pdf_demo_services "[7]" "- 1"]
  by (simp add: pdf_demo_services_def ResolveMinSize_def rtf_text_def scalar_def)

theorem accepted_pdf_is_whole_witness:
  "\<exists>n h. bd_size (content_blob ''%PDF-1.4'') = Ok (int n)
    \<and> md_hash (pdf_result pdf_demo_services no_pdf_metadata ''Dune'' [7] ''%PDF-1.4'') = lb_sha256 pdf_demo_services (take n (fst (bd_stream (content_blob ''%PDF-1.4''))))
    \<and> lb_fingerprint pdf_demo_services ''Dune'' = Ok (md_minhash (pdf_result pdf_demo_services no_pdf_metadata ''Dune'' [7] ''%PDF-1.4''))
    \<and> longest_text (take headLimit ''Dune'') h \<and> trim_space h \<noteq> []
    \<and> snd (drain (ex_reads (pw_text pdf_demo_world))) = Eof \<and> tr_fail (ex_run (pw_text pdf_demo_world)) = None
    \<and> max 0 (ResolveMinSize (- 1)) \<le> int (min n (length ''Dune''))"
  by (rule accepted_pdf_is_whole [OF pdf_demo_parse pdf_demo_drain [symmetric]]) (simp add: pdf_demo_services_def)

text \<open>
  C28: The element tree of an XMP packet is read back. From the tokens of any document, with comments before
  the root element and anything after it, the stack machine rebuilds the root as it was written: every
  element with its attributes, the text directly inside it and its children in order.
\<close>

theorem xmp_tree_read_back:
  assumes "xmp_packet raw \<noteq> []"
    "dec (xmp_packet raw) = (concat (map xml_tokens (prolog @ Elem l a is # epilog)), None)"
    "list_all (\<lambda>i. elements_of i = []) prolog"
  shows "parseXMPTree dec raw = Ok (element_of l a is)"
proof -
  have "fold xmp_token (concat (map xml_tokens (prolog @ Elem l a is # epilog))) xmp_start
    = xmp_start\<lparr>xs_root := Some (element_of l a is)\<rparr>"
    using before_root [OF assms(3), of xmp_start] element_tokens [of xmp_start l a "is"]
      outside_tokens [of "xmp_start\<lparr>xs_root := Some (element_of l a is)\<rparr>" "element_of l a is" epilog]
    by (simp add: xmp_start_def del: xml_tokens.simps(3))
  then show ?thesis
    using assms(1,2) by (simp add: parseXMPTree_def Let_def close_all_def xmp_start_def)
qed

theorem xmp_tree_read_back_witness:
  "parseXMPTree (\<lambda>_. (concat (map xml_tokens ([Misc] @ Elem ''title'' [] [Txt ''Du'', Misc, Elem ''li'' [] [Txt ''x''], Txt ''ne''] # [Txt '' ''])), None)) ''x''
    = Ok (element_of ''title'' [] [Txt ''Du'', Misc, Elem ''li'' [] [Txt ''x''], Txt ''ne''])"
proof (rule xmp_tree_read_back [where prolog = "[Misc]" and epilog = "[Txt '' '']"])
  show "xmp_packet ''x'' \<noteq> []"
    by (simp add: xmp_packet_def has_prefix_def string_eval trim_space_def trim_func_def is_space_def between_def bytes_of_def Let_def)
qed simp_all

end
