(* ===== verification/BookStore.thy ===== *)
theory BookStore
  imports Ingest BookMetadata
begin

text \<open>
  The statements of \<open>internal/database/queries/books.sql\<close> that consolidation and the reports
  use, on the tables of theory Database. The order in which SQLite feeds the authors of a
  file to \<open>GROUP_CONCAT\<close> is not specified and is the parameter \<open>agg\<close>, a reordering of
  author ids. The tables owned by a book share one contract, the locale \<open>owned_table\<close>.
\<close>

section \<open>Reading\<close>

definition query :: "(db \<Rightarrow> 'a) \<Rightarrow> 'a stmt" where
  "query f = sql (\<lambda>d. Ok (f d, d))"

type_synonym agg_order = "int list \<Rightarrow> int list"

definition author_name :: "db \<Rightarrow> int \<Rightarrow> string" where
  "author_name d a = (case map_of (t_authors d) a of Some n \<Rightarrow> n | None \<Rightarrow> [])"

definition file_authors :: "agg_order \<Rightarrow> db \<Rightarrow> int \<Rightarrow> string" where
  "file_authors agg d f = join authorSeparator
     (map (author_name d) (agg (map snd (filter (\<lambda>r. fst r = f) (t_file_authors d)))))"

definition file_row_of :: "db \<Rightarrow> int \<Rightarrow> bf_row option" where
  "file_row_of d f = find (\<lambda>r. bf_id r = f) (t_files d)"

record joined_row =
  jr_book :: int
  jr_file :: bf_row
  jr_authors :: string

text \<open>The files joined with their books: inner joins drop links without a file or a book.\<close>

definition joined_rows :: "agg_order \<Rightarrow> db \<Rightarrow> joined_row list" where
  "joined_rows agg d = List.map_filter (\<lambda>(b, f). if book_exists d b
     then map_option (\<lambda>r. \<lparr>jr_book = b, jr_file = r, jr_authors = file_authors agg d f\<rparr>) (file_row_of d f) else None)
     (t_book_files d)"

definition ListBooksWithFiles :: "agg_order \<Rightarrow> db \<Rightarrow> joined_row list" where
  "ListBooksWithFiles agg d = sort_key (\<lambda>r. (jr_book r, bf_id (jr_file r))) (joined_rows agg d)"

definition with_book :: "db \<Rightarrow> (int \<Rightarrow> 'r list) \<Rightarrow> (int \<times> int \<times> 'r) list" where
  "with_book d rows_of = concat (map (\<lambda>(b, f). map (\<lambda>r. (b, f, r)) (rows_of f)) (t_book_files d))"

definition owned_by :: "('r \<Rightarrow> int) \<Rightarrow> 'r list \<Rightarrow> int \<Rightarrow> 'r list" where
  "owned_by owner rows i = filter (\<lambda>r. owner r = i) rows"

definition ListBookFileSubjectsWithBook :: "db \<Rightarrow> (int \<times> string) list" where
  "ListBookFileSubjectsWithBook d = map (\<lambda>(b, f, r). (b, fst (snd r)))
     (sort_key (\<lambda>(b, f, r). (b, f, snd (snd r), fst (snd r))) (with_book d (owned_by fst (t_file_subjects d))))"

definition ListBookFileLanguagesWithBook :: "db \<Rightarrow> (int \<times> string) list" where
  "ListBookFileLanguagesWithBook d = map (\<lambda>(b, f, r). (b, fst (snd r)))
     (sort_key (\<lambda>(b, f, r). (b, f, snd (snd r), fst (snd r))) (with_book d (owned_by fst (t_file_languages d))))"

definition ident_of :: "ident_row \<Rightarrow> ident" where
  "ident_of r = \<lparr>id_scheme = ir_scheme r, id_value = ir_value r, id_source = ir_source r\<rparr>"

definition ListBookFileIdentifiersWithBook :: "db \<Rightarrow> (int \<times> int \<times> ident) list" where
  "ListBookFileIdentifiersWithBook d = map (\<lambda>(b, f, r). (b, f, ident_of r))
     (sort_key (\<lambda>(b, f, r). (b, f, ir_ordinal r, ir_scheme r, ir_value r)) (with_book d (owned_by ir_owner (t_file_idents d))))"

definition book_of_hash :: "db \<Rightarrow> string \<Rightarrow> int list" where
  "book_of_hash d h = map fst (filter (\<lambda>(b, f). \<exists>r \<in> set (t_files d). bf_id r = f \<and> bf_hash r = h) (t_book_files d))"

definition ListBookFileDuplicatesWithBook :: "db \<Rightarrow> (int \<times> string \<times> string) list" where
  "ListBookFileDuplicatesWithBook d = sort_key (\<lambda>(b, h, p). (b, p))
     (concat (map (\<lambda>(h, p). map (\<lambda>b. (b, h, p)) (book_of_hash d h)) (t_duplicates d)))"

definition duplicate_paths :: "db \<Rightarrow> string \<Rightarrow> string list" where
  "duplicate_paths d h = map snd (filter (\<lambda>r. fst r = h) (t_duplicates d))"

definition ListBookFileHashesNeedingCanonicalization :: "db \<Rightarrow> (string \<times> string \<times> string) list" where
  "ListBookFileHashesNeedingCanonicalization d = List.map_filter (\<lambda>r. case duplicate_paths d (bf_hash r) of
       [] \<Rightarrow> None
     | p # ps \<Rightarrow> (let m = fold min ps p in if m < bf_path r then Some (bf_hash r, bf_path r, m) else None)) (t_files d)"

definition GetBookByID :: "db \<Rightarrow> int \<Rightarrow> book_row option" where
  "GetBookByID d i = find (\<lambda>r. bk_id r = i) (t_books d)"

definition ListBookIDs :: "db \<Rightarrow> int list" where
  "ListBookIDs d = sort (map bk_id (t_books d))"

definition ListAuthorsByBookID :: "db \<Rightarrow> int \<Rightarrow> string list" where
  "ListAuthorsByBookID d i = sort (map (author_name d) (map snd (filter (\<lambda>r. fst r = i) (t_book_authors d))))"

definition ListBookSubjectsByBookID :: "db \<Rightarrow> int \<Rightarrow> string list" where
  "ListBookSubjectsByBookID d i = map (\<lambda>r. fst (snd r)) (sort_key (\<lambda>r. (snd (snd r), fst (snd r))) (owned_by fst (t_book_subjects d) i))"

definition ListBookLanguagesByBookID :: "db \<Rightarrow> int \<Rightarrow> string list" where
  "ListBookLanguagesByBookID d i = map (\<lambda>r. fst (snd r)) (sort_key (\<lambda>r. (snd (snd r), fst (snd r))) (owned_by fst (t_book_languages d) i))"

definition ListBookIdentifiersByBookID :: "db \<Rightarrow> int \<Rightarrow> ident list" where
  "ListBookIdentifiersByBookID d i = map ident_of (sort_key (\<lambda>r. (ir_ordinal r, ir_value r)) (owned_by ir_owner (t_book_idents d) i))"

definition ListBookPublicationsByBookID :: "db \<Rightarrow> int \<Rightarrow> publication list" where
  "ListBookPublicationsByBookID d i = map (\<lambda>r. \<lparr>pu_publisher = pb_publisher r, pu_date = pb_date r\<rparr>)
     (sort_key (\<lambda>r. (pb_ordinal r, pb_publisher r, pb_date r)) (owned_by pb_book (t_book_pubs d) i))"

definition ListBookFileIdentifiersByBookID :: "db \<Rightarrow> int \<Rightarrow> (int \<times> ident) list" where
  "ListBookFileIdentifiersByBookID d i = map snd (filter (\<lambda>x. fst x = i) (ListBookFileIdentifiersWithBook d))"

definition ListBookFilesWithAuthorsByBookID :: "agg_order \<Rightarrow> db \<Rightarrow> int \<Rightarrow> joined_row list" where
  "ListBookFilesWithAuthorsByBookID agg d i = sort_key (\<lambda>r. bf_path (jr_file r)) (filter (\<lambda>r. jr_book r = i) (joined_rows agg d))"

definition ListDuplicatesByBookID :: "db \<Rightarrow> int \<Rightarrow> (string \<times> string) list" where
  "ListDuplicatesByBookID d i = map snd (filter (\<lambda>x. fst x = i) (ListBookFileDuplicatesWithBook d))"

section \<open>Writing\<close>

definition DeleteBookFileDuplicate :: "string \<Rightarrow> string \<Rightarrow> unit stmt" where
  "DeleteBookFileDuplicate h p = sql (\<lambda>d. Ok ((), d\<lparr>t_duplicates := filter (\<lambda>r. r \<noteq> (h, p)) (t_duplicates d)\<rparr>))"

definition UpdateBookFilePath :: "string \<Rightarrow> string \<Rightarrow> unit stmt" where
  "UpdateBookFilePath h p = sql (\<lambda>d.
     if \<exists>r \<in> set (t_files d). bf_hash r \<noteq> h \<and> bf_path r = p \<and> h \<in> bf_hash ` set (t_files d)
     then Err (UniqueViolation ''book_files.path'')
     else Ok ((), d\<lparr>t_files := map (\<lambda>r. if bf_hash r = h then r\<lparr>bf_path := p\<rparr> else r) (t_files d)\<rparr>))"

definition UpdateBookMetadata :: "book_row \<Rightarrow> unit stmt" where
  "UpdateBookMetadata row = sql (\<lambda>d. Ok ((), d\<lparr>t_books := map (\<lambda>r. if bk_id r = bk_id row then row else r) (t_books d)\<rparr>))"

text \<open>Tables whose rows belong to a book: deletion by book, insertion that keeps an existing row.\<close>

type_synonym 'r table_update = "('r list \<Rightarrow> 'r list) \<Rightarrow> db \<Rightarrow> db"

definition delete_rows :: "'r table_update \<Rightarrow> ('r \<Rightarrow> int) \<Rightarrow> int \<Rightarrow> unit stmt" where
  "delete_rows upd owner i = sql (\<lambda>d. Ok ((), upd (filter (\<lambda>r. owner r \<noteq> i)) d))"

definition insert_row :: "(db \<Rightarrow> 'r list) \<Rightarrow> 'r table_update \<Rightarrow> ('r \<Rightarrow> bool) \<Rightarrow> ('r \<Rightarrow> int) \<Rightarrow> ('r \<Rightarrow> 'k) \<Rightarrow> 'r \<Rightarrow> unit stmt" where
  "insert_row get upd check owner key row = sql (\<lambda>d.
     if \<not> check row then Err (CheckFailed [])
     else if list_ex (\<lambda>r. owner r = owner row \<and> key r = key row) (get d) then Ok ((), d)
     else if \<not> book_exists d (owner row) then Err (ForeignKey [])
     else Ok ((), upd (\<lambda>rs. rs @ [row]) d))"

definition char_shape :: "string \<Rightarrow> char option list" where
  "char_shape s = map (\<lambda>c. if 48 \<le> byte c \<and> byte c \<le> 57 then None else Some c) s"

text \<open>The CHECK constraint of \<open>book_publications.publication_date\<close>.\<close>

definition date_check :: "string \<Rightarrow> bool" where
  "date_check s \<longleftrightarrow> s = [] \<or> char_shape s \<in> {[None, None, None, None], [None, None, None, None, Some CHR ''-'', None, None],
     [None, None, None, None, Some CHR ''-'', None, None, Some CHR ''-'', None, None]}"

definition DeleteBookSubjectsByBookID :: "int \<Rightarrow> unit stmt" where
  "DeleteBookSubjectsByBookID = delete_rows t_book_subjects_update fst"

definition CreateBookSubject :: "int \<times> string \<times> int \<Rightarrow> unit stmt" where
  "CreateBookSubject = insert_row t_book_subjects t_book_subjects_update (\<lambda>_. True) fst (\<lambda>r. fst (snd r))"

definition DeleteBookLanguagesByBookID :: "int \<Rightarrow> unit stmt" where
  "DeleteBookLanguagesByBookID = delete_rows t_book_languages_update fst"

definition CreateBookLanguage :: "int \<times> string \<times> int \<Rightarrow> unit stmt" where
  "CreateBookLanguage = insert_row t_book_languages t_book_languages_update (\<lambda>_. True) fst (\<lambda>r. fst (snd r))"

definition DeleteBookIdentifiersByBookID :: "int \<Rightarrow> unit stmt" where
  "DeleteBookIdentifiersByBookID = delete_rows t_book_idents_update ir_owner"

definition CreateBookIdentifier :: "ident_row \<Rightarrow> unit stmt" where
  "CreateBookIdentifier = insert_row t_book_idents t_book_idents_update (\<lambda>r. valid_source (ir_source r)) ir_owner
     (\<lambda>r. (ir_scheme r, ir_value r))"

definition DeleteBookPublicationsByBookID :: "int \<Rightarrow> unit stmt" where
  "DeleteBookPublicationsByBookID = delete_rows t_book_pubs_update pb_book"

definition CreateBookPublication :: "pub_row \<Rightarrow> unit stmt" where
  "CreateBookPublication = insert_row t_book_pubs t_book_pubs_update (\<lambda>r. date_check (pb_date r)) pb_book
     (\<lambda>r. (pb_publisher r, pb_date r))"

definition DeleteBookAuthorsByBookID :: "int \<Rightarrow> unit stmt" where
  "DeleteBookAuthorsByBookID = delete_rows t_book_authors_update fst"

definition DeleteOrphanAuthors :: "unit stmt" where
  "DeleteOrphanAuthors = sql (\<lambda>d. Ok ((), d\<lparr>t_authors :=
     filter (\<lambda>a. fst a \<in> snd ` set (t_book_authors d) \<union> snd ` set (t_file_authors d)) (t_authors d)\<rparr>))"

section \<open>The tables of a book\<close>

locale owned_table =
  fixes get :: "db \<Rightarrow> 'r list" and upd :: "'r table_update"
    and check :: "'r \<Rightarrow> bool" and owner :: "'r \<Rightarrow> int" and key :: "'r \<Rightarrow> 'k"
  assumes get_upd: "get (upd f d) = f (get d)"
    and upd_upd: "upd f (upd g d) = upd (\<lambda>rs. f (g rs)) d"
    and upd_id: "upd (\<lambda>rs. rs) d = d"
    and upd_books: "t_books (upd f d) = t_books d"
begin

lemma delete_Ok:
  "delete_rows upd owner i fl (d, n) = (Ok (), (d', n')) \<Longrightarrow> d' = upd (filter (\<lambda>r. owner r \<noteq> i)) d"
  by (auto simp: delete_rows_def sql_Ok)

lemma book_exists_upd: "book_exists (upd f d) i = book_exists d i"
  by (simp add: book_exists_def upd_books)

text \<open>Inserting rows of one book with pairwise different keys, none of them present, appends them.\<close>

lemma insert_all_Ok:
  assumes "for_each (insert_row get upd check owner key) rows fl (d, n) = (Ok (), (d', n'))"
    and "\<forall>r \<in> set rows. owner r = i" "distinct (map key rows)"
    and "\<forall>r \<in> set (get d). owner r = i \<longrightarrow> key r \<notin> key ` set rows"
  shows "d' = upd (\<lambda>rs. rs @ rows) d"
  using assms
proof (induction rows arbitrary: d n)
  case (Cons r rows)
  then obtain d1 n1 where 1: "insert_row get upd check owner key r fl (d, n) = (Ok (), (d1, n1))"
    and 2: "for_each (insert_row get upd check owner key) rows fl (d1, n1) = (Ok (), (d', n'))"
    by (auto simp: bind_Ok)
  have "\<not> list_ex (\<lambda>s. owner s = owner r \<and> key s = key r) (get d)"
    using Cons.prems(2,4) by (auto simp: list_ex_iff)
  then have d1: "d1 = upd (\<lambda>rs. rs @ [r]) d" using 1 by (auto simp: insert_row_def sql_Ok split: if_splits)
  have "d' = upd (\<lambda>rs. rs @ rows) d1"
    using Cons.prems by (intro Cons.IH [OF 2]) (auto simp: d1 get_upd)
  then show ?case by (simp add: d1 upd_upd)
qed (simp add: upd_id)

text \<open>Deleting the rows of a book and inserting new ones replaces them.\<close>

lemma replace_Ok:
  assumes "delete_rows upd owner i fl (d, n) = (Ok (), (d1, n1))"
    and "for_each (insert_row get upd check owner key) rows fl (d1, n1) = (Ok (), (d', n'))"
    and "\<forall>r \<in> set rows. owner r = i" "distinct (map key rows)"
  shows "d' = upd (\<lambda>rs. filter (\<lambda>r. owner r \<noteq> i) rs @ rows) d"
proof -
  have d1: "d1 = upd (filter (\<lambda>r. owner r \<noteq> i)) d" by (rule delete_Ok [OF assms(1)])
  have "d' = upd (\<lambda>rs. rs @ rows) d1"
    by (rule insert_all_Ok [OF assms(2,3,4)]) (simp add: d1 get_upd)
  then show ?thesis by (simp add: d1 upd_upd)
qed

text \<open>Without faults, rows that pass the check are all accepted.\<close>

lemma insert_all_succeeds:
  assumes "\<forall>k. fl k = None" "\<forall>r \<in> set rows. check r \<and> book_exists d (owner r)"
  shows "\<exists>d' n'. for_each (insert_row get upd check owner key) rows fl (d, n) = (Ok (), (d', n')) \<and> t_books d' = t_books d"
  using assms
proof (induction rows arbitrary: d n)
  case (Cons r rows)
  obtain d1 n1 where 1: "insert_row get upd check owner key r fl (d, n) = (Ok (), (d1, n1))" "t_books d1 = t_books d"
  proof (cases "list_ex (\<lambda>s. owner s = owner r \<and> key s = key r) (get d)")
    case True
    then show ?thesis using that [of d "Suc n"] Cons.prems by (simp add: insert_row_def sql_Ok)
  next
    case False
    then show ?thesis using that [of "upd (\<lambda>rs. rs @ [r]) d" "Suc n"] Cons.prems
      by (simp add: insert_row_def sql_Ok upd_books)
  qed
  have "\<exists>d' n'. for_each (insert_row get upd check owner key) rows fl (d1, n1) = (Ok (), (d', n')) \<and> t_books d' = t_books d1"
    using Cons.prems 1(2) by (intro Cons.IH) (simp_all add: book_exists_def)
  then show ?case using 1 by (auto simp: bind_Ok)
qed simp

lemma replace_succeeds:
  assumes "\<forall>k. fl k = None" "\<forall>r \<in> set rows. check r \<and> owner r = i" "book_exists d i"
  shows "\<exists>d1 n1 d' n'. delete_rows upd owner i fl (d, n) = (Ok (), (d1, n1))
    \<and> for_each (insert_row get upd check owner key) rows fl (d1, n1) = (Ok (), (d', n')) \<and> t_books d' = t_books d"
proof -
  let ?d = "upd (filter (\<lambda>r. owner r \<noteq> i)) d"
  have "delete_rows upd owner i fl (d, n) = (Ok (), (?d, Suc n))" using assms(1) by (simp add: delete_rows_def sql_Ok)
  moreover have "\<exists>d' n'. for_each (insert_row get upd check owner key) rows fl (?d, Suc n) = (Ok (), (d', n')) \<and> t_books d' = t_books ?d"
    using assms by (intro insert_all_succeeds) (simp_all add: book_exists_upd)
  ultimately show ?thesis by (auto simp: upd_books)
qed

end

interpretation subjects: owned_table t_book_subjects t_book_subjects_update "\<lambda>_. True" fst "\<lambda>r. fst (snd r)"
  by unfold_locales simp_all

interpretation languages: owned_table t_book_languages t_book_languages_update "\<lambda>_. True" fst "\<lambda>r. fst (snd r)"
  by unfold_locales simp_all

interpretation idents: owned_table t_book_idents t_book_idents_update "\<lambda>r. valid_source (ir_source r)" ir_owner
  "\<lambda>r. (ir_scheme r, ir_value r)"
  by unfold_locales simp_all

interpretation pubs: owned_table t_book_pubs t_book_pubs_update "\<lambda>r. date_check (pb_date r)" pb_book
  "\<lambda>r. (pb_publisher r, pb_date r)"
  by unfold_locales simp_all

text \<open>Every date the merge produces passes the CHECK constraint.\<close>

lemma digit_shape: "char_shape [chr (48 + n mod 10)] = [None]"
proof -
  have "n mod 10 < 10" by simp
  then have "48 + n mod 10 < 256" by linarith
  then show ?thesis using \<open>n mod 10 < 10\<close> by (simp add: char_shape_def)
qed

lemma char_shape_Cons: "char_shape (c # s) = char_shape [c] @ char_shape s"
  by (simp add: char_shape_def)

lemma normalized_date_check: "date_check (normalizePublicationDate now s)"
proof (cases "normalizePublicationDate now s = []")
  case False
  then obtain d where "normalizePublicationDate now s \<in> {format_YMD d, format_YM d, format_Y d}" by (rule normalized_form)
  moreover have "char_shape (format_Y d) = [None, None, None, None]"
    unfolding format_Y_def digits4_def by (subst char_shape_Cons, simp only: digit_shape)+ (simp add: char_shape_def)
  moreover have "char_shape (digits2 m) = [None, None]" for m
    unfolding digits2_def by (subst char_shape_Cons, simp only: digit_shape)+ (simp add: char_shape_def)
  moreover have "char_shape (x @ y) = char_shape x @ char_shape y" for x y by (simp add: char_shape_def)
  moreover have "char_shape (CHR ''-'' # x) = Some CHR ''-'' # char_shape x" for x by (simp add: char_shape_def)
  ultimately show ?thesis by (auto simp: date_check_def format_YM_def format_YMD_def)
qed (simp add: date_check_def)

end
