(* ===== verification/Books.thy ===== *)
theory Books
  imports BookStore
begin

text \<open>
  Model of \<open>internal/report/books.go\<close>: the consolidation pass that turns the raw per-file
  metadata into canonical book metadata, and the book reports read back from the database.
  Writing the JSON files is not modelled.
\<close>

record file_report =
  fr_path :: string
  fr_authors :: "string list"
  fr_title :: string
  fr_idents :: "ident list"

record book_report =
  br_authors :: "string list"
  br_title :: string
  br_description :: string
  br_series :: string
  br_series_index :: string
  br_subjects :: "string list"
  br_languages :: "string list"
  br_identifiers :: "ident list"
  br_publications :: "publication list"
  br_files :: "file_report list"

section \<open>Grouping the files by book\<close>

text \<open>\<open>filterFileAuthors\<close>: the authors of a file without placeholders and echoes of its title.\<close>

definition filterFileAuthors :: "env \<Rightarrow> string \<Rightarrow> string \<Rightarrow> string list" where
  "filterFileAuthors u aggregate fileTitle =
     filter (\<lambda>name. \<not> isTitleEcho u name (normalizeMeta fileTitle)) (splitAuthors u aggregate)"

record book_entry =
  be_titles :: "string list"
  be_authors :: "string list list"
  be_metadata :: "file_metadata list"
  be_files :: "file_report list"
  be_byHash :: "(string \<times> file_report) list"

definition no_entry :: book_entry where
  "no_entry = \<lparr>be_titles = [], be_authors = [], be_metadata = [], be_files = [], be_byHash = []\<rparr>"

definition file_report_of :: "env \<Rightarrow> (int \<Rightarrow> ident list) \<Rightarrow> joined_row \<Rightarrow> file_report" where
  "file_report_of u idents_of r = \<lparr>fr_path = bf_path (jr_file r),
     fr_authors = filterFileAuthors u (jr_authors r) (bf_title (jr_file r)),
     fr_title = normalizeMeta (bf_title (jr_file r)), fr_idents = idents_of (bf_id (jr_file r))\<rparr>"

definition add_file :: "env \<Rightarrow> (int \<Rightarrow> ident list) \<Rightarrow> joined_row \<Rightarrow> book_entry \<Rightarrow> book_entry" where
  "add_file u idents_of r e = (let row = jr_file r; file = file_report_of u idents_of r in
     \<lparr>be_titles = be_titles e @ [bf_title row], be_authors = be_authors e @ [fr_authors file],
      be_metadata = be_metadata e @ [\<lparr>fm_description = bf_description row, fm_publisher = bf_publisher row,
         fm_date = bf_date row, fm_series = bf_series row, fm_series_index = bf_series_index row\<rparr>],
      be_files = be_files e @ [file], be_byHash = (bf_hash row, file) # be_byHash e\<rparr>)"

definition group_files :: "env \<Rightarrow> (int \<Rightarrow> ident list) \<Rightarrow> joined_row list \<Rightarrow> (int \<times> book_entry) list" where
  "group_files u idents_of rows = tally jr_book (\<lambda>_. no_entry) (add_file u idents_of)
     (sort_key (\<lambda>r. (jr_book r, bf_path (jr_file r))) rows) []"

text \<open>Exact duplicates join the files of their book and inherit the canonical file's metadata.\<close>

definition attach_duplicate :: "string \<Rightarrow> string \<Rightarrow> (string \<times> file_report) list \<Rightarrow> file_report list \<Rightarrow> file_report list" where
  "attach_duplicate h path byHash files =
     (if path \<in> fr_path ` set files then files
      else case map_of byHash h of None \<Rightarrow> files | Some parent \<Rightarrow> files @ [parent\<lparr>fr_path := path\<rparr>])"

definition add_duplicate :: "int \<times> string \<times> string \<Rightarrow> (int \<times> book_entry) list \<Rightarrow> (int \<times> book_entry) list" where
  "add_duplicate dup books = (case dup of (b, h, path) \<Rightarrow>
     map (\<lambda>(i, e). (i, if i = b then e\<lparr>be_files := attach_duplicate h path (be_byHash e) (be_files e)\<rparr> else e)) books)"

section \<open>Title and authors of a book\<close>

record pick =
  pk_title :: string
  pk_authors :: "string list"
  pk_calibre :: string

definition author_names :: "env \<Rightarrow> string list list \<Rightarrow> string list" where
  "author_names u ls = dedup_by (metaKey u) {} (filter (\<lambda>n. metaKey u n \<noteq> []) (concat ls))"

definition set_author :: "string \<Rightarrow> pick \<Rightarrow> pick" where
  "set_author a p = p\<lparr>pk_authors := [a], pk_calibre := a\<rparr>"

text \<open>Natural "Author - Title" names supply what the metadata lacks.\<close>

definition natural_step :: "env \<Rightarrow> bool \<Rightarrow> string list \<Rightarrow> pick \<Rightarrow> pick" where
  "natural_step u needTitle paths p = (if needTitle \<or> pk_authors p = [] then
     (case first_some (\<lambda>path. case parseNaturalFilename u path of
           None \<Rightarrow> None
         | Some (t, a) \<Rightarrow> if \<not> needTitle \<and> \<not> titlesAgree u t (pk_title p) then None else Some (t, a)) paths of
        None \<Rightarrow> p
      | Some (t, a) \<Rightarrow> (let p' = (if needTitle then p\<lparr>pk_title := t\<rparr> else p) in
          if pk_authors p' = [] then set_author a p' else p'))
     else p)"

definition calibre_step :: "env \<Rightarrow> bool \<Rightarrow> string list \<Rightarrow> pick \<Rightarrow> pick" where
  "calibre_step u needTitle paths p = (if pk_authors p = [] then
     (if needTitle then (case first_some (parseCalibreFilename u) paths of
          None \<Rightarrow> p | Some (t, a) \<Rightarrow> set_author a (p\<lparr>pk_title := t\<rparr>))
      else (case first_some (parseCalibreAuthorOnly u) paths of None \<Rightarrow> p | Some a \<Rightarrow> set_author a p))
     else p)"

definition path_step :: "env \<Rightarrow> string list \<Rightarrow> pick \<Rightarrow> pick" where
  "path_step u paths p = (if pk_authors p = [] then
     (case first_some (\<lambda>path. authorFromPath u path (pk_title p)) paths of None \<Rightarrow> p | Some a \<Rightarrow> set_author a p)
     else p)"

definition wash_step :: "env \<Rightarrow> string list \<Rightarrow> pick \<Rightarrow> pick" where
  "wash_step u names p = (if pk_authors p \<noteq> [] then
     p\<lparr>pk_title := washAuthorAffix u (pk_title p)
        (map (matchTokens u) (names @ (if pk_calibre p \<noteq> [] then [pk_calibre p] else [])))\<rparr>
     else p)"

definition resolve :: "env \<Rightarrow> string list list \<Rightarrow> string list \<Rightarrow> string list \<Rightarrow> pick" where
  "resolve u authorSet titles paths = (let
     names = author_names u authorSet;
     title = pickTitle u titles names;
     needTitle = (title = []);
     start = \<lparr>pk_title = (if needTitle \<and> paths \<noteq> [] then titleFromPath u (hd paths) else title),
              pk_authors = pickAuthors u authorSet, pk_calibre = []\<rparr>
     in wash_step u names (path_step u paths (calibre_step u needTitle paths (natural_step u needTitle paths start))))"

definition book_report_of :: "libs \<Rightarrow> string list \<Rightarrow> string list \<Rightarrow> ident list \<Rightarrow> book_entry \<Rightarrow> book_report" where
  "book_report_of l subjects languages identifiers e = (let
     p = resolve (l_env l) (be_authors e) (be_titles e) (map fr_path (be_files e));
     m = mergeBookMetadata l (be_metadata e) subjects languages identifiers in
     \<lparr>br_authors = pk_authors p, br_title = pk_title p, br_description = bm_description m, br_series = bm_series m,
      br_series_index = bm_series_index m, br_subjects = bm_subjects m, br_languages = bm_languages m,
      br_identifiers = bm_identifiers m, br_publications = bm_publications m, br_files = be_files e\<rparr>)"

definition for_book :: "int \<Rightarrow> (int \<times> 'a) list \<Rightarrow> 'a list" where
  "for_book b rows = map snd (filter (\<lambda>r. fst r = b) rows)"

definition assemble :: "libs \<Rightarrow> joined_row list \<Rightarrow> (int \<times> string \<times> string) list \<Rightarrow> (int \<times> string) list
    \<Rightarrow> (int \<times> string) list \<Rightarrow> (int \<times> int \<times> ident) list \<Rightarrow> (int \<times> book_report) list" where
  "assemble l rows dups subjects languages identifiers = (let
     books = group_files (l_env l) (\<lambda>f. for_book f (map snd identifiers)) rows;
     books' = fold add_duplicate dups books in
     map (\<lambda>(b, e). (b, book_report_of l (for_book b subjects) (for_book b languages)
        (map snd (for_book b identifiers)) e)) books')"

definition buildBookReports :: "libs \<Rightarrow> agg_order \<Rightarrow> (int \<times> book_report) list stmt" where
  "buildBookReports l agg = bind (query (ListBooksWithFiles agg)) (\<lambda>rows.
     if rows = [] then ret []
     else bind (query ListBookFileDuplicatesWithBook) (\<lambda>dups.
       bind (query ListBookFileSubjectsWithBook) (\<lambda>subjects.
       bind (query ListBookFileLanguagesWithBook) (\<lambda>languages.
       bind (query ListBookFileIdentifiersWithBook) (\<lambda>identifiers.
       ret (assemble l rows dups subjects languages identifiers))))))"

section \<open>Consolidation\<close>

definition promote :: "string \<times> string \<times> string \<Rightarrow> unit stmt" where
  "promote r = (case r of (h, canonical, smallest) \<Rightarrow>
     bind (DeleteBookFileDuplicate h smallest) (\<lambda>_.
     bind (UpdateBookFilePath h smallest) (\<lambda>_. CreateBookFileDuplicate h canonical)))"

definition canonicalizeBookFiles :: "unit stmt" where
  "canonicalizeBookFiles = bind (query ListBookFileHashesNeedingCanonicalization) (for_each promote)"

definition ident_row_of :: "int \<Rightarrow> int \<times> ident \<Rightarrow> ident_row" where
  "ident_row_of b x = \<lparr>ir_owner = b, ir_scheme = id_scheme (snd x), ir_value = id_value (snd x),
     ir_source = id_source (snd x), ir_ordinal = fst x\<rparr>"

definition pub_row_of :: "int \<Rightarrow> int \<times> publication \<Rightarrow> pub_row" where
  "pub_row_of b x = \<lparr>pb_book = b, pb_publisher = pu_publisher (snd x), pb_date = pu_date (snd x), pb_ordinal = fst x\<rparr>"

definition named_row :: "int \<Rightarrow> int \<times> string \<Rightarrow> int \<times> string \<times> int" where
  "named_row b x = (b, snd x, fst x)"

definition book_row_of :: "int \<Rightarrow> book_report \<Rightarrow> book_row" where
  "book_row_of b r = \<lparr>bk_id = b, bk_title = br_title r, bk_description = br_description r, bk_series = br_series r,
     bk_series_index = br_series_index r\<rparr>"

definition persistBookMetadata :: "int \<Rightarrow> book_report \<Rightarrow> unit stmt" where
  "persistBookMetadata b r =
     bind (UpdateBookMetadata (book_row_of b r)) (\<lambda>_.
     bind (DeleteBookSubjectsByBookID b) (\<lambda>_.
     bind (for_each CreateBookSubject (map (named_row b) (number 0 (br_subjects r)))) (\<lambda>_.
     bind (DeleteBookLanguagesByBookID b) (\<lambda>_.
     bind (for_each CreateBookLanguage (map (named_row b) (number 0 (br_languages r)))) (\<lambda>_.
     bind (DeleteBookIdentifiersByBookID b) (\<lambda>_.
     bind (for_each CreateBookIdentifier (map (ident_row_of b) (number 0 (br_identifiers r)))) (\<lambda>_.
     bind (DeleteBookPublicationsByBookID b) (\<lambda>_.
     for_each CreateBookPublication (map (pub_row_of b) (number 0 (br_publications r)))))))))))"

definition link_author :: "int \<Rightarrow> string \<Rightarrow> unit stmt" where
  "link_author b name = bind (CreateAuthor name) (\<lambda>_. bind (GetAuthorByName name) (\<lambda>a. CreateBookAuthor b a))"

definition consolidate_book :: "int \<times> book_report \<Rightarrow> unit stmt" where
  "consolidate_book x = (case x of (b, r) \<Rightarrow>
     bind (persistBookMetadata b r) (\<lambda>_.
     bind (DeleteBookAuthorsByBookID b) (\<lambda>_. for_each (link_author b) (br_authors r))))"

definition consolidation :: "libs \<Rightarrow> agg_order \<Rightarrow> unit stmt" where
  "consolidation l agg = bind canonicalizeBookFiles (\<lambda>_.
     bind (buildBookReports l agg) (\<lambda>reports.
     bind (for_each consolidate_book reports) (\<lambda>_. DeleteOrphanAuthors)))"

definition Consolidate :: "libs \<Rightarrow> agg_order \<Rightarrow> string option \<Rightarrow> string option \<Rightarrow> faults \<Rightarrow> db \<Rightarrow> db_error option \<times> db" where
  "Consolidate l agg begin_err commit_err fl d = with_tx begin_err commit_err (consolidation l agg) fl d"

section \<open>Reading the reports\<close>

definition getBookReport :: "libs \<Rightarrow> agg_order \<Rightarrow> int \<Rightarrow> book_report option stmt" where
  "getBookReport l agg i = bind (query (\<lambda>d. GetBookByID d i)) (\<lambda>book. case book of
       None \<Rightarrow> ret None
     | Some book \<Rightarrow>
         bind (query (\<lambda>d. ListAuthorsByBookID d i)) (\<lambda>authors.
         bind (query (\<lambda>d. ListBookSubjectsByBookID d i)) (\<lambda>subjects.
         bind (query (\<lambda>d. ListBookLanguagesByBookID d i)) (\<lambda>languages.
         bind (query (\<lambda>d. ListBookIdentifiersByBookID d i)) (\<lambda>identifiers.
         bind (query (\<lambda>d. ListBookFileIdentifiersByBookID d i)) (\<lambda>fileIdentifiers.
         bind (query (\<lambda>d. ListBookPublicationsByBookID d i)) (\<lambda>publications.
         bind (query (\<lambda>d. ListBookFilesWithAuthorsByBookID agg d i)) (\<lambda>rows.
         let reports = map (file_report_of (l_env l) (\<lambda>f. for_book f fileIdentifiers)) rows;
             byHash = rev (zip (map (\<lambda>r. bf_hash (jr_file r)) rows) reports);
             report = (\<lambda>fs. Some \<lparr>br_authors = authors, br_title = bk_title book, br_description = bk_description book,
               br_series = bk_series book, br_series_index = bk_series_index book, br_subjects = subjects,
               br_languages = languages, br_identifiers = identifiers, br_publications = publications, br_files = fs\<rparr>) in
         if reports = [] then ret (report [])
         else bind (query (\<lambda>d. ListDuplicatesByBookID d i)) (\<lambda>dups.
           ret (report (fold (\<lambda>(h, path). attach_duplicate h path byHash) dups reports)))))))))))"

definition firstPath :: "book_report \<Rightarrow> string" where
  "firstPath r = (case br_files r of [] \<Rightarrow> [] | f # _ \<Rightarrow> fr_path f)"

definition GetBooks :: "libs \<Rightarrow> agg_order \<Rightarrow> book_report list stmt" where
  "GetBooks l agg = bind (query ListBookIDs) (\<lambda>ids. bind (collect (getBookReport l agg) ids) (\<lambda>reports.
     ret (sort_key (\<lambda>r. (br_title r, firstPath r)) (List.map_filter id reports))))"

definition GetBooksFiltered :: "libs \<Rightarrow> agg_order \<Rightarrow> int list \<Rightarrow> book_report list stmt" where
  "GetBooksFiltered l agg ids = (if ids = [] then ret []
     else bind (collect (getBookReport l agg) (dedup_by id {} ids)) (\<lambda>reports. ret (List.map_filter id reports)))"

end
