(* ===== verification/Cli.thy ===== *)
theory Cli
  imports Books
begin

text \<open>
  Model of \<open>internal/cli/resume.go\<close>, \<open>guard.go\<close>, \<open>scan.go\<close> (\<open>runScan\<close>) and \<open>report.go\<close>: which data a scan starts from, what the
  command does around the scan, and how a run is recorded. The scan itself is an argument: from the
  resume setting and the database it gives the error it ends in and the database it leaves. The terminal, the
  answer at the prompt, the clock, the context and the files written are arguments too.
\<close>

section \<open>Errors and messages\<close>

datatype cli_error = EmptyPath | MissingDatabase string | StatFailed string | OpenFailed string | QueryFailed string db_error | NoScannedData
  | Exclusive | NeedsChoice | OtherTree string string | AnswerFailed string | UnknownChoice string | ClearFailed db_error | ScanFailed string
  | ConsolidateFailed db_error | Interrupted string | FinishFailed db_error | WriteFailed string string

datatype notice = HoldsData int int | PreviousUnknown | PreviousScan string int | OtherTreeWarning string string

section \<open>Fresh or resume\<close>

datatype scan_mode = ModeFresh | ModeResume

fun mode_String :: "scan_mode \<Rightarrow> string" where
  "mode_String ModeResume = ''resume''"
| "mode_String ModeFresh = ''fresh''"

definition CountBookFiles :: "int stmt" where
  "CountBookFiles = query (\<lambda>d. int (length (t_files d)))"

definition CountBooks :: "int stmt" where
  "CountBooks = query (\<lambda>d. int (length (t_books d)))"

text \<open>\<open>ORDER BY id DESC LIMIT 1\<close>.\<close>

fun newest_run :: "run_row list \<Rightarrow> run_row option" where
  "newest_run [] = None"
| "newest_run (r # rs) = (case newest_run rs of None \<Rightarrow> Some r | Some b \<Rightarrow> if rn_id b < rn_id r then Some r else Some b)"

definition GetLatestScanRun :: "run_row stmt" where
  "GetLatestScanRun = sql (\<lambda>d. case newest_run (t_scan_runs d) of Some r \<Rightarrow> Ok (r, d) | None \<Rightarrow> Err NoRows)"

definition latestRun :: "(cli_error, run_row option) result stmt" where
  "latestRun = attempt GetLatestScanRun (\<lambda>r. ret (case r of
       Ok prev \<Rightarrow> Ok (Some prev)
     | Err e \<Rightarrow> if e = NoRows then Ok None else Err (QueryFailed ''read latest scan run'' e)))"

text \<open>The user's side of a run: the flags, the terminal and what \<open>readAnswer\<close> returns at the prompt.\<close>

record console =
  cn_fresh :: bool
  cn_resume :: bool
  cn_terminal :: bool
  cn_answer :: "(string, string) result"
  cn_env :: env

type_synonym decision = "scan_mode \<times> cli_error option \<times> notice list"

definition checkSameRoot :: "console \<Rightarrow> string \<Rightarrow> (cli_error option \<times> notice list) stmt" where
  "checkSameRoot cn rt = bind latestRun (\<lambda>r. ret (case r of
       Err e \<Rightarrow> (Some e, [])
     | Ok None \<Rightarrow> (None, [])
     | Ok (Some prev) \<Rightarrow> if rn_root prev = rt then (None, [])
         else if cn_terminal cn then (None, [OtherTreeWarning (rn_root prev) rt])
         else (Some (OtherTree (rn_root prev) rt), [])))"

definition resume_decision :: "notice list \<Rightarrow> cli_error option \<times> notice list \<Rightarrow> decision" where
  "resume_decision shown r = (ModeResume, fst r, shown @ snd r)"

definition previous_notice :: "string \<Rightarrow> run_row option \<Rightarrow> notice list" where
  "previous_notice rt prev = (case prev of
       None \<Rightarrow> [PreviousUnknown]
     | Some p \<Rightarrow> PreviousScan (rn_root p) (rn_started p) # (if rn_root p \<noteq> rt then [OtherTreeWarning (rn_root p) rt] else []))"

definition promptScanMode :: "console \<Rightarrow> string \<Rightarrow> decision stmt" where
  "promptScanMode cn rt = attempt CountBookFiles (\<lambda>r. case r of
       Err e \<Rightarrow> ret (ModeFresh, Some (QueryFailed ''count recorded files'' e), [])
     | Ok files \<Rightarrow> attempt CountBooks (\<lambda>r. case r of
       Err e \<Rightarrow> ret (ModeFresh, Some (QueryFailed ''count recorded books'' e), [])
     | Ok books \<Rightarrow> bind latestRun (\<lambda>r. case r of
       Err e \<Rightarrow> ret (ModeFresh, Some e, [HoldsData books files])
     | Ok prev \<Rightarrow> (let shown = HoldsData books files # previous_notice rt prev in
         case cn_answer cn of
           Err e \<Rightarrow> ret (ModeFresh, Some (AnswerFailed e), shown)
         | Ok line \<Rightarrow> (let choice = to_lower (cn_env cn) (trim_space line) in
             if choice \<in> {'''', ''r'', ''resume''} then bind (checkSameRoot cn rt) (\<lambda>r. ret (resume_decision shown r))
             else if choice \<in> {''f'', ''fresh''} then ret (ModeFresh, None, shown)
             else ret (ModeFresh, Some (UnknownChoice (trim_space line)), shown))))))"

definition resolveScanMode :: "console \<Rightarrow> string \<Rightarrow> decision stmt" where
  "resolveScanMode cn rt =
     (if cn_fresh cn \<and> cn_resume cn then ret (ModeFresh, Some Exclusive, [])
      else attempt CountBookFiles (\<lambda>r. case r of
          Err e \<Rightarrow> ret (ModeFresh, Some (QueryFailed ''count recorded files'' e), [])
        | Ok files \<Rightarrow>
            if files = 0 then ret (if cn_resume cn then ModeResume else ModeFresh, None, [])
            else if cn_fresh cn then ret (ModeFresh, None, [])
            else if cn_resume cn then bind (checkSameRoot cn rt) (\<lambda>r. ret (resume_decision [] r))
            else if \<not> cn_terminal cn then ret (ModeFresh, Some NeedsChoice, [])
            else promptScanMode cn rt))"

section \<open>Guards of the reading commands\<close>

text \<open>\<open>os.Stat\<close>: present, absent, or an error of its own.\<close>

datatype stat_result = Present | Absent | StatError string

definition requireDatabaseFile :: "(string \<Rightarrow> stat_result) \<Rightarrow> string \<Rightarrow> cli_error option" where
  "requireDatabaseFile stat path = (case stat path of Present \<Rightarrow> None | Absent \<Rightarrow> Some (MissingDatabase path) | StatError e \<Rightarrow> Some (StatFailed e))"

definition requireScannedData :: "cli_error option stmt" where
  "requireScannedData = attempt CountBookFiles (\<lambda>r. ret (case r of
       Err e \<Rightarrow> Some (QueryFailed ''count recorded files'' e)
     | Ok n \<Rightarrow> if n = 0 then Some NoScannedData else None))"

text \<open>A reading command up to its own work \<open>k\<close>: \<open>report\<close> and \<open>search\<close> share it.\<close>

definition reading_command :: "(string \<Rightarrow> stat_result) \<Rightarrow> (string \<Rightarrow> string option) \<Rightarrow> string \<Rightarrow> (cli_error option \<times> 'a) stmt \<Rightarrow> 'a
    \<Rightarrow> (cli_error option \<times> 'a) stmt" where
  "reading_command stat open_db path k none =
     (if path = [] then ret (Some EmptyPath, none)
      else case requireDatabaseFile stat path of
          Some e \<Rightarrow> ret (Some e, none)
        | None \<Rightarrow> (case open_db path of
            Some e \<Rightarrow> ret (Some (OpenFailed e), none)
          | None \<Rightarrow> bind requireScannedData (\<lambda>r. case r of Some e \<Rightarrow> ret (Some e, none) | None \<Rightarrow> k)))"

section \<open>The run of a scan\<close>

definition CreateScanRun :: "string \<Rightarrow> string \<Rightarrow> int \<Rightarrow> int stmt" where
  "CreateScanRun rt mode started = sql (\<lambda>d. let i = seq_runs d + 1 in
     Ok (i, d\<lparr>t_scan_runs := t_scan_runs d @ [\<lparr>rn_id = i, rn_root = rt, rn_mode = mode, rn_status = ''running'', rn_started = started, rn_finished = None\<rparr>],
              seq_runs := i\<rparr>))"

definition finish_row :: "string \<Rightarrow> int \<Rightarrow> int \<Rightarrow> run_row \<Rightarrow> run_row" where
  "finish_row status finished i r = (if rn_id r = i then r\<lparr>rn_status := status, rn_finished := Some finished\<rparr> else r)"

definition FinishScanRun :: "string \<Rightarrow> int \<Rightarrow> int \<Rightarrow> unit stmt" where
  "FinishScanRun status finished i = sql (\<lambda>d. Ok ((), d\<lparr>t_scan_runs := map (finish_row status finished i) (t_scan_runs d)\<rparr>))"

text \<open>
  A scan command. \<open>sc_ctx\<close> is the context's error after the scan, after the consolidation, before the run is finished, and
  when the command returns; \<open>sc_write\<close> is the error of writing one of the report files.
\<close>

record scan_command =
  sc_path :: string
  sc_open :: "string option"
  sc_root :: string
  sc_console :: console
  sc_report :: bool
  sc_faults :: faults
  sc_clear :: "string option \<times> string option \<times> faults"
  sc_started :: int
  sc_finished :: int
  sc_process :: "bool \<Rightarrow> db \<Rightarrow> string option \<times> db"
  sc_libs :: libs
  sc_agg :: agg_order
  sc_pass :: "string option \<times> string option \<times> faults"
  sc_ctx :: "nat \<Rightarrow> string option"
  sc_write :: "string \<Rightarrow> string option"

text \<open>The pass over the books, when the scan ended by itself and without error: cancelled, error, database.\<close>

definition consolidate_run :: "scan_command \<Rightarrow> string option \<Rightarrow> db \<Rightarrow> bool \<times> cli_error option \<times> db" where
  "consolidate_run sc err d =
     (case sc_ctx sc 0 of
        Some _ \<Rightarrow> (True, map_option ScanFailed err, d)
      | None \<Rightarrow> (case err of
          Some e \<Rightarrow> (False, Some (ScanFailed e), d)
        | None \<Rightarrow> (case sc_pass sc of (begin_err, commit_err, fl) \<Rightarrow>
            (case Consolidate (sc_libs sc) (sc_agg sc) begin_err commit_err fl d of
               (None, d) \<Rightarrow> (False, None, d)
             | (Some cerr, d) \<Rightarrow> if sc_ctx sc 1 \<noteq> None then (True, None, d) else (False, Some (ConsolidateFailed cerr), d)))))"

definition run_status :: "bool \<Rightarrow> cli_error option \<Rightarrow> string" where
  "run_status canceled err = (if canceled then ''canceled'' else if err \<noteq> None then ''failed'' else ''completed'')"

text \<open>What is left once the run is finished: the error to return and the reports that were written.\<close>

definition write_reports :: "scan_command \<Rightarrow> bool \<Rightarrow> cli_error option \<Rightarrow> db_error option \<Rightarrow> cli_error option \<times> string list" where
  "write_reports sc canceled err fin = (case sc_write sc ''failures'' of
       Some e \<Rightarrow> (Some (WriteFailed ''failures'' e), [])
     | None \<Rightarrow> if canceled then (map_option Interrupted (sc_ctx sc 3), [''failures''])
         else (let err = (case fin of Some e \<Rightarrow> if err = None then Some (FinishFailed e) else err | None \<Rightarrow> err) in
           if \<not> sc_report sc then (err, [''failures''])
           else (case sc_write sc ''duplicates'' of
               Some e \<Rightarrow> (Some (WriteFailed ''duplicates'' e), [''failures''])
             | None \<Rightarrow> (case sc_write sc ''books'' of
                 Some e \<Rightarrow> (Some (WriteFailed ''books'' e), [''failures'', ''duplicates''])
               | None \<Rightarrow> (err, [''failures'', ''duplicates'', ''books''])))))"

definition scan_and_finish :: "scan_command \<Rightarrow> scan_mode \<Rightarrow> int \<Rightarrow> db \<times> nat \<Rightarrow> cli_error option \<times> db \<times> string list" where
  "scan_and_finish sc mode run st =
     (case sc_process sc (mode = ModeResume) (fst st) of (err, d) \<Rightarrow>
      (case consolidate_run sc err d of (canceled0, err, d) \<Rightarrow>
        (let canceled = (canceled0 \<or> sc_ctx sc 2 \<noteq> None) in
         case FinishScanRun (run_status canceled err) (sc_finished sc) run (sc_faults sc) (d, snd st) of (fin, (d, _)) \<Rightarrow>
           (case write_reports sc canceled err (case fin of Err e \<Rightarrow> Some e | Ok _ \<Rightarrow> None) of (res, files) \<Rightarrow> (res, d, files)))))"

definition clear_if_fresh :: "scan_command \<Rightarrow> scan_mode \<Rightarrow> db \<Rightarrow> db_error option \<times> db" where
  "clear_if_fresh sc mode d = (case mode of
       ModeResume \<Rightarrow> (None, d)
     | ModeFresh \<Rightarrow> (case sc_clear sc of (begin_err, commit_err, fl) \<Rightarrow> Clear fl begin_err commit_err d))"

definition runScan :: "scan_command \<Rightarrow> db \<Rightarrow> cli_error option \<times> db \<times> string list" where
  "runScan sc d =
     (if sc_path sc = [] then (Some EmptyPath, d, [])
      else case sc_open sc of
          Some e \<Rightarrow> (Some (OpenFailed e), d, [])
        | None \<Rightarrow> (case resolveScanMode (sc_console sc) (sc_root sc) (sc_faults sc) (d, 0) of
            (Err e, (d, _)) \<Rightarrow> (Some (QueryFailed [] e), d, [])
          | (Ok (_, Some e, _), (d, _)) \<Rightarrow> (Some e, d, [])
          | (Ok (mode, None, _), (d, n)) \<Rightarrow> (case clear_if_fresh sc mode d of
              (Some e, d) \<Rightarrow> (Some (ClearFailed e), d, [])
            | (None, d) \<Rightarrow> (case CreateScanRun (sc_root sc) (mode_String mode) (sc_started sc) (sc_faults sc) (d, n) of
                (Err e, (d, _)) \<Rightarrow> (Some (QueryFailed ''record scan run'' e), d, [])
              | (Ok run, st) \<Rightarrow> scan_and_finish sc mode run st))))"

end
