(* ===== verification/Canonical.thy ===== *)
theory Canonical
  imports Books
begin

text \<open>
  The first half of consolidation, \<open>canonicalizeBookFiles\<close>: the smallest path under which a
  content was seen becomes the path of its row, the set of recorded paths stays, and the pass
  succeeds when no path was seen with two contents.
\<close>

section \<open>Canonical paths\<close>

text \<open>Which contents were seen under which paths, and the path that should represent each.\<close>

definition recorded_paths :: "db \<Rightarrow> (string \<times> string) set" where
  "recorded_paths d = (\<lambda>r. (bf_hash r, bf_path r)) ` set (t_files d) \<union> set (t_duplicates d)"

definition canonical_at :: "db \<Rightarrow> string \<Rightarrow> bool" where
  "canonical_at d h \<longleftrightarrow> (\<forall>r \<in> set (t_files d). bf_hash r = h \<longrightarrow> (\<forall>p. (h, p) \<in> set (t_duplicates d) \<longrightarrow> bf_path r \<le> p))"

definition needs_promotion :: "db \<Rightarrow> string \<times> string \<times> string \<Rightarrow> bool" where
  "needs_promotion d x = (case x of (h, c, m) \<Rightarrow> (\<exists>r \<in> set (t_files d). bf_hash r = h \<and> bf_path r = c)
     \<and> (h, m) \<in> set (t_duplicates d) \<and> m < c \<and> (\<forall>p. (h, p) \<in> set (t_duplicates d) \<longrightarrow> m \<le> p))"

definition pathless :: "db \<Rightarrow> db" where
  "pathless d = d\<lparr>t_files := map (\<lambda>r. r\<lparr>bf_path := []\<rparr>) (t_files d), t_duplicates := []\<rparr>"

lemma fold_min: "fold min ps (p :: 'a :: linorder) \<in> insert p (set ps) \<and> (\<forall>q \<in> insert p (set ps). fold min ps p \<le> q)"
proof -
  have "fold min ps p = Min (insert p (set ps))" by (simp add: Min.set_eq_fold [symmetric])
  then show ?thesis by (metis Min_in Min_le empty_not_insert finite.insertI finite_set)
qed

lemma duplicate_paths_set: "p \<in> set (duplicate_paths d h) \<longleftrightarrow> (h, p) \<in> set (t_duplicates d)"
  by (force simp: duplicate_paths_def)

lemma candidates_iff:
  "x \<in> set (ListBookFileHashesNeedingCanonicalization d) \<longleftrightarrow>
     (\<exists>r \<in> set (t_files d). \<exists>p ps. duplicate_paths d (bf_hash r) = p # ps \<and> fold min ps p < bf_path r
        \<and> x = (bf_hash r, bf_path r, fold min ps p))"
proof -
  have *: "y \<in> set (List.map_filter f xs) \<longleftrightarrow> (\<exists>r \<in> set xs. f r = Some y)" for f :: "bf_row \<Rightarrow> (string \<times> string \<times> string) option" and xs y
    by (induction xs) (auto split: option.split)
  show ?thesis unfolding ListBookFileHashesNeedingCanonicalization_def *
    by (rule bex_cong [OF refl]) (auto simp: Let_def split: list.splits)
qed

lemma candidates_need: "x \<in> set (ListBookFileHashesNeedingCanonicalization d) \<Longrightarrow> needs_promotion d x"
proof -
  assume "x \<in> set (ListBookFileHashesNeedingCanonicalization d)"
  then obtain r p ps where r: "r \<in> set (t_files d)" "duplicate_paths d (bf_hash r) = p # ps" "fold min ps p < bf_path r"
    "x = (bf_hash r, bf_path r, fold min ps p)" unfolding candidates_iff by blast
  have set: "(bf_hash r, q) \<in> set (t_duplicates d) \<longleftrightarrow> q \<in> insert p (set ps)" for q
    using duplicate_paths_set [of q d "bf_hash r"] r(2) by simp
  show ?thesis using r(1,3) fold_min [of ps p] unfolding needs_promotion_def r(4) prod.case set by blast
qed

lemma not_candidate:
  assumes "r \<in> set (t_files d)" "\<forall>c m. (bf_hash r, c, m) \<notin> set (ListBookFileHashesNeedingCanonicalization d)"
    "(bf_hash r, p) \<in> set (t_duplicates d)"
  shows "bf_path r \<le> p"
proof -
  obtain q qs where q: "duplicate_paths d (bf_hash r) = q # qs"
    using assms(3) duplicate_paths_set [of p d "bf_hash r"] by (cases "duplicate_paths d (bf_hash r)") auto
  have "\<not> fold min qs q < bf_path r" using assms(1,2) q candidates_iff by blast
  moreover have "fold min qs q \<le> p" using fold_min [of qs q] assms(3) duplicate_paths_set [of p d "bf_hash r"] q by auto
  ultimately show ?thesis by simp
qed

lemma candidates_distinct: "keys_ok d \<Longrightarrow> distinct (map fst (ListBookFileHashesNeedingCanonicalization d))"
proof -
  assume "keys_ok d"
  then have dist: "distinct (map bf_hash (t_files d))" by (simp add: keys_ok_def)
  have "distinct (map fst (List.map_filter f xs))"
    if "distinct (map bf_hash xs)" "\<And>r y. f r = Some y \<Longrightarrow> fst y = bf_hash r" for f :: "bf_row \<Rightarrow> (string \<times> string \<times> string) option" and xs
    using that
  proof (induction xs)
    case (Cons a xs)
    have "fst ` set (List.map_filter f xs) \<subseteq> bf_hash ` set xs" using Cons.prems(2)
      by (induction xs) (auto split: option.split)
    then show ?case using Cons by (auto simp: map_filter_simps split: option.split)
  qed (simp add: map_filter_simps)
  then show ?thesis unfolding ListBookFileHashesNeedingCanonicalization_def
    by (rule meta_mp) (use dist in \<open>auto simp: Let_def split: list.splits if_splits\<close>)
qed

definition promoted :: "string \<times> string \<times> string \<Rightarrow> db \<Rightarrow> db" where
  "promoted x d = (case x of (h, c, m) \<Rightarrow>
     d\<lparr>t_files := map (\<lambda>r. if bf_hash r = h then r\<lparr>bf_path := m\<rparr> else r) (t_files d),
       t_duplicates := (let D = filter (\<lambda>r. r \<noteq> (h, m)) (t_duplicates d) in if (h, c) \<in> set D then D else D @ [(h, c)])\<rparr>)"

lemma promote_Ok:
  assumes "promote (h, c, m) fl (d, n) = (Ok (), (d', n'))"
  shows "d' = promoted (h, c, m) d \<and> (\<forall>r \<in> set (t_files d). bf_hash r \<noteq> h \<longrightarrow> h \<in> bf_hash ` set (t_files d) \<longrightarrow> bf_path r \<noteq> m)"
proof -
  obtain d1 n1 d2 n2 where 1: "DeleteBookFileDuplicate h m fl (d, n) = (Ok (), (d1, n1))"
    and 2: "UpdateBookFilePath h m fl (d1, n1) = (Ok (), (d2, n2))" and 3: "CreateBookFileDuplicate h c fl (d2, n2) = (Ok (), (d', n'))"
    using assms by (auto simp: promote_def bind_Ok)
  have d1: "d1 = d\<lparr>t_duplicates := filter (\<lambda>r. r \<noteq> (h, m)) (t_duplicates d)\<rparr>"
    using 1 by (simp add: DeleteBookFileDuplicate_def sql_Ok)
  have d2: "d2 = d1\<lparr>t_files := map (\<lambda>r. if bf_hash r = h then r\<lparr>bf_path := m\<rparr> else r) (t_files d1)\<rparr>"
    and free: "\<forall>r \<in> set (t_files d1). \<not> (bf_hash r \<noteq> h \<and> bf_path r = m \<and> h \<in> bf_hash ` set (t_files d1))"
    using 2 by (auto simp: UpdateBookFilePath_def sql_Ok split: if_splits)
  have "d' = d2\<lparr>t_duplicates := (let D = t_duplicates d2 in if (h, c) \<in> set D then D else D @ [(h, c)])\<rparr>"
    using 3 by (auto simp: CreateBookFileDuplicate_def sql_Ok Let_def split: if_splits)
  then show ?thesis using free by (auto simp: d2 d1 promoted_def)
qed

lemma repathed_ok:
  assumes "base_ok d" "map bf_id F = map bf_id (t_files d)" "map bf_hash F = map bf_hash (t_files d)"
    "distinct (map bf_path F)" "distinct D" "fst ` set D \<subseteq> bf_hash ` set F"
  shows "base_ok (d\<lparr>t_files := F, t_duplicates := D\<rparr>)"
proof -
  have ids: "bf_id ` set F = bf_id ` set (t_files d)" using assms(2) by (metis list.set_map)
  have files: "file_exists (d\<lparr>t_files := F, t_duplicates := D\<rparr>) = file_exists d" by (rule ext) (simp add: file_exists_def ids)
  have other: "author_exists (d\<lparr>t_files := F, t_duplicates := D\<rparr>) = author_exists d"
    "book_exists (d\<lparr>t_files := F, t_duplicates := D\<rparr>) = book_exists d" by (rule ext, simp add: author_exists_def book_exists_def)+
  have "keys_ok (d\<lparr>t_files := F, t_duplicates := D\<rparr>)" using assms(1,4) by (simp add: base_ok_def keys_ok_def assms(2,3) ids)
  moreover have "\<forall>(h, p) \<in> set D. h \<in> bf_hash ` set F" using assms(6) by auto
  then have "refs_ok (d\<lparr>t_files := F, t_duplicates := D\<rparr>)" using assms(1,5) by (simp add: base_ok_def refs_ok_def files other)
  ultimately show ?thesis by (simp add: base_ok_def)
qed

lemma promoted_files: "t_files (promoted (h, c, m) d) = map (\<lambda>r. if bf_hash r = h then r\<lparr>bf_path := m\<rparr> else r) (t_files d)"
  by (simp add: promoted_def)

lemma promoted_duplicates: "set (t_duplicates (promoted (h, c, m) d)) = insert (h, c) (set (t_duplicates d) - {(h, m)})"
  by (auto simp: promoted_def Let_def)

lemma promoted_ball: "(\<forall>r \<in> set (t_files (promoted (h, c, m) d)). P r)
    \<longleftrightarrow> (\<forall>r \<in> set (t_files d). P (if bf_hash r = h then r\<lparr>bf_path := m\<rparr> else r))"
  by (simp only: promoted_files list.set_map ball_simps)

lemma promoted_keys: "map bf_hash (t_files (promoted (h, c, m) d)) = map bf_hash (t_files d)"
  "map bf_id (t_files (promoted (h, c, m) d)) = map bf_id (t_files d)"
  by (simp_all add: promoted_files comp_def if_distrib cong: if_cong)

text \<open>The content that is promoted has one row, under the larger path.\<close>

lemma needs_promotion_row:
  assumes "base_ok d" "needs_promotion d (h, c, m)"
  obtains r0 where "r0 \<in> set (t_files d)" "bf_hash r0 = h" "bf_path r0 = c"
    "\<And>r. r \<in> set (t_files d) \<Longrightarrow> bf_hash r = h \<Longrightarrow> r = r0"
proof -
  obtain r0 where r0: "r0 \<in> set (t_files d)" "bf_hash r0 = h" "bf_path r0 = c" using assms(2) by (auto simp: needs_promotion_def)
  have "distinct (map bf_hash (t_files d))" using assms(1) by (simp add: base_ok_def keys_ok_def)
  then have "r = r0" if "r \<in> set (t_files d)" "bf_hash r = h" for r using that r0 by (metis distinct_map inj_onD)
  with r0 show thesis by (rule that)
qed

lemma promoted_distinct_paths:
  assumes "base_ok d" "needs_promotion d (h, c, m)" "\<forall>r \<in> set (t_files d). bf_hash r \<noteq> h \<longrightarrow> bf_path r \<noteq> m"
  shows "distinct (map bf_path (t_files (promoted (h, c, m) d)))"
proof -
  obtain r0 where uniq: "\<And>r. r \<in> set (t_files d) \<Longrightarrow> bf_hash r = h \<Longrightarrow> r = r0" using needs_promotion_row [OF assms(1,2)] by blast
  have paths: "distinct (map bf_path (t_files d))" using assms(1) by (simp add: base_ok_def keys_ok_def)
  have "inj_on (\<lambda>r. bf_path (if bf_hash r = h then r\<lparr>bf_path := m\<rparr> else r)) (set (t_files d))"
  proof (rule inj_onI)
    fix r s assume rs: "r \<in> set (t_files d)" "s \<in> set (t_files d)"
      "bf_path (if bf_hash r = h then r\<lparr>bf_path := m\<rparr> else r) = bf_path (if bf_hash s = h then s\<lparr>bf_path := m\<rparr> else s)"
    show "r = s"
    proof (cases "bf_hash r = h \<or> bf_hash s = h")
      case True
      then show ?thesis using rs uniq [OF rs(1)] uniq [OF rs(2)] assms(3) by (auto split: if_splits)
    next
      case False
      then have "bf_path r = bf_path s" using rs(3) by simp
      then show ?thesis using rs(1,2) paths unfolding distinct_map by (metis inj_onD)
    qed
  qed
  then show ?thesis using paths by (simp add: promoted_files comp_def distinct_map)
qed

lemma promoted_ok:
  assumes "base_ok d" "needs_promotion d (h, c, m)" "\<forall>r \<in> set (t_files d). bf_hash r \<noteq> h \<longrightarrow> bf_path r \<noteq> m"
  shows "base_ok (promoted (h, c, m) d)"
proof -
  let ?d = "promoted (h, c, m) d"
  have hashes: "bf_hash ` set (t_files ?d) = bf_hash ` set (t_files d)" using promoted_keys(1) [of h c m d] by (metis list.set_map)
  have refs: "distinct (t_duplicates d)" "\<forall>(h, p) \<in> set (t_duplicates d). h \<in> bf_hash ` set (t_files d)"
    using assms(1) by (simp_all add: base_ok_def refs_ok_def)
  have "h \<in> bf_hash ` set (t_files d)" using assms(2) by (auto simp: needs_promotion_def)
  then have "fst ` set (t_duplicates ?d) \<subseteq> bf_hash ` set (t_files ?d)" unfolding promoted_duplicates hashes using refs(2) by auto
  moreover have "distinct (t_duplicates ?d)" using refs(1) by (simp add: promoted_def Let_def)
  moreover have eq: "?d = d\<lparr>t_files := t_files ?d, t_duplicates := t_duplicates ?d\<rparr>" by (simp add: promoted_def)
  ultimately have "base_ok (d\<lparr>t_files := t_files ?d, t_duplicates := t_duplicates ?d\<rparr>)"
    by (intro repathed_ok [OF assms(1) promoted_keys(2,1) promoted_distinct_paths [OF assms]])
  then show ?thesis unfolding eq [symmetric] .
qed

lemma promoted_recorded_paths:
  assumes "base_ok d" "needs_promotion d (h, c, m)"
  shows "recorded_paths (promoted (h, c, m) d) = recorded_paths d"
proof -
  obtain r0 where r0: "r0 \<in> set (t_files d)" "bf_hash r0 = h" "bf_path r0 = c"
    and uniq: "\<And>r. r \<in> set (t_files d) \<Longrightarrow> bf_hash r = h \<Longrightarrow> r = r0" using needs_promotion_row [OF assms] by blast
  have hm: "(h, m) \<in> set (t_duplicates d)" using assms(2) by (simp add: needs_promotion_def)
  let ?k = "\<lambda>r. (bf_hash r, bf_path r)" and ?f = "\<lambda>r. if bf_hash r = h then r\<lparr>bf_path := m\<rparr> else r" and ?rest = "set (t_files d) - {r0}"
  have split: "set (t_files d) = insert r0 ?rest" using r0(1) by auto
  have "?k ` ?f ` ?rest = ?k ` ?rest" unfolding image_image by (rule image_cong [OF refl]) (use uniq in auto)
  then have "?k ` set (t_files (promoted (h, c, m) d)) = insert (h, m) (?k ` ?rest)"
    unfolding promoted_files list.set_map by (subst split) (simp only: image_insert, simp add: r0(2) del: insert_Diff_single)
  moreover have "?k ` set (t_files d) = insert (h, c) (?k ` ?rest)" by (subst split) (simp only: image_insert r0(2,3))
  ultimately show ?thesis using hm unfolding recorded_paths_def promoted_duplicates by auto
qed

lemma promoted_canonical: "needs_promotion d (h, c, m) \<Longrightarrow> canonical_at (promoted (h, c, m) d) h"
  unfolding canonical_at_def promoted_ball by (auto simp: promoted_duplicates needs_promotion_def less_imp_le)

lemma promoted_frame:
  "pathless (promoted (h, c, m) d) = pathless d"
  "h' \<noteq> h \<Longrightarrow> canonical_at (promoted (h, c, m) d) h' = canonical_at d h'"
  "fst x \<noteq> h \<Longrightarrow> needs_promotion (promoted (h, c, m) d) x = needs_promotion d x"
proof -
  let ?d = "promoted (h, c, m) d"
  show "pathless ?d = pathless d" by (auto simp: pathless_def promoted_files) (simp add: promoted_def)
  show "canonical_at ?d h' = canonical_at d h'" if "h' \<noteq> h"
    using that unfolding canonical_at_def promoted_ball by (intro ball_cong [OF refl]) (simp add: promoted_duplicates)
  show "needs_promotion ?d x = needs_promotion d x" if "fst x \<noteq> h"
  proof -
    obtain g c' m' where x: "x = (g, c', m')" by (rule prod_cases3)
    have "(\<forall>r \<in> set (t_files ?d). \<not> (bf_hash r = g \<and> bf_path r = c')) = (\<forall>r \<in> set (t_files d). \<not> (bf_hash r = g \<and> bf_path r = c'))"
      unfolding promoted_ball using that by (intro ball_cong [OF refl]) (simp add: x)
    then show ?thesis using that by (auto simp add: needs_promotion_def promoted_duplicates x)
  qed
qed

lemma promotes_Ok:
  assumes "for_each promote xs fl (d, n) = (Ok (), (d', n'))" "base_ok d" "\<forall>x \<in> set xs. needs_promotion d x" "distinct (map fst xs)"
  shows "base_ok d' \<and> recorded_paths d' = recorded_paths d \<and> pathless d' = pathless d
    \<and> (\<forall>h. h \<in> fst ` set xs \<or> canonical_at d h \<longrightarrow> canonical_at d' h)"
  using assms
proof (induction xs arbitrary: d n)
  case (Cons x xs)
  obtain h c m where x: "x = (h, c, m)" by (rule prod_cases3)
  obtain d1 n1 where 1: "promote (h, c, m) fl (d, n) = (Ok (), (d1, n1))" and 2: "for_each promote xs fl (d1, n1) = (Ok (), (d', n'))"
    using Cons.prems(1) by (auto simp: x bind_Ok)
  have need: "needs_promotion d (h, c, m)" using Cons.prems(3) by (simp add: x)
  then have "h \<in> bf_hash ` set (t_files d)" by (auto simp: needs_promotion_def)
  then have d1: "d1 = promoted (h, c, m) d" and free: "\<forall>r \<in> set (t_files d). bf_hash r \<noteq> h \<longrightarrow> bf_path r \<noteq> m"
    using promote_Ok [OF 1] by simp_all
  note eff = promoted_ok [OF Cons.prems(2) need free, folded d1] promoted_recorded_paths [OF Cons.prems(2) need, folded d1]
    promoted_canonical [OF need, folded d1] promoted_frame [where h = h and c = c and m = m and d = d, folded d1]
  have "h \<notin> fst ` set xs" "distinct (map fst xs)" using Cons.prems(4) by (simp_all add: x)
  then have "\<forall>y \<in> set xs. needs_promotion d1 y" using Cons.prems(3) eff(6) by (metis image_eqI list.set_intros(2))
  note IH = Cons.IH [OF 2 eff(1) this \<open>distinct (map fst xs)\<close>]
  have "canonical_at d' g" if "g \<in> fst ` set (x # xs) \<or> canonical_at d g" for g
  proof (cases "g = h")
    case False
    then show ?thesis using IH that eff(5) [of g] by (auto simp: x)
  qed (use IH eff(3) in simp)
  then show ?case using IH eff(2,4) by simp
qed simp

lemma canonicalize_Ok:
  assumes "canonicalizeBookFiles fl (d, n) = (Ok (), (d', n'))" "base_ok d"
  shows "base_ok d' \<and> recorded_paths d' = recorded_paths d \<and> pathless d' = pathless d \<and> (\<forall>h. canonical_at d' h)"
proof -
  let ?xs = "ListBookFileHashesNeedingCanonicalization d"
  obtain n1 where 1: "for_each promote ?xs fl (d, n1) = (Ok (), (d', n'))"
    using assms(1) by (auto simp: canonicalizeBookFiles_def bind_Ok query_def sql_Ok)
  have "keys_ok d" using assms(2) by (simp add: base_ok_def)
  from promotes_Ok [OF 1 assms(2) _ candidates_distinct [OF this]] have
    eff: "base_ok d' \<and> recorded_paths d' = recorded_paths d \<and> pathless d' = pathless d" and
    can: "\<And>h. h \<in> fst ` set ?xs \<or> canonical_at d h \<Longrightarrow> canonical_at d' h" using candidates_need by blast+
  have "canonical_at d h" if "h \<notin> fst ` set ?xs" for h
    unfolding canonical_at_def using not_candidate that by (metis fst_conv image_eqI)
  then show ?thesis using eff can by blast
qed

text \<open>Nothing is left to promote once every path is canonical.\<close>

lemma no_candidates: "\<forall>h. canonical_at d h \<Longrightarrow> ListBookFileHashesNeedingCanonicalization d = []"
proof (rule ccontr)
  assume c: "\<forall>h. canonical_at d h" and "ListBookFileHashesNeedingCanonicalization d \<noteq> []"
  then obtain h p m where "(h, p, m) \<in> set (ListBookFileHashesNeedingCanonicalization d)"
    by (metis list.set_intros(1) neq_Nil_conv prod_cases3)
  then have "needs_promotion d (h, p, m)" by (rule candidates_need)
  then obtain r where "r \<in> set (t_files d)" "bf_hash r = h" "(h, m) \<in> set (t_duplicates d)" "m < bf_path r"
    by (auto simp: needs_promotion_def)
  moreover from this have "bf_path r \<le> m" using c by (simp add: canonical_at_def)
  ultimately show False by simp
qed

lemma canonical_least:
  assumes "base_ok d" "\<forall>h. canonical_at d h" "r \<in> set (t_files d)" "(bf_hash r, p) \<in> recorded_paths d"
  shows "bf_path r \<le> p"
proof (cases "(bf_hash r, p) \<in> set (t_duplicates d)")
  case True
  then show ?thesis using assms(2,3) by (simp add: canonical_at_def)
next
  case False
  then obtain r' where "r' \<in> set (t_files d)" "bf_hash r' = bf_hash r" "bf_path r' = p" using assms(4) by (auto simp: recorded_paths_def)
  moreover have "inj_on bf_hash (set (t_files d))" using assms(1) by (simp add: base_ok_def keys_ok_def distinct_map)
  ultimately show ?thesis using assms(3) by (auto dest: inj_onD)
qed

lemma canonical_is_least:
  assumes "base_ok d" "\<forall>h. canonical_at d h" "r \<in> set (t_files d)" "(bf_hash r, p) \<in> recorded_paths d"
    "\<forall>q. (bf_hash r, q) \<in> recorded_paths d \<longrightarrow> p \<le> q"
  shows "bf_path r = p"
  using canonical_least [OF assms(1-4)] assms(3,5) by (force simp: recorded_paths_def intro: antisym)

lemma recorded_of_hash:
  assumes "base_ok d" "r \<in> set (t_files d)"
  shows "(bf_hash r, q) \<in> recorded_paths d \<longleftrightarrow> q = bf_path r \<or> (bf_hash r, q) \<in> set (t_duplicates d)"
proof -
  have "inj_on bf_hash (set (t_files d))" using assms(1) by (simp add: base_ok_def keys_ok_def distinct_map)
  then show ?thesis using assms(2) by (auto simp: recorded_paths_def dest: inj_onD)
qed

lemma same_rows_hashes:
  assumes "pathless d' = pathless d"
  shows "bf_hash ` set (t_files d') = bf_hash ` set (t_files d)"
proof -
  have "bf_hash ` set (t_files e) = bf_hash ` set (t_files (pathless e))" for e by (simp add: pathless_def image_image)
  then show ?thesis using assms by metis
qed

text \<open>When every path was seen with one content only, no promotion fails.\<close>

definition paths_unshared :: "db \<Rightarrow> bool" where
  "paths_unshared d \<longleftrightarrow> inj_on snd (recorded_paths d)"

lemma promotes_succeed:
  assumes "\<forall>k. fl k = None" "base_ok d" "\<forall>x \<in> set xs. needs_promotion d x" "distinct (map fst xs)" "paths_unshared d"
  shows "\<exists>d' n'. for_each promote xs fl (d, n) = (Ok (), (d', n'))"
  using assms
proof (induction xs arbitrary: d n)
  case (Cons x xs)
  obtain h c m where x: "x = (h, c, m)" by (rule prod_cases3)
  have need: "needs_promotion d (h, c, m)" using Cons.prems(3) by (simp add: x)
  then have h: "h \<in> bf_hash ` set (t_files d)" and hm: "(h, m) \<in> recorded_paths d" by (auto simp: needs_promotion_def recorded_paths_def)
  have free: "\<forall>r \<in> set (t_files d). bf_hash r \<noteq> h \<longrightarrow> bf_path r \<noteq> m"
  proof (intro ballI impI notI)
    fix r assume r: "r \<in> set (t_files d)" "bf_hash r \<noteq> h" "bf_path r = m"
    then have "(bf_hash r, m) \<in> recorded_paths d" by (auto simp: recorded_paths_def)
    then have "(bf_hash r, m) = (h, m)" using hm Cons.prems(5) unfolding paths_unshared_def by (elim inj_onD) simp_all
    then show False using r(2) by simp
  qed
  define e1 where "e1 = d\<lparr>t_duplicates := filter (\<lambda>r. r \<noteq> (h, m)) (t_duplicates d)\<rparr>"
  define e2 where "e2 = e1\<lparr>t_files := map (\<lambda>r. if bf_hash r = h then r\<lparr>bf_path := m\<rparr> else r) (t_files e1)\<rparr>"
  have "DeleteBookFileDuplicate h m fl (d, n) = (Ok (), (e1, Suc n))"
    using Cons.prems(1) by (simp add: DeleteBookFileDuplicate_def sql_Ok e1_def)
  moreover have "\<not> (\<exists>r \<in> set (t_files e1). bf_hash r \<noteq> h \<and> bf_path r = m \<and> h \<in> bf_hash ` set (t_files e1))"
    using free by (auto simp: e1_def)
  then have "UpdateBookFilePath h m fl (e1, Suc n) = (Ok (), (e2, Suc (Suc n)))"
    using Cons.prems(1) by (simp only: UpdateBookFilePath_def sql_Ok if_False e2_def)
  moreover have "map bf_hash (t_files e2) = map bf_hash (t_files d)"
    by (simp add: e2_def e1_def comp_def if_distrib cong: if_cong)
  then have "bf_hash ` set (t_files e2) = bf_hash ` set (t_files d)" by (metis list.set_map)
  then have "\<exists>e3. CreateBookFileDuplicate h c fl (e2, Suc (Suc n)) = (Ok (), (e3, Suc (Suc (Suc n))))"
    using Cons.prems(1) h by (simp add: CreateBookFileDuplicate_def sql_Ok)
  ultimately have "\<exists>d1 n1. promote (h, c, m) fl (d, n) = (Ok (), (d1, n1))" by (auto simp: promote_def bind_def)
  then obtain d1 n1 where 1: "promote (h, c, m) fl (d, n) = (Ok (), (d1, n1))" by blast
  note eff = promoted_ok [OF Cons.prems(2) need free] promoted_recorded_paths [OF Cons.prems(2) need]
    promoted_canonical [OF need] promoted_frame [where h = h and c = c and m = m and d = d]
  have d1: "d1 = promoted (h, c, m) d" using promote_Ok [OF 1] by simp
  have "h \<notin> fst ` set xs" "distinct (map fst xs)" using Cons.prems(4) by (simp_all add: x)
  then have "\<forall>y \<in> set xs. needs_promotion d1 y" using Cons.prems(3) eff(6) unfolding d1 by (metis image_eqI list.set_intros(2))
  moreover have "paths_unshared d1" using Cons.prems(5) eff(2) by (simp add: paths_unshared_def d1)
  ultimately have "\<exists>d' n'. for_each promote xs fl (d1, n1) = (Ok (), (d', n'))"
    using Cons.IH [OF Cons.prems(1) _ _ \<open>distinct (map fst xs)\<close>] eff(1) unfolding d1 by blast
  then show ?case using 1 by (simp add: x bind_Ok)
qed simp

section \<open>Errors\<close>

text \<open>On a working database the only statement of a promotion that can fail is the update of the path.\<close>

lemma promote_error:
  assumes "\<forall>k. fl k = None" "promote (h, c, m) fl (d, n) = (Err e, st)" "h \<in> bf_hash ` set (t_files d)"
  shows "e = UniqueViolation ''book_files.path''"
proof -
  define e1 where "e1 = d\<lparr>t_duplicates := filter (\<lambda>r. r \<noteq> (h, m)) (t_duplicates d)\<rparr>"
  have 1: "DeleteBookFileDuplicate h m fl (d, n) = (Ok (), (e1, Suc n))"
    using assms(1) by (simp add: DeleteBookFileDuplicate_def sql_Ok e1_def)
  show ?thesis
  proof (cases "\<exists>r \<in> set (t_files e1). bf_hash r \<noteq> h \<and> bf_path r = m \<and> h \<in> bf_hash ` set (t_files e1)")
    case True
    then have "UpdateBookFilePath h m fl (e1, Suc n) = (Err (UniqueViolation ''book_files.path''), (e1, Suc (Suc n)))"
      using assms(1) by (simp add: UpdateBookFilePath_def sql_def)
    then show ?thesis using assms(2) 1 by (simp add: promote_def bind_def)
  next
    case False
    define e2 where "e2 = e1\<lparr>t_files := map (\<lambda>r. if bf_hash r = h then r\<lparr>bf_path := m\<rparr> else r) (t_files e1)\<rparr>"
    have 2: "UpdateBookFilePath h m fl (e1, Suc n) = (Ok (), (e2, Suc (Suc n)))"
      using assms(1) False by (simp only: UpdateBookFilePath_def sql_Ok if_False e2_def)
    have "map bf_hash (t_files e2) = map bf_hash (t_files d)" by (simp add: e2_def e1_def comp_def if_distrib cong: if_cong)
    then have "h \<in> bf_hash ` set (t_files e2)" using assms(3) by (metis list.set_map)
    then have "\<exists>e3. CreateBookFileDuplicate h c fl (e2, Suc (Suc n)) = (Ok (), (e3, Suc (Suc (Suc n))))"
      using assms(1) by (simp add: CreateBookFileDuplicate_def sql_Ok)
    then show ?thesis using assms(2) 1 2 by (auto simp: promote_def bind_def)
  qed
qed

lemma promotes_error:
  assumes "\<forall>k. fl k = None" "for_each promote xs fl (d, n) = (Err e, st)" "\<forall>x \<in> set xs. fst x \<in> bf_hash ` set (t_files d)"
  shows "e = UniqueViolation ''book_files.path''"
  using assms
proof (induction xs arbitrary: d n)
  case (Cons x xs)
  obtain h c m where x: "x = (h, c, m)" by (rule prod_cases3)
  obtain r d1 n1 where r: "promote (h, c, m) fl (d, n) = (r, (d1, n1))" by (rule prod_cases3)
  show ?case
  proof (cases r)
    case (Inl e0)
    then show ?thesis using promote_error [OF Cons.prems(1), of h c m d n] r Inl Cons.prems(2,3) by (simp add: x bind_def)
  next
    case (Inr u)
    then have d1: "d1 = promoted (h, c, m) d" using promote_Ok r by simp
    have "bf_hash ` set (t_files d1) = bf_hash ` set (t_files d)"
      unfolding d1 using promoted_keys(1) [of h c m d] by (metis list.set_map)
    then show ?thesis using Cons.IH [OF Cons.prems(1), of d1 n1] r Inr Cons.prems(2,3) by (simp add: x bind_def)
  qed
qed (simp add: ret_def)

lemma canonicalize_error:
  assumes "\<forall>k. fl k = None" "base_ok d" "canonicalizeBookFiles fl (d, n) = (Err e, st)"
  shows "e = UniqueViolation ''book_files.path''"
proof -
  let ?xs = "ListBookFileHashesNeedingCanonicalization d"
  have "for_each promote ?xs fl (d, Suc n) = (Err e, st)"
    using assms(1,3) by (simp add: canonicalizeBookFiles_def bind_def query_def sql_def)
  moreover have "fst x \<in> bf_hash ` set (t_files d)" if "x \<in> set ?xs" for x
    using candidates_need [OF that] by (auto simp: needs_promotion_def)
  ultimately show ?thesis using promotes_error [OF assms(1)] by blast
qed

text \<open>A path that is the smallest of two contents cannot become the row of both.\<close>

lemma shared_path_blocks:
  assumes "base_ok d" "needs_promotion d (h, c, p)" "r \<in> set (t_files d)" "bf_path r = p" "bf_hash r \<noteq> h" "canonical_at d (bf_hash r)"
    "canonicalizeBookFiles fl (d, n) = (Ok (), (d1, n1))"
  shows False
proof -
  have k: "base_ok d1" "recorded_paths d1 = recorded_paths d" "pathless d1 = pathless d" "\<forall>h. canonical_at d1 h"
    using canonicalize_Ok [OF assms(7,1)] by simp_all
  obtain x0 where x0: "x0 \<in> set (t_files d)" "bf_hash x0 = h" "bf_path x0 = c" using assms(2) by (auto simp: needs_promotion_def)
  have least_h: "(h, p) \<in> recorded_paths d \<and> (\<forall>q. (h, q) \<in> recorded_paths d \<longrightarrow> p \<le> q)"
    using assms(2) recorded_of_hash [OF assms(1) x0(1)] x0(2,3) by (auto simp: needs_promotion_def)
  have least_r: "(bf_hash r, p) \<in> recorded_paths d \<and> (\<forall>q. (bf_hash r, q) \<in> recorded_paths d \<longrightarrow> p \<le> q)"
    using assms(3,4,6) recorded_of_hash [OF assms(1,3)] by (auto simp: canonical_at_def)
  have "h \<in> bf_hash ` set (t_files d1)" "bf_hash r \<in> bf_hash ` set (t_files d1)"
    unfolding same_rows_hashes [OF k(3)] using x0(1,2) assms(3) by auto
  then obtain x y where x: "x \<in> set (t_files d1)" "bf_hash x = h" and y: "y \<in> set (t_files d1)" "bf_hash y = bf_hash r" by auto
  have "bf_path x = p" using canonical_is_least [OF k(1,4) x(1), of p] least_h by (simp add: k(2) x(2))
  moreover have "bf_path y = p" using canonical_is_least [OF k(1,4) y(1), of p] least_r by (simp add: k(2) y(2))
  moreover have "inj_on bf_path (set (t_files d1))" using k(1) by (simp add: base_ok_def keys_ok_def distinct_map)
  ultimately have "x = y" using x(1) y(1) by (simp add: inj_onD)
  then show False using x(2) y(2) assms(5) by simp
qed

end
