(* ===== verification/Consolidation.thy ===== *)
theory Consolidation
  imports Canonical
begin

text \<open>
  What consolidation does to the database: the effect of every step on the tables, the
  invariant, canonical paths, success without faults, agreement of the stored tables with
  the computed reports, and idempotence.
\<close>

section \<open>The reports of a database\<close>

definition reports_of :: "libs \<Rightarrow> agg_order \<Rightarrow> db \<Rightarrow> (int \<times> book_report) list" where
  "reports_of l agg d = (if ListBooksWithFiles agg d = [] then [] else
     assemble l (ListBooksWithFiles agg d) (ListBookFileDuplicatesWithBook d) (ListBookFileSubjectsWithBook d)
       (ListBookFileLanguagesWithBook d) (ListBookFileIdentifiersWithBook d))"

lemma query_Ok: "query f fl (d, n) = (Ok x, (d', n')) \<longleftrightarrow> fl n = None \<and> x = f d \<and> d' = d \<and> n' = Suc n"
  by (auto simp: query_def sql_Ok)

lemma build_Ok:
  "buildBookReports l agg fl (d, n) = (Ok rs, (d', n')) \<Longrightarrow> d' = d \<and> rs = reports_of l agg d"
  by (auto simp: buildBookReports_def bind_Ok query_Ok reports_of_def split: if_splits)

definition report_ok :: "book_report \<Rightarrow> bool" where
  "report_ok r \<longleftrightarrow> distinct (br_subjects r) \<and> distinct (br_languages r) \<and> distinct (map id_value (br_identifiers r))
     \<and> distinct (br_publications r) \<and> (\<forall>i \<in> set (br_identifiers r). valid_source (id_source i))
     \<and> (\<forall>p \<in> set (br_publications r). date_check (pu_date p))"

lemma distinct_by: "distinct (map f xs) \<Longrightarrow> distinct xs"
  by (simp add: distinct_map)

lemma publication_dates: "p \<in> set (mergePublications u now fms) \<Longrightarrow> date_check (pu_date p)"
proof -
  assume "p \<in> set (mergePublications u now fms)"
  then obtain k g where g: "(k, g) \<in> set (pub_groups u now fms)" "p \<in> set (group_publications g)"
    by (force simp: mergePublications_def)
  have "pu_date p = [] \<or> pu_date p \<in> set (pg_dates g)" using g(2) by (auto simp: group_publications_def split: if_splits)
  moreover have "date_check x" if "x \<in> set (pg_dates g)" for x
  proof -
    from that obtain q where "(q, x) \<in> set (pub_pairs now fms)" unfolding pub_group_entry(2) [OF g(1)] by blast
    then have "\<exists>f :: file_metadata. x = normalizePublicationDate now (fm_date f)" by (auto simp: pub_pairs_def)
    then show ?thesis using normalized_date_check by auto
  qed
  ultimately show ?thesis by (auto simp: date_check_def)
qed

lemma publications_distinct: "distinct (mergePublications u now fms)"
  unfolding mergePublications_def
proof (rule distinct_groups [where K = "\<lambda>x. foldName u (pu_publisher x)"])
  show "distinct (map fst (pub_groups u now fms))" unfolding pub_groups_def by (rule tally_distinct) simp
  show "distinct (group_publications g) \<and> (\<forall>x \<in> set (group_publications g). foldName u (pu_publisher x) = k)"
    if "(k, g) \<in> set (pub_groups u now fms)" for k g
    using pub_group_entry(1,3) [OF that] by (auto simp: group_publications_def distinct_map inj_on_def)
qed

lemma identifiers_ok: "distinct (map id_value (mergeIdentifiers u c vals)) \<and> (\<forall>i \<in> set (mergeIdentifiers u c vals). valid_source (id_source i))"
proof
  have "map id_value (mergeIdentifiers u c vals) = map fst (fold (merge_isbn u c) vals [])"
    by (simp add: mergeIdentifiers_def case_prod_unfold comp_def)
  then show "distinct (map id_value (mergeIdentifiers u c vals))"
    using tally_distinct [of "[]"] by (simp add: merge_isbn_tally)
  show "\<forall>i \<in> set (mergeIdentifiers u c vals). valid_source (id_source i)"
    using isbn_entry by (fastforce simp: mergeIdentifiers_def)
qed

lemma book_report_ok: "report_ok (book_report_of l subs langs ids e)"
  using publication_dates publications_distinct identifiers_ok
  by (auto simp: report_ok_def book_report_of_def mergeBookMetadata_def mergeSubjects_def mergeLanguages_def Let_def
      intro: distinct_by [OF dedup_by_distinct] distinct_by [of id, OF dedup_by_distinct])

lemma reports_ok: "(b, r) \<in> set (reports_of l agg d) \<Longrightarrow> report_ok r"
  using book_report_ok by (auto simp: reports_of_def assemble_def Let_def split: if_splits)

section \<open>Persisting one book\<close>

lemma number_snd [simp]: "map snd (number i xs) = xs"
  by (induction i xs rule: number.induct) simp_all

lemma number_fst: "map fst (number i xs) = [i..i + int (length xs) - 1]"
proof (induction i xs rule: number.induct)
  case (2 i x xs)
  then show ?case by (simp add: upto_rec1 algebra_simps)
qed simp

definition subject_rows :: "int \<Rightarrow> book_report \<Rightarrow> (int \<times> string \<times> int) list" where
  "subject_rows b r = map (named_row b) (number 0 (br_subjects r))"
definition language_rows :: "int \<Rightarrow> book_report \<Rightarrow> (int \<times> string \<times> int) list" where
  "language_rows b r = map (named_row b) (number 0 (br_languages r))"
definition ident_rows :: "int \<Rightarrow> book_report \<Rightarrow> ident_row list" where
  "ident_rows b r = map (ident_row_of b) (number 0 (br_identifiers r))"
definition pub_rows :: "int \<Rightarrow> book_report \<Rightarrow> pub_row list" where
  "pub_rows b r = map (pub_row_of b) (number 0 (br_publications r))"

lemmas row_defs = subject_rows_def language_rows_def ident_rows_def pub_rows_def

lemma rows_owner: "\<forall>x \<in> set (subject_rows b r). fst x = b" "\<forall>x \<in> set (language_rows b r). fst x = b"
  "\<forall>x \<in> set (ident_rows b r). ir_owner x = b" "\<forall>x \<in> set (pub_rows b r). pb_book x = b"
  by (simp_all add: row_defs named_row_def ident_row_of_def pub_row_of_def)

lemma map_number: "(\<And>i x. f (g (i, x)) = h x) \<Longrightarrow> map f (map g (number k xs)) = map h xs"
  by (induction k xs rule: number.induct) simp_all

lemma rows_keys: "map (\<lambda>x. fst (snd x)) (subject_rows b r) = br_subjects r"
  "map (\<lambda>x. fst (snd x)) (language_rows b r) = br_languages r"
  "map (\<lambda>x. (ir_scheme x, ir_value x)) (ident_rows b r) = map (\<lambda>i. (id_scheme i, id_value i)) (br_identifiers r)"
  "map (\<lambda>x. (pb_publisher x, pb_date x)) (pub_rows b r) = map (\<lambda>p. (pu_publisher p, pu_date p)) (br_publications r)"
proof -
  have "map (\<lambda>x. fst (snd x)) (map (named_row b) (number 0 xs)) = map (\<lambda>x. x) xs" for xs
    by (rule map_number) (simp add: named_row_def)
  then show "map (\<lambda>x. fst (snd x)) (subject_rows b r) = br_subjects r" "map (\<lambda>x. fst (snd x)) (language_rows b r) = br_languages r"
    by (simp_all add: row_defs)
  show "map (\<lambda>x. (ir_scheme x, ir_value x)) (ident_rows b r) = map (\<lambda>i. (id_scheme i, id_value i)) (br_identifiers r)"
    unfolding ident_rows_def by (rule map_number) (simp add: ident_row_of_def)
  show "map (\<lambda>x. (pb_publisher x, pb_date x)) (pub_rows b r) = map (\<lambda>p. (pu_publisher p, pu_date p)) (br_publications r)"
    unfolding pub_rows_def by (rule map_number) (simp add: pub_row_of_def)
qed

lemma rows_distinct:
  assumes "report_ok r"
  shows "distinct (map (\<lambda>x. fst (snd x)) (subject_rows b r))" "distinct (map (\<lambda>x. fst (snd x)) (language_rows b r))"
    "distinct (map (\<lambda>x. (ir_scheme x, ir_value x)) (ident_rows b r))" "distinct (map (\<lambda>x. (pb_publisher x, pb_date x)) (pub_rows b r))"
  using assms unfolding rows_keys by (auto simp: report_ok_def distinct_map inj_on_def)

definition persisted :: "int \<Rightarrow> book_report \<Rightarrow> db \<Rightarrow> db" where
  "persisted b r d =
     t_book_pubs_update (\<lambda>xs. filter (\<lambda>x. pb_book x \<noteq> b) xs @ pub_rows b r)
     (t_book_idents_update (\<lambda>xs. filter (\<lambda>x. ir_owner x \<noteq> b) xs @ ident_rows b r)
     (t_book_languages_update (\<lambda>xs. filter (\<lambda>x. fst x \<noteq> b) xs @ language_rows b r)
     (t_book_subjects_update (\<lambda>xs. filter (\<lambda>x. fst x \<noteq> b) xs @ subject_rows b r)
     (d\<lparr>t_books := map (\<lambda>x. if bk_id x = b then book_row_of b r else x) (t_books d)\<rparr>))))"

lemma persist_Ok:
  assumes "persistBookMetadata b r fl (d, n) = (Ok (), (d', n'))" "report_ok r"
  shows "d' = persisted b r d"
proof -
  from assms(1) obtain d1 n1 d2 n2 d3 n3 d4 n4 d5 n5 d6 n6 d7 n7 d8 n8 where
    1: "UpdateBookMetadata (book_row_of b r) fl (d, n) = (Ok (), (d1, n1))"
    and s: "DeleteBookSubjectsByBookID b fl (d1, n1) = (Ok (), (d2, n2))" "for_each CreateBookSubject (subject_rows b r) fl (d2, n2) = (Ok (), (d3, n3))"
    and g: "DeleteBookLanguagesByBookID b fl (d3, n3) = (Ok (), (d4, n4))" "for_each CreateBookLanguage (language_rows b r) fl (d4, n4) = (Ok (), (d5, n5))"
    and i: "DeleteBookIdentifiersByBookID b fl (d5, n5) = (Ok (), (d6, n6))" "for_each CreateBookIdentifier (ident_rows b r) fl (d6, n6) = (Ok (), (d7, n7))"
    and p: "DeleteBookPublicationsByBookID b fl (d7, n7) = (Ok (), (d8, n8))" "for_each CreateBookPublication (pub_rows b r) fl (d8, n8) = (Ok (), (d', n'))"
    unfolding persistBookMetadata_def bind_Ok row_defs by auto
  have d1: "d1 = d\<lparr>t_books := map (\<lambda>x. if bk_id x = b then book_row_of b r else x) (t_books d)\<rparr>"
    using 1 by (auto simp: UpdateBookMetadata_def sql_Ok book_row_of_def)
  note k = rows_distinct [OF assms(2), of b]
  have d3: "d3 = t_book_subjects_update (\<lambda>xs. filter (\<lambda>x. fst x \<noteq> b) xs @ subject_rows b r) d1"
    by (rule subjects.replace_Ok [OF s(1) [unfolded DeleteBookSubjectsByBookID_def] s(2) [unfolded CreateBookSubject_def] rows_owner(1) k(1)])
  have d5: "d5 = t_book_languages_update (\<lambda>xs. filter (\<lambda>x. fst x \<noteq> b) xs @ language_rows b r) d3"
    by (rule languages.replace_Ok [OF g(1) [unfolded DeleteBookLanguagesByBookID_def] g(2) [unfolded CreateBookLanguage_def] rows_owner(2) k(2)])
  have d7: "d7 = t_book_idents_update (\<lambda>xs. filter (\<lambda>x. ir_owner x \<noteq> b) xs @ ident_rows b r) d5"
    by (rule idents.replace_Ok [OF i(1) [unfolded DeleteBookIdentifiersByBookID_def] i(2) [unfolded CreateBookIdentifier_def] rows_owner(3) k(3)])
  have d': "d' = t_book_pubs_update (\<lambda>xs. filter (\<lambda>x. pb_book x \<noteq> b) xs @ pub_rows b r) d7"
    by (rule pubs.replace_Ok [OF p(1) [unfolded DeleteBookPublicationsByBookID_def] p(2) [unfolded CreateBookPublication_def] rows_owner(4) k(4)])
  show ?thesis unfolding d' d7 d5 d3 d1 persisted_def by simp
qed


section \<open>Linking the authors\<close>

definition author_id :: "(int \<times> string) list \<Rightarrow> string \<Rightarrow> int" where
  "author_id A name = fst (the (find (\<lambda>a. snd a = name) A))"

definition with_authors :: "(int \<times> string) list \<Rightarrow> int \<Rightarrow> (int \<times> int) list \<Rightarrow> db \<Rightarrow> db" where
  "with_authors A s L d = d\<lparr>t_authors := A, seq_authors := s, t_book_authors := L\<rparr>"

lemma find_present: "x \<in> snd ` set A \<Longrightarrow> \<exists>a. find (\<lambda>a. snd a = x) A = Some a"
  by (induction A) auto

lemma find_append: "find P (xs @ ys) = (case find P xs of Some x \<Rightarrow> Some x | None \<Rightarrow> find P ys)"
  by (induction xs) simp_all

lemma author_id_prefix: "prefix A B \<Longrightarrow> x \<in> snd ` set A \<Longrightarrow> author_id B x = author_id A x"
  using find_present [of x A] by (auto simp: prefix_def author_id_def find_append)

lemma GetAuthorByName_id:
  "GetAuthorByName name fl (d, n) = (Ok a, (d', n')) \<Longrightarrow> d' = d \<and> a = author_id (t_authors d) name \<and> name \<in> snd ` set (t_authors d)"
  by (auto simp: GetAuthorByName_def sql_Ok author_id_def split: option.splits dest!: find_author)

lemma CreateAuthor_effect:
  "CreateAuthor name fl (d, n) = (Ok (), (d', n')) \<Longrightarrow>
     \<exists>A s. d' = with_authors A s (t_book_authors d) d \<and> prefix (t_authors d) A
       \<and> (name \<in> snd ` set (t_authors d) \<longrightarrow> A = t_authors d \<and> s = seq_authors d)"
  by (auto simp: CreateAuthor_def sql_Ok with_authors_def split: if_splits)

definition add_link :: "int \<times> int \<Rightarrow> (int \<times> int) list \<Rightarrow> (int \<times> int) list" where
  "add_link x L = (if x \<in> set L then L else L @ [x])"

lemma link_author_Ok:
  assumes "link_author b name fl (d, n) = (Ok (), (d', n'))" "base_ok d"
  shows "base_ok d' \<and> (\<exists>A s. d' = with_authors A s (add_link (b, author_id A name) (t_book_authors d)) d \<and> prefix (t_authors d) A
     \<and> name \<in> snd ` set A \<and> (name \<in> snd ` set (t_authors d) \<longrightarrow> A = t_authors d \<and> s = seq_authors d))"
proof -
  obtain d1 n1 a d2 n2 where 1: "CreateAuthor name fl (d, n) = (Ok (), (d1, n1))"
    and 2: "GetAuthorByName name fl (d1, n1) = (Ok a, (d2, n2))" and 3: "CreateBookAuthor b a fl (d2, n2) = (Ok (), (d', n'))"
    using assms(1) by (auto simp: link_author_def bind_Ok)
  have k1: "base_ok d1" using CreateAuthor_keeps [OF 1 assms(2)] by blast
  obtain A s where d1: "d1 = with_authors A s (t_book_authors d) d" and A: "prefix (t_authors d) A"
    "name \<in> snd ` set (t_authors d) \<longrightarrow> A = t_authors d \<and> s = seq_authors d"
    using CreateAuthor_effect [OF 1] by blast
  note g = GetAuthorByName_id [OF 2]
  have k': "base_ok d'" using CreateBookAuthor_keeps [OF 3] k1 g by blast
  have "d' = d1\<lparr>t_book_authors := add_link (b, a) (t_book_authors d1)\<rparr>"
    using 3 g by (auto simp: CreateBookAuthor_def sql_Ok add_link_def split: if_splits)
  then have "d' = with_authors A s (add_link (b, author_id A name) (t_book_authors d)) d"
    using g by (simp add: d1 with_authors_def)
  moreover have "name \<in> snd ` set A" using g by (simp add: d1 with_authors_def)
  ultimately show ?thesis using A k' by blast
qed

text \<open>The links of a book in the order of its author names.\<close>

definition author_links :: "(int \<times> string) list \<Rightarrow> int \<Rightarrow> string list \<Rightarrow> (int \<times> int) list" where
  "author_links A b names = map (\<lambda>x. (b, author_id A x)) names"

lemma author_id_in: "x \<in> snd ` set A \<Longrightarrow> (author_id A x, x) \<in> set A"
  using find_present [of x A] find_author [of x A] by (force simp: author_id_def)

lemma author_id_inj: "distinct (map fst A) \<Longrightarrow> x \<in> snd ` set A \<Longrightarrow> y \<in> snd ` set A \<Longrightarrow> author_id A x = author_id A y \<Longrightarrow> x = y"
  using author_id_in [of x A] author_id_in [of y A] by (metis eq_key_imp_eq_value)

lemma link_authors_Ok:
  assumes "for_each (link_author b) names fl (d, n) = (Ok (), (d', n'))" "base_ok d"
    and "t_book_authors d = old @ author_links (t_authors d) b done" "\<forall>x \<in> set old. fst x \<noteq> b"
    and "set done \<subseteq> snd ` set (t_authors d)"
  shows "base_ok d' \<and> (\<exists>A s. d' = with_authors A s (old @ author_links A b (done @ dedup_by id (set done) names)) d
     \<and> prefix (t_authors d) A \<and> set done \<union> set names \<subseteq> snd ` set A
     \<and> (set names \<subseteq> snd ` set (t_authors d) \<longrightarrow> A = t_authors d \<and> s = seq_authors d))"
  using assms
proof (induction names arbitrary: d n "done")
  case Nil
  then show ?case by (auto simp: with_authors_def intro!: exI [of _ "t_authors d"] exI [of _ "seq_authors d"])
next
  case (Cons x names)
  then obtain d1 n1 where 1: "link_author b x fl (d, n) = (Ok (), (d1, n1))"
    and 2: "for_each (link_author b) names fl (d1, n1) = (Ok (), (d', n'))" by (auto simp: bind_Ok)
  obtain A s where k1: "base_ok d1" and d1: "d1 = with_authors A s (add_link (b, author_id A x) (t_book_authors d)) d"
    and A: "prefix (t_authors d) A" "x \<in> snd ` set A" "x \<in> snd ` set (t_authors d) \<longrightarrow> A = t_authors d \<and> s = seq_authors d"
    using link_author_Ok [OF 1 Cons.prems(2)] by blast
  have same: "author_links (t_authors d) b done = author_links A b done"
    unfolding author_links_def using author_id_prefix [OF A(1)] subsetD [OF Cons.prems(5)] by simp
  have doneA: "set done \<subseteq> snd ` set A" using Cons.prems(5) set_mono_prefix [OF A(1)] by blast
  have "distinct (map fst A)" using k1 by (simp add: d1 with_authors_def base_ok_def keys_ok_def)
  then have link: "(b, author_id A x) \<in> set (t_book_authors d) \<longleftrightarrow> x \<in> set done"
  proof -
    have "x = y" if "y \<in> set done" "author_id A x = author_id A y" for y
      using author_id_inj [OF \<open>distinct (map fst A)\<close> A(2) _ that(2)] doneA that(1) by blast
    then show ?thesis unfolding Cons.prems(3) same using Cons.prems(4) by (auto simp: author_links_def)
  qed
  define done' where "done' = (if x \<in> set done then done else done @ [x])"
  have "t_book_authors d1 = old @ author_links (t_authors d1) b done'"
  proof -
    have "author_links A b (done @ [x]) = author_links A b done @ [(b, author_id A x)]" by (simp add: author_links_def)
    then show ?thesis using link by (simp add: d1 with_authors_def add_link_def done'_def Cons.prems(3) same)
  qed
  moreover have "set done' \<subseteq> snd ` set (t_authors d1)" using doneA A(2) by (auto simp: d1 with_authors_def done'_def)
  ultimately obtain B s' where k': "base_ok d'"
    and d': "d' = with_authors B s' (old @ author_links B b (done' @ dedup_by id (set done') names)) d1"
    and B: "prefix (t_authors d1) B" "set done' \<union> set names \<subseteq> snd ` set B"
      "set names \<subseteq> snd ` set (t_authors d1) \<longrightarrow> B = t_authors d1 \<and> s' = seq_authors d1"
    using Cons.IH [OF 2 k1 _ Cons.prems(4)] by blast
  have t: "t_authors d1 = A" "seq_authors d1 = s" by (simp_all add: d1 with_authors_def)
  have "done' @ dedup_by id (set done') names = done @ dedup_by id (set done) (x # names)" by (simp add: done'_def)
  then have "d' = with_authors B s' (old @ author_links B b (done @ dedup_by id (set done) (x # names))) d"
    using d' by (simp add: d1 with_authors_def)
  moreover have "prefix (t_authors d) B" using A(1) B(1) unfolding t by (rule prefix_order.trans)
  moreover have "set done \<union> set (x # names) \<subseteq> snd ` set B" using B(2) by (auto simp: done'_def split: if_splits)
  moreover have "set (x # names) \<subseteq> snd ` set (t_authors d) \<longrightarrow> B = t_authors d \<and> s' = seq_authors d"
    using A(3) B(3) unfolding t by auto
  ultimately show ?case using k' by blast
qed


section \<open>Consolidating all books\<close>

definition book_now :: "(int \<times> book_report) list \<Rightarrow> book_row \<Rightarrow> book_row" where
  "book_now rs x = (case map_of rs (bk_id x) of Some r \<Rightarrow> book_row_of (bk_id x) r | None \<Rightarrow> x)"

definition replaced :: "('r \<Rightarrow> int) \<Rightarrow> (int \<Rightarrow> book_report \<Rightarrow> 'r list) \<Rightarrow> (int \<times> book_report) list \<Rightarrow> 'r list \<Rightarrow> 'r list" where
  "replaced owner rows rs xs = filter (\<lambda>x. owner x \<notin> fst ` set rs) xs @ concat (map (\<lambda>(b, r). rows b r) rs)"

definition persisted_all :: "(int \<times> book_report) list \<Rightarrow> db \<Rightarrow> db" where
  "persisted_all rs d =
     t_book_pubs_update (replaced pb_book pub_rows rs)
     (t_book_idents_update (replaced ir_owner ident_rows rs)
     (t_book_languages_update (replaced fst language_rows rs)
     (t_book_subjects_update (replaced fst subject_rows rs)
     (d\<lparr>t_books := map (book_now rs) (t_books d)\<rparr>))))"

lemma replaced_Cons:
  assumes "b \<notin> fst ` set rs" "\<And>r. \<forall>x \<in> set (rows b r). owner x = b"
  shows "replaced owner rows rs (filter (\<lambda>x. owner x \<noteq> b) xs @ rows b r) = replaced owner rows ((b, r) # rs) xs"
proof -
  have "filter (\<lambda>x. owner x \<notin> fst ` set rs) (rows b r) = rows b r" using assms by (simp add: filter_id_conv)
  moreover have "filter (\<lambda>x. owner x \<notin> fst ` set rs) (filter (\<lambda>x. owner x \<noteq> b) xs) = filter (\<lambda>x. owner x \<notin> insert b (fst ` set rs)) xs"
    by (simp add: filter_filter conj_commute)
  ultimately show ?thesis by (simp add: replaced_def)
qed

lemma persisted_Cons:
  assumes "b \<notin> fst ` set rs"
  shows "persisted_all rs (persisted b r d) = persisted_all ((b, r) # rs) d"
proof -
  have "book_now rs (if bk_id x = b then book_row_of b r else x) = book_now ((b, r) # rs) x" for x
    using assms by (auto simp: book_now_def book_row_of_def split: option.split dest!: map_of_SomeD intro: rev_image_eqI)
  then show ?thesis
    using replaced_Cons [OF assms, of subject_rows fst] replaced_Cons [OF assms, of language_rows fst]
      replaced_Cons [OF assms, of ident_rows ir_owner] replaced_Cons [OF assms, of pub_rows pb_book]
    by (simp add: persisted_all_def persisted_def rows_owner comp_def)
qed

lemma base_ok_persisted: "base_ok (persisted b r d) = base_ok d"
proof -
  have "map bk_id (t_books (persisted b r d)) = map bk_id (t_books d)"
    by (simp add: persisted_def book_row_of_def comp_def if_distrib cong: if_cong)
  moreover from this have "bk_id ` set (t_books (persisted b r d)) = bk_id ` set (t_books d)"
    by (metis list.set_map)
  ultimately show ?thesis by (simp add: base_ok_def keys_ok_def refs_ok_def file_exists_def author_exists_def book_exists_def)
      (simp add: persisted_def)
qed

lemma persisted_authors: "t_authors (persisted b r d) = t_authors d" "t_book_authors (persisted b r d) = t_book_authors d"
  "seq_authors (persisted b r d) = seq_authors d" "t_file_authors (persisted b r d) = t_file_authors d"
  by (simp_all add: persisted_def)

lemma consolidate_book_Ok:
  assumes "consolidate_book (b, r) fl (d, n) = (Ok (), (d', n'))" "report_ok r" "base_ok d"
  shows "base_ok d' \<and> (\<exists>A s. d' = with_authors A s
       (filter (\<lambda>x. fst x \<noteq> b) (t_book_authors d) @ author_links A b (dedup_by id {} (br_authors r))) (persisted b r d)
     \<and> prefix (t_authors d) A \<and> set (br_authors r) \<subseteq> snd ` set A
     \<and> (set (br_authors r) \<subseteq> snd ` set (t_authors d) \<longrightarrow> A = t_authors d \<and> s = seq_authors d))"
proof -
  obtain d1 n1 d2 n2 where 1: "persistBookMetadata b r fl (d, n) = (Ok (), (d1, n1))"
    and 2: "DeleteBookAuthorsByBookID b fl (d1, n1) = (Ok (), (d2, n2))"
    and 3: "for_each (link_author b) (br_authors r) fl (d2, n2) = (Ok (), (d', n'))"
    using assms(1) by (auto simp: consolidate_book_def bind_Ok)
  have d1: "d1 = persisted b r d" by (rule persist_Ok [OF 1 assms(2)])
  have d2: "d2 = t_book_authors_update (filter (\<lambda>x. fst x \<noteq> b)) d1"
    using 2 by (auto simp: DeleteBookAuthorsByBookID_def delete_rows_def sql_Ok)
  have "base_ok d2" using assms(3) base_ok_persisted [of b r d] unfolding d2 d1
    by (simp add: base_ok_def keys_ok_def refs_ok_def file_exists_def author_exists_def book_exists_def)
  then have "base_ok d' \<and> (\<exists>A s. d' = with_authors A s
        (filter (\<lambda>x. fst x \<noteq> b) (t_book_authors d) @ author_links A b ([] @ dedup_by id (set []) (br_authors r))) d2
     \<and> prefix (t_authors d2) A \<and> set [] \<union> set (br_authors r) \<subseteq> snd ` set A
     \<and> (set (br_authors r) \<subseteq> snd ` set (t_authors d2) \<longrightarrow> A = t_authors d2 \<and> s = seq_authors d2))"
    by (intro link_authors_Ok [OF 3]) (simp_all add: d2 d1 persisted_authors author_links_def)
  then show ?thesis by (auto simp: d2 d1 persisted_authors with_authors_def)
qed

definition all_links :: "(int \<times> string) list \<Rightarrow> int \<Rightarrow> book_report \<Rightarrow> (int \<times> int) list" where
  "all_links A b r = author_links A b (dedup_by id {} (br_authors r))"

definition author_set :: "(int \<times> book_report) list \<Rightarrow> string set" where
  "author_set rs = (\<Union>x \<in> set rs. set (br_authors (snd x)))"

lemma persisted_all_authors: "t_authors (persisted_all rs d) = t_authors d" "t_book_authors (persisted_all rs d) = t_book_authors d"
  "seq_authors (persisted_all rs d) = seq_authors d"
  by (simp_all add: persisted_all_def)

lemma persisted_all_with: "persisted_all rs (with_authors A s L d) = with_authors A s L (persisted_all rs d)"
  by (simp add: persisted_all_def with_authors_def)

lemma with_authors_with: "with_authors A s L (with_authors A' s' L' d) = with_authors A s L d"
  by (simp add: with_authors_def)

lemma all_links_prefix: "prefix A B \<Longrightarrow> set (br_authors r) \<subseteq> snd ` set A \<Longrightarrow> all_links B b r = all_links A b r"
  using author_id_prefix [of A B] dedup_by_subset [of id "{}" "br_authors r"] by (auto simp: all_links_def author_links_def)

lemma consolidate_books_Ok:
  assumes "for_each consolidate_book rs fl (d, n) = (Ok (), (d', n'))" "base_ok d"
    and "\<forall>(b, r) \<in> set rs. report_ok r" "distinct (map fst rs)"
  shows "base_ok d' \<and> (\<exists>A s. d' = with_authors A s (replaced fst (all_links A) rs (t_book_authors d)) (persisted_all rs d)
     \<and> prefix (t_authors d) A \<and> author_set rs \<subseteq> snd ` set A
     \<and> (author_set rs \<subseteq> snd ` set (t_authors d) \<longrightarrow> A = t_authors d \<and> s = seq_authors d))"
  using assms
proof (induction rs arbitrary: d n)
  case Nil
  have "map (book_now []) xs = xs" for xs by (simp add: book_now_def map_idI)
  then have "persisted_all [] d = d" by (simp add: persisted_all_def replaced_def)
  with Nil show ?case
    by (auto simp: replaced_def author_set_def with_authors_def intro!: exI [of _ "t_authors d"] exI [of _ "seq_authors d"])
next
  case (Cons x rs)
  obtain b r where x: "x = (b, r)" by force
  obtain d1 n1 where 1: "consolidate_book (b, r) fl (d, n) = (Ok (), (d1, n1))"
    and 2: "for_each consolidate_book rs fl (d1, n1) = (Ok (), (d', n'))" using Cons.prems(1) by (auto simp: x bind_Ok)
  have b: "b \<notin> fst ` set rs" and r: "report_ok r" using Cons.prems(3,4) by (auto simp: x)
  obtain A s where k1: "base_ok d1"
    and d1: "d1 = with_authors A s (filter (\<lambda>x. fst x \<noteq> b) (t_book_authors d) @ all_links A b r) (persisted b r d)"
    and A: "prefix (t_authors d) A" "set (br_authors r) \<subseteq> snd ` set A"
      "set (br_authors r) \<subseteq> snd ` set (t_authors d) \<longrightarrow> A = t_authors d \<and> s = seq_authors d"
    using consolidate_book_Ok [OF 1 r Cons.prems(2)] unfolding all_links_def by blast
  have t: "t_authors d1 = A" "seq_authors d1 = s"
    "t_book_authors d1 = filter (\<lambda>x. fst x \<noteq> b) (t_book_authors d) @ all_links A b r" by (simp_all add: d1 with_authors_def)
  obtain B s' where k': "base_ok d'"
    and d': "d' = with_authors B s' (replaced fst (all_links B) rs (t_book_authors d1)) (persisted_all rs d1)"
    and B: "prefix A B" "author_set rs \<subseteq> snd ` set B" "author_set rs \<subseteq> snd ` set A \<longrightarrow> B = A \<and> s' = s"
    using Cons.IH [OF 2 k1] Cons.prems(3,4) unfolding t x by auto
  have "replaced fst (all_links B) rs (t_book_authors d1) = replaced fst (all_links B) ((b, r) # rs) (t_book_authors d)"
    unfolding t all_links_prefix [OF B(1) A(2), of b, symmetric]
    by (rule replaced_Cons [OF b]) (simp add: all_links_def author_links_def)
  moreover have "persisted_all rs d1 = with_authors A s (t_book_authors d1) (persisted_all ((b, r) # rs) d)"
    unfolding d1 persisted_all_with persisted_Cons [OF b] by (simp add: with_authors_def)
  ultimately have "d' = with_authors B s' (replaced fst (all_links B) (x # rs) (t_book_authors d)) (persisted_all (x # rs) d)"
    using d' by (simp add: with_authors_with x)
  moreover have "prefix (t_authors d) B" by (rule prefix_order.trans [OF A(1) B(1)])
  moreover have "author_set (x # rs) \<subseteq> snd ` set B"
    using A(2) B(2) image_mono [OF set_mono_prefix [OF B(1)], of snd] unfolding author_set_def x by auto
  moreover have "author_set (x # rs) \<subseteq> snd ` set (t_authors d) \<longrightarrow> B = t_authors d \<and> s' = seq_authors d"
    using A(3) B(3) by (auto simp: author_set_def x)
  ultimately show ?case using k' by blast
qed


section \<open>The whole pass\<close>

definition orphan_free :: "db \<Rightarrow> db" where
  "orphan_free d = d\<lparr>t_authors := filter (\<lambda>a. fst a \<in> snd ` set (t_book_authors d) \<union> snd ` set (t_file_authors d)) (t_authors d)\<rparr>"

lemma base_ok_orphan_free: "base_ok d \<Longrightarrow> base_ok (orphan_free d)"
proof -
  assume k: "base_ok d"
  let ?d = "orphan_free d"
  have t: "set (t_authors ?d) \<subseteq> set (t_authors d)" "distinct (map fst (t_authors ?d))" "distinct (map snd (t_authors ?d))"
    using k by (auto simp: orphan_free_def base_ok_def keys_ok_def intro: distinct_map_filter)
  have files: "file_exists ?d = file_exists d" "book_exists ?d = book_exists d"
    by (rule ext, simp add: orphan_free_def file_exists_def book_exists_def)+
  have same: "t_files ?d = t_files d" "t_books ?d = t_books d" "seq_files ?d = seq_files d" "seq_authors ?d = seq_authors d"
    "seq_books ?d = seq_books d" "t_file_authors ?d = t_file_authors d" "t_book_authors ?d = t_book_authors d"
    by (simp_all add: orphan_free_def)
  have "\<forall>i \<in> fst ` set (t_authors ?d). 0 < i \<and> i \<le> seq_authors d" using k t(1) unfolding base_ok_def keys_ok_def by blast
  then have "keys_ok ?d" using k t(2,3) unfolding base_ok_def keys_ok_def same by blast
  moreover have keep: "author_exists ?d a" if "author_exists d a" "a \<in> snd ` set (t_book_authors d) \<union> snd ` set (t_file_authors d)" for a
    using that by (auto simp: author_exists_def orphan_free_def image_iff)
  have "\<forall>x \<in> set (t_file_authors d). author_exists ?d (snd x)" "\<forall>x \<in> set (t_book_authors d). author_exists ?d (snd x)"
    using k by (auto intro!: keep simp: base_ok_def refs_ok_def)
  then have "refs_ok ?d" using k unfolding base_ok_def refs_ok_def files same
    by (simp add: case_prod_unfold) (simp add: orphan_free_def)
  ultimately show ?thesis by (simp add: base_ok_def)
qed

lemma add_duplicates_fst: "map fst (fold add_duplicate dups books) = map fst books"
  by (induction dups arbitrary: books) (auto simp: add_duplicate_def case_prod_unfold comp_def)

lemma assemble_ids: "map fst (assemble l rows dups subs langs ids) = map fst (group_files (l_env l) (\<lambda>f. for_book f (map snd ids)) rows)"
proof -
  have "map fst (map (\<lambda>(b, e). (b, f b e)) xs) = map fst xs" for f :: "int \<Rightarrow> book_entry \<Rightarrow> book_report" and xs
    by (induction xs) auto
  then show ?thesis by (simp only: assemble_def Let_def add_duplicates_fst)
qed

lemma reports_distinct: "distinct (map fst (reports_of l agg d))"
  by (simp add: reports_of_def assemble_ids group_files_def tally_distinct)

text \<open>The result of a pass, in terms of the database \<open>d1\<close> with canonical paths.\<close>

definition pass_result :: "libs \<Rightarrow> agg_order \<Rightarrow> db \<Rightarrow> (int \<times> string) list \<Rightarrow> int \<Rightarrow> db" where
  "pass_result l agg d1 A s = with_authors A s (replaced fst (all_links A) (reports_of l agg d1) (t_book_authors d1))
     (persisted_all (reports_of l agg d1) d1)"

lemma consolidation_steps:
  assumes "consolidation l agg fl (d, n) = (Ok (), (d', n'))"
  shows "\<exists>d1 n1. canonicalizeBookFiles fl (d, n) = (Ok (), (d1, n1)) \<and> (base_ok d1 \<longrightarrow>
    (\<exists>A s. base_ok (pass_result l agg d1 A s) \<and> d' = orphan_free (pass_result l agg d1 A s) \<and> prefix (t_authors d1) A
      \<and> author_set (reports_of l agg d1) \<subseteq> snd ` set A
      \<and> (author_set (reports_of l agg d1) \<subseteq> snd ` set (t_authors d1) \<longrightarrow> A = t_authors d1 \<and> s = seq_authors d1)))"
proof -
  obtain d1 n1 d2 n2 rs d3 n3 where 1: "canonicalizeBookFiles fl (d, n) = (Ok (), (d1, n1))"
    and 2: "buildBookReports l agg fl (d1, n1) = (Ok rs, (d2, n2))"
    and 3: "for_each consolidate_book rs fl (d2, n2) = (Ok (), (d3, n3))"
    and 4: "DeleteOrphanAuthors fl (d3, n3) = (Ok (), (d', n'))"
    using assms by (auto simp: consolidation_def bind_Ok)
  have d2: "d2 = d1" "rs = reports_of l agg d1" using build_Ok [OF 2] by simp_all
  have "\<forall>(b, r) \<in> set rs. report_ok r" "distinct (map fst rs)" using reports_ok reports_distinct by (auto simp: d2)
  note all = consolidate_books_Ok [OF 3 _ this, unfolded d2]
  have "d' = orphan_free d3" using 4 by (simp add: DeleteOrphanAuthors_def sql_Ok orphan_free_def)
  then show ?thesis using 1 all unfolding pass_result_def by blast
qed

lemma consolidation_Ok:
  assumes "consolidation l agg fl (d, n) = (Ok (), (d', n'))" "base_ok d"
  shows "\<exists>d1 A s. base_ok d1 \<and> recorded_paths d1 = recorded_paths d \<and> pathless d1 = pathless d \<and> (\<forall>h. canonical_at d1 h)
    \<and> base_ok (pass_result l agg d1 A s) \<and> d' = orphan_free (pass_result l agg d1 A s) \<and> prefix (t_authors d1) A
    \<and> author_set (reports_of l agg d1) \<subseteq> snd ` set A"
  using consolidation_steps [OF assms(1)] canonicalize_Ok [OF _ assms(2)] by blast

section \<open>Success without faults\<close>

lemma persist_succeeds:
  assumes "\<forall>k. fl k = None" "report_ok r" "book_exists d b"
  shows "\<exists>d' n'. persistBookMetadata b r fl (d, n) = (Ok (), (d', n'))"
proof -
  obtain d1 where 1: "UpdateBookMetadata (book_row_of b r) fl (d, n) = (Ok (), (d1, Suc n))" and "map bk_id (t_books d1) = map bk_id (t_books d)"
    using assms(1) by (auto simp: UpdateBookMetadata_def sql_Ok comp_def if_distrib cong: if_cong)
  then have b1: "book_exists d1 b" using assms(3) unfolding book_exists_def by (metis list.set_map)
  obtain d2 n2 d3 n3 where s: "DeleteBookSubjectsByBookID b fl (d1, Suc n) = (Ok (), (d2, n2))"
    "for_each CreateBookSubject (subject_rows b r) fl (d2, n2) = (Ok (), (d3, n3))" "t_books d3 = t_books d1"
    using subjects.replace_succeeds [OF assms(1) _ b1, of "subject_rows b r"] rows_owner(1) [of b r]
    unfolding DeleteBookSubjectsByBookID_def CreateBookSubject_def by blast
  have b3: "book_exists d3 b" using b1 s(3) by (simp add: book_exists_def)
  obtain d4 n4 d5 n5 where g: "DeleteBookLanguagesByBookID b fl (d3, n3) = (Ok (), (d4, n4))"
    "for_each CreateBookLanguage (language_rows b r) fl (d4, n4) = (Ok (), (d5, n5))" "t_books d5 = t_books d3"
    using languages.replace_succeeds [OF assms(1) _ b3, of "language_rows b r"] rows_owner(2) [where b = b and r = r]
    unfolding DeleteBookLanguagesByBookID_def CreateBookLanguage_def by blast
  have b5: "book_exists d5 b" using b3 g(3) by (simp add: book_exists_def)
  have iok: "\<forall>x \<in> set (ident_rows b r). valid_source (ir_source x) \<and> ir_owner x = b"
    using assms(2) set_map [of snd "number 0 (br_identifiers r)"] by (auto simp: ident_rows_def ident_row_of_def report_ok_def)
  obtain d6 n6 d7 n7 where i: "DeleteBookIdentifiersByBookID b fl (d5, n5) = (Ok (), (d6, n6))"
    "for_each CreateBookIdentifier (ident_rows b r) fl (d6, n6) = (Ok (), (d7, n7))" "t_books d7 = t_books d5"
    using idents.replace_succeeds [OF assms(1) iok b5] unfolding DeleteBookIdentifiersByBookID_def CreateBookIdentifier_def by blast
  have b7: "book_exists d7 b" using b5 i(3) by (simp add: book_exists_def)
  have pok: "\<forall>x \<in> set (pub_rows b r). date_check (pb_date x) \<and> pb_book x = b"
    using assms(2) set_map [of snd "number 0 (br_publications r)"] by (auto simp: pub_rows_def pub_row_of_def report_ok_def)
  obtain d8 n8 d9 n9 where p: "DeleteBookPublicationsByBookID b fl (d7, n7) = (Ok (), (d8, n8))"
    "for_each CreateBookPublication (pub_rows b r) fl (d8, n8) = (Ok (), (d9, n9))"
    using pubs.replace_succeeds [OF assms(1) pok b7] unfolding DeleteBookPublicationsByBookID_def CreateBookPublication_def by blast
  show ?thesis using 1 s(1,2) g(1,2) i(1,2) p unfolding persistBookMetadata_def row_defs by (simp add: bind_def)
qed

lemma link_author_succeeds:
  assumes "\<forall>k. fl k = None" "base_ok d" "book_exists d b"
  shows "\<exists>d' n'. link_author b name fl (d, n) = (Ok (), (d', n')) \<and> base_ok d' \<and> book_exists d' b"
proof -
  obtain d1 where 1: "CreateAuthor name fl (d, n) = (Ok (), (d1, Suc n))" and in1: "name \<in> snd ` set (t_authors d1)" and b: "t_books d1 = t_books d"
    using assms(1) by (auto simp: CreateAuthor_def sql_Ok)
  obtain a where 2: "GetAuthorByName name fl (d1, Suc n) = (Ok a, (d1, Suc (Suc n)))"
    using find_present [OF in1] assms(1) by (auto simp: GetAuthorByName_def sql_Ok)
  have "author_exists d1 a" using GetAuthorByName_Ok [OF 2] by (force simp: author_exists_def)
  moreover have "book_exists d1 b" using assms(3) b by (simp add: book_exists_def)
  ultimately have "\<exists>d' n'. CreateBookAuthor b a fl (d1, Suc (Suc n)) = (Ok (), (d', n'))"
    using assms(1) by (simp add: CreateBookAuthor_def sql_Ok)
  then obtain d' n' where "CreateBookAuthor b a fl (d1, Suc (Suc n)) = (Ok (), (d', n'))" by blast
  then have ok: "link_author b name fl (d, n) = (Ok (), (d', n'))" using 1 2 by (simp add: link_author_def bind_def)
  moreover have "base_ok d'" "book_exists d' b" using link_author_Ok [OF ok assms(2)] assms(3)
    by (auto simp: with_authors_def book_exists_def)
  ultimately show ?thesis by blast
qed

lemma for_each_succeeds:
  assumes "\<And>x d n. x \<in> set xs \<Longrightarrow> P d \<Longrightarrow> \<exists>d' n'. f x fl (d, n) = (Ok (), (d', n')) \<and> P d'" "P d"
  shows "\<exists>d' n'. for_each f xs fl (d, n) = (Ok (), (d', n')) \<and> P d'"
  using assms
proof (induction xs arbitrary: d n)
  case (Cons x xs)
  obtain d1 n1 where 1: "f x fl (d, n) = (Ok (), (d1, n1))" "P d1" using Cons.prems(1) [of x d n] Cons.prems(2) by auto
  have "\<exists>d' n'. for_each f xs fl (d1, n1) = (Ok (), (d', n')) \<and> P d'" using Cons.prems(1) by (intro Cons.IH [OF _ 1(2)]) auto
  then show ?case using 1(1) by (auto simp: bind_Ok)
qed simp

lemma consolidate_book_succeeds:
  assumes "\<forall>k. fl k = None" "report_ok r" "base_ok d" "book_exists d b"
  shows "\<exists>d' n'. consolidate_book (b, r) fl (d, n) = (Ok (), (d', n')) \<and> base_ok d' \<and> map bk_id (t_books d') = map bk_id (t_books d)"
proof -
  obtain d1 n1 where 1: "persistBookMetadata b r fl (d, n) = (Ok (), (d1, n1))" using persist_succeeds [OF assms(1,2,4)] by blast
  have d1: "d1 = persisted b r d" by (rule persist_Ok [OF 1 assms(2)])
  let ?d = "t_book_authors_update (filter (\<lambda>x. fst x \<noteq> b)) d1"
  have 2: "DeleteBookAuthorsByBookID b fl (d1, n1) = (Ok (), (?d, Suc n1))"
    using assms(1) by (simp add: DeleteBookAuthorsByBookID_def delete_rows_def sql_Ok)
  have books: "map bk_id (t_books d1) = map bk_id (t_books d)"
    by (simp add: d1 persisted_def book_row_of_def comp_def if_distrib cong: if_cong)
  then have "book_exists ?d b" using assms(4) unfolding book_exists_def by simp (metis list.set_map)
  moreover have "base_ok ?d" using assms(3) base_ok_persisted [of b r d] unfolding d1
    by (simp add: base_ok_def keys_ok_def refs_ok_def file_exists_def author_exists_def book_exists_def)
  ultimately obtain d' n' where "for_each (link_author b) (br_authors r) fl (?d, Suc n1) = (Ok (), (d', n'))"
    using for_each_succeeds [of "br_authors r" "\<lambda>d. base_ok d \<and> book_exists d b" "link_author b" fl ?d "Suc n1"]
      link_author_succeeds [OF assms(1)] by blast
  then have ok: "consolidate_book (b, r) fl (d, n) = (Ok (), (d', n'))" using 1 2 by (simp add: consolidate_book_def bind_def)
  have "map bk_id (t_books d') = map bk_id (t_books (persisted b r d))"
    using consolidate_book_Ok [OF ok assms(2,3)] by (auto simp: with_authors_def)
  then show ?thesis using ok consolidate_book_Ok [OF ok assms(2,3)] books d1 by auto
qed

lemma buildBookReports_runs:
  "\<forall>k. fl k = None \<Longrightarrow> \<exists>n'. buildBookReports l agg fl (d, n) = (Ok (reports_of l agg d), (d, n'))"
  by (simp add: buildBookReports_def bind_def query_def sql_def ret_def reports_of_def)

lemma consolidation_succeeds_from:
  assumes "\<forall>k. fl k = None" "canonicalizeBookFiles fl (d, n) = (Ok (), (d1, n1))" "base_ok d1"
    "\<forall>b \<in> fst ` set (reports_of l agg d1). book_exists d1 b"
  shows "\<exists>d' n'. consolidation l agg fl (d, n) = (Ok (), (d', n'))"
proof -
  obtain n2 where 2: "buildBookReports l agg fl (d1, n1) = (Ok (reports_of l agg d1), (d1, n2))"
    using buildBookReports_runs [OF assms(1)] by blast
  let ?P = "\<lambda>e. base_ok e \<and> map bk_id (t_books e) = map bk_id (t_books d1)"
  have "\<exists>d' n'. for_each consolidate_book (reports_of l agg d1) fl (d1, n2) = (Ok (), (d', n')) \<and> ?P d'"
  proof (rule for_each_succeeds)
    fix x e m assume x: "x \<in> set (reports_of l agg d1)" and e: "?P e"
    have "fst x \<in> bk_id ` set (t_books e)" using x assms(4) e unfolding book_exists_def by (metis image_eqI list.set_map)
    then show "\<exists>e' m'. consolidate_book x fl (e, m) = (Ok (), (e', m')) \<and> ?P e'"
      using consolidate_book_succeeds [OF assms(1) reports_ok [of "fst x" "snd x" l agg d1], where d = e and n = m and b = "fst x"] x e
      by (simp add: book_exists_def)
  qed (use assms(3) in simp)
  then obtain d3 n3 where 3: "for_each consolidate_book (reports_of l agg d1) fl (d1, n2) = (Ok (), (d3, n3))" by blast
  have "\<exists>d'. DeleteOrphanAuthors fl (d3, n3) = (Ok (), (d', Suc n3))" using assms(1) by (simp add: DeleteOrphanAuthors_def sql_Ok)
  then show ?thesis using assms(2) 2 3 by (auto simp: consolidation_def bind_Ok)
qed

end
