(* ===== verification/BookTables.thy ===== *)
theory BookTables
  imports Consolidation
begin

text \<open>
  The database after a successful \<open>Consolidate\<close>: which tables are untouched, how author names
  survive the deletion of orphans, and the invariant.
\<close>

section \<open>What the pass keeps\<close>

definition file_author_names :: "db \<Rightarrow> (int \<times> string) list" where
  "file_author_names d = map (\<lambda>(f, a). (f, author_name d a)) (t_file_authors d)"

text \<open>Everything a scan recorded about the files, apart from their paths.\<close>

definition raw_data where
  "raw_data d = (map (\<lambda>r. r\<lparr>bf_path := []\<rparr>) (t_files d), t_file_authors d, file_author_names d, t_file_subjects d, t_file_languages d,
     t_file_idents d, t_book_files d, t_buckets d, t_scan_runs d)"

lemma pathless_fields:
  assumes "pathless d' = pathless d"
  shows "map (\<lambda>r. r\<lparr>bf_path := []\<rparr>) (t_files d') = map (\<lambda>r. r\<lparr>bf_path := []\<rparr>) (t_files d)"
    "t_authors d' = t_authors d" "t_file_authors d' = t_file_authors d" "t_file_subjects d' = t_file_subjects d"
    "t_file_languages d' = t_file_languages d" "t_file_idents d' = t_file_idents d" "t_books d' = t_books d"
    "t_book_files d' = t_book_files d" "t_buckets d' = t_buckets d" "t_scan_runs d' = t_scan_runs d"
  using arg_cong [OF assms, of t_files] arg_cong [OF assms, of t_authors] arg_cong [OF assms, of t_file_authors]
    arg_cong [OF assms, of t_file_subjects] arg_cong [OF assms, of t_file_languages] arg_cong [OF assms, of t_file_idents]
    arg_cong [OF assms, of t_books] arg_cong [OF assms, of t_book_files] arg_cong [OF assms, of t_buckets]
    arg_cong [OF assms, of t_scan_runs]
  by (simp_all add: pathless_def)

lemma map_of_filter_key: "P k \<Longrightarrow> map_of (filter (\<lambda>x. P (fst x)) xs) k = map_of xs k"
  by (induction xs) auto

lemma author_name_prefix: "prefix (t_authors d) (t_authors e) \<Longrightarrow> author_exists d a \<Longrightarrow> author_name e a = author_name d a"
proof -
  assume p: "prefix (t_authors d) (t_authors e)" and "author_exists d a"
  then obtain n where "map_of (t_authors d) a = Some n" unfolding author_exists_def by (metis map_of_eq_None_iff not_None_eq)
  then show ?thesis using p by (auto simp: prefix_def author_name_def map_add_Some_iff)
qed

lemma author_name_orphan_free: "a \<in> snd ` set (t_book_authors d) \<union> snd ` set (t_file_authors d) \<Longrightarrow> author_name (orphan_free d) a = author_name d a"
  unfolding author_name_def orphan_free_def
  by (simp add: map_of_filter_key [where P = "\<lambda>k. k \<in> snd ` set (t_book_authors d) \<or> k \<in> snd ` set (t_file_authors d)"])

lemma book_now_id: "bk_id (book_now rs x) = bk_id x"
  by (simp add: book_now_def book_row_of_def split: option.split)

lemma persisted_all_fields: "t_files (persisted_all rs d) = t_files d" "t_file_authors (persisted_all rs d) = t_file_authors d"
  "t_file_subjects (persisted_all rs d) = t_file_subjects d" "t_file_languages (persisted_all rs d) = t_file_languages d"
  "t_file_idents (persisted_all rs d) = t_file_idents d" "t_book_files (persisted_all rs d) = t_book_files d"
  "t_buckets (persisted_all rs d) = t_buckets d" "t_scan_runs (persisted_all rs d) = t_scan_runs d"
  "t_duplicates (persisted_all rs d) = t_duplicates d" "map bk_id (t_books (persisted_all rs d)) = map bk_id (t_books d)"
  "t_book_subjects (persisted_all rs d) = replaced fst subject_rows rs (t_book_subjects d)"
  "t_book_languages (persisted_all rs d) = replaced fst language_rows rs (t_book_languages d)"
  "t_book_idents (persisted_all rs d) = replaced ir_owner ident_rows rs (t_book_idents d)"
  "t_book_pubs (persisted_all rs d) = replaced pb_book pub_rows rs (t_book_pubs d)"
  "t_books (persisted_all rs d) = map (book_now rs) (t_books d)"
  by (simp_all add: persisted_all_def book_now_id comp_def)

lemma pass_result_fields: "t_files (pass_result l agg d1 A s) = t_files d1" "t_file_authors (pass_result l agg d1 A s) = t_file_authors d1"
  "t_file_subjects (pass_result l agg d1 A s) = t_file_subjects d1" "t_file_languages (pass_result l agg d1 A s) = t_file_languages d1"
  "t_file_idents (pass_result l agg d1 A s) = t_file_idents d1" "t_book_files (pass_result l agg d1 A s) = t_book_files d1"
  "t_buckets (pass_result l agg d1 A s) = t_buckets d1" "t_scan_runs (pass_result l agg d1 A s) = t_scan_runs d1"
  "t_duplicates (pass_result l agg d1 A s) = t_duplicates d1" "map bk_id (t_books (pass_result l agg d1 A s)) = map bk_id (t_books d1)"
  "t_authors (pass_result l agg d1 A s) = A"
  by (simp_all add: pass_result_def with_authors_def persisted_all_fields book_now_id comp_def)

lemma orphan_free_fields: "t_files (orphan_free d) = t_files d" "t_file_authors (orphan_free d) = t_file_authors d"
  "t_file_subjects (orphan_free d) = t_file_subjects d" "t_file_languages (orphan_free d) = t_file_languages d"
  "t_file_idents (orphan_free d) = t_file_idents d" "t_book_files (orphan_free d) = t_book_files d"
  "t_buckets (orphan_free d) = t_buckets d" "t_scan_runs (orphan_free d) = t_scan_runs d"
  "t_duplicates (orphan_free d) = t_duplicates d" "t_books (orphan_free d) = t_books d" "t_book_authors (orphan_free d) = t_book_authors d"
  "t_book_subjects (orphan_free d) = t_book_subjects d" "t_book_languages (orphan_free d) = t_book_languages d"
  "t_book_idents (orphan_free d) = t_book_idents d" "t_book_pubs (orphan_free d) = t_book_pubs d"
  by (simp_all add: orphan_free_def)

lemma pass_keeps_names:
  assumes "base_ok d1" "prefix (t_authors d1) A" "(f, a) \<in> set (t_file_authors d1)"
  shows "author_name (orphan_free (pass_result l agg d1 A s)) a = author_name d1 a"
proof -
  have "author_exists d1 a" using assms(1,3) by (auto simp: base_ok_def refs_ok_def)
  then have "author_name (pass_result l agg d1 A s) a = author_name d1 a"
    using author_name_prefix [of d1 "pass_result l agg d1 A s"] assms(2) by (simp add: pass_result_fields)
  moreover have "a \<in> snd ` set (t_file_authors (pass_result l agg d1 A s))" using assms(3) by (force simp: pass_result_fields)
  ultimately show ?thesis by (simp add: author_name_orphan_free)
qed

lemma pass_keeps_raw:
  assumes "base_ok d1" "prefix (t_authors d1) A" "pathless d1 = pathless d"
  shows "raw_data (orphan_free (pass_result l agg d1 A s)) = raw_data d"
proof -
  let ?d = "orphan_free (pass_result l agg d1 A s)"
  have "file_author_names ?d = file_author_names d1"
    unfolding file_author_names_def orphan_free_fields pass_result_fields
    using pass_keeps_names [OF assms(1,2), of _ _ l agg s] by (intro map_cong [OF refl]) auto
  also have "\<dots> = file_author_names d" by (simp add: file_author_names_def author_name_def pathless_fields [OF assms(3)])
  finally show ?thesis by (simp add: raw_data_def orphan_free_fields pass_result_fields pathless_fields [OF assms(3)])
qed

lemma pass_keeps_inv:
  assumes "db_inv d" "base_ok d'" "raw_data d' = raw_data d" "map bk_id (t_books d') = map bk_id (t_books d)"
  shows "db_inv d'"
proof -
  have files: "map (\<lambda>r. r\<lparr>bf_path := []\<rparr>) (t_files d') = map (\<lambda>r. r\<lparr>bf_path := []\<rparr>) (t_files d)"
    and same: "t_book_files d' = t_book_files d" "t_buckets d' = t_buckets d" using assms(3) by (simp_all add: raw_data_def)
  have "bf_id ` set (t_files e) = bf_id ` set (map (\<lambda>r. r\<lparr>bf_path := []\<rparr>) (t_files e))" for e by (simp add: image_image)
  then have "bf_id ` set (t_files d') = bf_id ` set (t_files d)" using files by metis
  moreover have "bk_id ` set (t_books d') = bk_id ` set (t_books d)" using assms(4) by (metis list.set_map)
  moreover have "(\<Union>r \<in> set (t_files e). buckets_of r) = (\<Union>r \<in> set (map (\<lambda>r. r\<lparr>bf_path := []\<rparr>) (t_files e)). buckets_of r)" for e
    by (simp add: buckets_of_def)
  then have "(\<Union>r \<in> set (t_files d'). buckets_of r) = (\<Union>r \<in> set (t_files d). buckets_of r)" using files by metis
  ultimately show ?thesis using assms(1,2) by (simp add: db_inv_def base_ok_def books_ok_def buckets_ok_def same)
qed

lemma Consolidate_Ok:
  assumes "Consolidate l agg b c fl d = (None, d')" "db_inv d"
  shows "\<exists>d1 A s. base_ok d1 \<and> recorded_paths d1 = recorded_paths d \<and> pathless d1 = pathless d \<and> (\<forall>h. canonical_at d1 h)
    \<and> base_ok (pass_result l agg d1 A s) \<and> d' = orphan_free (pass_result l agg d1 A s) \<and> prefix (t_authors d1) A
    \<and> author_set (reports_of l agg d1) \<subseteq> snd ` set A"
proof -
  obtain n where "consolidation l agg fl (d, 0) = (Ok (), (d', n))" using assms(1) by (auto simp: Consolidate_def with_tx_ok)
  moreover have "base_ok d" using assms(2) by (simp add: db_inv_def base_ok_def)
  ultimately show ?thesis by (rule consolidation_Ok)
qed

lemma canonical_fields: "t_files d' = t_files d \<Longrightarrow> t_duplicates d' = t_duplicates d \<Longrightarrow>
    recorded_paths d' = recorded_paths d \<and> canonical_at d' = canonical_at d"
  by (simp add: recorded_paths_def canonical_at_def fun_eq_iff)

lemma Consolidate_keeps:
  assumes "db_inv d" "Consolidate l agg begin_err commit_err fl d = (None, d')"
  shows "db_inv d' \<and> raw_data d' = raw_data d \<and> recorded_paths d' = recorded_paths d"
proof -
  obtain d1 A s where r: "base_ok d1" "recorded_paths d1 = recorded_paths d" "pathless d1 = pathless d"
    "base_ok (pass_result l agg d1 A s)" "d' = orphan_free (pass_result l agg d1 A s)" "prefix (t_authors d1) A"
    using Consolidate_Ok [OF assms(2,1)] by blast
  have raw: "raw_data d' = raw_data d" unfolding r(5) by (rule pass_keeps_raw [OF r(1,6,3)])
  have "map bk_id (t_books d') = map bk_id (t_books d)"
    by (simp add: r(5) orphan_free_fields pass_result_fields pathless_fields [OF r(3)])
  then have "db_inv d'" by (intro pass_keeps_inv [OF assms(1) _ raw]) (use base_ok_orphan_free [OF r(4)] r(5) in simp_all)
  moreover have "recorded_paths d' = recorded_paths d" using r(2) by (simp add: recorded_paths_def r(5) orphan_free_fields pass_result_fields)
  ultimately show ?thesis using raw by simp
qed

end
