(* ===== verification/Readback.thy ===== *)
theory Readback
  imports BookTables
begin

text \<open>
  The reports read back by \<open>getBookReport\<close>, from the stored tables, against the reports that
  \<open>buildBookReports\<close> computes from the per-file rows.
\<close>

section \<open>The files of a book\<close>

definition idents_of_file :: "db \<Rightarrow> int \<Rightarrow> ident list" where
  "idents_of_file d f = for_book f (map snd (ListBookFileIdentifiersWithBook d))"

definition book_files :: "libs \<Rightarrow> agg_order \<Rightarrow> db \<Rightarrow> int \<Rightarrow> file_report list" where
  "book_files l agg d b = (let rows = ListBookFilesWithAuthorsByBookID agg d b;
     reports = map (file_report_of (l_env l) (idents_of_file d)) rows in
     fold (\<lambda>(h, path). attach_duplicate h path (rev (zip (map (\<lambda>r. bf_hash (jr_file r)) rows) reports)))
       (ListDuplicatesByBookID d b) reports)"

lemma joined_row_origin:
  "r \<in> set (joined_rows agg d) \<Longrightarrow> \<exists>f. (jr_book r, f) \<in> set (t_book_files d) \<and> book_exists d (jr_book r) \<and> jr_file r \<in> set (t_files d)
     \<and> bf_id (jr_file r) = f \<and> jr_authors r = file_authors agg d f"
  unfolding joined_rows_def file_row_of_def
  by (auto simp: List.map_filter_def find_Some_iff split: if_splits)

lemma joined_row_unique:
  assumes "keys_ok d" "r \<in> set (joined_rows agg d)" "r' \<in> set (joined_rows agg d)"
    "jr_book r = jr_book r'" "bf_path (jr_file r) = bf_path (jr_file r')"
  shows "r = r'"
proof -
  have "inj_on bf_path (set (t_files d))" using assms(1) by (simp add: keys_ok_def distinct_map)
  then have "jr_file r = jr_file r'" using joined_row_origin [OF assms(2)] joined_row_origin [OF assms(3)] assms(5)
    by (auto dest: inj_onD)
  then show ?thesis using joined_row_origin [OF assms(2)] joined_row_origin [OF assms(3)] assms(4) by simp
qed

lemma sorted_rows_of_book:
  assumes "keys_ok d"
  shows "filter (\<lambda>r. jr_book r = b) (sort_key (\<lambda>r. (jr_book r, bf_path (jr_file r))) (ListBooksWithFiles agg d))
    = ListBookFilesWithAuthorsByBookID agg d b"
  unfolding ListBookFilesWithAuthorsByBookID_def
proof (rule sort_key_inj_key_eq [symmetric])
  let ?rows = "filter (\<lambda>r. jr_book r = b) (joined_rows agg d)"
  show "inj_on (\<lambda>r. bf_path (jr_file r)) (set ?rows)"
    by (rule inj_onI) (use joined_row_unique [OF assms] in auto)
  show "mset ?rows = mset (filter (\<lambda>r. jr_book r = b) (sort_key (\<lambda>r. (jr_book r, bf_path (jr_file r))) (ListBooksWithFiles agg d)))"
    by (simp add: ListBooksWithFiles_def)
  let ?key = "\<lambda>r. (jr_book r, bf_path (jr_file r))"
  have sorted: "sorted (map (\<lambda>r. bf_path (jr_file r)) xs)" if "sorted (map ?key xs)" "\<forall>r \<in> set xs. jr_book r = b" for xs
    using that by (induction xs) auto
  show "sorted (map (\<lambda>r. bf_path (jr_file r)) (filter (\<lambda>r. jr_book r = b)
      (sort_key ?key (ListBooksWithFiles agg d))))"
    unfolding filter_sort by (rule sorted [OF sorted_sort_key]) simp
qed

lemma add_files_fold:
  "be_files (fold (add_file u g) rows e) = be_files e @ map (file_report_of u g) rows"
  "be_byHash (fold (add_file u g) rows e) = rev (zip (map (\<lambda>r. bf_hash (jr_file r)) rows) (map (file_report_of u g) rows)) @ be_byHash e"
  by (induction rows arbitrary: e) (simp_all add: add_file_def Let_def)

lemma add_duplicates_entry:
  "(b, e) \<in> set (fold add_duplicate dups books) \<Longrightarrow> \<exists>e0. (b, e0) \<in> set books \<and> be_byHash e = be_byHash e0
     \<and> be_files e = fold (\<lambda>(h, path). attach_duplicate h path (be_byHash e0)) (map snd (filter (\<lambda>x. fst x = b) dups)) (be_files e0)"
proof (induction dups arbitrary: books)
  case (Cons x dups)
  obtain c h p where x: "x = (c, h, p)" by (rule prod_cases3)
  from Cons obtain e1 where 1: "(b, e1) \<in> set (add_duplicate x books)" "be_byHash e = be_byHash e1"
    "be_files e = fold (\<lambda>(h, path). attach_duplicate h path (be_byHash e1)) (map snd (filter (\<lambda>x. fst x = b) dups)) (be_files e1)"
    by auto
  from 1(1) obtain e0 where "(b, e0) \<in> set books"
    "e1 = (if b = c then e0\<lparr>be_files := attach_duplicate h p (be_byHash e0) (be_files e0)\<rparr> else e0)"
    by (auto simp: add_duplicate_def x)
  then show ?case using 1(2,3) by (auto simp: x)
qed auto

lemma report_files:
  assumes "keys_ok d" "(b, r) \<in> set (reports_of l agg d)"
  shows "br_files r = book_files l agg d b"
proof -
  let ?g = "idents_of_file d" and ?rows = "ListBookFilesWithAuthorsByBookID agg d b"
  from assms(2) obtain e where e: "(b, e) \<in> set (fold add_duplicate (ListBookFileDuplicatesWithBook d)
      (group_files (l_env l) ?g (ListBooksWithFiles agg d)))" and r: "br_files r = be_files e"
    by (auto simp: reports_of_def assemble_def Let_def book_report_of_def idents_of_file_def [abs_def] split: if_splits)
  obtain e0 where e0: "(b, e0) \<in> set (group_files (l_env l) ?g (ListBooksWithFiles agg d))"
    and files: "be_files e = fold (\<lambda>(h, path). attach_duplicate h path (be_byHash e0)) (ListDuplicatesByBookID d b) (be_files e0)"
    using add_duplicates_entry [OF e] unfolding ListDuplicatesByBookID_def by blast
  have "e0 = fold (add_file (l_env l) ?g) ?rows no_entry"
    using e0 unfolding group_files_def tally_entry sorted_rows_of_book [OF assms(1), of b, symmetric] by auto
  then show ?thesis by (simp add: r files book_files_def Let_def add_files_fold no_entry_def)
qed

section \<open>The stored tables\<close>

lemma owned_replaced:
  assumes "(b, r) \<in> set rs" "distinct (map fst rs)" "\<And>b r. \<forall>x \<in> set (rows b r). owner x = b"
  shows "owned_by owner (replaced owner rows rs xs) b = rows b r"
proof -
  have "filter (\<lambda>x. owner x = b) (filter (\<lambda>x. owner x \<notin> fst ` set rs) xs) = []" using assms(1) by (force simp: filter_empty_conv)
  moreover have "filter (\<lambda>x. owner x = b) (concat (map (\<lambda>(b, r). rows b r) rs)) = rows b r"
    using assms(1,2)
  proof (induction rs)
    case (Cons y rs)
    obtain c q where y: "y = (c, q)" by force
    show ?case
    proof (cases "c = b")
      case True
      then have "b \<notin> fst ` set rs" using Cons.prems(2) by (simp add: y)
      then have "q = r" and none: "\<forall>z \<in> set rs. fst z \<noteq> b" using Cons.prems(1) True by (force simp: y)+
      have "filter (\<lambda>x. owner x = b) (concat (map (\<lambda>(b, r). rows b r) rs)) = []"
        using none assms(3) by (fastforce simp: filter_empty_conv)
      then show ?thesis using assms(3) [of b r] True \<open>q = r\<close> by (simp add: y filter_id_conv)
    next
      case False
      moreover have "filter (\<lambda>x. owner x = b) (rows c q) = []" using assms(3) [of c q] False by (simp add: filter_empty_conv)
      ultimately show ?thesis using Cons by (simp add: y)
    qed
  qed simp
  ultimately show ?thesis by (simp add: owned_by_def replaced_def)
qed

lemma number_ge: "x \<in> set (number k xs) \<Longrightarrow> k \<le> fst x"
  by (induction k xs rule: number.induct) fastforce+

text \<open>Rows numbered in order come back in that order, whatever breaks ties.\<close>

lemma sort_numbered:
  assumes "\<And>i x. ord (f (i, x)) = (i, g x)"
  shows "sort_key ord (map f (number k xs)) = map f (number k xs)"
proof (rule sort_key_id_if_sorted)
  show "sorted (map ord (map f (number k xs)))"
  proof (induction k xs rule: number.induct)
    case (2 k x xs)
    have "k < fst y" if "y \<in> set (number (k + 1) xs)" for y using number_ge [OF that] by simp
    then show ?case using 2 assms by (auto simp: less_eq_prod_def)
  qed simp
qed

lemma stored_tables:
  assumes "(b, r) \<in> set rs" "distinct (map fst rs)" "d = persisted_all rs d1" "b \<in> bk_id ` set (t_books d1)" "distinct (map bk_id (t_books d1))"
  shows "GetBookByID d b = Some (book_row_of b r)" "ListBookSubjectsByBookID d b = br_subjects r"
    "ListBookLanguagesByBookID d b = br_languages r" "ListBookIdentifiersByBookID d b = br_identifiers r"
    "ListBookPublicationsByBookID d b = br_publications r"
proof -
  have now: "book_now rs x = book_row_of b r" if "bk_id x = b" for x using assms(1,2) that by (simp add: book_now_def)
  have "\<exists>y. find (\<lambda>r. bk_id r = b) xs = Some y \<and> bk_id y = b" if "b \<in> bk_id ` set xs" for xs using that by (induction xs) auto
  from this [OF assms(4)] obtain y where "find (\<lambda>r. bk_id r = b) (t_books d1) = Some y" "bk_id y = b" by blast
  moreover have "find (\<lambda>r. bk_id r = b) (map (book_now rs) xs) = map_option (book_now rs) (find (\<lambda>r. bk_id r = b) xs)" for xs
    by (induction xs) (simp_all add: book_now_id)
  ultimately show "GetBookByID d b = Some (book_row_of b r)"
    by (simp add: GetBookByID_def assms(3) persisted_all_fields now)
  note owned = owned_replaced [OF assms(1,2)]
  show "ListBookSubjectsByBookID d b = br_subjects r"
    unfolding ListBookSubjectsByBookID_def assms(3) persisted_all_fields owned [OF rows_owner(1)] subject_rows_def
    by (subst sort_numbered [where g = id]) (simp_all add: named_row_def map_number [where h = id, simplified])
  show "ListBookLanguagesByBookID d b = br_languages r"
    unfolding ListBookLanguagesByBookID_def assms(3) persisted_all_fields owned [OF rows_owner(2)] language_rows_def
    by (subst sort_numbered [where g = id]) (simp_all add: named_row_def map_number [where h = id, simplified])
  show "ListBookIdentifiersByBookID d b = br_identifiers r"
    unfolding ListBookIdentifiersByBookID_def assms(3) persisted_all_fields owned [OF rows_owner(3)] ident_rows_def
    using map_number [of ident_of "ident_row_of b" "\<lambda>x. x" 0 "br_identifiers r"]
    by (subst sort_numbered [where g = id_value]) (simp_all add: ident_row_of_def ident_of_def)
  show "ListBookPublicationsByBookID d b = br_publications r"
    unfolding ListBookPublicationsByBookID_def assms(3) persisted_all_fields owned [OF rows_owner(4)] pub_rows_def
    using map_number [of "\<lambda>r. \<lparr>pu_publisher = pb_publisher r, pu_date = pb_date r\<rparr>" "pub_row_of b" "\<lambda>x. x" 0 "br_publications r"]
    by (subst sort_numbered [where g = "\<lambda>p. (pu_publisher p, pu_date p)"]) (simp_all add: pub_row_of_def)
qed

text \<open>\<open>GROUP_CONCAT\<close> sees exactly the authors of the file, in some order.\<close>

definition reorders :: "agg_order \<Rightarrow> bool" where
  "reorders agg \<longleftrightarrow> (\<forall>xs. set (agg xs) = set xs)"

lemma reports_cong:
  assumes "t_files d' = t_files d" "t_book_files d' = t_book_files d" "t_duplicates d' = t_duplicates d"
    "t_file_subjects d' = t_file_subjects d" "t_file_languages d' = t_file_languages d" "t_file_idents d' = t_file_idents d"
    "book_exists d' = book_exists d" "\<And>f. file_authors agg d' f = file_authors agg d f"
  shows "reports_of l agg d' = reports_of l agg d" "book_files l agg d' b = book_files l agg d b"
proof -
  have "file_row_of d' = file_row_of d" "file_authors agg d' = file_authors agg d" by (rule ext, simp add: file_row_of_def assms)+
  then have "ListBooksWithFiles agg d' = ListBooksWithFiles agg d" "joined_rows agg d' = joined_rows agg d"
    by (simp_all only: ListBooksWithFiles_def joined_rows_def assms)
  moreover have "ListBookFileDuplicatesWithBook d' = ListBookFileDuplicatesWithBook d"
    by (simp add: ListBookFileDuplicatesWithBook_def book_of_hash_def assms)
  moreover have "ListBookFileSubjectsWithBook d' = ListBookFileSubjectsWithBook d"
    "ListBookFileLanguagesWithBook d' = ListBookFileLanguagesWithBook d"
    "ListBookFileIdentifiersWithBook d' = ListBookFileIdentifiersWithBook d"
    by (simp_all add: ListBookFileSubjectsWithBook_def ListBookFileLanguagesWithBook_def ListBookFileIdentifiersWithBook_def
        with_book_def assms)
  ultimately show "reports_of l agg d' = reports_of l agg d" "book_files l agg d' b = book_files l agg d b"
    by (simp_all add: reports_of_def book_files_def ListBookFilesWithAuthorsByBookID_def ListDuplicatesByBookID_def
        idents_of_file_def [abs_def])
qed

lemma reports_stable:
  assumes "reorders agg" "base_ok d1" "prefix (t_authors d1) A"
  shows "reports_of l agg (orphan_free (pass_result l agg d1 A s)) = reports_of l agg d1"
proof (rule reports_cong(1))
  let ?d = "orphan_free (pass_result l agg d1 A s)"
  have "bk_id ` set (t_books ?d) = bk_id ` set (t_books d1)"
    using pass_result_fields(10) [of l agg d1 A s] unfolding orphan_free_fields by (metis list.set_map)
  then show "book_exists ?d = book_exists d1" by (simp add: book_exists_def fun_eq_iff)
  show "file_authors agg ?d f = file_authors agg d1 f" for f
  proof -
    let ?as = "map snd (filter (\<lambda>r. fst r = f) (t_file_authors d1))"
    have "author_name ?d a = author_name d1 a" if "a \<in> set (agg ?as)" for a
      using that assms(1) pass_keeps_names [OF assms(2,3)] by (auto simp: reorders_def)
    then have "map (author_name ?d) (agg ?as) = map (author_name d1) (agg ?as)" by simp
    then show ?thesis by (simp only: file_authors_def orphan_free_fields pass_result_fields)
  qed
qed (simp_all add: orphan_free_fields pass_result_fields)

lemma owned_by_links: "\<forall>x \<in> set (all_links A b r). fst x = b"
  by (simp add: all_links_def author_links_def)

lemma stored_authors:
  assumes "(b, r) \<in> set (reports_of l agg d1)" "base_ok (pass_result l agg d1 A s)" "author_set (reports_of l agg d1) \<subseteq> snd ` set A"
  shows "ListAuthorsByBookID (orphan_free (pass_result l agg d1 A s)) b = sorted_list_of_set (set (br_authors r))"
proof -
  let ?e = "pass_result l agg d1 A s" and ?names = "dedup_by id {} (br_authors r)"
  have links: "filter (\<lambda>x. fst x = b) (t_book_authors ?e) = all_links A b r"
    using owned_replaced [OF assms(1) reports_distinct owned_by_links]
    by (simp add: pass_result_def with_authors_def owned_by_def)
  have name: "author_name (orphan_free ?e) (author_id A x) = x" if x: "x \<in> set ?names" for x
  proof -
    have inA: "x \<in> snd ` set A" using x assms(1,3) dedup_by_subset [of id "{}" "br_authors r"] by (fastforce simp: author_set_def)
    have "(b, author_id A x) \<in> set (filter (\<lambda>x. fst x = b) (t_book_authors ?e))"
      unfolding links using x by (simp add: all_links_def author_links_def)
    then have "author_id A x \<in> snd ` set (t_book_authors ?e)" by force
    then have "author_name (orphan_free ?e) (author_id A x) = author_name ?e (author_id A x)" by (intro author_name_orphan_free) blast
    moreover have "distinct (map fst A)" using assms(2) by (simp add: base_ok_def keys_ok_def pass_result_fields)
    then have "map_of A (author_id A x) = Some x" using author_id_in [OF inA] by simp
    ultimately show ?thesis by (simp add: author_name_def pass_result_fields)
  qed
  have "map (author_name (orphan_free ?e)) (map snd (all_links A b r)) = map (\<lambda>x. x) ?names"
    unfolding all_links_def author_links_def map_map comp_def using name by (intro map_cong [OF refl]) simp
  moreover have "distinct ?names" using dedup_by_distinct [of id "{}" "br_authors r"] by simp
  moreover have "set ?names = set (br_authors r)" using dedup_by_keys [of id "{}" "br_authors r"] by simp
  ultimately show ?thesis unfolding ListAuthorsByBookID_def orphan_free_fields links
    by (metis distinct_remdups_id list.map_ident sorted_list_of_set_sort_remdups)
qed

section \<open>Reading a report\<close>

lemma file_idents_of_book:
  assumes "books_ok d" "(b, f) \<in> set (t_book_files d)"
  shows "for_book f (ListBookFileIdentifiersByBookID d b) = idents_of_file d f"
proof -
  have own: "c = b" if "(c, f, i) \<in> set (ListBookFileIdentifiersWithBook d)" for c i
  proof -
    have "(c, f) \<in> set (t_book_files d)"
      using that by (auto simp: ListBookFileIdentifiersWithBook_def with_book_def)
    moreover have "inj_on snd (set (t_book_files d))" using assms(1) by (simp add: books_ok_def distinct_map)
    ultimately have "(c, f) = (b, f)" using assms(2) by (elim inj_onD) simp_all
    then show ?thesis by simp
  qed
  have "filter (\<lambda>x. fst (snd x) = f \<and> fst x = b) (ListBookFileIdentifiersWithBook d) = filter (\<lambda>x. fst (snd x) = f) (ListBookFileIdentifiersWithBook d)"
    using own by (intro filter_cong [OF refl]) force
  then show ?thesis
    by (simp add: for_book_def ListBookFileIdentifiersByBookID_def idents_of_file_def filter_map comp_def conj_commute)
qed

lemma book_rows_links: "r \<in> set (ListBookFilesWithAuthorsByBookID agg d b) \<Longrightarrow> (b, bf_id (jr_file r)) \<in> set (t_book_files d)"
  using joined_row_origin [of r agg d] by (auto simp: ListBookFilesWithAuthorsByBookID_def)

definition stored_report :: "libs \<Rightarrow> agg_order \<Rightarrow> db \<Rightarrow> int \<Rightarrow> book_row \<Rightarrow> book_report" where
  "stored_report l agg d b row = \<lparr>br_authors = ListAuthorsByBookID d b, br_title = bk_title row, br_description = bk_description row,
     br_series = bk_series row, br_series_index = bk_series_index row, br_subjects = ListBookSubjectsByBookID d b,
     br_languages = ListBookLanguagesByBookID d b, br_identifiers = ListBookIdentifiersByBookID d b,
     br_publications = ListBookPublicationsByBookID d b, br_files = book_files l agg d b\<rparr>"

lemma no_files: "rows = [] \<Longrightarrow> fold (\<lambda>(h, path). attach_duplicate h path (rev (zip (map f rows) (map g rows)))) dups (map g rows) = []"
  by (induction dups) (auto simp: attach_duplicate_def)

lemma query_run: "fl n = None \<Longrightarrow> query f fl (d, n) = (Ok (f d), (d, Suc n))"
  by (simp add: query_Ok)

lemma getBookReport_reads:
  assumes "books_ok d" "\<forall>k. fl k = None"
  shows "\<exists>n'. getBookReport l agg b fl (d, n) = (Ok (map_option (stored_report l agg d b) (GetBookByID d b)), (d, n'))"
proof (cases "GetBookByID d b")
  case None
  then show ?thesis using assms(2) by (simp add: getBookReport_def bind_def query_run ret_def)
next
  case (Some row)
  let ?rows = "ListBookFilesWithAuthorsByBookID agg d b"
  have files: "map (file_report_of (l_env l) (\<lambda>f. for_book f (ListBookFileIdentifiersByBookID d b))) ?rows = map (file_report_of (l_env l) (idents_of_file d)) ?rows"
    using file_idents_of_book [OF assms(1)] book_rows_links by (intro map_cong [OF refl]) (simp add: file_report_of_def)
  show ?thesis
  proof (cases "?rows = []")
    case True
    have "book_files l agg d b = []" unfolding book_files_def Let_def by (rule no_files [OF True])
    then show ?thesis using Some assms(2) True by (simp add: getBookReport_def bind_def query_run ret_def stored_report_def)
  next
    case False
    then show ?thesis using Some assms(2)
      by (simp add: getBookReport_def bind_def query_run ret_def Let_def files stored_report_def book_files_def)
  qed
qed

lemma joined_books:
  assumes "refs_ok d" "books_ok d"
  shows "jr_book ` set (joined_rows agg d) = bk_id ` set (t_books d)"
proof
  show "jr_book ` set (joined_rows agg d) \<subseteq> bk_id ` set (t_books d)"
    using joined_row_origin by (fastforce simp: book_exists_def)
  show "bk_id ` set (t_books d) \<subseteq> jr_book ` set (joined_rows agg d)"
  proof
    fix b assume "b \<in> bk_id ` set (t_books d)"
    then have "b \<in> fst ` set (t_book_files d)" using assms(2) by (simp add: books_ok_def)
    then obtain f where link: "(b, f) \<in> set (t_book_files d)" by auto
    then have ex: "book_exists d b" "f \<in> bf_id ` set (t_files d)" using assms(1) by (auto simp: refs_ok_def file_exists_def)
    have "\<exists>r. find (\<lambda>r. bf_id r = f) xs = Some r" if "f \<in> bf_id ` set xs" for xs using that by (induction xs) auto
    from this [OF ex(2)] obtain r where "file_row_of d f = Some r" by (auto simp: file_row_of_def)
    then have "\<lparr>jr_book = b, jr_file = r, jr_authors = file_authors agg d f\<rparr> \<in> set (joined_rows agg d)"
      using link ex(1) unfolding joined_rows_def by (force simp: List.map_filter_def)
    then show "b \<in> jr_book ` set (joined_rows agg d)" by force
  qed
qed

lemma reports_ids:
  assumes "refs_ok d" "books_ok d"
  shows "fst ` set (reports_of l agg d) = bk_id ` set (t_books d)"
proof -
  have asm: "fst ` set (assemble l rows dups subs langs ids) = jr_book ` set rows" for rows dups subs langs ids
  proof -
    have "fst ` set (group_files (l_env l) (\<lambda>f. for_book f (map snd ids)) rows) = jr_book ` set rows"
      unfolding group_files_def tally_keys by simp
    then show ?thesis using arg_cong [OF assemble_ids [of l rows dups subs langs ids], of set] unfolding list.set_map by (rule trans [rotated])
  qed
  then have "fst ` set (reports_of l agg d) = jr_book ` set (ListBooksWithFiles agg d)" by (simp add: reports_of_def asm)
  then show ?thesis by (simp add: ListBooksWithFiles_def joined_books [OF assms])
qed

section \<open>Success and idempotence\<close>

lemma Consolidate_succeeds_from:
  assumes "db_inv d" "\<forall>k. fl k = None" "canonicalizeBookFiles fl (d, 0) = (Ok (), (d1, n1))"
  shows "\<exists>d'. Consolidate l agg None None fl d = (None, d')"
proof -
  have "base_ok d" using assms(1) by (simp add: db_inv_def base_ok_def)
  note can = canonicalize_Ok [OF assms(3) this]
  have same: "bf_id ` set (t_files d1) = bf_id ` set (t_files d)"
  proof -
    have "bf_id ` set (t_files e) = bf_id ` set (map (\<lambda>r. r\<lparr>bf_path := []\<rparr>) (t_files e))" for e by (simp add: image_image)
    then show ?thesis using can pathless_fields(1) by metis
  qed
  have "books_ok d1" using assms(1) can same pathless_fields(7,8) [of d1 d] by (simp add: db_inv_def books_ok_def)
  then have "\<forall>b \<in> fst ` set (reports_of l agg d1). book_exists d1 b"
    using reports_ids [of d1 l agg] can by (simp add: base_ok_def book_exists_def)
  then show ?thesis using consolidation_succeeds_from [OF assms(2,3)] can by (simp add: Consolidate_def with_tx_ok)
qed

lemma Consolidate_runs:
  assumes "db_inv d" "paths_unshared d" "\<forall>k. fl k = None"
  shows "\<exists>d'. Consolidate l agg None None fl d = (None, d')"
proof -
  let ?xs = "ListBookFileHashesNeedingCanonicalization d"
  have k: "base_ok d" "keys_ok d" using assms(1) by (simp_all add: db_inv_def base_ok_def)
  have "\<exists>d1 n1. for_each promote ?xs fl (d, Suc 0) = (Ok (), (d1, n1))"
    by (rule promotes_succeed [OF assms(3) k(1) _ candidates_distinct [OF k(2)] assms(2)]) (use candidates_need in blast)
  then obtain d1 n1 where "canonicalizeBookFiles fl (d, 0) = (Ok (), (d1, n1))"
    using assms(3) by (auto simp: canonicalizeBookFiles_def bind_def query_run)
  then show ?thesis by (rule Consolidate_succeeds_from [OF assms(1,3)])
qed

lemma replaced_idem:
  assumes "\<And>b r. \<forall>x \<in> set (rows b r). owner x = b" "\<And>b r. (b, r) \<in> set rs \<Longrightarrow> rows' b r = rows b r"
  shows "replaced owner rows' rs (replaced owner rows rs xs) = replaced owner rows rs xs"
proof -
  have "owner x \<in> fst ` set rs" if x: "x \<in> set (concat (map (\<lambda>(b, r). rows b r) rs))" for x
  proof -
    obtain b r where "(b, r) \<in> set rs" "x \<in> set (rows b r)" using x by auto
    then show ?thesis using assms(1) by force
  qed
  then have "filter (\<lambda>x. owner x \<notin> fst ` set rs) (concat (map (\<lambda>(b, r). rows b r) rs)) = []" by (simp only: filter_empty_conv not_not) blast
  moreover have "map (\<lambda>(b, r). rows' b r) rs = map (\<lambda>(b, r). rows b r) rs" using assms(2) by (intro map_cong [OF refl]) auto
  then have "concat (map (\<lambda>(b, r). rows' b r) rs) = concat (map (\<lambda>(b, r). rows b r) rs)" by (rule arg_cong)
  ultimately show ?thesis by (simp add: replaced_def)
qed

lemma find_filter: "find P xs = Some x \<Longrightarrow> Q x \<Longrightarrow> find P (filter Q xs) = Some x"
  by (induction xs) (auto split: if_splits)

lemma kept_author_id:
  assumes "x \<in> snd ` set (t_authors d)" "author_id (t_authors d) x \<in> snd ` set (t_book_authors d)"
  shows "author_id (t_authors (orphan_free d)) x = author_id (t_authors d) x" "x \<in> snd ` set (t_authors (orphan_free d))"
proof -
  obtain a where a: "find (\<lambda>a. snd a = x) (t_authors d) = Some a" using find_present [OF assms(1)] by blast
  then have "fst a \<in> snd ` set (t_book_authors d)" using assms(2) by (simp add: author_id_def)
  then have f: "find (\<lambda>a. snd a = x) (t_authors (orphan_free d)) = Some a"
    unfolding orphan_free_def using find_filter [OF a] by simp
  then show "author_id (t_authors (orphan_free d)) x = author_id (t_authors d) x" using a by (simp add: author_id_def)
  show "x \<in> snd ` set (t_authors (orphan_free d))" using find_author [OF f] by force
qed

lemma book_now_idem: "book_now rs (book_now rs x) = book_now rs x"
  by (auto simp: book_now_def book_row_of_def split: option.split)

lemma pass_idem:
  assumes "d' = orphan_free (pass_result l agg d1 A s)" "reports_of l agg d' = reports_of l agg d1"
    "author_set (reports_of l agg d1) \<subseteq> snd ` set A"
  shows "author_set (reports_of l agg d') \<subseteq> snd ` set (t_authors d')"
    "orphan_free (pass_result l agg d' (t_authors d') (seq_authors d')) = d'"
proof -
  let ?p = "pass_result l agg d1 A s" and ?rs = "reports_of l agg d1"
  have links: "t_book_authors ?p = replaced fst (all_links A) ?rs (t_book_authors d1)" by (simp add: pass_result_def with_authors_def)
  have linked: "author_id A x \<in> snd ` set (t_book_authors ?p)" if "(b, r) \<in> set ?rs" "x \<in> set (br_authors r)" for b r x
  proof -
    have "x \<in> set (dedup_by id {} (br_authors r))" using dedup_by_keys [of id "{}" "br_authors r"] that(2) by simp
    then have "(b, author_id A x) \<in> set (all_links A b r)" by (simp add: all_links_def author_links_def)
    then have "(b, author_id A x) \<in> set (concat (map (\<lambda>(b, r). all_links A b r) ?rs))" using that(1) by auto
    then have "(b, author_id A x) \<in> set (t_book_authors ?p)" unfolding links replaced_def set_append by (rule UnI2)
    then show ?thesis by force
  qed
  have kept: "author_id (t_authors d') x = author_id A x \<and> x \<in> snd ` set (t_authors d')"
    if "(b, r) \<in> set ?rs" "x \<in> set (br_authors r)" for b r x
  proof -
    have "x \<in> snd ` set A" using assms(3) that by (force simp: author_set_def)
    then show ?thesis using kept_author_id [of x ?p] linked [OF that] by (simp add: assms(1) pass_result_fields)
  qed
  then show sub: "author_set (reports_of l agg d') \<subseteq> snd ` set (t_authors d')" unfolding assms(2) author_set_def by force
  have same_links: "all_links (t_authors d') b r = all_links A b r" if "(b, r) \<in> set ?rs" for b r
    using kept [OF that] dedup_by_subset [of id "{}" "br_authors r"] by (auto simp: all_links_def author_links_def)
  have "replaced fst (all_links (t_authors d')) ?rs (t_book_authors d') = t_book_authors d'"
    using replaced_idem [of "all_links A" fst ?rs "all_links (t_authors d')", OF owned_by_links same_links]
    by (simp add: assms(1) orphan_free_fields links)
  moreover have "persisted_all ?rs d' = d'"
  proof -
    have "replaced fst subject_rows ?rs (t_book_subjects d') = t_book_subjects d'"
      "replaced fst language_rows ?rs (t_book_languages d') = t_book_languages d'"
      "replaced ir_owner ident_rows ?rs (t_book_idents d') = t_book_idents d'"
      "replaced pb_book pub_rows ?rs (t_book_pubs d') = t_book_pubs d'"
      unfolding assms(1) orphan_free_fields pass_result_def with_authors_def
      by (simp_all add: persisted_all_fields replaced_idem rows_owner)
    moreover have "map (book_now ?rs) (t_books d') = t_books d'"
      unfolding assms(1) orphan_free_fields pass_result_def with_authors_def by (simp add: persisted_all_fields book_now_idem)
    ultimately show ?thesis by (simp add: persisted_all_def)
  qed
  ultimately have "pass_result l agg d' (t_authors d') (seq_authors d') = d'" by (simp add: pass_result_def assms(2) with_authors_def)
  then show "orphan_free (pass_result l agg d' (t_authors d') (seq_authors d')) = d'"
    using assms(1) by (simp add: orphan_free_def)
qed

end
