(* ===== verification/ConsolidationProps.thy ===== *)
theory ConsolidationProps
  imports Readback
begin

text \<open>
  The promises of \<open>Consolidate\<close>: the invariant and the per-file data survive, every content is
  represented by its smallest path, the pass succeeds unless a path was seen with two
  contents, the stored tables hold the computed reports, and running it again changes nothing.
\<close>

section \<open>Two small libraries\<close>

definition demo_libs :: libs where
  "demo_libs = \<lparr>l_env = plain_env, l_html = \<lambda>_. [], l_lang = Some, l_isbn = (\<lambda>_. None), l_year = 2025\<rparr>"

definition demo_file :: "int \<Rightarrow> string \<Rightarrow> string \<Rightarrow> bf_row" where
  "demo_file i h p = \<lparr>bf_id = i, bf_hash = h, bf_path = p, bf_title = ''T'', bf_minhash = [], bf_description = [], bf_publisher = [],
     bf_date = [], bf_series = [], bf_series_index = []\<rparr>"

definition demo_book :: "int \<Rightarrow> book_row" where
  "demo_book i = \<lparr>bk_id = i, bk_title = ''T'', bk_description = [], bk_series = [], bk_series_index = []\<rparr>"

text \<open>One book whose file was first seen under the larger of its two paths.\<close>

definition demo_library :: db where
  "demo_library = empty_db\<lparr>t_files := [demo_file 1 ''h'' ''z.txt''], t_duplicates := [(''h'', ''a.txt'')], t_authors := [(1, ''Ann Smith'')],
     t_file_authors := [(1, 1)], t_books := [demo_book 1], t_book_files := [(1, 1)], t_book_authors := [(1, 1)],
     seq_files := 1, seq_authors := 1, seq_books := 1\<rparr>"

text \<open>The content \<open>y\<close> was also seen under the path of the content \<open>x\<close>.\<close>

definition demo_shared :: db where
  "demo_shared = empty_db\<lparr>t_files := [demo_file 1 ''x'' ''a.txt'', demo_file 2 ''y'' ''b.txt''], t_duplicates := [(''y'', ''a.txt'')],
     t_books := [demo_book 1, demo_book 2], t_book_files := [(1, 1), (2, 2)], seq_files := 2, seq_books := 2\<rparr>"

lemma demo_no_buckets: "buckets_of (demo_file i h p) = {}"
  by (simp add: buckets_of_def demo_file_def decodeMinHash_def ComputeBands_def ComputeBandsCustom_def)

lemma demo_library_inv: "db_inv demo_library"
  by (simp add: db_inv_def books_ok_def buckets_ok_def ok_defs demo_library_def empty_db_def demo_no_buckets)
    (simp add: demo_file_def demo_book_def)

lemma demo_shared_inv: "db_inv demo_shared"
  by (simp add: db_inv_def books_ok_def buckets_ok_def ok_defs demo_shared_def empty_db_def demo_no_buckets)
    (simp add: demo_file_def demo_book_def)

lemma demo_library_paths: "recorded_paths demo_library = {(''h'', ''z.txt''), (''h'', ''a.txt'')}"
  by (auto simp: recorded_paths_def demo_library_def demo_file_def)

lemma demo_consolidates: "\<exists>d'. Consolidate demo_libs id None None (\<lambda>_. None) demo_library = (None, d')"
proof -
  have "paths_unshared demo_library" unfolding paths_unshared_def demo_library_paths by simp
  then show ?thesis using Consolidate_runs [OF demo_library_inv] by simp
qed

section \<open>Properties\<close>

text \<open>C8: Consolidation is all or nothing and never loses scan data: whatever fails and wherever,
  the database keeps its invariant and everything recorded about the files; only their paths may
  move between the row and the duplicates of one content; after an error the database is
  unchanged.\<close>

theorem consolidation_keeps_invariant:
  assumes "db_inv d" "Consolidate l agg begin_err commit_err fl d = (err, d')"
  shows "db_inv d' \<and> raw_data d' = raw_data d \<and> recorded_paths d' = recorded_paths d \<and> (err \<noteq> None \<longrightarrow> d' = d)"
  using assms Consolidate_keeps [of d l agg begin_err commit_err fl d'] with_tx_error [of begin_err commit_err _ fl d _ d']
  by (cases err) (auto simp: Consolidate_def)

theorem consolidation_keeps_invariant_witness:
  "\<exists>d'. Consolidate demo_libs id None None (\<lambda>_. None) demo_library = (None, d') \<and> db_inv d' \<and> raw_data d' = raw_data demo_library"
  using demo_consolidates consolidation_keeps_invariant [OF demo_library_inv] by blast

text \<open>C22: After a successful consolidation the row of every content carries the smallest of all paths
  under which the content was seen. No path is lost or invented on the way: the contents with the paths recorded for
  them, as rows and as duplicates together, are the same as before, so a demoted path is kept as a duplicate.\<close>

theorem consolidation_canonical_paths:
  assumes "db_inv d" "Consolidate l agg begin_err commit_err fl d = (None, d')"
  shows "recorded_paths d' = recorded_paths d
    \<and> (\<forall>r \<in> set (t_files d'). (bf_hash r, bf_path r) \<in> recorded_paths d \<and> (\<forall>p. (bf_hash r, p) \<in> recorded_paths d \<longrightarrow> bf_path r \<le> p))"
proof -
  obtain d1 A s where k: "base_ok d1" "recorded_paths d1 = recorded_paths d" "\<forall>h. canonical_at d1 h"
    "d' = orphan_free (pass_result l agg d1 A s)"
    using Consolidate_Ok [OF assms(2,1)] by blast
  have files: "t_files d' = t_files d1" by (simp add: k(4) orphan_free_fields pass_result_fields)
  have "bf_path r \<le> p" if "r \<in> set (t_files d1)" "(bf_hash r, p) \<in> recorded_paths d1" for r p
    by (rule canonical_least [OF k(1,3) that])
  moreover have "(bf_hash r, bf_path r) \<in> recorded_paths d1" if "r \<in> set (t_files d1)" for r
    using that by (auto simp: recorded_paths_def)
  moreover have "recorded_paths d' = recorded_paths d" using Consolidate_keeps [OF assms] by simp
  ultimately show ?thesis unfolding files k(2) [symmetric] by blast
qed

theorem consolidation_canonical_paths_witness:
  "\<exists>d' r. Consolidate demo_libs id None None (\<lambda>_. None) demo_library = (None, d') \<and> r \<in> set (t_files d') \<and> bf_path r \<le> ''a.txt''"
proof -
  obtain d' where d': "Consolidate demo_libs id None None (\<lambda>_. None) demo_library = (None, d')" using demo_consolidates by blast
  have "map bf_hash (map (\<lambda>r. r\<lparr>bf_path := []\<rparr>) (t_files d')) = map bf_hash (map (\<lambda>r. r\<lparr>bf_path := []\<rparr>) (t_files demo_library))"
    using Consolidate_keeps [OF demo_library_inv d'] by (simp only: raw_data_def prod.inject)
  then have "map bf_hash (t_files d') = [''h'']" by (simp add: comp_def demo_library_def demo_file_def)
  then obtain r where r: "r \<in> set (t_files d')" "bf_hash r = ''h''" by auto
  then have "bf_path r \<le> ''a.txt''"
    using consolidation_canonical_paths [OF demo_library_inv d'] r by (simp add: demo_library_paths)
  then show ?thesis using d' r(1) by blast
qed

text \<open>C6: What Consolidate stored is what is read back. After a successful pass, reading the report of a
  book from the stored tables gives the report that \<open>buildBookReports\<close> computes for it from the raw
  rows (title, merged metadata, files with their duplicates), with the authors sorted by name; and
  exactly the books of the database have such reports.\<close>

theorem stored_reports_read_back:
  assumes "db_inv d" "reorders agg" "Consolidate l agg begin_err commit_err fl d = (None, d')" "\<forall>k. calm k = None"
  shows "fst ` set (reports_of l agg d') = bk_id ` set (t_books d')
    \<and> (\<forall>(b, r) \<in> set (reports_of l agg d').
         \<exists>m. getBookReport l agg b calm (d', n) = (Ok (Some (r\<lparr>br_authors := sorted_list_of_set (set (br_authors r))\<rparr>)), (d', m)))"
proof -
  obtain d1 A s where k: "base_ok d1" "pathless d1 = pathless d" "base_ok (pass_result l agg d1 A s)"
    "d' = orphan_free (pass_result l agg d1 A s)" "prefix (t_authors d1) A" "author_set (reports_of l agg d1) \<subseteq> snd ` set A"
    using Consolidate_Ok [OF assms(3,1)] by blast
  have inv: "db_inv d'" using Consolidate_keeps [OF assms(1,3)] by simp
  then have ids: "fst ` set (reports_of l agg d') = bk_id ` set (t_books d')" by (intro reports_ids) (simp_all add: db_inv_def)
  have same: "reports_of l agg d' = reports_of l agg d1" unfolding k(4) by (rule reports_stable [OF assms(2) k(1,5)])
  have books: "bk_id ` set (t_books d') = bk_id ` set (t_books d1)"
    using pass_result_fields(10) [of l agg d1 A s] unfolding k(4) orphan_free_fields by (metis list.set_map)
  have "\<exists>m. getBookReport l agg b calm (d', n) = (Ok (Some (r\<lparr>br_authors := sorted_list_of_set (set (br_authors r))\<rparr>)), (d', m))"
    if br: "(b, r) \<in> set (reports_of l agg d')" for b r
  proof -
    let ?p = "persisted_all (reports_of l agg d1) d1"
    have b: "b \<in> bk_id ` set (t_books d1)" using br ids books by force
    have tabs: "t_books d' = t_books ?p" "t_book_subjects d' = t_book_subjects ?p" "t_book_languages d' = t_book_languages ?p"
      "t_book_idents d' = t_book_idents ?p" "t_book_pubs d' = t_book_pubs ?p"
      by (simp_all add: k(4) orphan_free_fields) (simp_all add: pass_result_def with_authors_def)
    have "distinct (map bk_id (t_books d1))" using k(1) by (simp add: base_ok_def keys_ok_def)
    note st = stored_tables [OF br [unfolded same] reports_distinct refl b this]
    have "GetBookByID d' b = Some (book_row_of b r)" "ListBookSubjectsByBookID d' b = br_subjects r"
      "ListBookLanguagesByBookID d' b = br_languages r" "ListBookIdentifiersByBookID d' b = br_identifiers r"
      "ListBookPublicationsByBookID d' b = br_publications r"
      using st by (simp_all add: GetBookByID_def ListBookSubjectsByBookID_def ListBookLanguagesByBookID_def
          ListBookIdentifiersByBookID_def ListBookPublicationsByBookID_def tabs)
    moreover have "ListAuthorsByBookID d' b = sorted_list_of_set (set (br_authors r))"
      unfolding k(4) by (rule stored_authors [OF br [unfolded same] k(3,6)])
    moreover have "book_files l agg d' b = br_files r" using report_files [OF _ br] inv by (simp add: db_inv_def)
    ultimately have eq: "map_option (stored_report l agg d' b) (GetBookByID d' b) = Some (r\<lparr>br_authors := sorted_list_of_set (set (br_authors r))\<rparr>)"
      by (simp add: stored_report_def book_row_of_def)
    have "books_ok d'" using inv by (simp add: db_inv_def)
    from getBookReport_reads [OF this assms(4), of l agg b n, unfolded eq] show ?thesis .
  qed
  then show ?thesis using ids by blast
qed

theorem stored_reports_read_back_witness:
  "\<exists>d' r m. Consolidate demo_libs id None None (\<lambda>_. None) demo_library = (None, d') \<and> (1, r) \<in> set (reports_of demo_libs id d')
     \<and> getBookReport demo_libs id 1 (\<lambda>_. None) (d', 0) = (Ok (Some (r\<lparr>br_authors := sorted_list_of_set (set (br_authors r))\<rparr>)), (d', m))"
proof -
  obtain d' where d': "Consolidate demo_libs id None None (\<lambda>_. None) demo_library = (None, d')" using demo_consolidates by blast
  have "reorders id" by (simp add: reorders_def)
  note rb = stored_reports_read_back [OF demo_library_inv this d', of "\<lambda>_. None" 0]
  have "snd ` set (t_book_files d') = {1}" "t_book_files d' = [(1, 1)]" using Consolidate_keeps [OF demo_library_inv d']
    by (simp_all add: raw_data_def demo_library_def)
  moreover have "books_ok d'" using Consolidate_keeps [OF demo_library_inv d'] by (simp add: db_inv_def)
  ultimately have "1 \<in> bk_id ` set (t_books d')" by (simp add: books_ok_def) (metis insertI1)
  then obtain r where "(1, r) \<in> set (reports_of demo_libs id d')" using rb by force
  then show ?thesis using d' rb by blast
qed

text \<open>C23: When the database works and no path was recorded for two different contents, consolidation
  succeeds: no uniqueness, reference or check constraint of the schema stops it.\<close>

theorem consolidation_succeeds:
  assumes "db_inv d" "paths_unshared d" "\<forall>k. fl k = None"
  shows "\<exists>d'. Consolidate l agg None None fl d = (None, d')"
  by (rule Consolidate_runs [OF assms])

theorem consolidation_succeeds_witness:
  "\<exists>d'. Consolidate demo_libs id None None (\<lambda>_. None) demo_library = (None, d')"
proof -
  have "paths_unshared demo_library" unfolding paths_unshared_def demo_library_paths by simp
  then show ?thesis using consolidation_succeeds [OF demo_library_inv] by simp
qed

text \<open>C38: A promotion to a path that another content holds stops the whole pass. Suppose the smallest duplicate path of
  some content is below the path of its row, so that it would be promoted, and is also the path of the row of another
  content, which has no smaller path to move to. Then consolidation fails and changes nothing, so no book of the library
  is consolidated; and when nothing else goes wrong, the error is the violated uniqueness of the paths.\<close>

theorem shared_path_stops_consolidation:
  assumes "db_inv d" "needs_promotion d (h, c, p)" "r \<in> set (t_files d)" "bf_path r = p" "bf_hash r \<noteq> h"
    "canonical_at d (bf_hash r)"
  shows "\<exists>e. Consolidate l agg begin_err commit_err fl d = (Some e, d)
    \<and> (begin_err = None \<and> (\<forall>k. fl k = None) \<longrightarrow> e = UniqueViolation ''book_files.path'')"
proof -
  have base: "base_ok d" using assms(1) by (simp add: db_inv_def base_ok_def)
  obtain res d1 n1 where can: "canonicalizeBookFiles fl (d, 0) = (res, (d1, n1))" by (rule prod_cases3)
  obtain e where e: "res = Err e" using shared_path_blocks [OF base assms(2-6)] can by (cases res) auto
  obtain err d' where c: "Consolidate l agg begin_err commit_err fl d = (err, d')" by (rule prod.exhaust)
  have err: "err = (case begin_err of Some b \<Rightarrow> Some (IOError b) | None \<Rightarrow> Some e)"
    using c can e by (auto simp: Consolidate_def with_tx_def consolidation_def bind_def split: option.splits)
  then have "d' = d" using c with_tx_error unfolding Consolidate_def by (auto split: option.splits)
  moreover have "e = UniqueViolation ''book_files.path''" if "\<forall>k. fl k = None"
    using canonicalize_error [OF that base] can e by blast
  ultimately show ?thesis using c err by (cases begin_err) auto
qed

theorem shared_path_stops_consolidation_witness:
  "Consolidate demo_libs id None None (\<lambda>_. None) demo_shared = (Some (UniqueViolation ''book_files.path''), demo_shared)"
proof -
  have facts: "needs_promotion demo_shared (''y'', ''b.txt'', ''a.txt'')" "demo_file 1 ''x'' ''a.txt'' \<in> set (t_files demo_shared)"
    "canonical_at demo_shared ''x''" by (simp_all add: needs_promotion_def demo_shared_def demo_file_def canonical_at_def)
  then show ?thesis
    using shared_path_stops_consolidation [OF demo_shared_inv facts(1,2), of demo_libs id None None "\<lambda>_. None"] by (auto simp: demo_file_def)
qed

text \<open>C24: The pass is idempotent: consolidating a consolidated database succeeds and changes no row.\<close>

theorem consolidation_idempotent:
  assumes "db_inv d" "reorders agg" "Consolidate l agg begin_err commit_err fl d = (None, d')" "\<forall>k. calm k = None"
  shows "Consolidate l agg None None calm d' = (None, d')"
proof -
  obtain d1 A s where k: "base_ok d1" "\<forall>h. canonical_at d1 h" "d' = orphan_free (pass_result l agg d1 A s)"
    "prefix (t_authors d1) A" "author_set (reports_of l agg d1) \<subseteq> snd ` set A"
    using Consolidate_Ok [OF assms(3,1)] by blast
  have inv: "db_inv d'" using Consolidate_keeps [OF assms(1,3)] by simp
  have "canonical_at d' = canonical_at d1" unfolding k(3)
    using canonical_fields [of "orphan_free (pass_result l agg d1 A s)" d1] by (simp add: orphan_free_fields pass_result_fields)
  then have "ListBookFileHashesNeedingCanonicalization d' = []" using k(2) by (intro no_candidates) simp
  then have can: "canonicalizeBookFiles calm (d', 0) = (Ok (), (d', Suc 0))"
    using assms(4) by (simp add: canonicalizeBookFiles_def bind_def query_run ret_def)
  have same: "reports_of l agg d' = reports_of l agg d1" unfolding k(3) by (rule reports_stable [OF assms(2) k(1,4)])
  obtain d2 where d2: "Consolidate l agg None None calm d' = (None, d2)" using Consolidate_succeeds_from [OF inv assms(4) can] by blast
  then obtain n where "consolidation l agg calm (d', 0) = (Ok (), (d2, n))" by (auto simp: Consolidate_def with_tx_ok)
  moreover have "base_ok d'" using inv by (simp add: db_inv_def base_ok_def)
  ultimately obtain B t where "d2 = orphan_free (pass_result l agg d' B t)"
    "author_set (reports_of l agg d') \<subseteq> snd ` set (t_authors d') \<longrightarrow> B = t_authors d' \<and> t = seq_authors d'"
    using consolidation_steps [of l agg calm d' 0 d2 n] can by auto
  then show ?thesis using d2 pass_idem [OF k(3) same k(5)] by simp
qed

theorem consolidation_idempotent_witness:
  "\<exists>d'. Consolidate demo_libs id None None (\<lambda>_. None) demo_library = (None, d')
     \<and> Consolidate demo_libs id None None (\<lambda>_. None) d' = (None, d')"
  using demo_consolidates consolidation_idempotent [OF demo_library_inv, of id] by (auto simp: reorders_def)

end
