(* ===== verification/CliProps.thy ===== *)
theory CliProps
  imports Cli ScanClaims ConsolidationProps
begin

text \<open>
  The scan command as a whole: what it may delete, that a scan and the pass over the books leave the table of runs
  alone, and what a successful run has done. The scan is a locale: any engine that keeps the database and only adds to it.
\<close>

section \<open>Statements that only read\<close>

definition reads_only :: "'a stmt \<Rightarrow> bool" where
  "reads_only m \<longleftrightarrow> (\<forall>fl d n. \<exists>x n'. m fl (d, n) = (x, (d, n')))"

lemma reads_only_ret: "reads_only (ret x)"
  by (simp add: reads_only_def ret_def)

lemma reads_only_query: "reads_only (query f)"
  by (simp add: reads_only_def query_def sql_def split: option.split)

lemma reads_only_attempt: "reads_only m \<Longrightarrow> (\<And>r. reads_only (k r)) \<Longrightarrow> reads_only (attempt m k)"
  unfolding reads_only_def attempt_def by (metis case_prod_conv)

lemma reads_only_bind: "reads_only m \<Longrightarrow> (\<And>x. reads_only (k x)) \<Longrightarrow> reads_only (bind m k)"
  unfolding reads_only_def bind_def
proof (intro allI)
  fix fl d n assume m: "\<forall>fl d n. \<exists>x n'. m fl (d, n) = (x, d, n')" and k: "\<And>x. \<forall>fl d n. \<exists>y n'. k x fl (d, n) = (y, d, n')"
  obtain r n' where r: "m fl (d, n) = (r, d, n')" using m by blast
  show "\<exists>x n'. (case m fl (d, n) of (Err e, st) \<Rightarrow> (Err e, st) | (Ok x, st) \<Rightarrow> k x fl st) = (x, d, n')"
    using k r by (cases r) simp_all
qed

lemma reads_only_latestRun: "reads_only latestRun"
  unfolding latestRun_def by (rule reads_only_attempt)
    (auto simp: reads_only_def GetLatestScanRun_def sql_def ret_def split: option.split)

lemma reads_only_checkSameRoot: "reads_only (checkSameRoot cn rt)"
  unfolding checkSameRoot_def by (rule reads_only_bind [OF reads_only_latestRun reads_only_ret])

lemma reads_only_sum: "(\<And>e. reads_only (f e)) \<Longrightarrow> (\<And>x. reads_only (g x)) \<Longrightarrow> reads_only (case r of Err e \<Rightarrow> f e | Ok x \<Rightarrow> g x)"
  by (cases r) simp_all

lemma reads_only_if: "reads_only a \<Longrightarrow> reads_only b \<Longrightarrow> reads_only (if c then a else b)"
  by simp

lemmas reads_only = reads_only_ret reads_only_query reads_only_attempt reads_only_bind reads_only_latestRun reads_only_checkSameRoot
  reads_only_sum reads_only_if

lemma reads_only_resolveScanMode: "reads_only (resolveScanMode cn rt)"
  unfolding resolveScanMode_def promptScanMode_def CountBookFiles_def CountBooks_def Let_def by (intro reads_only)

section \<open>What the decision rests on\<close>

definition fresh_answer :: "console \<Rightarrow> bool" where
  "fresh_answer cn \<longleftrightarrow> cn_terminal cn \<and> (case cn_answer cn of Ok line \<Rightarrow> to_lower (cn_env cn) (trim_space line) \<in> {''f'', ''fresh''} | Err _ \<Rightarrow> False)"

definition same_tree :: "db \<Rightarrow> string \<Rightarrow> bool" where
  "same_tree d rt \<longleftrightarrow> (case newest_run (t_scan_runs d) of Some r \<Rightarrow> rn_root r = rt | None \<Rightarrow> True)"

lemma attempt_query:
  "attempt (query f) k fl (d, n) = (case fl n of Some e \<Rightarrow> k (Err (IOError e)) fl (d, Suc n) | None \<Rightarrow> k (Ok (f d)) fl (d, Suc n))"
  by (simp add: attempt_def query_def sql_def split: option.split)

lemma latestRun_eq:
  "latestRun fl (d, n) = (Ok (case fl n of Some e \<Rightarrow> Err (QueryFailed ''read latest scan run'' (IOError e)) | None \<Rightarrow> Ok (newest_run (t_scan_runs d))), (d, Suc n))"
  by (simp add: latestRun_def attempt_def GetLatestScanRun_def sql_def ret_def split: option.split)

lemma bind_latestRun:
  "bind latestRun k fl (d, n) = k (case fl n of Some e \<Rightarrow> Err (QueryFailed ''read latest scan run'' (IOError e)) | None \<Rightarrow> Ok (newest_run (t_scan_runs d))) fl (d, Suc n)"
  by (simp add: bind_def latestRun_eq)

lemmas decisions = resolveScanMode_def promptScanMode_def CountBookFiles_def CountBooks_def attempt_query bind_latestRun checkSameRoot_def ret_def
  resume_decision_def bind_Ok Let_def

lemma checkSameRoot_None:
  assumes "checkSameRoot cn rt fl (d, n) = (Ok (None, l), st)"
  shows "cn_terminal cn \<or> same_tree d rt"
  using assms by (auto simp: decisions same_tree_def split: option.splits if_splits)

lemma prompt_answers:
  assumes "promptScanMode cn rt fl (d, n) = (Ok (ModeFresh, None, l), st)" "cn_terminal cn"
  shows "fresh_answer cn"
  using assms by (auto simp: promptScanMode_def CountBookFiles_def CountBooks_def attempt_query bind_latestRun ret_def bind_Ok resume_decision_def fresh_answer_def Let_def
      split: option.splits sum.splits if_splits)

lemma decision_safe:
  assumes "resolveScanMode cn rt fl (d, n) = (Ok (mode, None, l), st)"
  shows "(mode = ModeFresh \<longrightarrow> cn_fresh cn \<or> t_files d = [] \<or> fresh_answer cn)
    \<and> (cn_terminal cn \<or> cn_fresh cn \<or> t_files d = [] \<or> cn_resume cn \<and> same_tree d rt)"
  using assms by (auto simp: resolveScanMode_def CountBookFiles_def attempt_query bind_Ok resume_decision_def ret_def
      split: option.splits if_splits dest: checkSameRoot_None prompt_answers)

section \<open>Statements that leave the runs alone\<close>

definition runs_of :: "db \<Rightarrow> run_row list \<times> int" where
  "runs_of d = (t_scan_runs d, seq_runs d)"

definition keeps_runs :: "'a stmt \<Rightarrow> bool" where
  "keeps_runs m \<longleftrightarrow> (\<forall>fl st. runs_of (fst (snd (m fl st))) = runs_of (fst st))"

lemma keeps_runs_ret: "keeps_runs (ret x)" "keeps_runs (throw e)"
  by (simp_all add: keeps_runs_def ret_def throw_def)

lemma keeps_runs_sql: "(\<And>d x d'. f d = Ok (x, d') \<Longrightarrow> runs_of d' = runs_of d) \<Longrightarrow> keeps_runs (sql f)"
  by (auto simp: keeps_runs_def sql_def split: option.splits sum.splits prod.splits)

lemma keeps_runs_bind: "keeps_runs m \<Longrightarrow> (\<And>x. keeps_runs (k x)) \<Longrightarrow> keeps_runs (bind m k)"
  unfolding keeps_runs_def
proof (intro allI)
  fix fl st assume m: "\<forall>fl st. runs_of (fst (snd (m fl st))) = runs_of (fst st)"
    and k: "\<And>x. \<forall>fl st. runs_of (fst (snd (k x fl st))) = runs_of (fst st)"
  obtain r st' where r: "m fl st = (r, st')" by (rule prod.exhaust)
  then have "runs_of (fst st') = runs_of (fst st)" using m by (metis snd_conv)
  then show "runs_of (fst (snd (bind m k fl st))) = runs_of (fst st)"
    using k r by (cases r) (simp_all add: bind_def del: split_paired_All)
qed

lemma keeps_runs_attempt: "keeps_runs m \<Longrightarrow> (\<And>r. keeps_runs (k r)) \<Longrightarrow> keeps_runs (attempt m k)"
  by (simp add: keeps_runs_def attempt_def case_prod_beta del: split_paired_All)

lemma keeps_runs_case:
  "(\<And>e. keeps_runs (f e)) \<Longrightarrow> (\<And>x. keeps_runs (g x)) \<Longrightarrow> keeps_runs (case r of Err e \<Rightarrow> f e | Ok x \<Rightarrow> g x)"
  "keeps_runs a \<Longrightarrow> keeps_runs b \<Longrightarrow> keeps_runs (if c then a else b)"
  by (cases r) simp_all

lemma keeps_runs_for_each: "(\<And>x. keeps_runs (f x)) \<Longrightarrow> keeps_runs (for_each f xs)"
  by (induction xs) (simp_all add: keeps_runs_ret keeps_runs_bind)

lemma keeps_runs_collect: "(\<And>x. keeps_runs (f x)) \<Longrightarrow> keeps_runs (collect f xs)"
  by (induction xs) (simp_all add: keeps_runs_ret keeps_runs_bind)

lemma keeps_runs_statements:
  "keeps_runs (GetAuthorByName s)" "keeps_runs (CreateAuthor s)" "keeps_runs (CreateBookFile row)" "keeps_runs (CreateBookFileDuplicate k p)"
  "keeps_runs (CreateBookFileAuthor f a)" "keeps_runs (CreateBookFileSubject f s i)" "keeps_runs (CreateBookFileLanguage f s i)"
  "keeps_runs (CreateBookFileIdentifier ir)" "keeps_runs (FindCandidateMinHashesByBand b h)" "keeps_runs (GetBookIDByBookFileID f)"
  "keeps_runs (CreateBook s)" "keeps_runs (CreateBookBookFile i j)" "keeps_runs (CreateBookAuthor i j)" "keeps_runs (CreateLSHBucket b h f)"
  unfolding GetAuthorByName_def CreateAuthor_def CreateBookFile_def CreateBookFileDuplicate_def CreateBookFileAuthor_def
    CreateBookFileSubject_def CreateBookFileLanguage_def CreateBookFileIdentifier_def FindCandidateMinHashesByBand_def
    GetBookIDByBookFileID_def CreateBook_def CreateBookBookFile_def CreateBookAuthor_def CreateLSHBucket_def
  by (rule keeps_runs_sql; auto simp: runs_of_def Let_def split: if_splits option.splits)+

lemma keeps_runs_pair: "(\<And>a b. keeps_runs (f a b)) \<Longrightarrow> keeps_runs (case x of (a, b) \<Rightarrow> f a b)"
  by (cases x) simp

lemma keeps_runs_find: "keeps_runs (find_candidates f bs cands)"
  by (induction bs arbitrary: cands) (simp_all add: keeps_runs_ret keeps_runs_bind keeps_runs_statements)

lemmas keeps_runs = keeps_runs_ret keeps_runs_bind keeps_runs_attempt keeps_runs_case keeps_runs_for_each keeps_runs_collect
  keeps_runs_statements keeps_runs_find keeps_runs_pair

lemma keeps_runs_record_file: "keeps_runs (record_file jac ord path md)"
  unfolding record_file_def link_file_def ensureAuthor_def chooseBook_def storeBookFileMetadata_def Let_def
  by (intro keeps_runs)

lemma with_tx_runs:
  assumes "keeps_runs body"
  shows "runs_of (snd (with_tx b c body fl d)) = runs_of d"
proof -
  obtain r d' n where r: "body fl (d, 0) = (r, (d', n))" by (metis prod.exhaust)
  then have "runs_of d' = runs_of d" using assms unfolding keeps_runs_def by (metis fst_conv snd_conv)
  then show ?thesis using r by (simp add: with_tx_def split: option.split sum.split)
qed

text \<open>The scan, unit of work by unit of work.\<close>

definition same_runs :: "proc \<Rightarrow> proc \<Rightarrow> bool" where
  "same_runs s s' \<longleftrightarrow> runs_of (pr_db s') = runs_of (pr_db s)"

lemma store_same_runs: "store w path md s = (err, s') \<Longrightarrow> same_runs s s'"
  using with_tx_runs [OF keeps_runs_record_file]
  by (auto simp: store_def same_runs_def split: prod.splits) (metis snd_conv)

interpretation run_table: scan_steps w same_runs for w
proof unfold_locales
  fix path s md e s' assume "store w path md s = (Some e, s')"
  then show "same_runs s s'" by (rule store_same_runs)
next
  fix path s md s' format assume "store w path md s = (None, s')"
  then have "same_runs s s'" by (rule store_same_runs)
  then show "same_runs s (s'\<lparr>pr_parsed := pr_parsed s' + 1, pr_results := pr_results s' @ [(path, format, md)]\<rparr>)"
    by (simp add: same_runs_def)
qed (simp_all add: same_runs_def)

section \<open>Clearing\<close>

definition emptied :: "db \<Rightarrow> db" where
  "emptied d = empty_db\<lparr>seq_authors := seq_authors d, seq_files := seq_files d, seq_books := seq_books d, seq_runs := seq_runs d\<rparr>"

lemma Clear_outcome:
  assumes "Clear fl b c d = (err, d')"
  shows "if err = None then d' = emptied d else d' = d"
proof (cases err)
  case None
  then obtain n where "b = None" "c = None" and r: "for_each (\<lambda>upd. sql (\<lambda>d. Ok ((), upd d)))
       [t_buckets_update (\<lambda>_. []), t_book_files_update (\<lambda>_. []), t_book_authors_update (\<lambda>_. []),
        t_book_idents_update (\<lambda>_. []), t_book_languages_update (\<lambda>_. []), t_book_subjects_update (\<lambda>_. []),
        t_book_pubs_update (\<lambda>_. []),
        t_duplicates_update (\<lambda>_. []), t_file_authors_update (\<lambda>_. []), t_file_idents_update (\<lambda>_. []),
        t_file_languages_update (\<lambda>_. []), t_file_subjects_update (\<lambda>_. []), t_files_update (\<lambda>_. []),
        t_books_update (\<lambda>_. []), t_authors_update (\<lambda>_. []), t_scan_runs_update (\<lambda>_. [])] fl (d, 0) = (Ok (), (d', n))"
    using assms by (auto simp: Clear_def with_tx_ok)
  have "d' = emptied d"
    using r by (cases d) (simp add: bind_Ok sql_Ok emptied_def empty_db_def)
  then show ?thesis using None by simp
next
  case (Some e)
  then show ?thesis using assms with_tx_error unfolding Clear_def by (metis option.discI)
qed

lemma emptied_inv: "db_inv d \<Longrightarrow> db_inv (emptied d)"
  by (simp add: db_inv_def keys_ok_def refs_ok_def books_ok_def buckets_ok_def emptied_def empty_db_def)

lemma nothing_recorded: "db_inv d \<Longrightarrow> t_files d = [] \<Longrightarrow> \<not> recorded d p"
  by (auto simp: db_inv_def refs_ok_def recorded_iff)

section \<open>A run\<close>

lemma runs_only_inv: "db_inv (d\<lparr>t_scan_runs := x\<rparr>) = db_inv d" "db_inv (d\<lparr>seq_runs := i\<rparr>) = db_inv d"
  by (simp_all add: db_inv_def keys_ok_def refs_ok_def books_ok_def buckets_ok_def file_exists_def author_exists_def book_exists_def)

lemma runs_only_recorded: "recorded (d\<lparr>t_scan_runs := x\<rparr>) p = recorded d p" "recorded (d\<lparr>seq_runs := i\<rparr>) p = recorded d p"
  by (simp_all add: recorded_iff)

lemma recorded_path_of: "recorded d p \<longleftrightarrow> p \<in> snd ` recorded_paths d"
  by (simp add: recorded_iff recorded_paths_def image_Un image_image)

lemma pass_keeps:
  assumes "Consolidate l agg b c fl d = (err, d')" "db_inv d"
  shows "db_inv d' \<and> (\<forall>p. recorded d p \<longrightarrow> recorded d' p) \<and> t_scan_runs d' = t_scan_runs d"
proof (cases err)
  case None
  then show ?thesis using Consolidate_keeps [of d l agg b c fl d'] assms by (simp add: recorded_path_of raw_data_def)
next
  case (Some e)
  then show ?thesis using assms with_tx_error unfolding Consolidate_def by metis
qed

lemma FinishScanRun_outcome:
  "FinishScanRun status t i fl (d, n) = (r, (d', n')) \<Longrightarrow>
    d' = d \<and> r \<noteq> Ok () \<or> d' = d\<lparr>t_scan_runs := map (finish_row status t i) (t_scan_runs d)\<rparr> \<and> r = Ok ()"
  by (auto simp: FinishScanRun_def sql_def split: option.splits)

text \<open>The database a scan starts on: its run is recorded.\<close>

definition begun :: "scan_command \<Rightarrow> scan_mode \<Rightarrow> db \<Rightarrow> db" where
  "begun sc mode d = d\<lparr>t_scan_runs := t_scan_runs d @ [\<lparr>rn_id = seq_runs d + 1, rn_root = sc_root sc, rn_mode = mode_String mode,
     rn_status = ''running'', rn_started = sc_started sc, rn_finished = None\<rparr>], seq_runs := seq_runs d + 1\<rparr>"

text \<open>A command that succeeds got as far as the scan, from the kept or the emptied database.\<close>

lemma runScan_started:
  assumes "runScan sc d = (None, d', out)"
  obtains mode m where "scan_and_finish sc mode (seq_runs d + 1) (begun sc mode (if mode = ModeFresh then emptied d else d), m) = (None, d', out)"
proof -
  have start: "sc_path sc \<noteq> []" "sc_open sc = None"
    using assms unfolding runScan_def by (auto split: if_splits option.splits)
  obtain r n where dec: "resolveScanMode (sc_console sc) (sc_root sc) (sc_faults sc) (d, 0) = (r, (d, n))"
    using reads_only_resolveScanMode unfolding reads_only_def by blast
  note run = assms [unfolded runScan_def dec prod.case]
  obtain mode l where r: "r = Ok (mode, None, l)" using run start by (auto split: sum.splits option.splits prod.splits)
  define d0 where "d0 = (if mode = ModeFresh then emptied d else d)"
  have q: "seq_runs d0 = seq_runs d" by (simp add: emptied_def d0_def)
  obtain e0 dc where c0: "clear_if_fresh sc mode d = (e0, dc)" by (rule prod.exhaust)
  have "e0 = None" using run start by (cases e0) (simp_all add: r c0)
  moreover have "dc = d0" if "e0 = None"
    using c0 that Clear_outcome by (fastforce simp: clear_if_fresh_def d0_def split: scan_mode.splits prod.splits)
  ultimately have c: "clear_if_fresh sc mode d = (None, d0)" using c0 by simp
  obtain i dd m where cr: "CreateScanRun (sc_root sc) (mode_String mode) (sc_started sc) (sc_faults sc) (d0, n) = (i, (dd, m))"
    by (rule prod_cases3)
  have i: "i = Ok (seq_runs d + 1)" "dd = begun sc mode d0" if "\<exists>x. i = Ok x"
    using cr that q by (auto simp: CreateScanRun_def sql_def Let_def begun_def split: option.splits)
  obtain x where "i = Ok x" using run start by (cases i) (simp_all add: r c cr)
  then have "scan_and_finish sc mode (seq_runs d + 1) (begun sc mode d0, m) = (None, d', out)"
    using run start i by (simp add: r c cr)
  then show thesis unfolding d0_def by (rule that)
qed

text \<open>A run whose end reports no error was not stopped, and all of its parts succeeded.\<close>

lemma finish_succeeded:
  assumes "scan_and_finish sc mode run (d0, m) = (None, d', out)"
    "sc_ctx sc 3 = None \<longrightarrow> sc_ctx sc 0 = None \<and> sc_ctx sc 1 = None \<and> sc_ctx sc 2 = None"
  obtains d1 d2 m' where "sc_process sc (mode = ModeResume) d0 = (None, d1)" "consolidate_run sc None d1 = (False, None, d2)"
    "FinishScanRun ''completed'' (sc_finished sc) run (sc_faults sc) (d2, m) = (Ok (), (d', m'))"
    "out = ''failures'' # (if sc_report sc then [''duplicates'', ''books''] else [])"
proof -
  obtain e1 d1 where p: "sc_process sc (mode = ModeResume) d0 = (e1, d1)" by (rule prod.exhaust)
  obtain cc e2 d2 where k: "consolidate_run sc e1 d1 = (cc, e2, d2)" by (rule prod_cases3)
  obtain fr d3 m' where f: "FinishScanRun (run_status (cc \<or> sc_ctx sc 2 \<noteq> None) e2) (sc_finished sc) run (sc_faults sc) (d2, m) = (fr, (d3, m'))"
    by (rule prod_cases3)
  have w: "write_reports sc (cc \<or> sc_ctx sc 2 \<noteq> None) e2 (case fr of Err e \<Rightarrow> Some e | Ok _ \<Rightarrow> None) = (None, out)" "d3 = d'"
    using assms(1) p k f by (auto simp: scan_and_finish_def Let_def split: prod.splits)
  have "\<not> (cc \<or> sc_ctx sc 2 \<noteq> None)"
  proof
    assume stopped: "cc \<or> sc_ctx sc 2 \<noteq> None"
    then have "sc_ctx sc 3 = None" using w(1) by (auto simp: write_reports_def split: option.splits)
    with assms(2) have "sc_ctx sc 0 = None" "sc_ctx sc 1 = None" "sc_ctx sc 2 = None" by blast+
    then show False using k stopped by (auto simp: consolidate_run_def split: option.splits prod.splits)
  qed
  then have quiet: "\<not> cc" "sc_ctx sc 2 = None" by simp_all
  have ok: "e2 = None" "fr = Ok ()" "out = ''failures'' # (if sc_report sc then [''duplicates'', ''books''] else [])"
    using w(1) quiet by (auto simp: write_reports_def Let_def split: option.splits sum.splits if_splits)
  have "e1 = None" using k quiet ok(1) by (auto simp: consolidate_run_def split: option.splits prod.splits if_splits)
  then show thesis using that [of d1 d2 m'] p k f w(2) quiet ok by (simp add: run_status_def)
qed

locale scan_engine =
  fixes process :: "bool \<Rightarrow> db \<Rightarrow> string option \<times> db"
  assumes keeps_inv: "db_inv d \<Longrightarrow> db_inv (snd (process resume d))"
    and keeps_recorded: "db_inv d \<Longrightarrow> recorded d p \<Longrightarrow> recorded (snd (process resume d)) p"
    and keeps_rows: "t_scan_runs (snd (process resume d)) = t_scan_runs d"
begin

lemma pass_step:
  assumes "consolidate_run sc err d = (canceled, err', d')" "db_inv d"
  shows "db_inv d' \<and> (\<forall>p. recorded d p \<longrightarrow> recorded d' p) \<and> t_scan_runs d' = t_scan_runs d"
proof -
  obtain b c fl where pass: "sc_pass sc = (b, c, fl)" by (rule prod_cases3)
  obtain cerr d1 where con: "Consolidate (sc_libs sc) (sc_agg sc) b c fl d = (cerr, d1)" by (rule prod.exhaust)
  have "d' = d \<or> d' = d1" using assms(1) pass con by (auto simp: consolidate_run_def split: option.splits if_splits)
  then show ?thesis using pass_keeps [OF con assms(2)] assms(2) by blast
qed

lemma finish_keeps:
  assumes "scan_and_finish sc mode run (d, n) = (err, d', out)" "sc_process sc = process" "db_inv d"
  shows "db_inv d' \<and> (\<forall>p. recorded d p \<longrightarrow> recorded d' p)"
proof -
  obtain e1 d1 where p: "process (mode = ModeResume) d = (e1, d1)" by (rule prod.exhaust)
  obtain c e2 d2 where k: "consolidate_run sc e1 d1 = (c, e2, d2)" by (rule prod_cases3)
  obtain r d3 m where f: "FinishScanRun (run_status (c \<or> sc_ctx sc 2 \<noteq> None) e2) (sc_finished sc) run (sc_faults sc) (d2, n) = (r, (d3, m))"
    by (rule prod_cases3)
  have "d' = d3" using assms(1,2) p k f by (auto simp: scan_and_finish_def Let_def split: prod.splits)
  moreover have "db_inv d1" "recorded d x \<Longrightarrow> recorded d1 x" for x
    using keeps_inv [OF assms(3), of "mode = ModeResume"] keeps_recorded [OF assms(3), of x "mode = ModeResume"] by (simp_all add: p)
  ultimately show ?thesis
    using pass_step [OF k] FinishScanRun_outcome [OF f] by (auto simp: runs_only_inv runs_only_recorded)
qed

lemma command_keeps:
  assumes "runScan sc d = (err, d', out)" "sc_process sc = process" "db_inv d"
  shows "db_inv d' \<and> (cn_fresh (sc_console sc) \<or> fresh_answer (sc_console sc) \<or> (\<forall>p. recorded d p \<longrightarrow> recorded d' p))
    \<and> (cn_terminal (sc_console sc) \<or> cn_fresh (sc_console sc) \<or> t_files d = [] \<or> cn_resume (sc_console sc) \<and> same_tree d (sc_root sc)
       \<or> err \<noteq> None \<and> d' = d)"
proof (cases "sc_path sc = [] \<or> sc_open sc \<noteq> None")
  case True
  then have "err \<noteq> None \<and> d' = d"
    using assms(1) unfolding runScan_def by (cases "sc_path sc = []"; cases "sc_open sc") auto
  then show ?thesis using assms(3) by simp
next
  case False
  obtain r n where dec: "resolveScanMode (sc_console sc) (sc_root sc) (sc_faults sc) (d, 0) = (r, (d, n))"
    using reads_only_resolveScanMode unfolding reads_only_def by blast
  note run = assms(1) [unfolded runScan_def dec prod.case]
  show ?thesis
  proof (cases "\<exists>mode l. r = Ok (mode, None, l)")
    case stop: False
    then have "err \<noteq> None \<and> d' = d" using run False by (auto split: sum.splits option.splits prod.splits)
    then show ?thesis using assms(3) by simp
  next
    case True
    then obtain mode l where r: "r = Ok (mode, None, l)" by blast
    note safe = decision_safe [OF dec [unfolded r]]
    obtain e d1 where c: "clear_if_fresh sc mode d = (e, d1)" by (rule prod.exhaust)
    obtain i d2 m where cr: "CreateScanRun (sc_root sc) (mode_String mode) (sc_started sc) (sc_faults sc) (d1, n) = (i, (d2, m))"
      by (rule prod_cases3)
    have d1: "d1 = d \<or> mode = ModeFresh \<and> e = None \<and> d1 = emptied d"
      using c Clear_outcome by (fastforce simp: clear_if_fresh_def split: scan_mode.splits prod.splits if_splits)
    have d2: "db_inv d2 = db_inv d1" "recorded d2 p = recorded d1 p" for p
      using cr by (auto simp: CreateScanRun_def sql_def Let_def runs_only_inv runs_only_recorded split: option.splits)
    have "d' = d1 \<or> d' = d2 \<or> (\<exists>run. scan_and_finish sc mode run (d2, m) = (err, d', out))"
      using run r c cr False by (auto split: sum.splits option.splits)
    then have "db_inv d1 \<longrightarrow> db_inv d' \<and> (\<forall>p. recorded d1 p \<longrightarrow> recorded d' p)"
      using finish_keeps [OF _ assms(2)] d2 by blast
    then show ?thesis using safe d1 emptied_inv [OF assms(3)] nothing_recorded [OF assms(3)] assms(3) by blast
  qed
qed

lemma command_complete:
  assumes "runScan sc d = (None, d', out)" "sc_process sc = process" "db_inv d"
    "sc_ctx sc 3 = None \<longrightarrow> sc_ctx sc 0 = None \<and> sc_ctx sc 1 = None \<and> sc_ctx sc 2 = None"
  obtains mode d1 d2 where "process (mode = ModeResume) (begun sc mode (if mode = ModeFresh then emptied d else d)) = (None, d1)"
    "Consolidate (sc_libs sc) (sc_agg sc) (fst (sc_pass sc)) (fst (snd (sc_pass sc))) (snd (snd (sc_pass sc))) d1 = (None, d2)"
    "d' = d2\<lparr>t_scan_runs := map (finish_row ''completed'' (sc_finished sc) (seq_runs d + 1)) (t_scan_runs d2)\<rparr>"
    "t_scan_runs d2 = t_scan_runs (begun sc mode (if mode = ModeFresh then emptied d else d))"
    "out = ''failures'' # (if sc_report sc then [''duplicates'', ''books''] else [])"
proof -
  obtain mode m where fin: "scan_and_finish sc mode (seq_runs d + 1) (begun sc mode (if mode = ModeFresh then emptied d else d), m) = (None, d', out)"
    by (rule runScan_started [OF assms(1)])
  define d0 where "d0 = begun sc mode (if mode = ModeFresh then emptied d else d)"
  obtain d1 d2 m' where p: "process (mode = ModeResume) d0 = (None, d1)" and k: "consolidate_run sc None d1 = (False, None, d2)"
    and f: "FinishScanRun ''completed'' (sc_finished sc) (seq_runs d + 1) (sc_faults sc) (d2, m) = (Ok (), (d', m'))"
    and out: "out = ''failures'' # (if sc_report sc then [''duplicates'', ''books''] else [])"
    using finish_succeeded [OF fin assms(4)] unfolding d0_def assms(2) by blast
  have pass: "Consolidate (sc_libs sc) (sc_agg sc) (fst (sc_pass sc)) (fst (snd (sc_pass sc))) (snd (snd (sc_pass sc))) d1 = (None, d2)"
    using k by (auto simp: consolidate_run_def split: option.splits prod.splits if_splits)
  have "db_inv d0" using emptied_inv [OF assms(3)] assms(3) by (simp add: begun_def runs_only_inv d0_def)
  then have inv: "db_inv d1" using keeps_inv [of d0 "mode = ModeResume"] p by simp
  have "t_scan_runs d2 = t_scan_runs d0" using pass_step [OF k inv] keeps_rows [of "mode = ModeResume" d0] by (simp add: p)
  moreover have "d' = d2\<lparr>t_scan_runs := map (finish_row ''completed'' (sc_finished sc) (seq_runs d + 1)) (t_scan_runs d2)\<rparr>"
    using FinishScanRun_outcome [OF f] by simp
  ultimately show thesis using that [of mode d1 d2] p pass out unfolding d0_def by blast
qed

end

section \<open>The scan of this program\<close>

definition scan_process :: "'c world \<Rightarrow> scan_result list \<Rightarrow> string option \<Rightarrow> bool \<Rightarrow> db \<Rightarrow> string option \<times> db" where
  "scan_process w rs err resume d = (err, pr_db (fold (processSource (w\<lparr>w_resume := resume\<rparr>)) rs (NewScanProcessor d)))"

interpretation engine: scan_engine "scan_process w rs err" for w rs err
proof unfold_locales
  fix d resume
  let ?s = "NewScanProcessor d" and ?s' = "fold (processSource (w\<lparr>w_resume := resume\<rparr>)) rs (NewScanProcessor d)"
  have s: "pr_db ?s = d" by (simp add: NewScanProcessor_def)
  have g: "grows ?s ?s'" by (rule growth.sources_step)
  show "db_inv d \<Longrightarrow> db_inv (snd (scan_process w rs err resume d))"
    using g s by (simp add: scan_process_def grows_def)
  show "db_inv d \<Longrightarrow> recorded d p \<Longrightarrow> recorded (snd (scan_process w rs err resume d)) p" for p
    using g s by (simp add: scan_process_def grows_def)
  have "same_runs ?s ?s'" by (rule run_table.sources_step)
  then show "t_scan_runs (snd (scan_process w rs err resume d)) = t_scan_runs d"
    using s by (simp add: scan_process_def same_runs_def runs_of_def)
qed

section \<open>Properties\<close>

text \<open>
  C3: The scan command deletes nothing unasked. Whatever fails and wherever the context stops it, the command keeps the
  invariant of the database; a recorded path is lost only when the user passed --fresh or answered fresh at a terminal;
  and over existing data without a terminal, unless --fresh is given or --resume on the tree scanned last, the command
  fails and changes nothing.
\<close>

theorem scan_command_keeps_library:
  assumes "db_inv d" "sc_process sc = scan_process w rs e" "runScan sc d = (err, d', out)"
  shows "db_inv d' \<and> (cn_fresh (sc_console sc) \<or> fresh_answer (sc_console sc) \<or> (\<forall>p. recorded d p \<longrightarrow> recorded d' p))
    \<and> (cn_terminal (sc_console sc) \<or> cn_fresh (sc_console sc) \<or> t_files d = [] \<or> cn_resume (sc_console sc) \<and> same_tree d (sc_root sc)
       \<or> err \<noteq> None \<and> d' = d)"
  by (rule engine.command_keeps [OF assms(3,2,1)])

text \<open>
  C5: A scan command that succeeds has done all of it. It started from the emptied or the kept database with its run
  recorded, the scan ended without error, the pass over the books committed on what the scan left, and every report
  asked for was written. After the pass only the table of runs was changed: it holds the runs it started from, of which
  no row with another number than that of this run was touched, and then this run, marked completed.
\<close>

theorem successful_scan_is_complete:
  assumes "db_inv d" "sc_process sc = scan_process w rs e" "runScan sc d = (None, d', out)"
    "sc_ctx sc 3 = None \<longrightarrow> sc_ctx sc 0 = None \<and> sc_ctx sc 1 = None \<and> sc_ctx sc 2 = None"
  shows "\<exists>mode base d1 d2. base = (if mode = ModeFresh then emptied d else d)
    \<and> scan_process w rs e (mode = ModeResume) (begun sc mode base) = (None, d1)
    \<and> Consolidate (sc_libs sc) (sc_agg sc) (fst (sc_pass sc)) (fst (snd (sc_pass sc))) (snd (snd (sc_pass sc))) d1 = (None, d2)
    \<and> d' = d2\<lparr>t_scan_runs := t_scan_runs d'\<rparr>
    \<and> t_scan_runs d' = map (\<lambda>r. if rn_id r = seq_runs d + 1 then r\<lparr>rn_status := ''completed'', rn_finished := Some (sc_finished sc)\<rparr> else r) (t_scan_runs base)
        @ [\<lparr>rn_id = seq_runs d + 1, rn_root = sc_root sc, rn_mode = mode_String mode, rn_status = ''completed'',
             rn_started = sc_started sc, rn_finished = Some (sc_finished sc)\<rparr>]
    \<and> out = ''failures'' # (if sc_report sc then [''duplicates'', ''books''] else [])"
proof -
  obtain mode d1 d2 where c: "scan_process w rs e (mode = ModeResume) (begun sc mode (if mode = ModeFresh then emptied d else d)) = (None, d1)"
    "Consolidate (sc_libs sc) (sc_agg sc) (fst (sc_pass sc)) (fst (snd (sc_pass sc))) (snd (snd (sc_pass sc))) d1 = (None, d2)"
    "d' = d2\<lparr>t_scan_runs := map (finish_row ''completed'' (sc_finished sc) (seq_runs d + 1)) (t_scan_runs d2)\<rparr>"
    "t_scan_runs d2 = t_scan_runs (begun sc mode (if mode = ModeFresh then emptied d else d))"
    "out = ''failures'' # (if sc_report sc then [''duplicates'', ''books''] else [])"
    by (rule engine.command_complete [OF assms(3,2,1,4)])
  have row: "finish_row ''completed'' (sc_finished sc) (seq_runs d + 1)
    = (\<lambda>r. if rn_id r = seq_runs d + 1 then r\<lparr>rn_status := ''completed'', rn_finished := Some (sc_finished sc)\<rparr> else r)"
    by (rule ext) (simp add: finish_row_def)
  have seq: "seq_runs (if mode = ModeFresh then emptied d else d) = seq_runs d" by (simp add: emptied_def)
  show ?thesis
    using c unfolding row by (intro exI [of _ mode] exI [of _ "if mode = ModeFresh then emptied d else d"] exI [of _ d1] exI [of _ d2])
      (simp add: begun_def seq)
qed

section \<open>Witnesses\<close>

definition demo_command :: scan_command where
  "demo_command = \<lparr>sc_path = ''m.db'', sc_open = None, sc_root = ''/books'',
     sc_console = \<lparr>cn_fresh = False, cn_resume = True, cn_terminal = False, cn_answer = Ok [], cn_env = plain_env\<rparr>,
     sc_report = True, sc_faults = (\<lambda>_. None), sc_clear = (None, None, (\<lambda>_. None)), sc_started = 1, sc_finished = 2,
     sc_process = scan_process (demo_world True demo_books) [] None, sc_libs = demo_libs, sc_agg = id,
     sc_pass = (None, None, (\<lambda>_. None)), sc_ctx = (\<lambda>_. None), sc_write = (\<lambda>_. None)\<rparr>"

lemma resume_decided:
  assumes "\<not> cn_fresh cn" "cn_resume cn" "t_files d \<noteq> []" "t_scan_runs d = []"
  shows "resolveScanMode cn rt (\<lambda>_. None) (d, n) = (Ok (ModeResume, None, []), (d, Suc (Suc n)))"
  using assms by (simp add: resolveScanMode_def CountBookFiles_def attempt_query checkSameRoot_def bind_def latestRun_eq ret_def resume_decision_def)

lemma demo_decision:
  "resolveScanMode (sc_console demo_command) ''/books'' (\<lambda>_. None) (demo_library, 0) = (Ok (ModeResume, None, []), (demo_library, 2))"
proof -
  have "t_files demo_library \<noteq> []" "t_scan_runs demo_library = []" by (simp_all add: demo_library_def empty_db_def)
  then show ?thesis using resume_decided [of "sc_console demo_command" demo_library "''/books''" 0] by (simp add: demo_command_def)
qed

lemma demo_scan_run: "\<exists>d'. runScan demo_command demo_library = (None, d', [''failures'', ''duplicates'', ''books''])"
proof -
  let ?d = "begun demo_command ModeResume demo_library"
  have "paths_unshared ?d" unfolding paths_unshared_def by (simp add: recorded_paths_def demo_library_def begun_def demo_file_def)
  moreover have "db_inv ?d" using demo_library_inv by (simp add: begun_def runs_only_inv)
  ultimately obtain d2 where d2: "Consolidate demo_libs id None None (\<lambda>_. None) ?d = (None, d2)"
    using Consolidate_runs [of ?d "\<lambda>_. None" demo_libs id] by auto
  have p: "scan_process (demo_world True demo_books) [] None True ?d = (None, ?d)"
    by (simp add: scan_process_def NewScanProcessor_def)
  have cr: "CreateScanRun ''/books'' ''resume'' 1 (\<lambda>_. None) (demo_library, 2) = (Ok (seq_runs demo_library + 1), (?d, 3))"
    by (simp add: CreateScanRun_def sql_def begun_def demo_command_def Let_def)
  show ?thesis
    using demo_decision d2 p cr
    by (simp add: runScan_def demo_command_def clear_if_fresh_def scan_and_finish_def consolidate_run_def write_reports_def FinishScanRun_def
        sql_def Let_def)
qed

theorem scan_command_keeps_library_witness:
  "\<exists>err d' out. runScan demo_command demo_library = (err, d', out) \<and> db_inv d' \<and> recorded d' ''a.txt''"
proof -
  obtain err d' out where r: "runScan demo_command demo_library = (err, d', out)" by (rule prod_cases3)
  have "recorded demo_library ''a.txt''" by (simp add: recorded_iff demo_library_def)
  then show ?thesis
    using scan_command_keeps_library [OF demo_library_inv _ r, of "demo_world True demo_books" "[]" None] r
    by (simp add: demo_command_def fresh_answer_def)
qed

theorem successful_scan_is_complete_witness:
  "\<exists>d'. runScan demo_command demo_library = (None, d', [''failures'', ''duplicates'', ''books'']) \<and> rn_status (last (t_scan_runs d')) = ''completed''"
proof -
  obtain d' where r: "runScan demo_command demo_library = (None, d', [''failures'', ''duplicates'', ''books''])" using demo_scan_run by blast
  then show ?thesis
    using successful_scan_is_complete [OF demo_library_inv _ r, of "demo_world True demo_books" "[]" None]
    by (auto simp: demo_command_def)
qed

end
