(* ===== verification/Progress.thy ===== *)
theory Progress
  imports Processor
begin

text \<open>
  Model of \<open>internal/cli/progress.go\<close> and of the summaries of \<open>internal/cli/scan.go\<close>: the progress bar, the reporter that
  feeds it, and the lines printed after a scan. The clock, the width of the terminal and the product of
  the two floating point numbers that gives the filled part of the bar are arguments.
\<close>

section \<open>Numbers\<close>

fun digits_of :: "nat \<Rightarrow> string" where
  "digits_of n = (if n < 10 then [chr (48 + n)] else digits_of (n div 10) @ [chr (48 + n mod 10)])"

declare digits_of.simps [simp del]

definition int_text :: "int \<Rightarrow> string" where
  "int_text i = (if i < 0 then CHR ''-'' # digits_of (nat (- i)) else digits_of (nat i))"

section \<open>The bar\<close>

definition barWidth :: nat where "barWidth = 20"
definition spinnerFrames :: string where "spinnerFrames = [CHR ''|'', CHR ''/'', CHR ''-'', chr 92]"
definition anSiClearLine :: string where "anSiClearLine = chr 27 # ''[K''"

text \<open>\<open>b_out\<close> is what was written; the times are in nanoseconds, and \<open>b_last\<close> is None for the zero time.\<close>

record bar =
  b_desc :: string
  b_width :: nat
  b_cols :: int
  b_max :: int
  b_cur :: int
  b_throttle :: int
  b_last :: "int option"
  b_done :: bool
  b_spin :: nat
  b_active :: bool
  b_canceling :: bool
  b_names :: "string list"
  b_out :: "string list"

text \<open>What a call finds around it: the time, the width of the terminal when it has one, and the floating point product.\<close>

record surroundings =
  su_now :: int
  su_cols :: "int option"
  su_fill :: "int \<Rightarrow> int \<Rightarrow> nat \<Rightarrow> int"

definition terminal_cols :: "surroundings \<Rightarrow> int \<Rightarrow> int" where
  "terminal_cols su cols = (case su_cols su of Some w \<Rightarrow> if 0 < w then w else cols | None \<Rightarrow> cols)"

definition newProgressBar :: "surroundings \<Rightarrow> bar" where
  "newProgressBar su = \<lparr>b_desc = ''scanning ebooks'', b_width = barWidth, b_cols = terminal_cols su 80, b_max = 0, b_cur = 0,
     b_throttle = 50 * 10 ^ 6, b_last = None, b_done = False, b_spin = 0, b_active = False, b_canceling = False, b_names = [], b_out = []\<rparr>"

definition fit :: "string \<Rightarrow> int \<Rightarrow> string" where
  "fit s n = (let r = runes s in
     if n \<le> 0 \<or> int (length r) \<le> n then s
     else if n = 1 then utf8_encode (take 1 r)
     else utf8_encode (take (nat n - 1) r) @ encode_rune 8230)"

definition filled :: "surroundings \<Rightarrow> bar \<Rightarrow> nat" where
  "filled su b = (let fill = (if 0 < b_max b then su_fill su (b_cur b) (b_max b) (b_width b) else 0) in nat (max 0 (min fill (int (b_width b)))))"

definition bar_line :: "surroundings \<Rightarrow> bar \<Rightarrow> string" where
  "bar_line su b = (let fill = filled su b;
       cursor = (if b_active b then spinnerFrames ! (b_spin b mod length spinnerFrames) else CHR '' '');
       blocks = concat (replicate fill (encode_rune 9608)) @ concat (replicate (b_width b - fill) (encode_rune 9617)) in
     b_desc b @ '' '' @ [cursor] @ '' ['' @ blocks @ ''] '' @ int_text (b_cur b) @ ''/'' @ int_text (b_max b)
       @ (if b_names b \<noteq> [] then ''  '' @ last (b_names b) else []))"

definition render :: "surroundings \<Rightarrow> bar \<Rightarrow> bar" where
  "render su b0 = (let cols = terminal_cols su (b_cols b0); b = b0\<lparr>b_cols := (if cols < 1 then 80 else cols)\<rparr> in
     b\<lparr>b_spin := (if b_active b then b_spin b + 1 else b_spin b),
       b_out := b_out b @ [chr 13 # fit (bar_line su b) (b_cols b) @ anSiClearLine]\<rparr>)"

definition draw :: "surroundings \<Rightarrow> bar \<Rightarrow> bar" where
  "draw su b = (if b_done b then b
     else case b_last b of
         Some t \<Rightarrow> if su_now su - t < b_throttle b then b else render su (b\<lparr>b_last := Some (su_now su)\<rparr>)
       | None \<Rightarrow> render su (b\<lparr>b_last := Some (su_now su)\<rparr>))"

definition setMax :: "surroundings \<Rightarrow> int \<Rightarrow> bar \<Rightarrow> bar" where
  "setMax su m0 b = (if b_done b then b
     else let m = max m0 (b_cur b) in if m \<le> b_max b then b else draw su (b\<lparr>b_max := m\<rparr>))"

definition add :: "surroundings \<Rightarrow> int \<Rightarrow> bar \<Rightarrow> bar" where
  "add su n b = (if b_done b \<or> n \<le> 0 then b
     else let cur = b_cur b + n in draw su (b\<lparr>b_cur := cur, b_max := (if b_max b < cur then cur else b_max b)\<rparr>))"

definition bar_finish :: "bar \<Rightarrow> bar" where
  "bar_finish b = (if b_done b then b else b\<lparr>b_done := True, b_out := b_out b @ [chr 13 # anSiClearLine, [chr 10]]\<rparr>)"

definition renderNow :: "surroundings \<Rightarrow> bar \<Rightarrow> bar" where
  "renderNow su b = (if b_done b then b else render su b)"

section \<open>The reporter\<close>

record reporter =
  rp_bar :: bar
  rp_lastParsed :: int
  rp_lastSkipped :: int
  rp_maxFound :: int

definition new_reporter :: "surroundings \<Rightarrow> reporter" where
  "new_reporter su = \<lparr>rp_bar = newProgressBar su, rp_lastParsed = 0, rp_lastSkipped = 0, rp_maxFound = 0\<rparr>"

definition applyActive :: "surroundings \<Rightarrow> stats \<Rightarrow> reporter \<Rightarrow> reporter" where
  "applyActive su p r = r\<lparr>rp_bar := draw su ((rp_bar r)\<lparr>b_active := 0 < st_active p \<and> \<not> b_canceling (rp_bar r), b_names := st_current p\<rparr>)\<rparr>"

text \<open>The units that were parsed or skipped since the last report.\<close>

definition catch_up :: "surroundings \<Rightarrow> stats \<Rightarrow> reporter \<Rightarrow> reporter" where
  "catch_up su p r =
     (let r = (if rp_lastParsed r < st_parsed p
          then r\<lparr>rp_bar := add su (st_parsed p - rp_lastParsed r) (rp_bar r), rp_lastParsed := st_parsed p\<rparr> else r) in
      if rp_lastSkipped r < st_skipped p
      then r\<lparr>rp_bar := add su (st_skipped p - rp_lastSkipped r) (rp_bar r), rp_lastSkipped := st_skipped p\<rparr> else r)"

definition rp_report :: "surroundings \<Rightarrow> stats \<Rightarrow> reporter \<Rightarrow> reporter" where
  "rp_report su p r = applyActive su p (catch_up su p
     (if rp_maxFound r < st_found p then r\<lparr>rp_maxFound := st_found p, rp_bar := setMax su (st_found p) (rp_bar r)\<rparr> else r))"

definition rp_tick :: "surroundings \<Rightarrow> stats \<Rightarrow> reporter \<Rightarrow> reporter" where
  "rp_tick = applyActive"

definition rp_cancel :: "surroundings \<Rightarrow> reporter \<Rightarrow> reporter" where
  "rp_cancel su r = r\<lparr>rp_bar := renderNow su ((rp_bar r)\<lparr>b_canceling := True, b_desc := ''canceling'', b_active := False\<rparr>)\<rparr>"

definition rp_sync :: "surroundings \<Rightarrow> stats \<Rightarrow> reporter \<Rightarrow> reporter" where
  "rp_sync su p r = (let r = catch_up su p (r\<lparr>rp_bar := setMax su (st_found p) (rp_bar r)\<rparr>) in
     r\<lparr>rp_bar := (rp_bar r)\<lparr>b_active := False, b_names := []\<rparr>\<rparr>)"

section \<open>Summaries\<close>

text \<open>The duration is printed by the library.\<close>

definition printReport :: "stats \<Rightarrow> string \<Rightarrow> string list" where
  "printReport s duration = [''Total      '' @ int_text (st_parsed s + st_failed s + st_skipped s) @ '' ebook(s)'',
     ''Succeeded  '' @ int_text (st_parsed s), ''Failed     '' @ int_text (st_failed s)]
     @ (if 0 < st_skipped s then [''Skipped    '' @ int_text (st_skipped s)] else [])
     @ [''Duration   '' @ duration]"

text \<open>\<open>one_decimal\<close> is \<open>%.1f\<close> of the floating point quotient.\<close>

definition formatPercent :: "(int \<Rightarrow> int \<Rightarrow> string) \<Rightarrow> int \<Rightarrow> int \<Rightarrow> string" where
  "formatPercent one_decimal cnt tot = (if tot \<le> 0 then ''0%''
     else if (cnt * 100) mod tot = 0 then int_text (cnt * 100 div tot) @ ''%''
     else one_decimal cnt tot @ ''%'')"

text \<open>The entries of one group: by count, the largest first, then by name. The keys of the map are distinct.\<close>

definition ext_group :: "env \<Rightarrow> (string \<times> int) list \<Rightarrow> bool \<Rightarrow> (string \<times> int) list" where
  "ext_group u counts supported = sort_key (\<lambda>e. - snd e) (sort_key fst (filter (\<lambda>e. IsSupportedExt u (fst e) = supported) counts))"

definition printExtGroup :: "(int \<Rightarrow> int \<Rightarrow> string) \<Rightarrow> env \<Rightarrow> (string \<times> int) list \<Rightarrow> int \<Rightarrow> bool \<Rightarrow> string list" where
  "printExtGroup one_decimal u counts tot supported = (if supported then ''Supported:'' else ''Unsupported:'')
     # map (\<lambda>(ext, n). ''  '' @ ext @ '': '' @ int_text n @ '' ('' @ formatPercent one_decimal n tot @ '')'') (ext_group u counts supported)"

definition printExtStats :: "(int \<Rightarrow> int \<Rightarrow> string) \<Rightarrow> env \<Rightarrow> stats \<Rightarrow> string list" where
  "printExtStats one_decimal u s = (let counts = (case st_ext s of Some c \<Rightarrow> c | None \<Rightarrow> []); tot = sum_list (map snd counts) in
     (''Extension stats ('' @ int_text tot @ '' files):'') # printExtGroup one_decimal u counts tot True @ printExtGroup one_decimal u counts tot False)"

section \<open>The bar never overstates\<close>

lemma render_fields [simp]:
  "b_max (render su b) = b_max b" "b_cur (render su b) = b_cur b" "b_done (render su b) = b_done b"
  by (simp_all add: render_def Let_def)

lemma draw_fields [simp]:
  "b_max (draw su b) = b_max b" "b_cur (draw su b) = b_cur b" "b_done (draw su b) = b_done b"
  by (simp_all add: draw_def split: option.split)

datatype bar_event = Report stats | Tick stats | Cancel | Sync stats

fun run_event :: "surroundings \<times> bar_event \<Rightarrow> reporter \<Rightarrow> reporter" where
  "run_event (su, Report p) r = rp_report su p r"
| "run_event (su, Tick p) r = rp_tick su p r"
| "run_event (su, Cancel) r = rp_cancel su r"
| "run_event (su, Sync p) r = rp_sync su p r"

fun told :: "bar_event \<Rightarrow> int \<times> int \<times> int" where
  "told (Report p) = (st_parsed p, st_skipped p, st_found p)"
| "told (Sync p) = (st_parsed p, st_skipped p, st_found p)"
| "told _ = (0, 0, 0)"

definition bar_ok :: "reporter \<Rightarrow> bool" where
  "bar_ok r \<longleftrightarrow> \<not> b_done (rp_bar r) \<and> 0 \<le> rp_lastParsed r \<and> 0 \<le> rp_lastSkipped r
     \<and> b_cur (rp_bar r) = rp_lastParsed r + rp_lastSkipped r \<and> b_cur (rp_bar r) \<le> b_max (rp_bar r) \<and> rp_maxFound r \<le> b_max (rp_bar r)"

lemma bar_ok_new: "bar_ok (new_reporter su)"
  by (simp add: bar_ok_def new_reporter_def newProgressBar_def)

lemma event_ok:
  assumes "bar_ok r"
  shows "bar_ok (run_event (su, e) r) \<and> rp_lastParsed (run_event (su, e) r) = max (rp_lastParsed r) (fst (told e))
    \<and> rp_lastSkipped (run_event (su, e) r) = max (rp_lastSkipped r) (fst (snd (told e)))
    \<and> b_max (rp_bar r) \<le> b_max (rp_bar (run_event (su, e) r)) \<and> snd (snd (told e)) \<le> b_max (rp_bar (run_event (su, e) r))"
  using assms by (cases e) (auto simp: rp_report_def rp_tick_def rp_cancel_def rp_sync_def catch_up_def applyActive_def renderNow_def
      bar_ok_def add_def setMax_def Let_def)

text \<open>No later total is below an earlier one.\<close>

definition reaches :: "stats \<Rightarrow> (surroundings \<times> bar_event) list \<Rightarrow> bool" where
  "reaches p evs \<longleftrightarrow> 0 \<le> st_parsed p \<and> 0 \<le> st_skipped p
     \<and> list_all (\<lambda>(_, e). fst (told e) \<le> st_parsed p \<and> fst (snd (told e)) \<le> st_skipped p) evs"

lemma events_ok:
  assumes "bar_ok r" "rp_lastParsed r \<le> st_parsed p" "rp_lastSkipped r \<le> st_skipped p" "reaches p evs"
  shows "bar_ok (fold run_event evs r) \<and> rp_lastParsed (fold run_event evs r) \<le> st_parsed p
    \<and> rp_lastSkipped (fold run_event evs r) \<le> st_skipped p \<and> b_max (rp_bar r) \<le> b_max (rp_bar (fold run_event evs r))"
  using assms
proof (induction evs arbitrary: r)
  case (Cons x evs)
  obtain su e where x: "x = (su, e)" by force
  have t: "fst (told e) \<le> st_parsed p" "fst (snd (told e)) \<le> st_skipped p" "reaches p evs" using Cons.prems(4) by (simp_all add: reaches_def x)
  note k = event_ok [OF Cons.prems(1), of su e]
  have "rp_lastParsed (run_event x r) \<le> st_parsed p" "rp_lastSkipped (run_event x r) \<le> st_skipped p"
    using k t Cons.prems(2,3) by (simp_all add: x)
  then show ?case using Cons.IH [of "run_event x r"] k t(3) by (simp add: x)
qed simp

section \<open>The bar stays on its line\<close>

definition one_line :: "int \<Rightarrow> string \<Rightarrow> bool" where
  "one_line W out \<longleftrightarrow> (\<exists>line. out = chr 13 # line @ anSiClearLine \<and> int (length (runes line)) \<le> W)"

lemma runes_scalar: "list_all scalar (runes s)"
  by (auto simp: list_all_iff runes_def dest: segs_scalar)

lemma fit_fits:
  assumes "0 < n"
  shows "int (length (runes (fit s n))) \<le> n"
proof -
  have "utf8_encode (take k (runes s)) @ encode_rune 8230 = utf8_encode (take k (runes s) @ [8230])" for k
    by (simp add: utf8_encode_def)
  moreover have "list_all scalar (take k (runes s) @ [8230])" "list_all scalar (take k (runes s))" for k
    using runes_scalar [of s] by (auto simp: list_all_iff scalar_def dest: in_set_takeD)
  ultimately show ?thesis using assms by (simp add: fit_def Let_def runes_utf8_encode)
qed

definition lines_ok :: "int \<Rightarrow> bar \<Rightarrow> bool" where
  "lines_ok W b \<longleftrightarrow> list_all (one_line W) (b_out b)"

lemma render_lines:
  assumes "su_cols su = Some W" "0 < W" "lines_ok W b"
  shows "lines_ok W (render su b)"
proof -
  have "one_line W (chr 13 # fit l W @ anSiClearLine)" for l
    using fit_fits [OF assms(2), of l] by (auto simp: one_line_def)
  then show ?thesis using assms by (simp add: lines_ok_def render_def terminal_cols_def Let_def)
qed

lemma draw_lines: "su_cols su = Some W \<Longrightarrow> 0 < W \<Longrightarrow> lines_ok W b \<Longrightarrow> lines_ok W (draw su b)"
  using render_lines [of su W "b\<lparr>b_last := Some (su_now su)\<rparr>"] by (simp add: draw_def lines_ok_def split: option.split)

lemma step_lines:
  assumes "su_cols su = Some W" "0 < W" "lines_ok W b"
  shows "lines_ok W (setMax su m b)" "lines_ok W (add su m b)" "lines_ok W (renderNow su b)"
  using draw_lines [OF assms(1,2)] render_lines [OF assms(1,2)] assms(3)
  by (simp_all add: setMax_def add_def renderNow_def Let_def lines_ok_def)

lemma event_lines:
  assumes "su_cols su = Some W" "0 < W" "lines_ok W (rp_bar r)"
  shows "lines_ok W (rp_bar (run_event (su, e) r))"
proof -
  have frame: "lines_ok W (b\<lparr>b_active := x, b_names := y\<rparr>) = lines_ok W b"
    "lines_ok W (b\<lparr>b_canceling := x, b_desc := z, b_active := x'\<rparr>) = lines_ok W b" for b x y z x'
    by (simp_all add: lines_ok_def)
  show ?thesis
    using assms by (cases e) (simp_all add: rp_report_def rp_tick_def rp_cancel_def rp_sync_def catch_up_def applyActive_def Let_def
        draw_lines step_lines frame)
qed

section \<open>What the frames show\<close>

text \<open>A frame with these counts: the task, the spinner, the blocks, the counts and the current file, cut to some width.\<close>

definition shows_counts :: "int \<times> int \<Rightarrow> string \<Rightarrow> bool" where
  "shows_counts p out \<longleftrightarrow> (\<exists>task cursor blocks file cols. task \<in> {''scanning ebooks'', ''canceling''} \<and> (file = [] \<or> prefix ''  '' file)
     \<and> set blocks \<subseteq> set (encode_rune 9608 @ encode_rune 9617)
     \<and> out = chr 13 # fit (task @ '' '' @ [cursor] @ '' ['' @ blocks @ ''] '' @ int_text (fst p) @ ''/'' @ int_text (snd p) @ file) cols @ anSiClearLine)"

definition below :: "int \<times> int \<Rightarrow> int \<times> int \<Rightarrow> bool" where
  "below p q \<longleftrightarrow> fst p \<le> fst q \<and> snd p \<le> snd q"

text \<open>The counts shown so far: never more done than the total, never falling, and none ahead of the bar.\<close>

definition frames_ok :: "bar \<Rightarrow> bool" where
  "frames_ok b \<longleftrightarrow> 0 \<le> b_cur b \<and> b_cur b \<le> b_max b \<and> b_desc b \<in> {''scanning ebooks'', ''canceling''}
     \<and> (\<exists>ps. list_all2 shows_counts ps (b_out b) \<and> sorted_wrt below ps
          \<and> (\<forall>p \<in> set ps. 0 \<le> fst p \<and> fst p \<le> snd p \<and> below p (b_cur b, b_max b)))"

lemma frames_ok_cong:
  "b_cur b' = b_cur b \<Longrightarrow> b_max b' = b_max b \<Longrightarrow> b_desc b' = b_desc b \<Longrightarrow> b_out b' = b_out b \<Longrightarrow> frames_ok b' = frames_ok b"
  by (simp add: frames_ok_def)

lemma frames_ok_grow:
  assumes "frames_ok b" "b_cur b \<le> b_cur b'" "b_max b \<le> b_max b'" "b_cur b' \<le> b_max b'"
    "b_desc b' \<in> {''scanning ebooks'', ''canceling''}" "b_out b' = b_out b"
  shows "frames_ok b'"
proof -
  obtain ps where "list_all2 shows_counts ps (b_out b)" "sorted_wrt below ps"
    "\<forall>p \<in> set ps. 0 \<le> fst p \<and> fst p \<le> snd p \<and> below p (b_cur b, b_max b)" using assms(1) unfolding frames_ok_def by blast
  moreover have "0 \<le> b_cur b'" using assms(1,2) by (simp add: frames_ok_def)
  ultimately show ?thesis
    using assms(2-6) unfolding frames_ok_def below_def by (intro conjI exI [of _ ps]) (auto intro: order_trans)
qed

lemma render_frames:
  assumes "frames_ok b"
  shows "frames_ok (render su b)"
proof -
  obtain ps where ps: "list_all2 shows_counts ps (b_out b)" "sorted_wrt below ps"
    "\<forall>p \<in> set ps. 0 \<le> fst p \<and> fst p \<le> snd p \<and> below p (b_cur b, b_max b)"
    and b: "0 \<le> b_cur b" "b_cur b \<le> b_max b" "b_desc b \<in> {''scanning ebooks'', ''canceling''}"
    using assms unfolding frames_ok_def by blast
  define cols where "cols = (let c = terminal_cols su (b_cols b) in if c < 1 then 80 else c)"
  let ?b = "b\<lparr>b_cols := cols\<rparr>" and ?r = "render su b"
  have out: "b_out ?r = b_out b @ [chr 13 # fit (bar_line su ?b) cols @ anSiClearLine]" "b_desc ?r = b_desc b"
    by (simp_all add: render_def Let_def cols_def)
  let ?cursor = "if b_active b then spinnerFrames ! (b_spin b mod length spinnerFrames) else CHR '' ''"
  let ?blocks = "concat (replicate (filled su ?b) (encode_rune 9608)) @ concat (replicate (b_width b - filled su ?b) (encode_rune 9617))"
  let ?file = "if b_names b \<noteq> [] then ''  '' @ last (b_names b) else []"
  have line: "bar_line su ?b = b_desc b @ '' '' @ [?cursor] @ '' ['' @ ?blocks @ ''] '' @ int_text (b_cur b) @ ''/'' @ int_text (b_max b) @ ?file"
    by (simp add: bar_line_def Let_def)
  have "set (concat (replicate n x)) \<subseteq> set x" for n and x :: string by (induction n) auto
  then have blocks: "set ?blocks \<subseteq> set (encode_rune 9608 @ encode_rune 9617)" by fastforce
  have names: "?file = [] \<or> prefix ''  '' ?file" by (simp only: prefixI split: if_split) blast
  have "shows_counts (b_cur b, b_max b) (chr 13 # fit (bar_line su ?b) cols @ anSiClearLine)"
    unfolding shows_counts_def line fst_conv snd_conv using b(3) names blocks by blast
  then have "list_all2 shows_counts (ps @ [(b_cur b, b_max b)]) (b_out ?r)" using ps(1) by (simp add: out list_all2_appendI)
  moreover have "sorted_wrt below (ps @ [(b_cur b, b_max b)])" using ps(2,3) by (simp add: sorted_wrt_append)
  moreover have "\<forall>p \<in> set (ps @ [(b_cur b, b_max b)]). 0 \<le> fst p \<and> fst p \<le> snd p \<and> below p (b_cur ?r, b_max ?r)"
    using ps(3) b(1,2) by (auto simp: below_def)
  ultimately have "\<exists>ps. list_all2 shows_counts ps (b_out ?r) \<and> sorted_wrt below ps
      \<and> (\<forall>p \<in> set ps. 0 \<le> fst p \<and> fst p \<le> snd p \<and> below p (b_cur ?r, b_max ?r))" by blast
  then show ?thesis using b unfolding frames_ok_def out(2) by simp
qed

lemma draw_frames: "frames_ok b \<Longrightarrow> frames_ok (draw su b)"
  using render_frames [of "b\<lparr>b_last := Some (su_now su)\<rparr>" su] frames_ok_cong [of "b\<lparr>b_last := Some (su_now su)\<rparr>" b]
  by (simp add: draw_def split: option.split)

lemma step_frames:
  assumes "frames_ok b"
  shows "frames_ok (setMax su m b)" "frames_ok (add su m b)" "frames_ok (renderNow su b)"
proof -
  have b: "b_cur b \<le> b_max b" "b_desc b \<in> {''scanning ebooks'', ''canceling''}" using assms by (simp_all add: frames_ok_def)
  have grown: "frames_ok (draw su (b\<lparr>b_cur := k, b_max := t\<rparr>))" if "b_cur b \<le> k" "b_max b \<le> t" "k \<le> t" for k t
    using that b(2) by (intro draw_frames frames_ok_grow [OF assms]) simp_all
  show "frames_ok (setMax su m b)"
    using assms b(1) grown [of "b_cur b" "max m (b_cur b)"] by (auto simp: setMax_def Let_def max_def)
  show "frames_ok (add su m b)"
    using assms b(1) grown [of "b_cur b + m" "if b_max b < b_cur b + m then b_cur b + m else b_max b"] by (simp add: add_def Let_def)
  show "frames_ok (renderNow su b)" using render_frames [OF assms] assms by (simp add: renderNow_def)
qed

lemma event_frames:
  assumes "frames_ok (rp_bar r)"
  shows "frames_ok (rp_bar (run_event (su, e) r))"
proof -
  have caught: "frames_ok (rp_bar r1) \<Longrightarrow> frames_ok (rp_bar (catch_up su p r1))" for p r1
    by (simp add: catch_up_def Let_def step_frames)
  have redrawn: "frames_ok (rp_bar r1) \<Longrightarrow> frames_ok (rp_bar (applyActive su p r1))" for p r1
    using frames_ok_cong [of "(rp_bar r1)\<lparr>b_active := x, b_names := y\<rparr>" "rp_bar r1" for x y] by (simp add: applyActive_def draw_frames)
  show ?thesis
  proof (cases e)
    case (Report p)
    have "frames_ok (rp_bar (if rp_maxFound r < st_found p then r\<lparr>rp_maxFound := st_found p, rp_bar := setMax su (st_found p) (rp_bar r)\<rparr> else r))"
      using assms by (simp add: step_frames)
    then show ?thesis unfolding Report run_event.simps rp_report_def by (intro redrawn caught)
  next
    case (Tick p)
    then show ?thesis using redrawn [OF assms] by (simp add: rp_tick_def)
  next
    case Cancel
    have "frames_ok ((rp_bar r)\<lparr>b_canceling := True, b_desc := ''canceling'', b_active := False\<rparr>)"
      using assms by (intro frames_ok_grow [OF assms]) (simp_all add: frames_ok_def)
    then show ?thesis by (simp add: Cancel rp_cancel_def step_frames)
  next
    case (Sync p)
    have "frames_ok (rp_bar (catch_up su p (r\<lparr>rp_bar := setMax su (st_found p) (rp_bar r)\<rparr>)))"
      using assms by (intro caught) (simp add: step_frames)
    then show ?thesis
      using frames_ok_cong [of "b\<lparr>b_active := False, b_names := []\<rparr>" b for b] by (simp add: Sync rp_sync_def Let_def)
  qed
qed

lemma events_frames: "frames_ok (rp_bar r) \<Longrightarrow> frames_ok (rp_bar (fold run_event evs r))"
  by (induction evs arbitrary: r) (auto intro: event_frames)

section \<open>Stable sorting\<close>

lemma sorted_insort_stable:
  assumes "sorted_wrt (\<lambda>a b. f a < f b \<or> f a = f b \<and> P a b) ys" "\<forall>y\<in>set ys. P x y"
  shows "sorted_wrt (\<lambda>a b. f a < f b \<or> f a = f b \<and> P a b) (insort_key (f :: 'a \<Rightarrow> int) x ys)"
  using assms by (induction ys) (auto simp: set_insort_key)

lemma sort_key_stable_wrt:
  assumes "sorted_wrt P xs"
  shows "sorted_wrt (\<lambda>a b. f a < f b \<or> f a = f b \<and> P a b) (sort_key (f :: 'a \<Rightarrow> int) xs)"
  using assms by (induction xs) (simp_all add: sorted_insort_stable)

lemma strictly_sorted_keys:
  assumes "distinct (map fst xs)"
  shows "sorted_wrt (\<lambda>a b. fst a < fst b) (sort_key (fst :: string \<times> int \<Rightarrow> string) xs)"
proof -
  have "sorted (map fst (sort_key fst xs)) \<and> distinct (map fst (sort_key fst xs))"
    using assms by (simp add: distinct_map)
  then have "sorted_wrt (<) (map fst (sort_key fst xs))" by (simp add: strict_sorted_iff)
  then show ?thesis by (simp add: sorted_wrt_map)
qed

section \<open>Properties\<close>

text \<open>
  C32: The bar tells the truth and keeps its line. Whatever reports, redraws and cancellations come, in any order and at
  any time, the frames written so far show counts that never claim more done than their total and never fall from one
  frame to the next. On a terminal of a fixed width every frame returns to the start of the line and has no more
  characters than the line has cells. Once the final counts are given, the counters of the bar (whether or not the throttle
  still lets it draw them) hold exactly the parsed and the skipped files, and a total that is neither below that nor
  below what was found.
\<close>

theorem bar_shows_true_totals:
  assumes "reaches p evs" "list_all (\<lambda>(su, _). su_cols su = Some W) evs" "su_cols su = Some W" "0 < W"
    "r = fold run_event (evs @ [(su, Sync p)]) (new_reporter su0)"
  shows "b_cur (rp_bar r) = st_parsed p + st_skipped p \<and> b_cur (rp_bar r) \<le> b_max (rp_bar r) \<and> st_found p \<le> b_max (rp_bar r)
    \<and> b_cur (rp_bar (fold run_event evs (new_reporter su0))) \<le> b_max (rp_bar (fold run_event evs (new_reporter su0)))
    \<and> list_all (one_line W) (b_out (rp_bar r))
    \<and> (\<exists>ps. list_all2 shows_counts ps (b_out (rp_bar r)) \<and> list_all (\<lambda>(cur, tot). 0 \<le> cur \<and> cur \<le> tot) ps
         \<and> sorted_wrt (\<lambda>(cur, tot) (cur', tot'). cur \<le> cur' \<and> tot \<le> tot') ps)"
proof -
  let ?r = "fold run_event evs (new_reporter su0)"
  have e: "bar_ok ?r" "rp_lastParsed ?r \<le> st_parsed p" "rp_lastSkipped ?r \<le> st_skipped p"
    using events_ok [OF bar_ok_new, of su0 p evs] assms(1) by (simp_all add: new_reporter_def reaches_def)
  have "lines_ok W (rp_bar (fold run_event evs r0))" if "lines_ok W (rp_bar r0)" for r0
    using assms(2) that by (induction evs arbitrary: r0) (auto intro: event_lines [OF _ assms(4)])
  then have "lines_ok W (rp_bar ?r)" by (simp add: lines_ok_def new_reporter_def newProgressBar_def)
  then have lines: "lines_ok W (rp_bar r)" using event_lines [OF assms(3,4), of ?r "Sync p"] by (simp add: assms(5))
  have "frames_ok (rp_bar (new_reporter su0))" by (simp add: frames_ok_def new_reporter_def newProgressBar_def)
  then have "frames_ok (rp_bar r)" unfolding assms(5) by (rule events_frames)
  then obtain ps where "list_all2 shows_counts ps (b_out (rp_bar r))" "sorted_wrt below ps" "\<forall>p \<in> set ps. 0 \<le> fst p \<and> fst p \<le> snd p"
    unfolding frames_ok_def by blast
  moreover have "below = (\<lambda>(cur, tot) (cur', tot'). cur \<le> cur' \<and> tot \<le> tot')" by (intro ext) (simp add: below_def split: prod.split)
  ultimately have "\<exists>ps. list_all2 shows_counts ps (b_out (rp_bar r)) \<and> list_all (\<lambda>(cur, tot). 0 \<le> cur \<and> cur \<le> tot) ps
         \<and> sorted_wrt (\<lambda>(cur, tot) (cur', tot'). cur \<le> cur' \<and> tot \<le> tot') ps"
    by (intro exI [of _ ps]) (simp add: list_all_iff case_prod_unfold)
  then show ?thesis
    using event_ok [OF e(1), of su "Sync p"] e lines by (auto simp: assms(5) bar_ok_def lines_ok_def)
qed

text \<open>
  The extension statistics list every extension once, in its group. The two groups together are the counted
  extensions, each group is in the order of falling counts and, for the same count, of the names, and nothing
  depends on the order in which the map is read.
\<close>

theorem extension_listing:
  assumes "distinct (map fst counts)" "mset counts' = mset counts"
  shows "mset (ext_group u counts True @ ext_group u counts False) = mset counts
    \<and> sorted_wrt (\<lambda>a b. snd b < snd a \<or> snd a = snd b \<and> fst a < fst b) (ext_group u counts g)
    \<and> ext_group u counts' g = ext_group u counts g"
proof -
  let ?F = "\<lambda>c g. filter (\<lambda>e. IsSupportedExt u (fst e) = g) c"
  have d: "distinct (map fst (?F counts g))" by (rule distinct_map_filter [OF assms(1)])
  have "sort_key fst (?F counts' g) = sort_key fst (?F counts g)"
    by (rule sort_key_inj_key_eq) (use d assms(2) mset_eq_setD [OF assms(2)] in \<open>simp_all add: distinct_map inj_on_def\<close>)
  then have "ext_group u counts' g = ext_group u counts g" by (simp add: ext_group_def)
  moreover have "sorted_wrt (\<lambda>a b. snd b < snd a \<or> snd a = snd b \<and> fst a < fst b) (ext_group u counts g)"
    using sort_key_stable_wrt [OF strictly_sorted_keys [OF d], of "\<lambda>e. - snd e"] by (simp add: ext_group_def)
  moreover have "mset (ext_group u counts True @ ext_group u counts False) = mset counts"
    using multiset_partition [of "mset counts" "\<lambda>e. IsSupportedExt u (fst e)"] by (simp add: ext_group_def mset_filter)
  ultimately show ?thesis by blast
qed

definition demo_stats :: "int \<Rightarrow> int \<Rightarrow> int \<Rightarrow> stats" where
  "demo_stats n p k = \<lparr>st_scan = \<lparr>p_dirs = 1, p_files = n, p_found = n\<rparr>, st_found = n, st_parsed = p, st_failed = 0, st_skipped = k,
     st_ext = None, st_active = 1, st_current = [''/books/e.epub'']\<rparr>"

definition demo_around :: "int \<Rightarrow> surroundings" where
  "demo_around t = \<lparr>su_now = t, su_cols = Some 20, su_fill = (\<lambda>cur m w. cur * int w div m)\<rparr>"

definition demo_events :: "(surroundings \<times> bar_event) list" where
  "demo_events = [(demo_around 5, Report (demo_stats 3 1 0)), (demo_around 9, Cancel), (demo_around 70000000, Tick (demo_stats 4 1 1))]"

theorem bar_shows_true_totals_witness:
  "\<exists>r :: reporter. b_cur (rp_bar r) = 3 \<and> 4 \<le> b_max (rp_bar r) \<and> list_all (one_line 20) (b_out (rp_bar r))"
proof -
  have e: "reaches (demo_stats 4 2 1) demo_events" "list_all (\<lambda>(su, _). su_cols su = Some 20) demo_events"
    "su_cols (demo_around 80000000) = Some 20" "(0 :: int) < 20"
    by (simp_all add: reaches_def demo_events_def demo_stats_def demo_around_def)
  have "st_parsed (demo_stats 4 2 1) + st_skipped (demo_stats 4 2 1) = 3" "st_found (demo_stats 4 2 1) = 4" by (simp_all add: demo_stats_def)
  moreover define r where "r = fold run_event (demo_events @ [(demo_around 80000000, Sync (demo_stats 4 2 1))]) (new_reporter (demo_around 0))"
  ultimately show ?thesis using bar_shows_true_totals [OF e r_def] by (intro exI [of _ r]) simp
qed

theorem extension_listing_witness:
  "mset (ext_group plain_env [(''pdf'', 2), (''.epub'', 5)] True @ ext_group plain_env [(''pdf'', 2), (''.epub'', 5)] False) = mset [(''pdf'', 2), (''.epub'', 5)]"
  using extension_listing [of "[(''pdf'', 2), (''.epub'', 5)]" "[(''.epub'', 5), (''pdf'', 2)]" plain_env True] by simp

end
