(* ===== verification/Search.thy ===== *)
theory Search
  imports Cli ConsolidationProps
begin

text \<open>
  Model of \<open>internal/search/search.go\<close>, \<open>internal/db/books.fts.go\<close>, \<open>internal/report/duplicates.go\<close>, \<open>failures.go\<close> and the commands
  \<open>report\<close> and \<open>search\<close>. The full-text index is a parameter: for a table and an expression, the row ids that match
  and their ranks. The order of rows that SQL leaves open is a reordering \<open>od\<close>. Writing a file is
  handed the values that are written.
\<close>

section \<open>The query\<close>

definition searchable :: "env \<Rightarrow> rune \<Rightarrow> bool" where
  "searchable u r \<longleftrightarrow> is_letter u r \<or> is_number u r"

definition query_words :: "env \<Rightarrow> string \<Rightarrow> string list" where
  "query_words u raw = GoStrings.fields (utf8_encode (map (\<lambda>r. if searchable u r then r else 32) (runes raw)))"

definition is_operator :: "env \<Rightarrow> string \<Rightarrow> bool" where
  "is_operator u w \<longleftrightarrow> to_upper u w \<in> {''AND'', ''OR'', ''NOT''}"

definition sanitizeFTSQuery :: "env \<Rightarrow> string \<Rightarrow> (string, string) result" where
  "sanitizeFTSQuery u raw = (let kept = filter (\<lambda>w. \<not> is_operator u w) (query_words u raw) in
     if kept = [] then Err ''empty search query'' else Ok (join '' '' kept))"

section \<open>The index\<close>

record fts =
  ft_titles :: "string \<Rightarrow> (int \<times> real) list"
  ft_authors :: "string \<Rightarrow> (int \<times> real) list"

type_synonym fts_row = "int \<times> string \<times> real"
type_synonym row_order = "fts_row list \<Rightarrow> fts_row list"

text \<open>\<open>appendLimit\<close>: a limit that is not positive means none.\<close>

definition appendLimit :: "int \<Rightarrow> 'a list \<Rightarrow> 'a list" where
  "appendLimit limit rows = (if 0 < limit then take (nat limit) rows else rows)"

definition title_rows :: "fts \<Rightarrow> string \<Rightarrow> db \<Rightarrow> fts_row list" where
  "title_rows ft q d = concat (map (\<lambda>b. map (\<lambda>h. (bk_id b, bk_title b, snd h)) (filter (\<lambda>h. fst h = bk_id b) (ft_titles ft q))) (t_books d))"

definition author_rows :: "fts \<Rightarrow> string \<Rightarrow> db \<Rightarrow> fts_row list" where
  "author_rows ft q d = concat (map (\<lambda>b. concat (map (\<lambda>(bi, ai). concat (map (\<lambda>a.
       map (\<lambda>h. (bk_id b, bk_title b, snd h)) (filter (\<lambda>h. fst h = fst a) (ft_authors ft q)))
       (filter (\<lambda>a. fst a = ai) (t_authors d)))) (filter (\<lambda>l. fst l = bk_id b) (t_book_authors d)))) (t_books d))"

text \<open>\<open>GROUP BY id, title ORDER BY MIN(rank)\<close>.\<close>

definition same_book :: "fts_row \<Rightarrow> fts_row \<Rightarrow> bool" where
  "same_book a b \<longleftrightarrow> fst a = fst b \<and> fst (snd a) = fst (snd b)"

definition best_rank :: "fts_row list \<Rightarrow> fts_row \<Rightarrow> real" where
  "best_rank rows r = Min (set (map (snd \<circ> snd) (filter (same_book r) rows)))"

definition grouped :: "row_order \<Rightarrow> fts_row list \<Rightarrow> (int \<times> string) list" where
  "grouped od rows = map (\<lambda>r. (fst r, fst (snd r))) (sort_key (best_rank rows) (od (dedup_by (\<lambda>r. (fst r, fst (snd r))) {} rows)))"

definition SearchBooksByTitleFTS :: "fts \<Rightarrow> row_order \<Rightarrow> string \<Rightarrow> int \<Rightarrow> (int \<times> string) list stmt" where
  "SearchBooksByTitleFTS ft od q limit = query (\<lambda>d.
     appendLimit limit (map (\<lambda>r. (fst r, fst (snd r))) (sort_key (snd \<circ> snd) (od (title_rows ft q d)))))"

definition SearchBooksByAuthorFTS :: "fts \<Rightarrow> row_order \<Rightarrow> string \<Rightarrow> int \<Rightarrow> (int \<times> string) list stmt" where
  "SearchBooksByAuthorFTS ft od q limit = query (\<lambda>d. appendLimit limit (grouped od (author_rows ft q d)))"

definition SearchBooksByAuthorOrTitleFTS :: "fts \<Rightarrow> row_order \<Rightarrow> string \<Rightarrow> int \<Rightarrow> (int \<times> string) list stmt" where
  "SearchBooksByAuthorOrTitleFTS ft od q limit = query (\<lambda>d. appendLimit limit (grouped od (title_rows ft q d @ author_rows ft q d)))"

section \<open>Searching\<close>

text \<open>The lines of a hit list on the screen.\<close>

definition screen_lines :: "book_report list \<Rightarrow> string list" where
  "screen_lines reports = concat (map (\<lambda>b.
     (if br_authors b = [] then br_title b else join '', '' (br_authors b) @ '': '' @ br_title b)
     # map (\<lambda>f. ''  - '' @ fr_path f) (br_files b) @ [[]]) reports)"

datatype search_output = NoOutput | Screen "string list" | JsonFile "book_report list"

definition search_error :: "db_error \<Rightarrow> cli_error" where
  "search_error e = QueryFailed ''search'' e"

definition printOnScreen :: "libs \<Rightarrow> agg_order \<Rightarrow> (int \<times> string) list \<Rightarrow> (cli_error option \<times> search_output) stmt" where
  "printOnScreen l agg books = (if books = [] then ret (None, NoOutput)
     else attempt (GetBooksFiltered l agg (map fst books)) (\<lambda>r. ret (case r of
         Err e \<Rightarrow> (Some (search_error e), NoOutput) | Ok reports \<Rightarrow> (None, Screen (screen_lines reports)))))"

text \<open>The report files on books: nothing is written for no books.\<close>

definition write_books :: "string \<Rightarrow> string option \<Rightarrow> (db_error, book_report list) result \<Rightarrow> cli_error option \<times> book_report list option" where
  "write_books name write r = (case r of
       Err e \<Rightarrow> (Some (search_error e), None)
     | Ok reports \<Rightarrow> if reports = [] then (None, None)
         else (case write of Some e \<Rightarrow> (Some (WriteFailed name e), None) | None \<Rightarrow> (None, Some reports)))"

definition WriteBooks :: "libs \<Rightarrow> agg_order \<Rightarrow> string option \<Rightarrow> (cli_error option \<times> book_report list option) stmt" where
  "WriteBooks l agg write = attempt (GetBooks l agg) (\<lambda>r. ret (write_books ''books'' write r))"

definition WriteBooksFiltered :: "libs \<Rightarrow> agg_order \<Rightarrow> string option \<Rightarrow> int list \<Rightarrow> (cli_error option \<times> book_report list option) stmt" where
  "WriteBooksFiltered l agg write ids = (if ids = [] then ret (None, None)
     else attempt (GetBooksFiltered l agg ids) (\<lambda>r. ret (write_books ''search'' write r)))"

definition printBooksJSON :: "libs \<Rightarrow> agg_order \<Rightarrow> string option \<Rightarrow> (int \<times> string) list \<Rightarrow> (cli_error option \<times> search_output) stmt" where
  "printBooksJSON l agg write books = (if books = [] then ret (None, NoOutput)
     else bind (WriteBooksFiltered l agg write (map fst books)) (\<lambda>(e, written). ret (e, case written of None \<Rightarrow> NoOutput | Some reports \<Rightarrow> JsonFile reports)))"

record search_options =
  so_author :: bool
  so_title :: bool
  so_limit :: int
  so_json :: bool

definition run_query :: "fts \<Rightarrow> row_order \<Rightarrow> search_options \<Rightarrow> string \<Rightarrow> (int \<times> string) list stmt" where
  "run_query ft od so q =
     (if so_author so \<and> so_title so then SearchBooksByAuthorOrTitleFTS ft od q (so_limit so)
      else if so_author so then SearchBooksByAuthorFTS ft od q (so_limit so)
      else if so_title so then SearchBooksByTitleFTS ft od q (so_limit so)
      else SearchBooksByAuthorOrTitleFTS ft od q (so_limit so))"

definition Search :: "libs \<Rightarrow> agg_order \<Rightarrow> fts \<Rightarrow> row_order \<Rightarrow> string option \<Rightarrow> search_options \<Rightarrow> string
    \<Rightarrow> (cli_error option \<times> search_output) stmt" where
  "Search l agg ft od write so raw = (case sanitizeFTSQuery (l_env l) raw of
       Err e \<Rightarrow> ret (Some (AnswerFailed e), NoOutput)
     | Ok q \<Rightarrow> attempt (run_query ft od so q) (\<lambda>r. case r of
         Err e \<Rightarrow> ret (Some (search_error e), NoOutput)
       | Ok books \<Rightarrow> if books = [] then ret (None, NoOutput)
           else if so_json so then printBooksJSON l agg write books else printOnScreen l agg books))"

definition runSearch :: "(string \<Rightarrow> stat_result) \<Rightarrow> (string \<Rightarrow> string option) \<Rightarrow> string \<Rightarrow> (cli_error option \<times> search_output) stmt
    \<Rightarrow> (cli_error option \<times> search_output) stmt" where
  "runSearch stat open_db path k = reading_command stat open_db path k NoOutput"

section \<open>Reports on duplicates and failures\<close>

record duplicate_row =
  dp_path :: string
  dp_title :: string
  dp_authors :: string
  dp_duplicate :: string

record duplicate_report =
  dr_authors :: string
  dr_title :: string
  dr_path :: string
  dr_duplicates :: "string list"

text \<open>\<open>GROUP_CONCAT(a.name, ', ')\<close> of a file.\<close>

definition author_list :: "agg_order \<Rightarrow> db \<Rightarrow> int \<Rightarrow> string" where
  "author_list agg d f = join '', '' (map (author_name d) (agg (map snd (filter (\<lambda>r. fst r = f) (t_file_authors d)))))"

definition ListBookFileDuplicates :: "agg_order \<Rightarrow> (duplicate_row list \<Rightarrow> duplicate_row list) \<Rightarrow> duplicate_row list stmt" where
  "ListBookFileDuplicates agg od = query (\<lambda>d. sort_key dp_path (od (concat (map (\<lambda>(h, p).
     map (\<lambda>r. \<lparr>dp_path = bf_path r, dp_title = bf_title r, dp_authors = author_list agg d (bf_id r), dp_duplicate = p\<rparr>)
       (filter (\<lambda>r. bf_hash r = h) (t_files d))) (t_duplicates d)))))"

definition group_duplicate :: "duplicate_row \<Rightarrow> duplicate_report list \<Rightarrow> duplicate_report list" where
  "group_duplicate r rp =
     (let rp = (if rp = [] \<or> dr_path (last rp) \<noteq> dp_path r
          then rp @ [\<lparr>dr_authors = dp_authors r, dr_title = dp_title r, dr_path = dp_path r, dr_duplicates = []\<rparr>] else rp) in
      butlast rp @ [(last rp)\<lparr>dr_duplicates := dr_duplicates (last rp) @ [dp_duplicate r]\<rparr>])"

text \<open>The report that is written; without duplicates nothing is.\<close>

definition WriteDuplicates :: "agg_order \<Rightarrow> (duplicate_row list \<Rightarrow> duplicate_row list) \<Rightarrow> string option
    \<Rightarrow> (cli_error option \<times> duplicate_report list option) stmt" where
  "WriteDuplicates agg od write = attempt (ListBookFileDuplicates agg od) (\<lambda>r. ret (case r of
       Err e \<Rightarrow> (Some (QueryFailed ''list duplicates'' e), None)
     | Ok rows \<Rightarrow> if rows = [] then (None, None)
         else (case write of Some e \<Rightarrow> (Some (WriteFailed ''duplicates'' e), None) | None \<Rightarrow> (None, Some (fold group_duplicate rows [])))))"

record failure_report =
  fl_path :: string
  fl_error :: string

definition WriteFailures :: "('e \<Rightarrow> string) \<Rightarrow> (string \<times> 'e) list \<Rightarrow> string option \<Rightarrow> cli_error option \<times> failure_report list option" where
  "WriteFailures error_text failures write =
     (case write of Some e \<Rightarrow> (Some (WriteFailed ''failures'' e), None)
      | None \<Rightarrow> (None, Some (map (\<lambda>(p, e). \<lparr>fl_path = p, fl_error = error_text e\<rparr>) failures)))"

definition runReport :: "(string \<Rightarrow> stat_result) \<Rightarrow> (string \<Rightarrow> string option) \<Rightarrow> string
    \<Rightarrow> (cli_error option \<times> duplicate_report list option) stmt \<Rightarrow> (cli_error option \<times> book_report list option) stmt
    \<Rightarrow> (cli_error option \<times> duplicate_report list option \<times> book_report list option) stmt" where
  "runReport stat open_db path duplicates books = reading_command stat open_db path
     (bind duplicates (\<lambda>(e, dups). if e \<noteq> None then ret (e, dups, None) else bind books (\<lambda>(e, bks). ret (e, dups, bks))))
     (None, None)"

section \<open>Words\<close>

lemma searchable_not_blank: "\<not> searchable u 32"
  by (simp add: searchable_def is_letter_def is_number_def latin1_latin_def between_def)

text \<open>A word of an encoded text is the encoding of a run of its runes.\<close>

lemma encoded_words:
  "w \<in> set (fields_segs p (utf8_encode cur) (map (\<lambda>r. (r, encode_rune r)) rs)) \<Longrightarrow> \<exists>ws. w = utf8_encode ws \<and> set ws \<subseteq> set cur \<union> set rs"
proof (induction rs arbitrary: cur)
  case Nil
  then show ?case by (intro exI [of _ cur]) (simp split: if_splits)
next
  case (Cons r rs)
  show ?case
  proof (cases "p r")
    case True
    have "utf8_encode [] = []" by (simp add: utf8_encode_def)
    then have "w = utf8_encode cur \<or> w \<in> set (fields_segs p (utf8_encode []) (map (\<lambda>r. (r, encode_rune r)) rs))"
      using Cons.prems True by (auto split: if_splits)
    then show ?thesis using Cons.IH [of "[]"] by auto
  next
    case False
    have "utf8_encode cur @ encode_rune r = utf8_encode (cur @ [r])" by (simp add: utf8_encode_def)
    then have "w \<in> set (fields_segs p (utf8_encode (cur @ [r])) (map (\<lambda>r. (r, encode_rune r)) rs))" using Cons.prems False by simp
    from Cons.IH [OF this] show ?thesis by auto
  qed
qed

definition query_word :: "env \<Rightarrow> rune list \<Rightarrow> bool" where
  "query_word u ws \<longleftrightarrow> ws \<noteq> [] \<and> list_all scalar ws \<and> list_all (searchable u) ws \<and> \<not> is_operator u (utf8_encode ws)"

lemma kept_word:
  assumes "w \<in> set (query_words u raw)" "\<not> is_operator u w"
  shows "\<exists>ws. w = utf8_encode ws \<and> query_word u ws \<and> word_ok w"
proof -
  let ?rs = "map (\<lambda>r. if searchable u r then r else 32) (runes raw)"
  have sc: "list_all scalar ?rs" by (auto simp: list_all_iff runes_def scalar_def dest: segs_scalar)
  have "w \<in> set (fields_segs is_space (utf8_encode []) (map (\<lambda>r. (r, encode_rune r)) ?rs))"
    using assms(1) segs_utf8_encode [OF sc]
    by (simp add: query_words_def GoStrings.fields_def fields_func_def utf8_encode_def)
  from encoded_words [OF this] obtain ws where ws: "w = utf8_encode ws" "set ws \<subseteq> set ?rs" by auto
  have ok: "word_ok w" using assms(1) by (simp add: query_words_def fields_words)
  have swc: "list_all scalar ws" using sc ws(2) by (auto simp: list_all_iff)
  have "list_all (\<lambda>r. \<not> is_space r) ws"
    using ok segs_utf8_encode [OF swc] by (simp add: word_ok_def ws(1) list_all_iff)
  then have "list_all (searchable u) ws" using ws(2) by (fastforce simp: list_all_iff)
  moreover have "ws \<noteq> []" using ok by (auto simp: word_ok_def ws(1) utf8_encode_def)
  ultimately show ?thesis using ws(1) swc ok assms(2) unfolding query_word_def by blast
qed

fun spaced :: "rune list list \<Rightarrow> rune list" where
  "spaced [] = []"
| "spaced [w] = w"
| "spaced (w # v # ws) = w @ 32 # spaced (v # ws)"

lemma encode_spaced: "join '' '' (map utf8_encode ws) = utf8_encode (spaced ws)"
proof -
  have "encode_rune 32 = '' ''" by (simp add: encode_rune_small chr_numeral)
  then show ?thesis by (induction ws rule: spaced.induct) (simp_all add: utf8_encode_def)
qed

lemma spaced_runes: "set (spaced ws) \<subseteq> (\<Union>w \<in> set ws. set w) \<union> {32}"
  by (induction ws rule: spaced.induct) auto

lemma sanitized_again:
  assumes "list_all (query_word u) ws" "list_all word_ok (map utf8_encode ws)" "ws \<noteq> []" "q = join '' '' (map utf8_encode ws)"
  shows "sanitizeFTSQuery u q = Ok q"
proof -
  have rs: "list_all scalar (spaced ws)" "list_all (\<lambda>r. searchable u r \<or> r = 32) (spaced ws)"
    using spaced_runes [of ws] assms(1) by (fastforce simp: list_all_iff query_word_def scalar_def)+
  have "map (\<lambda>r. if searchable u r then r else 32) (spaced ws) = spaced ws"
    using rs(2) by (auto simp: list_all_iff intro!: map_idI)
  then have "query_words u q = map utf8_encode ws"
    using runes_utf8_encode [OF rs(1)] fields_join [OF assms(2)] by (simp add: query_words_def assms(4) encode_spaced)
  moreover have "filter (\<lambda>w. \<not> is_operator u w) (map utf8_encode ws) = map utf8_encode ws"
    using assms(1) by (auto simp: list_all_iff query_word_def intro: filter_True)
  ultimately show ?thesis using assms(3,4) by (simp add: sanitizeFTSQuery_def Let_def)
qed

section \<open>Properties\<close>

text \<open>
  C30: A search expression cannot carry syntax. Whatever the user types, what reaches the index is a list of words separated by
  single blanks; every word is made of letters and numbers only and is none of AND, OR and NOT, in whatever case; sanitizing
  it again changes nothing.
\<close>

theorem sanitized_query_is_plain:
  assumes "sanitizeFTSQuery u raw = Ok q"
  shows "\<exists>ws. q = join '' '' (map utf8_encode ws) \<and> ws \<noteq> [] \<and> list_all (query_word u) ws \<and> sanitizeFTSQuery u q = Ok q"
proof -
  let ?kept = "filter (\<lambda>w. \<not> is_operator u w) (query_words u raw)"
  have k: "?kept \<noteq> []" "q = join '' '' ?kept" using assms by (auto simp: sanitizeFTSQuery_def Let_def split: if_splits)
  have "\<forall>w \<in> set ?kept. \<exists>ws. w = utf8_encode ws \<and> query_word u ws \<and> word_ok w" using kept_word by auto
  then obtain f where f: "\<forall>w \<in> set ?kept. w = utf8_encode (f w) \<and> query_word u (f w) \<and> word_ok w" by metis
  let ?ws = "map f ?kept"
  have m: "map utf8_encode ?ws = ?kept" using f by (auto intro: map_idI)
  have "list_all (query_word u) ?ws" "list_all word_ok (map utf8_encode ?ws)" unfolding m using f by (auto simp: list_all_iff)
  then show ?thesis using sanitized_again [of u ?ws q] k m by (intro exI [of _ ?ws]) simp
qed

theorem sanitized_query_is_plain_witness:
  "\<exists>ws. ''a b'' = join '' '' (map utf8_encode ws) \<and> ws \<noteq> [] \<and> list_all (query_word plain_env) ws
     \<and> sanitizeFTSQuery plain_env ''a b'' = Ok ''a b''"
proof (rule sanitized_query_is_plain [of _ "''a OR (b''"])
  show "sanitizeFTSQuery plain_env ''a OR (b'' = Ok ''a b''"
    by (simp add: sanitizeFTSQuery_def query_words_def string_eval searchable_def is_letter_def is_number_def latin1_latin_def between_def
        GoStrings.fields_def fields_func_def is_space_def is_operator_def to_upper_def rune_upper_def)
qed

section \<open>Hits\<close>

definition title_hit :: "fts \<Rightarrow> string \<Rightarrow> int \<Rightarrow> bool" where
  "title_hit ft q i \<longleftrightarrow> i \<in> fst ` set (ft_titles ft q)"

definition author_hit :: "fts \<Rightarrow> string \<Rightarrow> db \<Rightarrow> int \<Rightarrow> bool" where
  "author_hit ft q d i \<longleftrightarrow> list_ex (\<lambda>(b, a). b = i \<and> a \<in> fst ` set (t_authors d) \<and> a \<in> fst ` set (ft_authors ft q)) (t_book_authors d)"

lemma title_rows_ids: "fst ` set (title_rows ft q d) = {i \<in> bk_id ` set (t_books d). title_hit ft q i}"
  by (force simp: title_rows_def title_hit_def)

lemma author_rows_ids: "fst ` set (author_rows ft q d) = {i \<in> bk_id ` set (t_books d). author_hit ft q d i}"
  by (force simp: author_rows_def author_hit_def list_ex_iff)

lemma row_titles: "r \<in> set (title_rows ft q d @ author_rows ft q d) \<Longrightarrow> \<exists>b \<in> set (t_books d). bk_id b = fst r \<and> bk_title b = fst (snd r)"
  by (auto simp: title_rows_def author_rows_def split: if_splits)

definition id_rank :: "fts_row list \<Rightarrow> int \<Rightarrow> real" where
  "id_rank rows i = Min (set (map (snd \<circ> snd) (filter (\<lambda>r. fst r = i) rows)))"

lemma grouped_hits:
  assumes "distinct (map bk_id (t_books d))" "rows = title_rows ft q d @ author_rows ft q d" "\<And>xs. mset (od xs) = mset xs"
  shows "distinct (map fst (grouped od rows))" "fst ` set (grouped od rows) = fst ` set rows"
    "sorted (map (id_rank rows \<circ> fst) (grouped od rows))"
proof -
  let ?k = "\<lambda>r :: fts_row. (fst r, fst (snd r))" and ?g = "dedup_by (\<lambda>r. (fst r, fst (snd r))) {} rows"
  have one_title: "snd (?k r) = snd (?k r')" if "r \<in> set rows" "r' \<in> set rows" "fst r = fst r'" for r r'
  proof -
    note t = that
    obtain b b' where b: "b \<in> set (t_books d)" "bk_id b = fst r" "bk_title b = fst (snd r)" "b' \<in> set (t_books d)" "bk_id b' = fst r'" "bk_title b' = fst (snd r')"
      using row_titles t(1,2) unfolding assms(2) by metis
    moreover have "b = b'" using b assms(1) t(3) by (metis distinct_map inj_onD)
    ultimately show ?thesis by simp
  qed
  have sub: "set ?g \<subseteq> set rows" by (rule dedup_by_subset)
  have od: "set (od xs) = set xs" for xs by (rule mset_eq_setD [OF assms(3)])
  have "distinct (map ?k ?g)" by (rule dedup_by_distinct)
  then have inj: "inj_on ?k (set ?g)" and "distinct ?g" by (simp_all only: distinct_map)
  moreover have "inj_on fst (set ?g)"
  proof (rule inj_onI)
    fix r r' assume "r \<in> set ?g" "r' \<in> set ?g" "fst r = fst r'"
    moreover from this have "?k r = ?k r'" using one_title [of r r'] sub by auto
    ultimately show "r = r'" using inj by (meson inj_onD)
  qed
  ultimately have "distinct (od ?g) \<and> inj_on fst (set (od ?g))" using mset_eq_imp_distinct_iff [OF assms(3)] by (simp add: od)
  then show "distinct (map fst (grouped od rows))" by (simp add: grouped_def comp_def distinct_map)
  have "?k ` set ?g = ?k ` set rows" using dedup_by_keys [of ?k "{}" rows] by simp
  then have "fst ` ?k ` set ?g = fst ` ?k ` set rows" by simp
  then show "fst ` set (grouped od rows) = fst ` set rows" by (simp add: grouped_def image_image od)
  have "best_rank rows r = id_rank rows (fst r)" if "r \<in> set rows" for r
  proof -
    note r = that
    have "same_book r r' \<longleftrightarrow> fst r' = fst r" if "r' \<in> set rows" for r'
      using one_title [OF r that] by (auto simp: same_book_def)
    then have "filter (same_book r) rows = filter (\<lambda>r'. fst r' = fst r) rows" by (rule filter_cong [OF HOL.refl])
    then show ?thesis by (simp add: best_rank_def id_rank_def)
  qed
  then have "map (id_rank rows \<circ> fst) (grouped od rows) = map (best_rank rows) (sort_key (best_rank rows) (od ?g))"
    using sub od by (auto simp: grouped_def comp_def)
  then show "sorted (map (id_rank rows \<circ> fst) (grouped od rows))" by simp
qed

text \<open>
  C29: A search finds every matching book once, best first. The books found by title or author are exactly the books whose title
  matches or one of whose authors matches; none is listed twice, they are in the order of their best ranks, and a
  limit takes the first of them.
\<close>

theorem search_finds_each_match_once:
  assumes "db_inv d" "fl n = None" "\<And>xs. mset (od xs) = mset xs"
  shows "\<exists>hits. SearchBooksByAuthorOrTitleFTS ft od q limit fl (d, n) = (Ok (if 0 < limit then take (nat limit) hits else hits), (d, Suc n))
    \<and> distinct (map fst hits) \<and> fst ` set hits = {i \<in> bk_id ` set (t_books d). title_hit ft q i \<or> author_hit ft q d i}
    \<and> sorted (map (id_rank (title_rows ft q d @ author_rows ft q d) \<circ> fst) hits)"
proof -
  let ?rows = "title_rows ft q d @ author_rows ft q d"
  have "distinct (map bk_id (t_books d))" using assms(1) by (simp add: db_inv_def keys_ok_def)
  note g = grouped_hits [OF this refl assms(3)]
  have "fst ` set (grouped od ?rows) = {i \<in> bk_id ` set (t_books d). title_hit ft q i \<or> author_hit ft q d i}"
    unfolding g(2) by (auto simp: image_Un title_rows_ids author_rows_ids)
  then show ?thesis
    using g(1,3) assms(2) by (intro exI [of _ "grouped od ?rows"])
      (simp add: SearchBooksByAuthorOrTitleFTS_def query_def sql_def appendLimit_def)
qed

section \<open>Duplicates\<close>

definition flat :: "duplicate_report list \<Rightarrow> (string \<times> string) list" where
  "flat rp = concat (map (\<lambda>e. map (\<lambda>p. (dr_path e, p)) (dr_duplicates e)) rp)"

definition report_ok :: "duplicate_report list \<Rightarrow> bool" where
  "report_ok rp \<longleftrightarrow> sorted_wrt (<) (map dr_path rp) \<and> list_all (\<lambda>e. dr_duplicates e \<noteq> []) rp"

lemma group_duplicate_new:
  "rp = [] \<or> dr_path (last rp) \<noteq> dp_path r \<Longrightarrow> group_duplicate r rp
    = rp @ [\<lparr>dr_authors = dp_authors r, dr_title = dp_title r, dr_path = dp_path r, dr_duplicates = [dp_duplicate r]\<rparr>]"
  by (simp add: group_duplicate_def Let_def)

lemma group_duplicate_ok:
  assumes "report_ok rp" "rp \<noteq> [] \<longrightarrow> dr_path (last rp) \<le> dp_path r"
  shows "report_ok (group_duplicate r rp) \<and> flat (group_duplicate r rp) = flat rp @ [(dp_path r, dp_duplicate r)]
    \<and> group_duplicate r rp \<noteq> [] \<and> dr_path (last (group_duplicate r rp)) = dp_path r"
proof (cases rp rule: rev_cases)
  case Nil
  then show ?thesis by (simp add: group_duplicate_def report_ok_def flat_def Let_def)
next
  case (snoc xs x)
  show ?thesis
  proof (cases "dr_path x = dp_path r")
    case True
    then show ?thesis using assms by (simp add: snoc group_duplicate_def report_ok_def flat_def Let_def sorted_wrt_append)
  next
    case False
    then have "dr_path x < dp_path r" using assms(2) by (simp add: snoc)
    moreover have "group_duplicate r rp = rp @ [\<lparr>dr_authors = dp_authors r, dr_title = dp_title r, dr_path = dp_path r, dr_duplicates = [dp_duplicate r]\<rparr>]"
      by (rule group_duplicate_new) (simp add: snoc False)
    ultimately show ?thesis using assms(1) by (auto simp: snoc report_ok_def flat_def sorted_wrt_append intro: less_trans)
  qed
qed

lemma fold_duplicates:
  assumes "report_ok rp" "rp \<noteq> [] \<longrightarrow> list_all (\<lambda>r. dr_path (last rp) \<le> dp_path r) rows" "sorted (map dp_path rows)"
  shows "report_ok (fold group_duplicate rows rp) \<and> flat (fold group_duplicate rows rp) = flat rp @ map (\<lambda>r. (dp_path r, dp_duplicate r)) rows"
  using assms
proof (induction rows arbitrary: rp)
  case (Cons r rows)
  have a: "report_ok (group_duplicate r rp) \<and> flat (group_duplicate r rp) = flat rp @ [(dp_path r, dp_duplicate r)]
    \<and> group_duplicate r rp \<noteq> [] \<and> dr_path (last (group_duplicate r rp)) = dp_path r"
    by (rule group_duplicate_ok) (use Cons.prems in auto)
  then show ?case using Cons.IH [of "group_duplicate r rp"] Cons.prems(3) by (simp add: list_all_iff)
qed simp

definition content_path :: "db \<Rightarrow> string \<Rightarrow> string" where
  "content_path d h = (case find (\<lambda>r. bf_hash r = h) (t_files d) of Some r \<Rightarrow> bf_path r | None \<Rightarrow> [])"

lemma one_content:
  assumes "distinct (map bf_hash rows)" "h \<in> bf_hash ` set rows"
  shows "\<exists>r. find (\<lambda>r. bf_hash r = h) rows = Some r \<and> filter (\<lambda>r. bf_hash r = h) rows = [r]"
  using assms
proof (induction rows)
  case (Cons x rows)
  show ?case
  proof (cases "bf_hash x = h")
    case True
    then have "filter (\<lambda>r. bf_hash r = h) rows = []" using Cons.prems(1) by (auto simp: filter_empty_conv image_iff)
    then show ?thesis using True by simp
  next
    case False
    then show ?thesis using Cons by auto
  qed
qed simp

lemma duplicate_rows:
  assumes "db_inv d"
  shows "map (\<lambda>r. (dp_path r, dp_duplicate r)) (concat (map (\<lambda>(h, p).
     map (\<lambda>r. \<lparr>dp_path = bf_path r, dp_title = bf_title r, dp_authors = author_list agg d (bf_id r), dp_duplicate = p\<rparr>)
       (filter (\<lambda>r. bf_hash r = h) (t_files d))) (t_duplicates d)))
    = map (\<lambda>(h, p). (content_path d h, p)) (t_duplicates d)"
proof -
  have "distinct (map bf_hash (t_files d))" "\<forall>(h, p) \<in> set (t_duplicates d). h \<in> bf_hash ` set (t_files d)"
    using assms by (simp_all add: db_inv_def keys_ok_def refs_ok_def)
  then have one: "\<exists>r. find (\<lambda>r. bf_hash r = h) (t_files d) = Some r \<and> filter (\<lambda>r. bf_hash r = h) (t_files d) = [r]"
    if "(h, p) \<in> set (t_duplicates d)" for h p
    using one_content that by blast
  have "map (\<lambda>r. (dp_path r, dp_duplicate r)) (map (\<lambda>r. \<lparr>dp_path = bf_path r, dp_title = bf_title r, dp_authors = author_list agg d (bf_id r), dp_duplicate = p\<rparr>)
       (filter (\<lambda>r. bf_hash r = h) (t_files d))) = [(content_path d h, p)]" if "(h, p) \<in> set (t_duplicates d)" for h p
    using one [OF that] by (auto simp: content_path_def)
  then show ?thesis
    by (simp add: map_concat comp_def case_prod_beta' cong: map_cong)
qed

text \<open>
  C31: The report of duplicates is complete. Over a sound database it has one entry for every content that was seen under several
  paths, in the order of their recorded paths; every entry has duplicates; and the entries hold exactly the recorded
  duplicates, each under the path of its own content.
\<close>

theorem duplicates_report_complete:
  assumes "db_inv d" "\<And>xs. mset (od xs) = mset xs" "WriteDuplicates agg od None fl (d, n) = (Ok (None, Some rp), st)"
  shows "sorted_wrt (<) (map dr_path rp) \<and> list_all (\<lambda>e. dr_duplicates e \<noteq> []) rp
    \<and> mset (flat rp) = mset (map (\<lambda>(h, p). (content_path d h, p)) (t_duplicates d))"
proof -
  let ?all = "concat (map (\<lambda>(h, p).
     map (\<lambda>r. \<lparr>dp_path = bf_path r, dp_title = bf_title r, dp_authors = author_list agg d (bf_id r), dp_duplicate = p\<rparr>)
       (filter (\<lambda>r. bf_hash r = h) (t_files d))) (t_duplicates d))"
  let ?rows = "sort_key dp_path (od ?all)"
  have rp: "rp = fold group_duplicate ?rows []"
    using assms(3) by (auto simp: WriteDuplicates_def ListBookFileDuplicates_def attempt_def query_def sql_def ret_def
        split: option.splits if_splits)
  have f: "report_ok rp \<and> flat rp = map (\<lambda>r. (dp_path r, dp_duplicate r)) ?rows"
    unfolding rp using fold_duplicates [of "[]" ?rows] by (simp add: report_ok_def flat_def)
  have "mset (flat rp) = image_mset (\<lambda>r. (dp_path r, dp_duplicate r)) (mset ?all)" using f assms(2) by simp
  also have "\<dots> = mset (map (\<lambda>(h, p). (content_path d h, p)) (t_duplicates d))"
    using arg_cong [OF duplicate_rows [OF assms(1), of agg], of mset] by (simp only: mset_map)
  finally show ?thesis using f by (simp add: report_ok_def)
qed

section \<open>Witnesses\<close>

definition demo_index :: fts where
  "demo_index = \<lparr>ft_titles = (\<lambda>_. [(1, 5), (7, 1)]), ft_authors = (\<lambda>_. [(1, 2)])\<rparr>"

theorem search_finds_each_match_once_witness:
  "\<exists>hits. SearchBooksByAuthorOrTitleFTS demo_index id ''ann'' 1 (\<lambda>_. None) (demo_library, 0) = (Ok (if (0 :: int) < 1 then take (nat 1) hits else hits), (demo_library, Suc 0))
    \<and> distinct (map fst hits) \<and> fst ` set hits = {i \<in> bk_id ` set (t_books demo_library). title_hit demo_index ''ann'' i \<or> author_hit demo_index ''ann'' demo_library i}
    \<and> sorted (map (id_rank (title_rows demo_index ''ann'' demo_library @ author_rows demo_index ''ann'' demo_library) \<circ> fst) hits)"
  by (rule search_finds_each_match_once [OF demo_library_inv]) simp_all

theorem duplicates_report_complete_witness:
  "\<exists>rp st. WriteDuplicates id id None (\<lambda>_. None) (demo_library, 0) = (Ok (None, Some rp), st) \<and> mset (flat rp) = {#(''z.txt'', ''a.txt'')#}"
proof -
  obtain rp st where r: "WriteDuplicates id id None (\<lambda>_. None) (demo_library, 0) = (Ok (None, Some rp), st)"
    by (simp add: WriteDuplicates_def ListBookFileDuplicates_def attempt_def query_def sql_def ret_def demo_library_def demo_file_def)
  have "map (\<lambda>(h, p). (content_path demo_library h, p)) (t_duplicates demo_library) = [(''z.txt'', ''a.txt'')]"
    by (simp add: demo_library_def demo_file_def content_path_def)
  then show ?thesis using duplicates_report_complete [OF demo_library_inv _ r] r by (intro exI [of _ rp] exI [of _ st]) simp
qed

end
