(* ===== verification/Spec2Isabelle.thy ===== *)
theory Spec2Isabelle
  imports Lsh Identifier Formats Walker Spool Ingest PipelineProps ArchiveProps TextProps DocumentProps CliProps Progress Search
begin

text \<open>
  Verification library for margaret-cli, a command line tool that scans a directory tree (local
  or FTP) for ebooks, parses every file, groups copies and editions of a book by MinHash
  similarity, stores all of it in SQLite, consolidates the metadata of every book, and answers
  searches and writes JSON reports from the tables.

  \<^bold>\<open>The program.\<close>  \<open>runScan\<close> (\<open>internal/cli/scan.go\<close>) decides between a fresh and a resumed run, records
  the run, and starts \<open>ScanProcessor.Process\<close> (\<open>internal/processor/scan.go\<close>). There the scanner
  (\<open>internal/scanner\<close>) walks the tree with several goroutines over a \<open>dirQueue\<close> and pushes what it finds to a
  \<open>resultQueue\<close>; parse workers pop results, skip what a resumed run already knows, open archives
  (\<open>archive.go\<close>, over the random access view of \<open>spool.go\<close>), hand documents to the parsers
  (\<open>internal/parser/\<close>) and store each parsed file in one transaction. Then \<open>Consolidate\<close>
  (\<open>internal/report/books.go\<close>) gives every content its smallest path and every book its merged
  metadata, and the reports are written. \<open>runSearch\<close> queries the full text index.

  \<^bold>\<open>Theories and sources\<close> (paths under \<open>src/internal/\<close> unless they say otherwise).

  Shared layers.
    \<^item> Prelude: the result type of fallible calls, the loops that keep first elements, keep one
      entry per key, or keep the best element, with their laws; locale \<open>strict_preference\<close>.
    \<^item> GoStrings, StringLaws, GoPaths, Patterns: what the sources use of \<open>strings\<close>, \<open>unicode/utf8\<close>,
      \<open>path/filepath\<close> and \<open>regexp\<close>. A Go string is a list of bytes, decoded to runes as Go does it.

  Scanning and storing.
    \<^item> Formats, Queues, Walker: \<open>scanner/scanner.go\<close> and \<open>processor/resultqueue.go\<close>. Both queues
      interpret locale \<open>fifo\<close>. \<open>Scan\<close> is a step relation over the main goroutine, the cancellation
      goroutine and any number of walkers, at the grain of its atomic actions.
    \<^item> Sources: \<open>source/\<close>; listing, joining, prefix stripping, the directory test, credentials.
    \<^item> Spool: \<open>processor/spool.go\<close>, every method, with its memory prefix and spill file; the
      invariant says that both together are the prefix of the stream read so far.
    \<^item> Lsh, Identifier: \<open>lsh/lsh.go\<close>, \<open>identifier/identifier.go\<close>, and the blob codec of signatures.
    \<^item> Database: the tables of \<open>database/migrations\<close> as lists of rows with their constraints, the
      statements of \<open>database/queries\<close> the scan uses, \<open>tx.WithTx\<close> and \<open>Clear\<close>. \<open>db_inv\<close> is the
      invariant: unique keys, no dangling reference, every file with a book.
    \<^item> Ingest: the transaction of \<open>parseEbook\<close> in \<open>processor/scan.go\<close>: duplicate detection by hash,
      candidate search over the bands, the best match, the new book, its rows.
    \<^item> Processor, Archive, Pipeline: the rest of \<open>processor/scan.go\<close>, \<open>resume.go\<close>, \<open>archive.go\<close>,
      \<open>parser/filters.go\<close>, \<open>parser/registry\<close>. One worker handles a unit of work in one function over
      the state of the processor; \<open>Process\<close> is a step relation of scanner, queue and workers.
    \<^item> ScanSteps, ScanProps, Accounting, ScanClaims, PipelineProps, ArchiveProps: their properties.

  Parsing.
    \<^item> RtfDecode, RtfProps, RtfText: \<open>parser/rtf/decode.go\<close> and \<open>codepage.go\<close>, byte by byte.
    \<^item> TextHead, TextLabels, TitlePage, TextMetadata, TextProps: \<open>parser/textdoc/\<close>, the metadata found
      in the head of a text: front matter, labelled lines, Gutenberg headers, title pages.
    \<^item> Language, TxtEncoding: \<open>langid/langid.go\<close>, \<open>parser/language.go\<close>, \<open>parser/identifiers.go\<close>,
      \<open>parser/txt/encoding.go\<close>.
    \<^item> Documents: \<open>parser/txt/txt.go\<close>, \<open>parser/rtf/rtf.go\<close>, \<open>parser/ebook.go\<close>, \<open>parser/context.go\<close>.
    \<^item> PdfMetadata, PdfXmp, PdfParser: \<open>parser/pdf/\<close>, around the two Poppler tools.
    \<^item> DocumentProps: what the parsers deliver.

  Books and reports.
    \<^item> Metaheur, Votes, BookMeta, BookMetadata: \<open>metaheur/\<close>, \<open>report/bookmeta.go\<close>,
      \<open>report/book_metadata.go\<close>, \<open>report/plaintext.go\<close>: plausibility scores, and the title, authors and
      other fields of a book chosen from its files. Votes holds the tally shared by the choices,
      with locale \<open>measured_preference\<close> for the orders that decide them.
    \<^item> BookStore, Books, Canonical, BookTables, Consolidation, Readback, ConsolidationProps:
      \<open>report/books.go\<close> over the statements of \<open>queries/books.sql\<close>. Locale \<open>owned_table\<close> is the contract of
      the four tables that belong to a book (deleted and rewritten as a whole).
    \<^item> Search: \<open>search/search.go\<close>, \<open>db/books.fts.go\<close>, \<open>report/duplicates.go\<close>, \<open>report/failures.go\<close>, the
      writers of the book reports, \<open>cli/report.go\<close> and \<open>cli/search.go\<close>.
    \<^item> Cli, CliProps, Progress: \<open>cli/resume.go\<close>, \<open>cli/guard.go\<close>, \<open>cli/scan.go\<close>, \<open>cli/progress.go\<close>.

  \<^bold>\<open>What is proved.\<close>  Concurrency: every interleaving of \<open>Scan\<close> and \<open>Process\<close> visits the whole tree
  once, ends, and leaves the state of a sequential run over the results in the order they were
  popped (Walker, PipelineProps); queues are FIFO; accounting adds up (Accounting). State: each
  transaction and each pass keeps the database invariant under any fault, nothing recorded is lost
  outside a fresh start, a resumed run hands no path recorded before it to a parser (Ingest,
  ScanClaims, PipelineProps, CliProps). The proofs about nested archives go through two locales: \<open>quiet_steps\<close> (steps that do not store) and
  \<open>scan_steps\<close>, which turn a relation kept by every elementary step into one kept by any unit of
  work; they are interpreted for growth, resumption, untouched queues and untouched runs.
  \<open>process_run\<close> extends them to the schedules of \<open>Process\<close>.
  \<open>scan_engine\<close> is the contract between the command and the scan, interpreted on \<open>scan_process\<close>.
  Consolidation: success without faults, agreement of stored rows and computed reports,
  idempotence, canonical paths. Parsing: text written as RTF, labelled headers and XMP trees are
  read back, the gate is independent of how blocks arrive, accepted PDFs are hashed in full.
  Selection: titles, authors and publications win their votes. Reports: search results, the report
  of duplicates, and the progress bar. Two theorems state failures of the code: a compressed
  sibling is lost, and a path shared by two contents stops consolidation.

  \<^bold>\<open>Parameters.\<close>  Code outside the repository is an argument of the definitions that use it: Unicode
  tables above U+00FF and the normal forms, the archive and decompression libraries, the
  ebook library (its parsers, the ISBN scanner, the Jaccard similarity), MinHash and SHA-256,
  the language and charset detectors, code pages, the HTML tokenizer, the XML decoder, the BCP 47
  parser, Poppler (what a tool prints, how it ends, how much it reads), the FTS5 index, the
  order in which Go iterates a map and in which SQL returns rows it does not order. Faults of the
  database and of readers, and the moments at which a context is cancelled, are arguments too, so the
  properties quantify over them. What a property needs of such a parameter is a premise of it, and its witness
  instantiates the parameter.

  \<^bold>\<open>Numbers.\<close>  LSH hashes and signatures are 64 bit words. Where arithmetic on an
  int of Go could wrap it is written with \<open>wrap64\<close> (the digits of RTF parameters); counters and
  offsets that the size of the data bounds are int or nat. The
  confidences of the detectors are reals, since only comparisons and differences are used.

  \<^bold>\<open>Fuel and termination.\<close>  Loops over data are structural or carry a measure. The walk of a cyclic
  file system cannot be expressed: the source is a finite tree. Nested archives are bounded by the
  code's own depth limit, which is the measure of Archive; the step relations of Walker and Pipeline
  have decreasing measures, so that every run is finite. The regular expressions of Patterns are
  matched by derivatives, with no backtracking and so no fuel.

  \<^bold>\<open>Not modelled.\<close>  The flags, help texts and dispatch of cobra, the CPU profiler, \<open>main.go\<close>, the FTP
  server of the tests, and the opening and migration of the SQLite database are wiring or calls into
  libraries. Opening and closing connections and files, the JSON encoding of a report and
  the ticker that redraws the bar are I/O: the models give the values they transport. Mutexes are
  modelled by atomic steps; the memory model of Go is not. The lookup, the parse and the transaction
  of a unit of work are one step, so nothing is claimed of two units of one run that share a path
  (\<open>x.epub\<close> and the member of \<open>x.epub.gz\<close>): two workers may both find it unrecorded and parse it.
  \<open>pi_taken\<close> and \<open>pr_calls\<close> are logs of the model, of results handed out and of calls of a parser.
\<close>

end
